(* ===== verification/Prelude.thy ===== *)
theory Prelude
  imports Main "HOL-Library.Word" "HOL-Library.Multiset"
begin

text \<open>
  Shared vocabulary of the development: the scalar types of \<open>src/ex3_types.h\<close>, the outcome of
  an operation, byte memories (transfer buffers and the contents of a segment), the C integer
  division, and the generic lemmas on them that the component theories use through the
  collections \<open>mem_simps\<close> and \<open>opq_simps\<close>.
\<close>

named_theorems mem_simps \<open>rewriting of byte memories\<close>
named_theorems opq_simps \<open>outcomes of queued operations\<close>

section \<open>Scalars and outcomes\<close>

text \<open>
  \<open>ex_off_t\<close> is a signed 64-bit offset. Offsets and lengths of one segment stay far below
  \<open>2 ^ 63\<close>, so they are unbounded integers here; the on-disk form of an offset, where the width
  matters, is kept at 64 bits in the log segment. \<open>ex_id_t\<close> is an unsigned 64-bit word.
\<close>

type_synonym ex_off = int
type_synonym ex_id = "64 word"
type_synonym byte = "8 word"

datatype op_state = OP_STATE_SUCCESS | OP_STATE_FAILURE

record op_status =
  op_state :: op_state
  error_code :: int

definition op_success_status :: op_status where
  "op_success_status = \<lparr>op_state = OP_STATE_SUCCESS, error_code = 0\<rparr>"

definition op_failure_status :: op_status where
  "op_failure_status = \<lparr>op_state = OP_STATE_FAILURE, error_code = 0\<rparr>"

text \<open>Waiting for a queue of operations reports success exactly when every one succeeded.\<close>

definition both :: "op_state \<Rightarrow> op_state \<Rightarrow> op_state" where
  "both a b = (if a = OP_STATE_SUCCESS then b else OP_STATE_FAILURE)"

lemma both_simps [simp, opq_simps]:
  "both OP_STATE_SUCCESS b = b"
  "both OP_STATE_FAILURE b = OP_STATE_FAILURE"
  "both a OP_STATE_FAILURE = OP_STATE_FAILURE"
  "both a OP_STATE_SUCCESS = a"
  by (cases a; simp add: both_def)+

lemma both_success_iff [simp, opq_simps]:
  "both a b = OP_STATE_SUCCESS \<longleftrightarrow> a = OP_STATE_SUCCESS \<and> b = OP_STATE_SUCCESS"
  by (simp add: both_def)

lemma both_assoc: "both (both a b) c = both a (both b c)"
  by (simp add: both_def)

lemma op_state_neq [simp]:
  "s \<noteq> OP_STATE_SUCCESS \<longleftrightarrow> s = OP_STATE_FAILURE"
  "s \<noteq> OP_STATE_FAILURE \<longleftrightarrow> s = OP_STATE_SUCCESS"
  by (cases s; simp)+

text \<open>
  A call either returns or runs into undefined behaviour of C (a NULL pointer is dereferenced).
\<close>

datatype 'a outcome = Crash | Ret 'a

section \<open>C integer division\<close>

text \<open>The division of C truncates towards zero.\<close>

definition c_div :: "int \<Rightarrow> int \<Rightarrow> int" where
  "c_div a b = sgn a * sgn b * (\<bar>a\<bar> div \<bar>b\<bar>)"

lemma c_div_nonneg [simp]: "0 \<le> a \<Longrightarrow> 0 < b \<Longrightarrow> c_div a b = a div b"
  by (cases "a = 0") (simp_all add: c_div_def)

text \<open>A value that is stored in a C \<open>int\<close> of 32 bits wraps around.\<close>

definition c_int :: "int \<Rightarrow> int" where
  "c_int x = (x + 2 ^ 31) mod 2 ^ 32 - 2 ^ 31"

lemma c_int_id: "- (2 ^ 31) \<le> x \<Longrightarrow> x < 2 ^ 31 \<Longrightarrow> c_int x = x"
  by (simp add: c_int_def)

section \<open>Byte memories\<close>

text \<open>
  A memory maps offsets to bytes: the bytes behind a transfer buffer, or the contents of a
  segment. \<open>mem_get\<close> copies out a run of bytes and \<open>mem_put\<close> stores one.
\<close>

type_synonym mem = "ex_off \<Rightarrow> byte"

definition mem_get :: "mem \<Rightarrow> ex_off \<Rightarrow> ex_off \<Rightarrow> byte list" where
  "mem_get m p n = map m [p..p + n - 1]"

definition mem_put :: "mem \<Rightarrow> ex_off \<Rightarrow> byte list \<Rightarrow> mem" where
  "mem_put m p bs = (\<lambda>x. if p \<le> x \<and> x < p + int (length bs) then bs ! nat (x - p) else m x)"

lemma length_mem_get [simp, mem_simps]: "length (mem_get m p n) = nat n"
  by (simp add: mem_get_def)

lemma nth_mem_get [simp, mem_simps]: "i < nat n \<Longrightarrow> mem_get m p n ! i = m (p + int i)"
  by (simp add: mem_get_def nth_upto)

lemma mem_put_in [mem_simps]:
  "p \<le> x \<Longrightarrow> x < p + int (length bs) \<Longrightarrow> mem_put m p bs x = bs ! nat (x - p)"
  by (simp add: mem_put_def)

lemma mem_put_out [mem_simps]:
  "x < p \<or> p + int (length bs) \<le> x \<Longrightarrow> mem_put m p bs x = m x"
  by (auto simp: mem_put_def)

lemma mem_put_Nil [simp, mem_simps]: "mem_put m p [] = m"
  by (rule ext) (auto simp: mem_put_def)

lemma mem_put_get [mem_simps]:
  "mem_put m p (mem_get c q n) x = (if p \<le> x \<and> x < p + n then c (q + (x - p)) else m x)"
  by (auto simp: mem_put_def)

lemma mem_get_cong:
  "(\<And>x. p \<le> x \<Longrightarrow> x < p + n \<Longrightarrow> m x = m' x) \<Longrightarrow> mem_get m p n = mem_get m' p n"
  by (simp add: mem_get_def)

lemma mem_get_put_same [mem_simps]:
  "mem_get (mem_put m p bs) p (int (length bs)) = bs"
  by (rule nth_equalityI) (auto simp: mem_put_def)

lemma mem_get_eq_iff:
  "mem_get m p n = mem_get m' q n \<longleftrightarrow> (\<forall>k. 0 \<le> k \<and> k < n \<longrightarrow> m (p + k) = m' (q + k))"
proof
  assume eq: "mem_get m p n = mem_get m' q n"
  show "\<forall>k. 0 \<le> k \<and> k < n \<longrightarrow> m (p + k) = m' (q + k)"
  proof (intro allI impI)
    fix k :: int assume k: "0 \<le> k \<and> k < n"
    then have "mem_get m p n ! nat k = m (p + k)" "mem_get m' q n ! nat k = m' (q + k)"
      by simp_all
    with eq show "m (p + k) = m' (q + k)" by simp
  qed
qed (auto intro: nth_equalityI)

lemma mem_get_split:
  "0 \<le> a \<Longrightarrow> 0 \<le> b \<Longrightarrow> mem_get m p (a + b) = mem_get m p a @ mem_get m (p + a) b"
  by (rule nth_equalityI) (auto simp: nth_append)

lemma mem_get_prefix:
  assumes "0 < n" "p + n \<le> p'" "\<And>x. p \<le> x \<Longrightarrow> x < p + n \<Longrightarrow> m x = c (q + (x - p))"
  shows "mem_get m p (p' - p) = mem_get c q n @ mem_get m (p + n) (p' - (p + n))"
proof -
  have "mem_get m p n = mem_get c q n" using assms(3) by (auto simp: mem_get_eq_iff)
  with mem_get_split [of n "p' - (p + n)" m p] assms(1,2) show ?thesis by simp
qed

lemma mem_put_append:
  "0 \<le> n \<Longrightarrow> length as = nat n \<Longrightarrow> mem_put (mem_put m p as) (p + n) bs = mem_put m p (as @ bs)"
  by (rule ext) (auto simp: mem_put_def nth_append nat_diff_distrib' intro!: arg_cong [where f = "(!) bs"])

section \<open>Sorted lists\<close>

lemma sorted_wrt_distinct:
  "sorted_wrt P xs \<Longrightarrow> (\<And>x. x \<in> set xs \<Longrightarrow> \<not> P x x) \<Longrightarrow> distinct xs"
  by (induction xs) auto

section \<open>Decimal text\<close>

text \<open>
  The decimal conversions of the C library: \<open>%u\<close> and \<open>%d\<close> of \<open>printf\<close>, and \<open>atoi\<close>, which
  skips white space, takes an optional sign and stops at the first character that is no digit.
\<close>

definition digit_char :: "nat \<Rightarrow> char" where
  "digit_char d = char_of (48 + d)"

definition is_digit :: "char \<Rightarrow> bool" where
  "is_digit c \<longleftrightarrow> 48 \<le> (of_char c :: nat) \<and> (of_char c :: nat) \<le> 57"

fun print_nat :: "nat \<Rightarrow> string" where
  "print_nat n = (if n < 10 then [digit_char n] else print_nat (n div 10) @ [digit_char (n mod 10)])"

declare print_nat.simps [simp del]

definition print_int :: "int \<Rightarrow> string" where
  "print_int i = (if i < 0 then CHR ''-'' # print_nat (nat (- i)) else print_nat (nat i))"

definition digits_value :: "string \<Rightarrow> nat" where
  "digits_value s = foldl (\<lambda>a c. 10 * a + (of_char c - 48)) 0 (takeWhile is_digit s)"

definition is_space :: "char \<Rightarrow> bool" where
  "is_space c \<longleftrightarrow> of_char c = (32::nat) \<or> (9 \<le> (of_char c :: nat) \<and> (of_char c :: nat) \<le> 13)"

definition atoi :: "string \<Rightarrow> int" where
  "atoi s = (case dropWhile is_space s of
       [] \<Rightarrow> 0
     | c # cs \<Rightarrow> if c = CHR ''-'' then - int (digits_value cs)
                else if c = CHR ''+'' then int (digits_value cs)
                else int (digits_value (c # cs)))"

lemma of_char_digit_char [simp]: "d < 10 \<Longrightarrow> of_char (digit_char d) = 48 + d"
  by (simp add: digit_char_def)

lemma is_digit_digit_char [simp]: "d < 10 \<Longrightarrow> is_digit (digit_char d)"
  by (simp add: is_digit_def)

lemma is_digit_print_nat: "c \<in> set (print_nat n) \<Longrightarrow> is_digit c"
  by (induction n rule: print_nat.induct) (subst (asm) (2) print_nat.simps, auto split: if_splits)

lemma print_nat_neq_Nil [simp]: "print_nat n \<noteq> []"
  by (subst print_nat.simps) simp

lemma foldl_print_nat:
  "foldl (\<lambda>a c. 10 * a + (of_char c - 48)) 0 (print_nat n) = n"
proof (induction n rule: print_nat.induct)
  case (1 n)
  then show ?case by (cases "n < 10") (simp_all add: print_nat.simps [of n])
qed

lemma digits_value_print_nat [simp]: "digits_value (print_nat n) = n"
proof -
  have "takeWhile is_digit (print_nat n) = print_nat n"
    by (simp add: takeWhile_eq_all_conv is_digit_print_nat)
  then show ?thesis unfolding digits_value_def by (metis foldl_print_nat)
qed

lemma is_digit_not_space: "is_digit c \<Longrightarrow> \<not> is_space c"
  by (auto simp: is_digit_def is_space_def)

lemma atoi_print_nat: "atoi (print_nat n) = int n"
proof -
  obtain c cs where p: "print_nat n = c # cs" by (cases "print_nat n") auto
  then have d: "is_digit c" using is_digit_print_nat [of c n] by simp
  then have "c \<noteq> CHR ''-''" "c \<noteq> CHR ''+''" by (auto simp: is_digit_def)
  moreover have "digits_value (c # cs) = n" using digits_value_print_nat [of n] p by simp
  ultimately show ?thesis using p is_digit_not_space [OF d] by (simp add: atoi_def)
qed

theorem atoi_print_int: "atoi (print_int i) = i"
  by (cases "i < 0") (simp_all add: print_int_def atoi_print_nat, simp add: atoi_def is_space_def)


section \<open>Printing into a fixed buffer\<close>

text \<open>
  The text that \<open>append_printf\<close> or \<open>snprintf\<close> leaves in a buffer of \<open>bufsize\<close> bytes: what does not
  fit in front of the final NUL is cut off.
\<close>

definition newline :: string where "newline = [CHR 0x0A]"

definition buffer_text :: "nat \<Rightarrow> string \<Rightarrow> string" where
  "buffer_text bufsize s = take (bufsize - 1) s"

lemma buffer_text_fits [simp]: "length s < bufsize \<Longrightarrow> buffer_text bufsize s = s"
  by (simp add: buffer_text_def)

lemma buffer_text_short: "length (buffer_text bufsize s) < bufsize - 1 \<Longrightarrow> buffer_text bufsize s = s"
  by (simp add: buffer_text_def min_def split: if_splits)

end
