(* ===== verification/Segment.thy ===== *)
theory Segment
  imports Prelude
begin

text \<open>
  The abstract segment of \<open>src/ex3_abstract.h\<close>: identifiers (\<open>src/ex_id.c\<close>), headers
  (\<open>src/ex3_header.c\<close>), key comparison (\<open>src/ex3_compare.c\<close>) and the table of driver
  functions every segment carries. The locale \<open>segment_store\<close> states what the generic clients
  (copy, get, put, the log segment) rely on from a driver.
\<close>

section \<open>Exchange formats\<close>

datatype ex_type = EX_TEXT | EX_PROTOCOL_BUFFERS | EX_OTHER

section \<open>Identifiers\<close>

text \<open>
  \<open>get_random\<close> fills the identifier with random bits, here the argument \<open>rnd\<close>; the two shifts
  then clear the sign bit.
\<close>

definition generate_ex_id :: "ex_id \<Rightarrow> ex_id" where
  "generate_ex_id rnd = drop_bit 1 (push_bit 1 rnd)"

lemma generate_ex_id_mask: "generate_ex_id rnd = take_bit 63 rnd"
proof (rule bit_word_eqI)
  fix n assume "n < LENGTH(64)"
  then show "bit (generate_ex_id rnd) n = bit (take_bit 63 rnd) n"
    unfolding generate_ex_id_def bit_drop_bit_eq comp_def bit_push_bit_iff bit_take_bit_iff
    by (auto simp: possible_bit_def)
qed

lemma generate_ex_id_bound: "unat (generate_ex_id rnd) < 2 ^ 63"
proof -
  have "unat (take_bit 63 rnd) = take_bit 63 (unat rnd)" by (rule unsigned_take_bit_eq)
  also have "\<dots> < 2 ^ 63" by (rule take_bit_nat_less_exp)
  finally show ?thesis by (simp add: generate_ex_id_mask)
qed

section \<open>Key comparison\<close>

definition skiplist_compare_fn_ex_off :: "ex_off \<Rightarrow> ex_off \<Rightarrow> int" where
  "skiplist_compare_fn_ex_off a b = (if a < b then -1 else if a = b then 0 else 1)"

definition skiplist_compare_fn_ex_id :: "ex_id \<Rightarrow> ex_id \<Rightarrow> int" where
  "skiplist_compare_fn_ex_id a b = (if a < b then -1 else if a = b then 0 else 1)"

text \<open>What an ordered container needs from its comparison function.\<close>

locale key_compare =
  fixes cmp :: "'k \<Rightarrow> 'k \<Rightarrow> int"
  assumes cmp_refl: "cmp a b = 0 \<longleftrightarrow> a = b"
    and cmp_antisym: "cmp a b = - cmp b a"
    and cmp_trans: "cmp a b < 0 \<Longrightarrow> cmp b c < 0 \<Longrightarrow> cmp a c < 0"
begin

lemma cmp_irrefl [simp]: "cmp a a = 0"
  by (simp add: cmp_refl)

lemma cmp_total: "cmp a b < 0 \<or> a = b \<or> cmp b a < 0"
  using cmp_refl [of a b] cmp_antisym [of a b] by linarith

lemma cmp_asym: "cmp a b < 0 \<Longrightarrow> \<not> cmp b a < 0"
  using cmp_antisym [of a b] by simp

end

interpretation off_cmp: key_compare skiplist_compare_fn_ex_off
  by unfold_locales (auto simp: skiplist_compare_fn_ex_off_def split: if_splits)

interpretation id_cmp: key_compare skiplist_compare_fn_ex_id
  by unfold_locales (auto simp: skiplist_compare_fn_ex_id_def split: if_splits)

section \<open>Headers\<close>

text \<open>
  A NULL string is \<open>None\<close>. \<open>'l\<close> is the type of the attribute list, which the header only stores.
\<close>

record 'l ex_header =
  hdr_name :: "string option"
  hdr_id :: ex_id
  hdr_type :: "string option"
  hdr_attributes :: "'l option"

definition ex_header_init :: "'l ex_header" where
  "ex_header_init = \<lparr>hdr_name = None, hdr_id = 0, hdr_type = None, hdr_attributes = None\<rparr>"

definition ex_header_get_name :: "'l ex_header \<Rightarrow> string option" where
  "ex_header_get_name h = hdr_name h"

definition ex_header_set_name :: "'l ex_header \<Rightarrow> string \<Rightarrow> 'l ex_header" where
  "ex_header_set_name h name = h\<lparr>hdr_name := Some name\<rparr>"

definition ex_header_get_id :: "'l ex_header \<Rightarrow> ex_id" where
  "ex_header_get_id h = hdr_id h"

definition ex_header_set_id :: "'l ex_header \<Rightarrow> ex_id \<Rightarrow> 'l ex_header" where
  "ex_header_set_id h i = h\<lparr>hdr_id := i\<rparr>"

definition ex_header_get_type :: "'l ex_header \<Rightarrow> string option" where
  "ex_header_get_type h = hdr_type h"

definition ex_header_set_type :: "'l ex_header \<Rightarrow> string \<Rightarrow> 'l ex_header" where
  "ex_header_set_type h t = h\<lparr>hdr_type := Some t\<rparr>"

definition ex_header_get_attributes :: "'l ex_header \<Rightarrow> 'l option" where
  "ex_header_get_attributes h = hdr_attributes h"

definition ex_header_set_attributes :: "'l ex_header \<Rightarrow> 'l option \<Rightarrow> 'l ex_header" where
  "ex_header_set_attributes h attr = h\<lparr>hdr_attributes := attr\<rparr>"

lemmas ex_header_defs =
  ex_header_init_def ex_header_get_name_def ex_header_set_name_def ex_header_get_id_def
  ex_header_set_id_def ex_header_get_type_def ex_header_set_type_def
  ex_header_get_attributes_def ex_header_set_attributes_def

section \<open>The driver table\<close>

record ex_iovec =
  iov_offset :: ex_off
  iov_len :: ex_off

definition ex_iovec_single :: "ex_off \<Rightarrow> ex_off \<Rightarrow> ex_iovec" where
  "ex_iovec_single oset nbytes = \<lparr>iov_offset = oset, iov_len = nbytes\<rparr>"

lemma ex_iovec_single_sel [simp]:
  "iov_offset (ex_iovec_single o' n) = o'" "iov_len (ex_iovec_single o' n) = n"
  by (simp_all add: ex_iovec_single_def)

text \<open>
  The function pointers of \<open>segment_fn_t\<close> on a segment state \<open>'g\<close>. Running a returned operation
  to completion gives its outcome and the state after it; a read also fills the buffer. The data
  attributes, hints and timeouts that drivers hand through to the data service are left out.
\<close>

record 'g segment_fn =
  fn_read :: "'g \<Rightarrow> ex_iovec list \<Rightarrow> mem \<Rightarrow> ex_off \<Rightarrow> op_state \<times> mem \<times> 'g"
  fn_write :: "'g \<Rightarrow> ex_iovec list \<Rightarrow> mem \<Rightarrow> ex_off \<Rightarrow> op_state \<times> 'g"
  fn_inspect :: "'g \<Rightarrow> int \<Rightarrow> op_state \<times> 'g"
  fn_truncate :: "'g \<Rightarrow> ex_off \<Rightarrow> op_state \<times> 'g"
  fn_remove :: "'g \<Rightarrow> op_state \<times> 'g"
  fn_flush :: "'g \<Rightarrow> ex_off \<Rightarrow> ex_off \<Rightarrow> op_state \<times> 'g"
  fn_clone :: "'g \<Rightarrow> 'g option \<Rightarrow> int \<Rightarrow> op_state \<times> 'g"
  fn_signature :: "'g \<Rightarrow> string"
  fn_block_size :: "'g \<Rightarrow> ex_off"
  fn_size :: "'g \<Rightarrow> ex_off"

section \<open>What the clients of a driver rely on\<close>

text \<open>
  \<open>content\<close> is the byte a driver serves at an offset and \<open>inv\<close> the driver's own invariant. Only
  a successful operation promises anything about the bytes; a failed one only keeps \<open>inv\<close> and,
  for a read, the contents. Nothing is promised beyond the end of the segment.
\<close>

locale segment_store =
  fixes F :: "'g segment_fn"
    and inv :: "'g \<Rightarrow> bool"
    and content :: "'g \<Rightarrow> mem"
  assumes size_nonneg: "inv g \<Longrightarrow> 0 \<le> fn_size F g"
    and read_law: "inv g \<Longrightarrow> 0 \<le> off \<Longrightarrow> 0 < n \<Longrightarrow> off + n \<le> fn_size F g \<Longrightarrow>
      fn_read F g [ex_iovec_single off n] buf boff = (st, buf', g') \<Longrightarrow>
      inv g' \<and> content g' = content g \<and> fn_size F g' = fn_size F g \<and>
      (st = OP_STATE_SUCCESS \<longrightarrow> buf' = mem_put buf boff (mem_get (content g) off n))"
    and write_law: "inv g \<Longrightarrow> 0 \<le> off \<Longrightarrow> 0 < n \<Longrightarrow>
      fn_write F g [ex_iovec_single off n] buf boff = (st, g') \<Longrightarrow>
      inv g' \<and> (st = OP_STATE_SUCCESS \<longrightarrow>
        fn_size F g' = max (fn_size F g) (off + n) \<and>
        (\<forall>x. 0 \<le> x \<and> (x < fn_size F g \<or> off \<le> x \<and> x < off + n) \<longrightarrow>
           content g' x = mem_put (content g) off (mem_get buf boff n) x))"
    and truncate_law: "inv g \<Longrightarrow> fn_truncate F g n = (st, g') \<Longrightarrow>
      inv g' \<and> (n < 0 \<longrightarrow> fn_size F g' = fn_size F g) \<and>
      (0 \<le> n \<and> st = OP_STATE_SUCCESS \<longrightarrow> fn_size F g' = n) \<and>
      (\<forall>x. 0 \<le> x \<and> x < fn_size F g \<and> (0 \<le> n \<longrightarrow> x < n) \<longrightarrow> content g' x = content g x)"
begin

lemma write_content:
  assumes "inv g" "0 \<le> off" "0 < n"
    and "fn_write F g [ex_iovec_single off n] buf boff = (OP_STATE_SUCCESS, g')"
    and "0 \<le> x" "x < fn_size F g \<or> off \<le> x \<and> x < off + n"
  shows "content g' x = (if off \<le> x \<and> x < off + n then buf (boff + (x - off)) else content g x)"
  using write_law [OF assms(1-4)] assms(5,6) by (auto simp: mem_put_get)

lemma write_then_read:
  assumes g: "inv g" "0 \<le> off" "0 < n"
    and w: "fn_write F g [ex_iovec_single off n] buf boff = (OP_STATE_SUCCESS, g1)"
    and r: "fn_read F g1 [ex_iovec_single off n] rbuf roff = (OP_STATE_SUCCESS, rbuf', g2)"
  shows "mem_get rbuf' roff n = mem_get buf boff n"
proof -
  from write_law [OF g w] have g1: "inv g1" "off + n \<le> fn_size F g1" by auto
  from read_law [OF g1(1) g(2,3) g1(2) r]
  have "rbuf' = mem_put rbuf roff (mem_get (content g1) off n)" by simp
  moreover have "content g1 (off + k) = buf (boff + k)" if "0 \<le> k" "k < n" for k
    using write_content [OF g w, of "off + k"] g(2) that by simp
  ultimately show ?thesis by (auto simp: mem_get_eq_iff mem_put_get)
qed

end

section \<open>A segment held in memory\<close>

text \<open>
  A reference driver: the bytes of the segment as a list. It shows that the contract can be
  met, and concrete runs of the clients are evaluated on it.
\<close>

definition mem_of :: "byte list \<Rightarrow> mem" where
  "mem_of bs = (\<lambda>x. if 0 \<le> x \<and> x < int (length bs) then bs ! nat x else 0)"

definition list_store :: "byte list \<Rightarrow> ex_off \<Rightarrow> byte list \<Rightarrow> byte list" where
  "list_store bs off ds =
     (let n = nat (max (int (length bs)) (off + int (length ds)))
      in map (\<lambda>i. mem_put (mem_of bs) off ds (int i)) [0..<n])"

definition flat_segment :: "byte list segment_fn" where
  "flat_segment = \<lparr>
     fn_read = (\<lambda>g iov buf boff. case iov of
        [v] \<Rightarrow> (OP_STATE_SUCCESS,
                mem_put buf boff (mem_get (mem_of g) (iov_offset v) (iov_len v)), g)
      | _ \<Rightarrow> (OP_STATE_FAILURE, buf, g)),
     fn_write = (\<lambda>g iov buf boff. case iov of
        [v] \<Rightarrow> (OP_STATE_SUCCESS, list_store g (iov_offset v) (mem_get buf boff (iov_len v)))
      | _ \<Rightarrow> (OP_STATE_FAILURE, g)),
     fn_inspect = (\<lambda>g mode. (OP_STATE_SUCCESS, g)),
     fn_truncate = (\<lambda>g n. (OP_STATE_SUCCESS,
        if n < 0 then g else take (nat n) g @ replicate (nat n - length g) 0)),
     fn_remove = (\<lambda>g. (OP_STATE_SUCCESS, [])),
     fn_flush = (\<lambda>g lo hi. (OP_STATE_SUCCESS, g)),
     fn_clone = (\<lambda>g d mode. (OP_STATE_SUCCESS, if mode = 0 then [] else g)),
     fn_signature = (\<lambda>g. ''flat''),
     fn_block_size = (\<lambda>g. 1),
     fn_size = (\<lambda>g. int (length g))\<rparr>"

lemma flat_segment_sel [simp]:
  "fn_read flat_segment g [v] buf boff =
     (OP_STATE_SUCCESS, mem_put buf boff (mem_get (mem_of g) (iov_offset v) (iov_len v)), g)"
  "fn_write flat_segment g [v] buf boff =
     (OP_STATE_SUCCESS, list_store g (iov_offset v) (mem_get buf boff (iov_len v)))"
  "fn_truncate flat_segment g n =
     (OP_STATE_SUCCESS, if n < 0 then g else take (nat n) g @ replicate (nat n - length g) 0)"
  "fn_size flat_segment g = int (length g)"
  by (simp_all add: flat_segment_def)

lemma length_list_store [simp]:
  "length (list_store bs off ds) = nat (max (int (length bs)) (off + int (length ds)))"
  by (simp add: list_store_def)

lemma mem_of_list_store:
  "0 \<le> x \<Longrightarrow> x < max (int (length bs)) (off + int (length ds)) \<Longrightarrow>
   mem_of (list_store bs off ds) x = mem_put (mem_of bs) off ds x"
  by (auto simp: mem_of_def list_store_def Let_def)

interpretation flat: segment_store flat_segment "\<lambda>_. True" mem_of
proof (unfold_locales, goal_cases)
  case (3 g off n buf boff st g')
  then show ?case by (auto simp: mem_of_list_store)
next
  case (4 g n st g')
  then show ?case by (cases "n < 0") (auto simp: mem_of_def nth_append)
qed auto

end
