(* ===== verification/Service_Manager.thy ===== *)
theory Service_Manager
  imports Prelude
begin

text \<open>
  The service registry of \<open>src/service_manager.c\<close>: a hash table of sections, each a hash table
  from a service name to the service object. Storing the NULL pointer removes an entry, as
  \<open>apr_hash_set\<close> does. The mutex makes each operation one step.
\<close>

section \<open>Operations\<close>

record 'a service_manager =
  sm_table :: "string \<rightharpoonup> (string \<rightharpoonup> 'a)"

definition create_service_manager :: "'a service_manager" where
  "create_service_manager = \<lparr>sm_table = Map.empty\<rparr>"

definition remove_service :: "'a service_manager \<Rightarrow> string \<Rightarrow> string \<Rightarrow> int \<times> 'a service_manager" where
  "remove_service sm service_section service_name =
     (case sm_table sm service_section of
        None \<Rightarrow> (0, sm)
      | Some section \<Rightarrow>
          (0, sm\<lparr>sm_table := (sm_table sm)(service_section \<mapsto> section(service_name := None))\<rparr>))"

definition add_service ::
  "'a service_manager \<Rightarrow> string \<Rightarrow> string \<Rightarrow> 'a option \<Rightarrow> int \<times> 'a service_manager" where
  "add_service sm service_section service_name service =
     (let section = (case sm_table sm service_section of None \<Rightarrow> Map.empty | Some t \<Rightarrow> t)
      in (0, sm\<lparr>sm_table := (sm_table sm)(service_section \<mapsto> section(service_name := service))\<rparr>))"

definition lookup_service :: "'a service_manager \<Rightarrow> string \<Rightarrow> string \<Rightarrow> 'a option" where
  "lookup_service sm service_section service_name =
     (case sm_table sm service_section of
        None \<Rightarrow> None
      | Some section \<Rightarrow> section service_name)"

text \<open>
  The clone walks the section table in the iteration order of the hash table, the argument
  \<open>order\<close>, and copies each section.
\<close>

fun clone_sections ::
  "(string \<rightharpoonup> (string \<rightharpoonup> 'a)) \<Rightarrow> string list \<Rightarrow> (string \<rightharpoonup> (string \<rightharpoonup> 'a)) \<Rightarrow> (string \<rightharpoonup> (string \<rightharpoonup> 'a))"
where
  "clone_sections t [] c = c"
| "clone_sections t (key # ks) c =
     (case t key of
        None \<Rightarrow> clone_sections t ks c
      | Some section \<Rightarrow> clone_sections t ks (c(key \<mapsto> section)))"

definition clone_service_manager :: "string list \<Rightarrow> 'a service_manager \<Rightarrow> 'a service_manager" where
  "clone_service_manager order sm =
     create_service_manager\<lparr>sm_table := clone_sections (sm_table sm) order (sm_table create_service_manager)\<rparr>"

section \<open>The registry interface\<close>

text \<open>What the users of the registry rely on.\<close>

locale registry =
  fixes empty :: 'r
    and add :: "'r \<Rightarrow> string \<Rightarrow> string \<Rightarrow> 'a option \<Rightarrow> 'r"
    and rem :: "'r \<Rightarrow> string \<Rightarrow> string \<Rightarrow> 'r"
    and look :: "'r \<Rightarrow> string \<Rightarrow> string \<Rightarrow> 'a option"
  assumes look_empty: "look empty s n = None"
    and look_add: "look (add r s n v) s' n' = (if s' = s \<and> n' = n then v else look r s' n')"
    and look_rem: "look (rem r s n) s' n' = (if s' = s \<and> n' = n then None else look r s' n')"
begin

text \<open>A sequence of registrations: the last one for a name decides.\<close>

lemma look_foldl_add:
  "look (foldl (\<lambda>r (n, v). add r s n (Some v)) r xs) s n =
     (case map_of (rev xs) n of None \<Rightarrow> look r s n | Some v \<Rightarrow> Some v)"
proof (induction xs arbitrary: r)
  case (Cons x xs)
  then show ?case
    by (cases x) (auto simp: look_add map_add_def split: option.splits)
qed simp

lemma add_rem: "look (rem (add r s n v) s n) s' n' = look (rem r s n) s' n'"
  by (simp add: look_add look_rem)

end

interpretation sm: registry create_service_manager
  "\<lambda>sm s n v. snd (add_service sm s n v)" "\<lambda>sm s n. snd (remove_service sm s n)" lookup_service
  by unfold_locales
    (auto simp: create_service_manager_def add_service_def remove_service_def lookup_service_def
      Let_def split: option.splits)

lemma clone_sections_apply:
  "clone_sections t ks c k = (if k \<in> set ks then (case t k of None \<Rightarrow> c k | Some s \<Rightarrow> Some s) else c k)"
  by (induction ks arbitrary: c) (auto split: option.splits)

section \<open>Properties\<close>

text \<open>
  A cloned service manager answers every lookup as the original does, whatever the order in
  which the hash table enumerates its sections.
\<close>

theorem clone_service_manager_lookup:
  assumes "dom (sm_table sm) \<subseteq> set order"
  shows "lookup_service (clone_service_manager order sm) s n = lookup_service sm s n"
proof -
  have "clone_sections (sm_table sm) order Map.empty s = sm_table sm s"
    using assms by (auto simp: clone_sections_apply domIff split: option.splits)
  then show ?thesis
    by (simp add: lookup_service_def clone_service_manager_def create_service_manager_def)
qed

end
