(* ===== verification/Segment_Base.thy ===== *)
theory Segment_Base
  imports Segment Service_Manager
begin

text \<open>
  The generic segment routines of \<open>src/segment_base.c\<close>: loading a segment through its registered
  driver, and the double-buffered copies between two segments, from a segment to a file and from
  a file to a segment. A copy loop reads one chunk ahead of the chunk it writes; it runs until a
  read of length zero, so it is a partial function, and that it returns is part of what is
  proved.
\<close>

section \<open>Loading\<close>

definition SEG_SM_LOAD :: string where "SEG_SM_LOAD = ''segment_load''"

text \<open>
  \<open>get_string\<close> stands for \<open>inip_get_string\<close> on the parsed text. For a protocol buffer exnode the
  type stays NULL and the lookup hashes a NULL key.
\<close>

definition load_segment ::
  "(string \<Rightarrow> string \<Rightarrow> string \<Rightarrow> string) \<Rightarrow> (ex_id \<Rightarrow> 'g option) service_manager \<Rightarrow> ex_id \<Rightarrow>
   ex_type \<Rightarrow> 'g option outcome" where
  "load_segment get_string ess i ty =
     (case ty of
        EX_TEXT \<Rightarrow>
          (let name = ''segment-'' @ print_nat (unat i);
               typ = get_string name ''type'' ''''
           in case lookup_service ess SEG_SM_LOAD typ of
                None \<Rightarrow> Ret None
              | Some sload \<Rightarrow> Ret (sload i))
      | EX_PROTOCOL_BUFFERS \<Rightarrow> Crash
      | EX_OTHER \<Rightarrow> Ret None)"

section \<open>Copying between segments\<close>

text \<open>
  The arguments of the three routines. The two halves of the caller's buffer are the two transfer
  buffers; a chunk never exceeds half of it, so they are kept as two memories.
\<close>

record ('g, 'f) segment_copy_t =
  sc_src :: 'g
  sc_dest :: 'g
  sc_fd :: 'f
  sc_src_offset :: ex_off
  sc_dest_offset :: ex_off
  sc_len :: ex_off
  sc_bufsize :: ex_off
  sc_truncate :: int

record 'g copy_state =
  cs_src :: 'g
  cs_dest :: 'g
  cs_rbuf :: mem
  cs_wbuf :: mem
  cs_rpos :: ex_off
  cs_wpos :: ex_off
  cs_rlen :: ex_off
  cs_wlen :: ex_off
  cs_nbytes :: ex_off

definition chunk_len :: "ex_off \<Rightarrow> ex_off \<Rightarrow> ex_off" where
  "chunk_len nbytes bufsize =
     (if nbytes < 0 then bufsize else if nbytes > bufsize then bufsize else nbytes)"

text \<open>
  One pass of the loop: swap the buffers, queue the write of the chunk just read and the read of
  the next one, and wait for both.
\<close>

definition segment_copy_pass :: "'g segment_fn \<Rightarrow> ex_off \<Rightarrow> 'g copy_state \<Rightarrow> op_state \<times> 'g copy_state" where
  "segment_copy_pass F bufsize c =
     (let rbuf = cs_wbuf c; wbuf = cs_rbuf c; wlen = cs_rlen c;
          (wst, dest) = fn_write F (cs_dest c) [ex_iovec_single (cs_wpos c) wlen] wbuf 0;
          wpos = cs_wpos c + wlen;
          rlen = chunk_len (cs_nbytes c) bufsize
      in if rlen > 0 then
           (let (rst, rbuf', src) = fn_read F (cs_src c) [ex_iovec_single (cs_rpos c) rlen] rbuf 0
            in (both wst rst,
                \<lparr>cs_src = src, cs_dest = dest, cs_rbuf = rbuf', cs_wbuf = wbuf,
                 cs_rpos = cs_rpos c + rlen, cs_wpos = wpos, cs_rlen = rlen, cs_wlen = wlen,
                 cs_nbytes = cs_nbytes c - rlen\<rparr>))
         else
           (wst,
            \<lparr>cs_src = cs_src c, cs_dest = dest, cs_rbuf = rbuf, cs_wbuf = wbuf,
             cs_rpos = cs_rpos c, cs_wpos = wpos, cs_rlen = rlen, cs_wlen = wlen,
             cs_nbytes = cs_nbytes c\<rparr>))"

partial_function (option) segment_copy_loop ::
  "'g segment_fn \<Rightarrow> ex_off \<Rightarrow> 'g copy_state \<Rightarrow> (op_state \<times> 'g copy_state) option" where
  "segment_copy_loop F bufsize c =
     (case segment_copy_pass F bufsize c of
        (st, c') \<Rightarrow>
          if st \<noteq> OP_STATE_SUCCESS then Some (OP_STATE_FAILURE, c')
          else if cs_rlen c' > 0 then segment_copy_loop F bufsize c'
          else Some (OP_STATE_SUCCESS, c'))"

declare segment_copy_loop.simps [code]

text \<open>
  The start: reserve the space in the destination and read the first chunk. The length of that
  chunk is fixed before the requested length is applied.
\<close>

definition segment_copy_start ::
  "'g segment_fn \<Rightarrow> ('g, 'f) segment_copy_t \<Rightarrow> mem \<Rightarrow> mem \<Rightarrow> op_state \<times> 'g copy_state" where
  "segment_copy_start F sc buf1 buf2 =
     (let bufsize = c_div (sc_bufsize sc) 2;
          nbytes0 = fn_size F (sc_src sc) - sc_src_offset sc;
          rlen = chunk_len nbytes0 bufsize;
          nbytes = (if sc_len sc \<noteq> -1 \<and> sc_len sc < nbytes0 then sc_len sc else nbytes0);
          dend = sc_dest_offset sc + nbytes;
          (tst, dest) = fn_truncate F (sc_dest sc) (- dend);
          (st, rbuf, src) = fn_read F (sc_src sc) [ex_iovec_single (sc_src_offset sc) rlen] buf1 0
      in (st, \<lparr>cs_src = src, cs_dest = dest, cs_rbuf = rbuf, cs_wbuf = buf2,
               cs_rpos = sc_src_offset sc + rlen, cs_wpos = sc_dest_offset sc,
               cs_rlen = rlen, cs_wlen = 0, cs_nbytes = nbytes - rlen\<rparr>))"

definition segment_copy_func ::
  "'g segment_fn \<Rightarrow> ('g, 'f) segment_copy_t \<Rightarrow> mem \<Rightarrow> mem \<Rightarrow> (op_status \<times> 'g \<times> 'g) option" where
  "segment_copy_func F sc buf1 buf2 =
     (case segment_copy_start F sc buf1 buf2 of
        (st, c) \<Rightarrow>
          if st \<noteq> OP_STATE_SUCCESS then Some (op_failure_status, cs_src c, cs_dest c)
          else (case segment_copy_loop F (c_div (sc_bufsize sc) 2) c of
                  None \<Rightarrow> None
                | Some (lst, c') \<Rightarrow>
                    if lst \<noteq> OP_STATE_SUCCESS then Some (op_failure_status, cs_src c', cs_dest c')
                    else
                      (let dest = (if sc_truncate sc = 1
                                   then snd (fn_truncate F (cs_dest c') (cs_wpos c'))
                                   else cs_dest c')
                       in Some (op_success_status\<lparr>error_code := cs_rpos c'\<rparr>, cs_src c', dest))))"

section \<open>Copying a segment to a file\<close>

text \<open>
  \<open>fwrite\<close> of the C library on a file state \<open>'f\<close>: how many bytes it took, and the file after. The
  requested length is stored first but the number of bytes is then recomputed from the size of
  the segment, so the length argument has no effect. The read of the next chunk is started
  before the file write and waited for after it. After a short file write the routine waits for
  \<open>gop\<close>; when no read was started in this pass that is the operation already freed, which is
  undefined behaviour.
\<close>

record ('g, 'f) get_state =
  gs_src :: 'g
  gs_fd :: 'f
  gs_rbuf :: mem
  gs_wbuf :: mem
  gs_rpos :: ex_off
  gs_rlen :: ex_off
  gs_nbytes :: ex_off

definition segment_get_pass ::
  "'g segment_fn \<Rightarrow> ('f \<Rightarrow> byte list \<Rightarrow> nat \<times> 'f) \<Rightarrow> ex_off \<Rightarrow> ('g, 'f) get_state \<Rightarrow>
   (op_state \<times> ('g, 'f) get_state) outcome" where
  "segment_get_pass F fwr bufsize c =
     (let rbuf = gs_wbuf c; wbuf = gs_rbuf c; wlen = gs_rlen c;
          rlen = chunk_len (gs_nbytes c) bufsize;
          (rst, rbuf', src) =
            (if rlen > 0 then fn_read F (gs_src c) [ex_iovec_single (gs_rpos c) rlen] rbuf 0
             else (OP_STATE_SUCCESS, rbuf, gs_src c));
          rpos = (if rlen > 0 then gs_rpos c + rlen else gs_rpos c);
          nbytes = (if rlen > 0 then gs_nbytes c - rlen else gs_nbytes c);
          (got, fd) = fwr (gs_fd c) (mem_get wbuf 0 wlen);
          c' = \<lparr>gs_src = src, gs_fd = fd, gs_rbuf = rbuf', gs_wbuf = wbuf, gs_rpos = rpos,
                gs_rlen = rlen, gs_nbytes = nbytes\<rparr>
      in if wlen \<noteq> int got then
           (if rlen > 0 then Ret (OP_STATE_FAILURE, c') else Crash)
         else Ret (rst, c'))"

partial_function (option) segment_get_loop ::
  "'g segment_fn \<Rightarrow> ('f \<Rightarrow> byte list \<Rightarrow> nat \<times> 'f) \<Rightarrow> ex_off \<Rightarrow> ('g, 'f) get_state \<Rightarrow>
   (op_state \<times> ('g, 'f) get_state) outcome option" where
  "segment_get_loop F fwr bufsize c =
     (case segment_get_pass F fwr bufsize c of
        Crash \<Rightarrow> Some Crash
      | Ret (st, c') \<Rightarrow>
          if st \<noteq> OP_STATE_SUCCESS then Some (Ret (OP_STATE_FAILURE, c'))
          else if gs_rlen c' > 0 then segment_get_loop F fwr bufsize c'
          else Some (Ret (OP_STATE_SUCCESS, c')))"

declare segment_get_loop.simps [code]

definition segment_get_func ::
  "'g segment_fn \<Rightarrow> ('f \<Rightarrow> byte list \<Rightarrow> nat \<times> 'f) \<Rightarrow> ('g, 'f) segment_copy_t \<Rightarrow> mem \<Rightarrow> mem \<Rightarrow>
   (op_status \<times> 'g \<times> 'f) outcome option" where
  "segment_get_func F fwr sc buf1 buf2 =
     (let bufsize = c_div (sc_bufsize sc) 2;
          nbytes = fn_size F (sc_src sc) - sc_src_offset sc;
          rlen = chunk_len nbytes bufsize
      in case fn_read F (sc_src sc) [ex_iovec_single (sc_src_offset sc) rlen] buf1 0 of
           (st, rbuf, src) \<Rightarrow>
             if st \<noteq> OP_STATE_SUCCESS then Some (Ret (op_failure_status, src, sc_fd sc))
             else (case segment_get_loop F fwr bufsize
                          \<lparr>gs_src = src, gs_fd = sc_fd sc, gs_rbuf = rbuf, gs_wbuf = buf2,
                           gs_rpos = sc_src_offset sc + rlen, gs_rlen = rlen,
                           gs_nbytes = nbytes - rlen\<rparr> of
                     None \<Rightarrow> None
                   | Some Crash \<Rightarrow> Some Crash
                   | Some (Ret (lst, c)) \<Rightarrow>
                       Some (Ret (if lst = OP_STATE_SUCCESS then op_success_status
                                  else op_failure_status, gs_src c, gs_fd c))))"

section \<open>Copying a file to a segment\<close>

text \<open>
  \<open>frd\<close> is \<open>fread\<close>: the bytes it delivered and the file after; \<open>eof\<close> is \<open>feof\<close>.
\<close>

record ('g, 'f) put_state =
  ps_dest :: 'g
  ps_fd :: 'f
  ps_rbuf :: mem
  ps_wpos :: ex_off
  ps_rlen :: ex_off
  ps_nbytes :: ex_off
  ps_wbuf :: mem

definition segment_put_pass ::
  "'g segment_fn \<Rightarrow> ('f \<Rightarrow> ex_off \<Rightarrow> byte list \<times> 'f) \<Rightarrow> ('f \<Rightarrow> bool) \<Rightarrow> ex_off \<Rightarrow> ('g, 'f) put_state \<Rightarrow>
   op_state \<times> ('g, 'f) put_state" where
  "segment_put_pass F frd eof bufsize c =
     (let rbuf = ps_wbuf c; wbuf = ps_rbuf c; wlen = ps_rlen c;
          (wst, dest) = fn_write F (ps_dest c) [ex_iovec_single (ps_wpos c) wlen] wbuf 0;
          wpos = ps_wpos c + wlen;
          rlen0 = chunk_len (ps_nbytes c) bufsize;
          (bytes, fd) = (if rlen0 > 0 then frd (ps_fd c) rlen0 else ([], ps_fd c));
          rlen = (if rlen0 > 0 then int (length bytes) else rlen0);
          nbytes = (if rlen0 > 0 then ps_nbytes c - rlen else ps_nbytes c);
          c' = \<lparr>ps_dest = dest, ps_fd = fd, ps_rbuf = mem_put rbuf 0 bytes, ps_wpos = wpos,
                ps_rlen = rlen, ps_nbytes = nbytes, ps_wbuf = wbuf\<rparr>
      in if rlen0 > 0 \<and> bytes = [] \<and> \<not> eof fd then (OP_STATE_FAILURE, c') else (wst, c'))"

partial_function (option) segment_put_loop ::
  "'g segment_fn \<Rightarrow> ('f \<Rightarrow> ex_off \<Rightarrow> byte list \<times> 'f) \<Rightarrow> ('f \<Rightarrow> bool) \<Rightarrow> ex_off \<Rightarrow> ('g, 'f) put_state \<Rightarrow>
   (op_state \<times> ('g, 'f) put_state) option" where
  "segment_put_loop F frd eof bufsize c =
     (case segment_put_pass F frd eof bufsize c of
        (st, c') \<Rightarrow>
          if st \<noteq> OP_STATE_SUCCESS then Some (OP_STATE_FAILURE, c')
          else if ps_rlen c' > 0 then segment_put_loop F frd eof bufsize c'
          else Some (OP_STATE_SUCCESS, c'))"

declare segment_put_loop.simps [code]

definition segment_put_func ::
  "'g segment_fn \<Rightarrow> ('f \<Rightarrow> ex_off \<Rightarrow> byte list \<times> 'f) \<Rightarrow> ('f \<Rightarrow> bool) \<Rightarrow> ('g, 'f) segment_copy_t \<Rightarrow>
   mem \<Rightarrow> mem \<Rightarrow> (op_status \<times> 'g \<times> 'f) option" where
  "segment_put_func F frd eof sc buf1 buf2 =
     (let bufsize = c_div (sc_bufsize sc) 2;
          dend = sc_dest_offset sc + sc_len sc;
          dest = snd (fn_truncate F (sc_dest sc) (- dend));
          rlen0 = chunk_len (sc_len sc) bufsize;
          nbytes = sc_len sc - rlen0;
          (bytes, fd) = frd (sc_fd sc) rlen0
      in if bytes = [] then
           Some (if eof fd then op_success_status else op_failure_status, dest, fd)
         else
           (case segment_put_loop F frd eof bufsize
                   \<lparr>ps_dest = dest, ps_fd = fd, ps_rbuf = mem_put buf1 0 bytes,
                    ps_wpos = sc_dest_offset sc, ps_rlen = int (length bytes),
                    ps_nbytes = nbytes, ps_wbuf = buf2\<rparr> of
              None \<Rightarrow> None
            | Some (st, c) \<Rightarrow>
                if st \<noteq> OP_STATE_SUCCESS then Some (op_failure_status, ps_dest c, ps_fd c)
                else Some (op_success_status,
                           (if sc_truncate sc = 1 then snd (fn_truncate F (ps_dest c) (ps_wpos c))
                            else ps_dest c), ps_fd c)))"

section \<open>Correctness of the copy\<close>

text \<open>
  \<open>copied src p dest q n dest'\<close>: \<open>dest'\<close> is \<open>dest\<close> with the \<open>n\<close> bytes of \<open>src\<close> from \<open>p\<close> stored at
  \<open>q\<close>, as far as the size of \<open>dest\<close> and the stored bytes reach.
\<close>

definition copied ::
  "'g segment_fn \<Rightarrow> ('g \<Rightarrow> mem) \<Rightarrow> mem \<Rightarrow> ex_off \<Rightarrow> 'g \<Rightarrow> ex_off \<Rightarrow> ex_off \<Rightarrow> 'g \<Rightarrow> bool" where
  "copied F content m p dest q n dest' \<longleftrightarrow>
     fn_size F dest' = max (fn_size F dest) (q + n) \<and>
     (\<forall>x. 0 \<le> x \<and> (x < fn_size F dest \<or> q \<le> x \<and> x < q + n) \<longrightarrow>
        content dest' x = (if q \<le> x \<and> x < q + n then m (p + (x - q)) else content dest x))"

lemma copied_trans:
  assumes "copied F content m p dest q n dest1" "copied F content m (p + n) dest1 (q + n) n' dest2"
    and "0 \<le> n" "0 \<le> n'" "0 \<le> q"
  shows "copied F content m p dest q (n + n') dest2"
  unfolding copied_def
proof (intro conjI allI impI)
  show "fn_size F dest2 = max (fn_size F dest) (q + (n + n'))"
    using assms by (simp add: copied_def)
next
  fix x assume x: "0 \<le> x \<and> (x < fn_size F dest \<or> q \<le> x \<and> x < q + (n + n'))"
  show "content dest2 x = (if q \<le> x \<and> x < q + (n + n') then m (p + (x - q)) else content dest x)"
  proof (cases "q + n \<le> x \<and> x < q + n + n'")
    case True
    with assms(2) x have "content dest2 x = m (p + n + (x - (q + n)))" by (simp add: copied_def)
    with True assms(3) show ?thesis by (simp add: algebra_simps)
  next
    case False
    with x assms(1) have "x < fn_size F dest1" by (auto simp: copied_def)
    with False x assms(2) have "content dest2 x = content dest1 x" by (auto simp: copied_def)
    with False x assms(1,4) show ?thesis by (auto simp: copied_def)
  qed
qed

lemma chunk_len_pos: "0 < bufsize \<Longrightarrow> 0 \<le> n \<Longrightarrow> 0 \<le> chunk_len n bufsize \<and> chunk_len n bufsize \<le> n
    \<and> (chunk_len n bufsize = 0 \<longleftrightarrow> n = 0)"
  by (auto simp: chunk_len_def)

context segment_store
begin

lemma write_copied:
  assumes "inv g" "0 \<le> q" "0 < n"
    and w: "fn_write F g [ex_iovec_single q n] buf 0 = (OP_STATE_SUCCESS, g')"
    and b: "\<And>k. 0 \<le> k \<Longrightarrow> k < n \<Longrightarrow> buf k = m (p + k)"
  shows "copied F content m p g q n g'"
  unfolding copied_def
  using write_law [OF assms(1-3) w] b by (simp add: mem_put_get)

lemma read_buf:
  assumes "inv g" "0 \<le> p" "0 < n" "p + n \<le> fn_size F g"
    and "fn_read F g [ex_iovec_single p n] buf 0 = (OP_STATE_SUCCESS, buf', g')"
  shows "0 \<le> k \<Longrightarrow> k < n \<Longrightarrow> buf' k = content g (p + k)"
  using read_law [OF assms] by (simp add: mem_put_get)

text \<open>Cutting the destination at the end of the copied bytes keeps them.\<close>

lemma truncate_copied:
  assumes cp: "copied F content m p dest q n dest'" and d: "inv dest'" and "0 \<le> q" "0 \<le> k" "k < n"
  shows "content (snd (fn_truncate F dest' (q + n))) (q + k) = m (p + k)" (is ?cut)
    and "content dest' (q + k) = m (p + k)" (is ?keep)
proof -
  show keep: ?keep using cp assms by (auto simp: copied_def)
  have "q + k < fn_size F dest'" using cp assms by (auto simp: copied_def)
  moreover obtain st d' where "fn_truncate F dest' (q + n) = (st, d')" by (metis prod.exhaust)
  ultimately show ?cut using truncate_law [OF d, of "q + n" st d'] keep assms by auto
qed

lemma segment_copy_loop_correct:
  assumes "inv (cs_src c)" "inv (cs_dest c)" "0 < bufsize" "0 < cs_rlen c" "0 \<le> cs_nbytes c"
    and "0 \<le> cs_wpos c" "cs_rlen c \<le> cs_rpos c" "cs_rpos c + cs_nbytes c \<le> fn_size F (cs_src c)"
    and "\<And>k. 0 \<le> k \<Longrightarrow> k < cs_rlen c \<Longrightarrow>
          cs_rbuf c k = content (cs_src c) (cs_rpos c - cs_rlen c + k)"
  shows "\<exists>st c'. segment_copy_loop F bufsize c = Some (st, c') \<and>
           inv (cs_src c') \<and> inv (cs_dest c') \<and> (st = OP_STATE_SUCCESS \<longrightarrow>
             content (cs_src c') = content (cs_src c) \<and>
             cs_rpos c' = cs_rpos c + cs_nbytes c \<and>
             cs_wpos c' = cs_wpos c + (cs_rlen c + cs_nbytes c) \<and>
             copied F content (content (cs_src c)) (cs_rpos c - cs_rlen c) (cs_dest c) (cs_wpos c)
               (cs_rlen c + cs_nbytes c) (cs_dest c'))"
  using assms
proof (induction "nat (cs_nbytes c)" arbitrary: c rule: less_induct)
  case less
  let ?m = "content (cs_src c)" and ?w = "cs_wpos c" and ?l = "cs_rlen c"
  let ?p = "cs_rpos c - cs_rlen c" and ?r = "chunk_len (cs_nbytes c) bufsize"
  obtain wst dest where w: "fn_write F (cs_dest c) [ex_iovec_single ?w ?l] (cs_rbuf c) 0 = (wst, dest)"
    by (metis prod.exhaust)
  have invd: "inv dest" using write_law [OF less.prems(2,6,4) w] by simp
  have cw: "wst = OP_STATE_SUCCESS \<Longrightarrow> copied F content ?m ?p (cs_dest c) ?w ?l dest"
    using write_copied [OF less.prems(2,6,4)] w less.prems(9) by blast
  note ch = chunk_len_pos [OF less.prems(3,5)]
  show ?case
  proof (cases "?r > 0")
    case False
    with ch have "cs_nbytes c = 0" by auto
    with False w invd cw less.prems show ?thesis
      by (subst segment_copy_loop.simps) (simp add: segment_copy_pass_def Let_def)
  next
    case True
    obtain rst rbuf src where
      r: "fn_read F (cs_src c) [ex_iovec_single (cs_rpos c) ?r] (cs_wbuf c) 0 = (rst, rbuf, src)"
      by (metis prod.exhaust)
    have rp: "0 \<le> cs_rpos c" "cs_rpos c + ?r \<le> fn_size F (cs_src c)" using less.prems(4,7,8) ch by auto
    note rl = read_law [OF less.prems(1) rp(1) True rp(2) r]
    let ?c = "\<lparr>cs_src = src, cs_dest = dest, cs_rbuf = rbuf, cs_wbuf = cs_rbuf c,
                 cs_rpos = cs_rpos c + ?r, cs_wpos = ?w + ?l, cs_rlen = ?r, cs_wlen = ?l,
                 cs_nbytes = cs_nbytes c - ?r\<rparr>"
    have pass: "segment_copy_pass F bufsize c = (both wst rst, ?c)"
      using w r True by (simp add: segment_copy_pass_def Let_def)
    show ?thesis
    proof (cases "both wst rst = OP_STATE_SUCCESS")
      case False
      then have "segment_copy_loop F bufsize c = Some (OP_STATE_FAILURE, ?c)"
        using pass by (subst segment_copy_loop.simps) (simp del: both_success_iff op_state_neq)
      with rl invd show ?thesis by simp
    next
      case ok: True
      have "\<exists>st c'. segment_copy_loop F bufsize ?c = Some (st, c') \<and>
           inv (cs_src c') \<and> inv (cs_dest c') \<and> (st = OP_STATE_SUCCESS \<longrightarrow>
             content (cs_src c') = content src \<and> cs_rpos c' = cs_rpos ?c + cs_nbytes ?c \<and>
             cs_wpos c' = cs_wpos ?c + (cs_rlen ?c + cs_nbytes ?c) \<and>
             copied F content (content src) (cs_rpos ?c - cs_rlen ?c) dest (cs_wpos ?c)
               (cs_rlen ?c + cs_nbytes ?c) (cs_dest c'))"
        using less.hyps [of ?c] True ch rl invd less.prems rp ok
          read_buf [OF less.prems(1) rp(1) True rp(2)] r by simp
      then obtain st c' where c': "segment_copy_loop F bufsize ?c = Some (st, c')"
        "inv (cs_src c')" "inv (cs_dest c')"
        "st = OP_STATE_SUCCESS \<Longrightarrow> content (cs_src c') = ?m \<and>
           cs_rpos c' = cs_rpos c + cs_nbytes c \<and> cs_wpos c' = ?w + (?l + cs_nbytes c) \<and>
           copied F content ?m (cs_rpos c) dest (?w + ?l) (cs_nbytes c) (cs_dest c')"
        using rl by auto
      have "st = OP_STATE_SUCCESS \<Longrightarrow>
          copied F content ?m ?p (cs_dest c) ?w (?l + cs_nbytes c) (cs_dest c')"
        using copied_trans [OF cw, of "cs_nbytes c" "cs_dest c'"] c'(4) ok less.prems by simp
      moreover have "segment_copy_loop F bufsize c = segment_copy_loop F bufsize ?c"
        using ok pass True by (subst segment_copy_loop.simps) simp
      ultimately show ?thesis using c' by auto
    qed
  qed
qed

lemma segment_copy_func_correct:
  assumes sc: "inv (sc_src sc)" "inv (sc_dest sc)" "2 \<le> sc_bufsize sc"
    and off: "0 \<le> sc_src_offset sc" "sc_src_offset sc < fn_size F (sc_src sc)" "0 \<le> sc_dest_offset sc"
    and len: "sc_len sc = -1 \<or> fn_size F (sc_src sc) - sc_src_offset sc \<le> sc_len sc"
  shows "\<exists>status src dest. segment_copy_func F sc buf1 buf2 = Some (status, src, dest) \<and>
    (op_state status = OP_STATE_SUCCESS \<longrightarrow>
       error_code status = fn_size F (sc_src sc) \<and>
       content src = content (sc_src sc) \<and>
       (\<forall>k. 0 \<le> k \<and> k < fn_size F (sc_src sc) - sc_src_offset sc \<longrightarrow>
          content dest (sc_dest_offset sc + k) = content (sc_src sc) (sc_src_offset sc + k)) \<and>
       (sc_truncate sc \<noteq> 1 \<longrightarrow>
          copied F content (content (sc_src sc)) (sc_src_offset sc) (sc_dest sc) (sc_dest_offset sc)
            (fn_size F (sc_src sc) - sc_src_offset sc) dest))"
proof -
  let ?n = "fn_size F (sc_src sc) - sc_src_offset sc" and ?b = "c_div (sc_bufsize sc) 2"
  let ?r = "chunk_len ?n ?b"
  have b: "0 < ?b" "0 \<le> ?n" using sc(3) off by auto
  with chunk_len_pos [OF b] off have ch: "0 < ?r" "?r \<le> ?n" by auto
  have nb: "(if sc_len sc \<noteq> -1 \<and> sc_len sc < ?n then sc_len sc else ?n) = ?n" using len by auto
  obtain tst dest where t: "fn_truncate F (sc_dest sc) (- (sc_dest_offset sc + ?n)) = (tst, dest)"
    by (metis prod.exhaust)
  have tneg: "- (sc_dest_offset sc + ?n) < 0" using off by simp
  from truncate_law [OF sc(2) t] tneg have dest: "inv dest" "fn_size F dest = fn_size F (sc_dest sc)"
    "\<And>x. 0 \<le> x \<Longrightarrow> x < fn_size F (sc_dest sc) \<Longrightarrow> content dest x = content (sc_dest sc) x" by auto
  obtain rst rbuf src where
    r: "fn_read F (sc_src sc) [ex_iovec_single (sc_src_offset sc) ?r] buf1 0 = (rst, rbuf, src)"
    by (metis prod.exhaust)
  have rr: "sc_src_offset sc + ?r \<le> fn_size F (sc_src sc)" using ch by simp
  note rl = read_law [OF sc(1) off(1) ch(1) rr r]
  let ?c = "\<lparr>cs_src = src, cs_dest = dest, cs_rbuf = rbuf, cs_wbuf = buf2,
               cs_rpos = sc_src_offset sc + ?r, cs_wpos = sc_dest_offset sc,
               cs_rlen = ?r, cs_wlen = 0, cs_nbytes = ?n - ?r\<rparr>"
  have start: "segment_copy_start F sc buf1 buf2 = (rst, ?c)"
    unfolding segment_copy_start_def Let_def nb t r by simp
  show ?thesis
  proof (cases "rst = OP_STATE_SUCCESS")
    case False
    with start show ?thesis by (simp add: segment_copy_func_def op_failure_status_def)
  next
    case ok: True
    have "\<exists>st c'. segment_copy_loop F ?b ?c = Some (st, c') \<and>
           inv (cs_src c') \<and> inv (cs_dest c') \<and> (st = OP_STATE_SUCCESS \<longrightarrow>
             content (cs_src c') = content (cs_src ?c) \<and> cs_rpos c' = cs_rpos ?c + cs_nbytes ?c \<and>
             cs_wpos c' = cs_wpos ?c + (cs_rlen ?c + cs_nbytes ?c) \<and>
             copied F content (content (cs_src ?c)) (cs_rpos ?c - cs_rlen ?c) (cs_dest ?c) (cs_wpos ?c)
               (cs_rlen ?c + cs_nbytes ?c) (cs_dest c'))"
      by (rule segment_copy_loop_correct)
        (use rl dest b ch off ok r read_buf [OF sc(1) off(1) ch(1) rr] in auto)
    then obtain st c' where c': "segment_copy_loop F ?b ?c = Some (st, c')"
      "st = OP_STATE_SUCCESS \<Longrightarrow> inv (cs_dest c') \<and> content (cs_src c') = content (sc_src sc) \<and>
         cs_rpos c' = fn_size F (sc_src sc) \<and> cs_wpos c' = sc_dest_offset sc + ?n \<and>
         copied F content (content (sc_src sc)) (sc_src_offset sc) dest (sc_dest_offset sc) ?n (cs_dest c')"
      using rl by auto
    have cp: "copied F content (content (sc_src sc)) (sc_src_offset sc) (sc_dest sc) (sc_dest_offset sc)
            ?n (cs_dest c')" if "st = OP_STATE_SUCCESS"
      using c'(2) that dest unfolding copied_def by auto
    let ?d = "if sc_truncate sc = 1 then snd (fn_truncate F (cs_dest c') (cs_wpos c')) else cs_dest c'"
    have "content ?d (sc_dest_offset sc + k) = content (sc_src sc) (sc_src_offset sc + k)"
      if "st = OP_STATE_SUCCESS" "0 \<le> k" "k < ?n" for k
      using truncate_copied [OF cp] c'(2) that off by simp
    with c' cp start ok show ?thesis
      by (auto simp: segment_copy_func_def op_success_status_def op_failure_status_def Let_def)
  qed
qed

text \<open>
  The same loop against a file. \<open>out\<close> is what the file holds; a file write that takes all its
  bytes appends them.
\<close>

lemma segment_get_loop_correct:
  assumes out: "\<And>f bs g. fwr f bs = (length bs, g) \<Longrightarrow> out g = out f @ bs"
  assumes "inv (gs_src c)" "0 < bufsize" "0 < gs_rlen c" "0 \<le> gs_nbytes c"
    and "gs_rlen c \<le> gs_rpos c" "gs_rpos c + gs_nbytes c \<le> fn_size F (gs_src c)"
    and "\<And>k. 0 \<le> k \<Longrightarrow> k < gs_rlen c \<Longrightarrow>
          gs_rbuf c k = content (gs_src c) (gs_rpos c - gs_rlen c + k)"
  shows "\<exists>r. segment_get_loop F fwr bufsize c = Some r \<and>
           (\<forall>c'. r = Ret (OP_STATE_SUCCESS, c') \<longrightarrow>
             out (gs_fd c') = out (gs_fd c) @
               mem_get (content (gs_src c)) (gs_rpos c - gs_rlen c) (gs_rlen c + gs_nbytes c))"
  using assms(2-)
proof (induction "nat (gs_nbytes c)" arbitrary: c rule: less_induct)
  case less
  let ?m = "content (gs_src c)" and ?l = "gs_rlen c"
  let ?p = "gs_rpos c - gs_rlen c" and ?r = "chunk_len (gs_nbytes c) bufsize"
  note ch = chunk_len_pos [OF less.prems(2,4)]
  have wb: "mem_get (gs_rbuf c) 0 ?l = mem_get ?m ?p ?l"
    using less.prems(7) by (auto simp: mem_get_eq_iff)
  obtain got fd where f: "fwr (gs_fd c) (mem_get ?m ?p ?l) = (got, fd)" by (metis prod.exhaust)
  have fd: "out fd = out (gs_fd c) @ mem_get ?m ?p ?l" if "?l = int got"
    using out [of "gs_fd c" "mem_get ?m ?p ?l" fd] f that by simp
  show ?case
  proof (cases "?r > 0")
    case False
    with ch have "gs_nbytes c = 0" by auto
    with False f fd wb show ?thesis
      by (subst segment_get_loop.simps) (simp add: segment_get_pass_def Let_def)
  next
    case True
    obtain rst rbuf src where
      r: "fn_read F (gs_src c) [ex_iovec_single (gs_rpos c) ?r] (gs_wbuf c) 0 = (rst, rbuf, src)"
      by (metis prod.exhaust)
    have rp: "0 \<le> gs_rpos c" "gs_rpos c + ?r \<le> fn_size F (gs_src c)" using less.prems ch by auto
    note rl = read_law [OF less.prems(1) rp(1) True rp(2) r]
    let ?c = "\<lparr>gs_src = src, gs_fd = fd, gs_rbuf = rbuf, gs_wbuf = gs_rbuf c,
                gs_rpos = gs_rpos c + ?r, gs_rlen = ?r, gs_nbytes = gs_nbytes c - ?r\<rparr>"
    have pass: "segment_get_pass F fwr bufsize c =
        Ret (if ?l \<noteq> int got then OP_STATE_FAILURE else rst, ?c)"
      using r f wb True by (simp add: segment_get_pass_def Let_def)
    show ?thesis
    proof (cases "?l = int got \<and> rst = OP_STATE_SUCCESS")
      case False
      with pass show ?thesis by (subst segment_get_loop.simps) auto
    next
      case ok: True
      have "\<exists>r. segment_get_loop F fwr bufsize ?c = Some r \<and>
           (\<forall>c'. r = Ret (OP_STATE_SUCCESS, c') \<longrightarrow>
             out (gs_fd c') = out (gs_fd ?c) @
               mem_get (content (gs_src ?c)) (gs_rpos ?c - gs_rlen ?c) (gs_rlen ?c + gs_nbytes ?c))"
        by (rule less.hyps)
          (use True ch rl less.prems rp ok r read_buf [OF less.prems(1) rp(1) True rp(2)] in auto)
      then obtain res where res: "segment_get_loop F fwr bufsize ?c = Some res"
        "\<And>c'. res = Ret (OP_STATE_SUCCESS, c') \<Longrightarrow>
           out (gs_fd c') = out fd @ mem_get ?m (gs_rpos c) (gs_nbytes c)"
        using rl by auto
      have "segment_get_loop F fwr bufsize c = segment_get_loop F fwr bufsize ?c"
        using ok pass True by (subst segment_get_loop.simps) simp
      with res fd ok show ?thesis
        using mem_get_split [of ?l "gs_nbytes c" ?m ?p] less.prems(3,4) by simp
    qed
  qed
qed

lemma segment_get_func_correct:
  assumes out: "\<And>f bs g. fwr f bs = (length bs, g) \<Longrightarrow> out g = out f @ bs"
    and sc: "inv (sc_src sc)" "2 \<le> sc_bufsize sc"
    and off: "0 \<le> sc_src_offset sc" "sc_src_offset sc < fn_size F (sc_src sc)"
  shows "\<exists>r. segment_get_func F fwr sc buf1 buf2 = Some r \<and>
    (\<forall>status src fd. r = Ret (status, src, fd) \<and> op_state status = OP_STATE_SUCCESS \<longrightarrow>
       out fd = out (sc_fd sc) @ mem_get (content (sc_src sc)) (sc_src_offset sc)
         (fn_size F (sc_src sc) - sc_src_offset sc))"
proof -
  let ?n = "fn_size F (sc_src sc) - sc_src_offset sc" and ?b = "c_div (sc_bufsize sc) 2"
  let ?r = "chunk_len ?n ?b"
  have b: "0 < ?b" "0 \<le> ?n" using sc off by auto
  with chunk_len_pos [OF b] off have ch: "0 < ?r" "?r \<le> ?n" by auto
  obtain rst rbuf src where
    r: "fn_read F (sc_src sc) [ex_iovec_single (sc_src_offset sc) ?r] buf1 0 = (rst, rbuf, src)"
    by (metis prod.exhaust)
  have rr: "sc_src_offset sc + ?r \<le> fn_size F (sc_src sc)" using ch by simp
  note rl = read_law [OF sc(1) off(1) ch(1) rr r]
  show ?thesis
  proof (cases "rst = OP_STATE_SUCCESS")
    case False
    with r show ?thesis by (simp add: segment_get_func_def op_failure_status_def Let_def)
  next
    case ok: True
    let ?c = "\<lparr>gs_src = src, gs_fd = sc_fd sc, gs_rbuf = rbuf, gs_wbuf = buf2,
                gs_rpos = sc_src_offset sc + ?r, gs_rlen = ?r, gs_nbytes = ?n - ?r\<rparr>"
    have "\<exists>r. segment_get_loop F fwr ?b ?c = Some r \<and>
           (\<forall>c'. r = Ret (OP_STATE_SUCCESS, c') \<longrightarrow> out (gs_fd c') = out (gs_fd ?c) @
             mem_get (content (gs_src ?c)) (gs_rpos ?c - gs_rlen ?c) (gs_rlen ?c + gs_nbytes ?c))"
      by (rule segment_get_loop_correct [OF out])
        (use rl b ch off ok r read_buf [OF sc(1) off(1) ch(1) rr] in auto)
    with rl ok r show ?thesis
      by (auto simp: segment_get_func_def Let_def op_failure_status_def
          split: outcome.splits prod.splits if_splits)
  qed
qed

text \<open>
  Storing a file. \<open>rest\<close> is what the file still has to deliver: a read delivers a prefix of it no
  longer than asked for, and an empty read at the end of the file means that nothing is left.
  \<open>whole\<close> is everything read and still to be read, of which \<open>p\<close> bytes are stored already.
\<close>

lemma segment_put_loop_correct:
  assumes rd: "\<And>f n bs g. 0 \<le> n \<Longrightarrow> frd f n = (bs, g) \<Longrightarrow> rest f = bs @ rest g \<and> int (length bs) \<le> n \<and>
      (bs = [] \<and> eof g \<longrightarrow> rest f = [])"
  assumes "inv (ps_dest c)" "0 < bufsize" "0 < ps_rlen c" "0 \<le> ps_wpos c" "0 \<le> p"
    and "p + ps_rlen c \<le> int (length whole)" "rest (ps_fd c) = drop (nat (p + ps_rlen c)) whole"
    and "\<And>k. 0 \<le> k \<Longrightarrow> k < ps_rlen c \<Longrightarrow> ps_rbuf c k = mem_of whole (p + k)"
  shows "\<exists>st c'. segment_put_loop F frd eof bufsize c = Some (st, c') \<and>
           inv (ps_dest c') \<and> (st = OP_STATE_SUCCESS \<longrightarrow> (\<exists>n. 0 \<le> n \<and>
             p + ps_rlen c + n \<le> int (length whole) \<and>
             rest (ps_fd c') = drop (nat (p + ps_rlen c + n)) whole \<and>
             (ps_nbytes c < 0 \<longrightarrow> rest (ps_fd c') = []) \<and> (0 \<le> ps_nbytes c \<longrightarrow> n \<le> ps_nbytes c) \<and>
             ps_wpos c' = ps_wpos c + (ps_rlen c + n) \<and>
             copied F content (mem_of whole) p (ps_dest c) (ps_wpos c) (ps_rlen c + n) (ps_dest c')))"
  using assms(2-)
proof (induction "length (rest (ps_fd c))" arbitrary: c p rule: less_induct)
  case less
  let ?w = "ps_wpos c" and ?l = "ps_rlen c" and ?r = "chunk_len (ps_nbytes c) bufsize"
  obtain wst dest where w: "fn_write F (ps_dest c) [ex_iovec_single ?w ?l] (ps_rbuf c) 0 = (wst, dest)"
    by (metis prod.exhaust)
  have invd: "inv dest" using write_law [OF less.prems(1,4,3) w] by simp
  have cw: "wst = OP_STATE_SUCCESS \<Longrightarrow> copied F content (mem_of whole) p (ps_dest c) ?w ?l dest"
    using write_copied [OF less.prems(1,4,3)] w less.prems(8) by blast
  have rpos: "0 < ?r \<or> ps_nbytes c = 0" using less.prems(2) by (auto simp: chunk_len_def)
  show ?case
  proof (cases "?r > 0")
    case False
    with rpos have "ps_nbytes c = 0" by simp
    with False w invd cw less.prems show ?thesis
      by (subst segment_put_loop.simps)
        (auto simp: segment_put_pass_def Let_def intro!: exI [of _ "0::int"])
  next
    case True
    obtain bs fd where f: "frd (ps_fd c) ?r = (bs, fd)" by (metis prod.exhaust)
    note law = rd [OF less_imp_le [OF True] f]
    let ?c = "\<lparr>ps_dest = dest, ps_fd = fd, ps_rbuf = mem_put (ps_wbuf c) 0 bs, ps_wpos = ?w + ?l,
                ps_rlen = int (length bs), ps_nbytes = ps_nbytes c - int (length bs),
                ps_wbuf = ps_rbuf c\<rparr>"
    have pass: "segment_put_pass F frd eof bufsize c =
        (if bs = [] \<and> \<not> eof fd then OP_STATE_FAILURE else wst, ?c)"
      using w f True by (simp add: segment_put_pass_def Let_def)
    show ?thesis
    proof (cases "bs = [] \<or> wst = OP_STATE_FAILURE")
      case True
      then have "segment_put_loop F frd eof bufsize c =
          Some (if bs = [] \<and> \<not> eof fd then OP_STATE_FAILURE else wst, ?c)"
        using pass by (subst segment_put_loop.simps) (auto simp: both_def)
      with True invd cw less.prems law show ?thesis
        by (auto intro!: exI [of _ "0::int"])
    next
      case ok: False
      let ?p = "p + ?l"
      have wl: "drop (nat ?p) whole = bs @ rest fd" using law less.prems(7) by simp
      have "length whole - nat ?p = length bs + length (rest fd)"
        by (metis wl length_drop length_append)
      then have len: "?p + int (length bs) \<le> int (length whole)"
        using less.prems(6) by linarith
      have bsk: "mem_put (ps_wbuf c) 0 bs k = mem_of whole (?p + k)" if k: "0 \<le> k" "k < int (length bs)" for k
      proof -
        have "bs ! nat k = drop (nat ?p) whole ! nat k"
          using k by (simp add: wl nth_append nat_less_iff)
        also have "\<dots> = whole ! nat (?p + k)"
          using k len less.prems(3,5,6) by (simp add: nat_add_distrib)
        finally show ?thesis using k len less.prems(3,5) by (simp add: mem_put_def mem_of_def)
      qed
      have rfd: "rest fd = drop (nat (?p + int (length bs))) whole"
        using arg_cong [OF wl, of "drop (length bs)"] less.prems(3,5)
        by (simp add: nat_add_distrib add.commute)
      have "\<exists>st c'. segment_put_loop F frd eof bufsize ?c = Some (st, c') \<and>
           inv (ps_dest c') \<and> (st = OP_STATE_SUCCESS \<longrightarrow> (\<exists>n. 0 \<le> n \<and>
             ?p + ps_rlen ?c + n \<le> int (length whole) \<and>
             rest (ps_fd c') = drop (nat (?p + ps_rlen ?c + n)) whole \<and>
             (ps_nbytes ?c < 0 \<longrightarrow> rest (ps_fd c') = []) \<and> (0 \<le> ps_nbytes ?c \<longrightarrow> n \<le> ps_nbytes ?c) \<and>
             ps_wpos c' = ps_wpos ?c + (ps_rlen ?c + n) \<and>
             copied F content (mem_of whole) ?p (ps_dest ?c) (ps_wpos ?c) (ps_rlen ?c + n) (ps_dest c')))"
      proof (rule less.hyps, goal_cases)
        case 1
        then show ?case using law ok by simp
      qed (use ok law invd less.prems len bsk rfd in auto)
      then obtain st c' where c': "segment_put_loop F frd eof bufsize ?c = Some (st, c')"
        "inv (ps_dest c')" "st = OP_STATE_SUCCESS \<Longrightarrow> \<exists>n. 0 \<le> n \<and>
             ?p + int (length bs) + n \<le> int (length whole) \<and>
             rest (ps_fd c') = drop (nat (?p + int (length bs) + n)) whole \<and>
             (ps_nbytes c - int (length bs) < 0 \<longrightarrow> rest (ps_fd c') = []) \<and>
             (0 \<le> ps_nbytes c - int (length bs) \<longrightarrow> n \<le> ps_nbytes c - int (length bs)) \<and>
             ps_wpos c' = ?w + ?l + (int (length bs) + n) \<and>
             copied F content (mem_of whole) ?p dest (?w + ?l) (int (length bs) + n) (ps_dest c')"
        by auto
      have eq: "segment_put_loop F frd eof bufsize c = segment_put_loop F frd eof bufsize ?c"
        using ok pass by (subst segment_put_loop.simps) simp
      have lim: "0 \<le> ps_nbytes c \<Longrightarrow> int (length bs) \<le> ps_nbytes c"
        using law chunk_len_pos [OF less.prems(2), of "ps_nbytes c"] by linarith
      have "\<exists>n. 0 \<le> n \<and> ?p + n \<le> int (length whole) \<and> rest (ps_fd c') = drop (nat (?p + n)) whole \<and>
             (ps_nbytes c < 0 \<longrightarrow> rest (ps_fd c') = []) \<and> (0 \<le> ps_nbytes c \<longrightarrow> n \<le> ps_nbytes c) \<and>
             ps_wpos c' = ?w + (?l + n) \<and>
             copied F content (mem_of whole) p (ps_dest c) ?w (?l + n) (ps_dest c')"
        if "st = OP_STATE_SUCCESS"
      proof -
        from c'(3) [OF that] obtain n where n: "0 \<le> n" "?p + int (length bs) + n \<le> int (length whole)"
             "rest (ps_fd c') = drop (nat (?p + int (length bs) + n)) whole"
             "ps_nbytes c - int (length bs) < 0 \<longrightarrow> rest (ps_fd c') = []"
             "0 \<le> ps_nbytes c - int (length bs) \<longrightarrow> n \<le> ps_nbytes c - int (length bs)"
             "ps_wpos c' = ?w + ?l + (int (length bs) + n)"
             "copied F content (mem_of whole) ?p dest (?w + ?l) (int (length bs) + n) (ps_dest c')"
          by auto
        have "copied F content (mem_of whole) p (ps_dest c) ?w (?l + (int (length bs) + n)) (ps_dest c')"
          using copied_trans [OF cw n(7)] ok less.prems n(1) by simp
        with n lim show ?thesis
          by (intro exI [of _ "int (length bs) + n"]) (auto simp: add.assoc)
      qed
      with eq c' show ?thesis by auto
    qed
  qed
qed

lemma segment_put_func_correct:
  assumes rd: "\<And>f n bs g. 0 \<le> n \<Longrightarrow> frd f n = (bs, g) \<Longrightarrow> rest f = bs @ rest g \<and> int (length bs) \<le> n \<and>
      (bs = [] \<and> eof g \<longrightarrow> rest f = [])"
    and sc: "inv (sc_dest sc)" "2 \<le> sc_bufsize sc" "0 \<le> sc_dest_offset sc"
  shows "\<exists>status dest fd. segment_put_func F frd eof sc buf1 buf2 = Some (status, dest, fd) \<and>
    (op_state status = OP_STATE_SUCCESS \<longrightarrow> (\<exists>n. n \<le> length (rest (sc_fd sc)) \<and>
       rest fd = drop n (rest (sc_fd sc)) \<and> (sc_len sc < 0 \<longrightarrow> rest fd = []) \<and>
       (0 \<le> sc_len sc \<longrightarrow> int n \<le> sc_len sc) \<and>
       (\<forall>k < n. content dest (sc_dest_offset sc + int k) = rest (sc_fd sc) ! k)))"
proof -
  let ?b = "c_div (sc_bufsize sc) 2" and ?whole = "rest (sc_fd sc)"
  let ?r = "chunk_len (sc_len sc) ?b"
  have b: "0 < ?b" using sc by auto
  obtain tst dest where t: "fn_truncate F (sc_dest sc) (- (sc_dest_offset sc + sc_len sc)) = (tst, dest)"
    by (metis prod.exhaust)
  have dest: "inv dest" using truncate_law [OF sc(1) t] by simp
  obtain bs fd where f: "frd (sc_fd sc) ?r = (bs, fd)" by (metis prod.exhaust)
  have "0 \<le> ?r" using b by (simp add: chunk_len_def)
  note law = rd [OF this f]
  show ?thesis
  proof (cases "bs = []")
    case True
    with t f law show ?thesis
      by (auto simp: segment_put_func_def Let_def op_failure_status_def op_success_status_def
          intro!: exI [of _ "0::nat"])
  next
    case False
    let ?c = "\<lparr>ps_dest = dest, ps_fd = fd, ps_rbuf = mem_put buf1 0 bs,
                ps_wpos = sc_dest_offset sc, ps_rlen = int (length bs),
                ps_nbytes = sc_len sc - ?r, ps_wbuf = buf2\<rparr>"
    have whole: "?whole = bs @ rest fd" using law by simp
    have "\<exists>st c'. segment_put_loop F frd eof ?b ?c = Some (st, c') \<and>
           inv (ps_dest c') \<and> (st = OP_STATE_SUCCESS \<longrightarrow> (\<exists>n. 0 \<le> n \<and>
             0 + ps_rlen ?c + n \<le> int (length ?whole) \<and>
             rest (ps_fd c') = drop (nat (0 + ps_rlen ?c + n)) ?whole \<and>
             (ps_nbytes ?c < 0 \<longrightarrow> rest (ps_fd c') = []) \<and> (0 \<le> ps_nbytes ?c \<longrightarrow> n \<le> ps_nbytes ?c) \<and>
             ps_wpos c' = ps_wpos ?c + (ps_rlen ?c + n) \<and>
             copied F content (mem_of ?whole) 0 (ps_dest ?c) (ps_wpos ?c) (ps_rlen ?c + n) (ps_dest c')))"
      by (rule segment_put_loop_correct [OF rd])
        (use False dest sc b whole in \<open>auto simp: mem_of_def mem_put_def nth_append nat_less_iff\<close>)
    then obtain st c' where c': "segment_put_loop F frd eof ?b ?c = Some (st, c')" "inv (ps_dest c')"
      "st = OP_STATE_SUCCESS \<Longrightarrow> \<exists>n. 0 \<le> n \<and> int (length bs) + n \<le> int (length ?whole) \<and>
         rest (ps_fd c') = drop (nat (int (length bs) + n)) ?whole \<and>
         (sc_len sc - ?r < 0 \<longrightarrow> rest (ps_fd c') = []) \<and> (0 \<le> sc_len sc - ?r \<longrightarrow> n \<le> sc_len sc - ?r) \<and>
         ps_wpos c' = sc_dest_offset sc + (int (length bs) + n) \<and>
         copied F content (mem_of ?whole) 0 dest (sc_dest_offset sc) (int (length bs) + n) (ps_dest c')"
      by auto
    let ?d = "if sc_truncate sc = 1 then snd (fn_truncate F (ps_dest c') (ps_wpos c')) else ps_dest c'"
    have "\<exists>n. n \<le> length ?whole \<and> rest (ps_fd c') = drop n ?whole \<and>
       (sc_len sc < 0 \<longrightarrow> rest (ps_fd c') = []) \<and> (0 \<le> sc_len sc \<longrightarrow> int n \<le> sc_len sc) \<and>
       (\<forall>k < n. content ?d (sc_dest_offset sc + int k) = ?whole ! k)" if ok: "st = OP_STATE_SUCCESS"
    proof -
      from c'(3) [OF ok] obtain n where n: "0 \<le> n" "int (length bs) + n \<le> int (length ?whole)"
         "rest (ps_fd c') = drop (nat (int (length bs) + n)) ?whole"
         "sc_len sc - ?r < 0 \<longrightarrow> rest (ps_fd c') = []" "0 \<le> sc_len sc - ?r \<longrightarrow> n \<le> sc_len sc - ?r"
         "ps_wpos c' = sc_dest_offset sc + (int (length bs) + n)"
         "copied F content (mem_of ?whole) 0 dest (sc_dest_offset sc) (int (length bs) + n) (ps_dest c')"
        by auto
      have "content ?d (sc_dest_offset sc + int k) = ?whole ! k" if "k < nat (int (length bs) + n)" for k
        using truncate_copied [OF n(7) c'(2) sc(3), of "int k"] n(1,2,6) that
        by (simp add: mem_of_def)
      moreover have "?r \<le> sc_len sc" if "0 \<le> sc_len sc" using chunk_len_pos [OF b that] by simp
      moreover have "sc_len sc - ?r < 0" if "sc_len sc < 0" using that b by (simp add: chunk_len_def)
      ultimately show ?thesis
        using n law by (intro exI [of _ "nat (int (length bs) + n)"]) auto
    qed
    with c' False t f show ?thesis
      by (auto simp: segment_put_func_def Let_def op_failure_status_def op_success_status_def)
  qed
qed

end

section \<open>A requested length shorter than the first chunk\<close>

text \<open>
  Once the count of bytes left is negative it stays negative, every further read is a full
  chunk, and the loop can only end with a failed read or write.
\<close>

lemma segment_copy_loop_negative:
  assumes "segment_copy_loop F bufsize c = Some (st, c')" "cs_nbytes c < 0" "0 < bufsize"
  shows "st = OP_STATE_FAILURE"
proof -
  have "cs_nbytes c < 0 \<longrightarrow> 0 < bufsize \<longrightarrow> fst (st, c') = OP_STATE_FAILURE"
  proof (rule segment_copy_loop.raw_induct [where
        P = "\<lambda>F bufsize c r. cs_nbytes c < 0 \<longrightarrow> 0 < bufsize \<longrightarrow> fst r = OP_STATE_FAILURE",
        OF _ assms(1)], intro impI)
    fix loop :: "'a segment_fn \<Rightarrow> ex_off \<Rightarrow> 'a copy_state \<Rightarrow> (op_state \<times> 'a copy_state) option"
      and F bufsize c r
    assume IH: "\<And>F bufsize c r. loop F bufsize c = Some r \<Longrightarrow>
        cs_nbytes c < 0 \<longrightarrow> 0 < bufsize \<longrightarrow> fst r = OP_STATE_FAILURE"
      and eq: "(case segment_copy_pass F bufsize c of (st, c') \<Rightarrow>
          if st \<noteq> OP_STATE_SUCCESS then Some (OP_STATE_FAILURE, c')
          else if cs_rlen c' > 0 then loop F bufsize c' else Some (OP_STATE_SUCCESS, c')) = Some r"
      and neg: "cs_nbytes c < 0" and b: "0 < bufsize"
    have ch: "chunk_len (cs_nbytes c) bufsize = bufsize" using neg by (simp add: chunk_len_def)
    obtain st c' where pass: "segment_copy_pass F bufsize c = (st, c')" by (metis prod.exhaust)
    then have "cs_nbytes c' < 0" "0 < cs_rlen c'"
      using neg b by (auto simp: segment_copy_pass_def Let_def ch split: prod.splits)
    moreover have "(if st \<noteq> OP_STATE_SUCCESS then Some (OP_STATE_FAILURE, c')
          else if cs_rlen c' > 0 then loop F bufsize c' else Some (OP_STATE_SUCCESS, c')) = Some r"
      using eq unfolding pass by simp
    ultimately show "fst r = OP_STATE_FAILURE" using IH b by (auto split: if_splits)
  qed
  with assms show ?thesis by simp
qed

section \<open>Properties\<close>



text \<open>
  A copy with a requested length that is shorter than the first chunk never reports success:
  the first chunk is read at full size before the length is applied, the count of bytes left
  becomes negative, which the loop takes for "no limit", and it reads on until an operation
  fails.
\<close>

theorem segment_copy_short_length_fails:
  assumes "0 \<le> sc_len sc" "sc_len sc < fn_size F (sc_src sc) - sc_src_offset sc"
    and "sc_len sc < c_div (sc_bufsize sc) 2"
    and "segment_copy_func F sc bufa bufb = Some (status, src, dest)"
  shows "op_state status = OP_STATE_FAILURE"
proof -
  obtain st c where start: "segment_copy_start F sc bufa bufb = (st, c)" by (metis prod.exhaust)
  then have "cs_nbytes c < 0"
    using assms(1-3)
    by (auto simp: segment_copy_start_def Let_def chunk_len_def split: prod.splits if_splits)
  then have "segment_copy_loop F (c_div (sc_bufsize sc) 2) c = Some (lst, c') \<Longrightarrow> lst = OP_STATE_FAILURE"
    for lst c' using segment_copy_loop_negative assms(1,3) by fastforce
  with assms(4) start show ?thesis
    by (auto simp: segment_copy_func_def op_failure_status_def split: if_splits option.splits)
qed



text \<open>
  Storing a file into a segment. Every run of the routine ends. If it reports success, some
  prefix of the file was consumed, the destination holds exactly these bytes at the requested
  offset, at most the requested length was consumed, and without a length (a negative one) the
  whole file was.
\<close>

theorem segment_put_correct:
  assumes "segment_store F ok content"
    and "\<And>f n bs g. 0 \<le> n \<Longrightarrow> frd f n = (bs, g) \<Longrightarrow> rest f = bs @ rest g \<and> int (length bs) \<le> n \<and>
      (bs = [] \<and> eof g \<longrightarrow> rest f = [])"
    and "ok (sc_dest sc)" "2 \<le> sc_bufsize sc" "0 \<le> sc_dest_offset sc"
  shows "\<exists>status dest fd. segment_put_func F frd eof sc bufa bufb = Some (status, dest, fd) \<and>
    (op_state status = OP_STATE_SUCCESS \<longrightarrow> (\<exists>n. n \<le> length (rest (sc_fd sc)) \<and>
       rest fd = drop n (rest (sc_fd sc)) \<and> (sc_len sc < 0 \<longrightarrow> rest fd = []) \<and>
       (0 \<le> sc_len sc \<longrightarrow> int n \<le> sc_len sc) \<and>
       (\<forall>k < n. content dest (sc_dest_offset sc + int k) = rest (sc_fd sc) ! k)))"
  by (rule segment_store.segment_put_func_correct [OF assms])

end
