(* ===== verification/Interval_Skiplist.thy ===== *)
theory Interval_Skiplist
  imports Prelude
begin

text \<open>
  The interval skip list of the toolbox library, on which the log and the linear segment keep
  their maps. The library is not part of the repository: its operations are a parameter, the
  record \<open>isl_ops\<close>, and the locale \<open>interval_skiplist\<close> states what the segments rely on. An
  iterator is the list of the entries it still has to deliver.
\<close>

section \<open>The interface\<close>

record ('m, 'd) isl_ops =
  isl_empty :: 'm
  isl_insert :: "'m \<Rightarrow> ex_off \<Rightarrow> ex_off \<Rightarrow> 'd \<Rightarrow> 'm"
  isl_remove :: "'m \<Rightarrow> ex_off \<Rightarrow> ex_off \<Rightarrow> 'd \<Rightarrow> 'm"
  isl_search :: "'m \<Rightarrow> ex_off \<Rightarrow> ex_off \<Rightarrow> 'd list"
  isl_all :: "'m \<Rightarrow> 'd list"
  isl_count :: "'m \<Rightarrow> nat"

type_synonym 'd interval_entry = "ex_off \<times> ex_off \<times> 'd"

definition overlaps :: "ex_off \<Rightarrow> ex_off \<Rightarrow> 'd interval_entry \<Rightarrow> bool" where
  "overlaps lo hi e \<longleftrightarrow> fst e \<le> hi \<and> lo \<le> fst (snd e)"

locale interval_skiplist =
  fixes I :: "('m, 'd) isl_ops"
    and items :: "'m \<Rightarrow> 'd interval_entry multiset"
  assumes items_empty: "items (isl_empty I) = {#}"
    and items_insert: "lo \<le> hi \<Longrightarrow> items (isl_insert I m lo hi d) = add_mset (lo, hi, d) (items m)"
    and items_remove: "(lo, hi, d) \<in># items m \<Longrightarrow>
      items (isl_remove I m lo hi d) = items m - {#(lo, hi, d)#}"
    and items_search: "\<exists>es. isl_search I m lo hi = map (snd \<circ> snd) es \<and>
      mset es = filter_mset (overlaps lo hi) (items m) \<and> sorted (map fst es)"
    and items_all: "\<exists>es. isl_all I m = map (snd \<circ> snd) es \<and> mset es = items m \<and> sorted (map fst es)"
    and items_count: "isl_count I m = size (items m)"

section \<open>Disjoint intervals keyed by their data\<close>

text \<open>The entries that meet an extent, from position \<open>pos\<close> on, follow each other without a gap.\<close>

fun chain :: "('b \<Rightarrow> ex_off) \<Rightarrow> ('b \<Rightarrow> ex_off) \<Rightarrow> ex_off \<Rightarrow> ex_off \<Rightarrow> ex_off \<Rightarrow> 'b list \<Rightarrow> bool" where
  "chain klo khi lo hi pos [] \<longleftrightarrow> hi < pos"
| "chain klo khi lo hi pos (b # bs) \<longleftrightarrow>
     max lo (klo b) = pos \<and> pos \<le> hi \<and> pos \<le> khi b \<and> chain klo khi lo hi (khi b + 1) bs"

lemma chain_tile:
  assumes "sorted_wrt (\<lambda>d e. khi d < klo e) bs" "lo \<le> pos" "lo \<le> hi"
    and "\<And>b. b \<in> set bs \<Longrightarrow> klo b \<le> hi \<and> pos \<le> khi b \<and> klo b \<le> khi b \<and>
      (pos \<le> klo b \<or> pos = lo)"
    and "\<And>x. pos \<le> x \<Longrightarrow> x \<le> hi \<Longrightarrow> \<exists>b \<in> set bs. klo b \<le> x \<and> x \<le> khi b"
  shows "chain klo khi lo hi pos bs"
  using assms
proof (induction bs arbitrary: pos)
  case Nil
  then show ?case by (cases "pos \<le> hi") auto
next
  case (Cons b bs)
  note bb = Cons.prems(4) [of b]
  have le: "pos \<le> hi" using bb Cons.prems(3) by auto
  then obtain e where e: "e \<in> set (b # bs)" "klo e \<le> pos" "pos \<le> khi e"
    using Cons.prems(5) [of pos] by auto
  have first: "klo b \<le> pos"
  proof (cases "e = b")
    case False
    with e(1) Cons.prems(1) have "khi b < klo e" by auto
    with e(2) bb show ?thesis by simp
  qed (use e in simp)
  have "chain klo khi lo hi (khi b + 1) bs"
  proof (rule Cons.IH)
    fix c assume c: "c \<in> set bs"
    then have "khi b < klo c" using Cons.prems(1) by auto
    moreover have "klo c \<le> hi \<and> klo c \<le> khi c" using Cons.prems(4) [of c] c by simp
    ultimately show "klo c \<le> hi \<and> khi b + 1 \<le> khi c \<and> klo c \<le> khi c \<and>
        (khi b + 1 \<le> klo c \<or> khi b + 1 = lo)" by simp
  next
    fix x assume x: "khi b + 1 \<le> x" "x \<le> hi"
    then show "\<exists>c \<in> set bs. klo c \<le> x \<and> x \<le> khi c"
      using Cons.prems(5) [of x] bb by auto
  next
    show "lo \<le> khi b + 1" using bb Cons.prems(2) by simp
  qed (use Cons.prems in auto)
  with first le bb Cons.prems(2) show ?case by auto
qed

lemma chain_ge:
  "chain klo khi lo hi pos bs \<Longrightarrow> lo < pos \<Longrightarrow> c \<in> set bs \<Longrightarrow> pos \<le> klo c \<and> klo c \<le> hi \<and> pos \<le> hi"
proof (induction bs arbitrary: pos)
  case (Cons b bs)
  then show ?case by (cases "c = b") (auto, fastforce+)
qed simp

text \<open>
  Both segments store an entry under the bounds the entry itself carries, and keep the intervals
  disjoint. Under that discipline the container is a set of entries.
\<close>

definition keyed_disjoint :: "('d \<Rightarrow> ex_off) \<Rightarrow> ('d \<Rightarrow> ex_off) \<Rightarrow> 'd interval_entry multiset \<Rightarrow> bool" where
  "keyed_disjoint klo khi M \<longleftrightarrow>
     (\<forall>e \<in># M. fst e = klo (snd (snd e)) \<and> fst (snd e) = khi (snd (snd e)) \<and>
        klo (snd (snd e)) \<le> khi (snd (snd e))) \<and>
     (\<forall>e. count M e \<le> 1) \<and>
     (\<forall>e \<in># M. \<forall>f \<in># M. e \<noteq> f \<longrightarrow>
        khi (snd (snd e)) < klo (snd (snd f)) \<or> khi (snd (snd f)) < klo (snd (snd e)))"

definition entries :: "'d interval_entry multiset \<Rightarrow> 'd set" where
  "entries M = (snd \<circ> snd) ` set_mset M"

lemma entries_empty [simp]: "entries {#} = {}"
  by (simp add: entries_def)

lemma keyed_disjoint_empty [simp]: "keyed_disjoint klo khi {#}"
  by (simp add: keyed_disjoint_def)

lemma finite_entries [simp]: "finite (entries M)"
  by (simp add: entries_def)

lemma entries_memI: "(lo, hi, d) \<in># M \<Longrightarrow> d \<in> entries M"
  by (force simp: entries_def)

lemma entriesD:
  assumes "keyed_disjoint klo khi M" "d \<in> entries M"
  shows "(klo d, khi d, d) \<in># M" "klo d \<le> khi d"
  using assms by (fastforce simp: keyed_disjoint_def entries_def)+

lemma entries_disjoint:
  "keyed_disjoint klo khi M \<Longrightarrow> d \<in> entries M \<Longrightarrow> e \<in> entries M \<Longrightarrow> d \<noteq> e \<Longrightarrow>
   khi d < klo e \<or> khi e < klo d"
  by (fastforce simp: keyed_disjoint_def entries_def)

lemma keyed_disjoint_add:
  assumes "keyed_disjoint klo khi M" "klo d \<le> khi d"
    and "\<And>e. e \<in> entries M \<Longrightarrow> khi e < klo d \<or> khi d < klo e"
  shows "keyed_disjoint klo khi (add_mset (klo d, khi d, d) M)"
    and "entries (add_mset (klo d, khi d, d) M) = insert d (entries M)"
proof -
  have "(klo d, khi d, d) \<notin># M"
    using assms(2) assms(3) [OF entries_memI] by fastforce
  then have "count M (klo d, khi d, d) = 0" by (simp add: not_in_iff)
  moreover have "\<forall>f \<in># M. khi (snd (snd f)) < klo d \<or> khi d < klo (snd (snd f))"
    using assms(3) by (auto simp: entries_def)
  ultimately show "keyed_disjoint klo khi (add_mset (klo d, khi d, d) M)"
    using assms(1,2) unfolding keyed_disjoint_def by auto
qed (simp add: entries_def)

lemma keyed_disjoint_remove:
  assumes wf: "keyed_disjoint klo khi M" and d: "d \<in> entries M"
  shows "keyed_disjoint klo khi (M - {#(klo d, khi d, d)#})"
    and "entries (M - {#(klo d, khi d, d)#}) = entries M - {d}"
proof -
  note m = entriesD(1) [OF wf d]
  then have one: "count M (klo d, khi d, d) = 1"
    using wf by (metis count_greater_eq_one_iff keyed_disjoint_def le_antisym)
  have set: "set_mset (M - {#(klo d, khi d, d)#}) = set_mset M - {(klo d, khi d, d)}"
  proof -
    have "e \<in># M - {#(klo d, khi d, d)#} \<longleftrightarrow> e \<in># M \<and> e \<noteq> (klo d, khi d, d)" for e
      using one by (cases "e = (klo d, khi d, d)") (auto simp: in_diff_count not_in_iff)
    then show ?thesis by auto
  qed
  show "keyed_disjoint klo khi (M - {#(klo d, khi d, d)#})"
  proof -
    have le: "count M e \<le> 1" for e using wf unfolding keyed_disjoint_def by blast
    have "count (M - {#(klo d, khi d, d)#}) e \<le> 1" for e
      using le [of e] unfolding count_diff by linarith
    then show ?thesis using wf unfolding keyed_disjoint_def set by simp
  qed
  show "entries (M - {#(klo d, khi d, d)#}) = entries M - {d}"
  proof (intro equalityI subsetI)
    fix x assume "x \<in> entries (M - {#(klo d, khi d, d)#})"
    then obtain e where "e \<in># M" "e \<noteq> (klo d, khi d, d)" "x = snd (snd e)"
      unfolding entries_def set by (elim imageE) (simp, blast)
    then obtain lo hi where e: "(lo, hi, x) \<in># M" "(lo, hi, x) \<noteq> (klo d, khi d, d)"
      by (cases e) simp
    moreover have "lo = klo x" "hi = khi x" using wf e(1) by (auto simp: keyed_disjoint_def)
    ultimately show "x \<in> entries M - {d}" using entries_memI [OF e(1)] by blast
  next
    fix x assume x: "x \<in> entries M - {d}"
    then have "(klo x, khi x, x) \<in># M - {#(klo d, khi d, d)#}"
      using entriesD(1) [OF wf, of x] unfolding set by blast
    then show "x \<in> entries (M - {#(klo d, khi d, d)#})" by (rule entries_memI)
  qed
qed

locale keyed_intervals = interval_skiplist I items
  for I :: "('m, 'd) isl_ops" and items :: "'m \<Rightarrow> 'd interval_entry multiset" +
  fixes klo khi :: "'d \<Rightarrow> ex_off"
begin

abbreviation wf :: "'m \<Rightarrow> bool" where
  "wf m \<equiv> keyed_disjoint klo khi (items m)"

abbreviation ents :: "'m \<Rightarrow> 'd set" where
  "ents m \<equiv> entries (items m)"

lemma wf_empty: "wf (isl_empty I)" "ents (isl_empty I) = {}"
  by (simp_all add: items_empty)

lemma insert_entry:
  assumes "wf m" "klo d \<le> khi d" "\<And>e. e \<in> ents m \<Longrightarrow> khi e < klo d \<or> khi d < klo e"
  shows "wf (isl_insert I m (klo d) (khi d) d)"
    and "ents (isl_insert I m (klo d) (khi d) d) = insert d (ents m)"
  using keyed_disjoint_add [OF assms] by (simp_all add: items_insert [OF assms(2)])

lemma remove_entry:
  assumes "wf m" "d \<in> ents m"
  shows "wf (isl_remove I m (klo d) (khi d) d)"
    and "ents (isl_remove I m (klo d) (khi d) d) = ents m - {d}"
  using keyed_disjoint_remove [OF assms] by (simp_all add: items_remove [OF entriesD(1) [OF assms]])

lemma search_entries:
  assumes wf: "wf m"
  shows "set (isl_search I m lo hi) = {d \<in> ents m. klo d \<le> hi \<and> lo \<le> khi d}"
    and "sorted (map klo (isl_search I m lo hi))"
proof -
  obtain es where es: "isl_search I m lo hi = map (snd \<circ> snd) es"
    "mset es = filter_mset (overlaps lo hi) (items m)" "sorted (map fst es)"
    using items_search by blast
  have set: "set es = {e. e \<in># items m \<and> overlaps lo hi e}"
    using arg_cong [OF es(2), of set_mset] by simp
  have k: "fst e = klo (snd (snd e)) \<and> fst (snd e) = khi (snd (snd e))" if "e \<in> set es" for e
    using that wf unfolding set keyed_disjoint_def by blast
  show "set (isl_search I m lo hi) = {d \<in> ents m. klo d \<le> hi \<and> lo \<le> khi d}"
  proof (intro equalityI subsetI)
    fix d assume "d \<in> set (isl_search I m lo hi)"
    then obtain a b where e: "(a, b, d) \<in> set es" by (auto simp: es(1))
    with k [OF e] show "d \<in> {d \<in> ents m. klo d \<le> hi \<and> lo \<le> khi d}"
      using entries_memI [of a b d "items m"] by (simp add: set overlaps_def)
  next
    fix d assume "d \<in> {d \<in> ents m. klo d \<le> hi \<and> lo \<le> khi d}"
    then have "(klo d, khi d, d) \<in> set es"
      using entriesD(1) [OF wf] by (simp add: set overlaps_def)
    then show "d \<in> set (isl_search I m lo hi)" by (force simp: es(1))
  qed
  have "map klo (isl_search I m lo hi) = map fst es"
    using k by (auto simp: es(1))
  then show "sorted (map klo (isl_search I m lo hi))" using es(3) by simp
qed

lemma sorted_entries:
  assumes wf: "wf m" and es: "mset es \<subseteq># items m" "sorted (map fst es)"
  shows "sorted_wrt (\<lambda>d e. khi d < klo e) (map (snd \<circ> snd) es)"
proof -
  have mem: "e \<in># items m" if "e \<in> set es" for e using that mset_subset_eqD [OF es(1)] by simp
  have "count (mset es) e \<le> 1" for e
  proof -
    have "count (items m) e \<le> 1" using wf unfolding keyed_disjoint_def by blast
    then show ?thesis using mset_subset_eq_count [OF es(1), of e] by simp
  qed
  then have dist: "distinct es" by (metis distinct_count_atmost_1 count_mset_0_iff le_antisym
      less_one linorder_not_less count_mset_gt_0)
  have srt: "sorted_wrt (\<lambda>e f. fst e \<le> fst f) es" using es(2) by (simp add: sorted_wrt_map)
  have apart: "khi (snd (snd e)) < klo (snd (snd f))"
    if "e \<in> set es" "f \<in> set es" "e \<noteq> f" "fst e \<le> fst f" for e f
  proof -
    have "fst e = klo (snd (snd e))" "fst f = klo (snd (snd f))" "klo (snd (snd f)) \<le> khi (snd (snd f))"
      "khi (snd (snd e)) < klo (snd (snd f)) \<or> khi (snd (snd f)) < klo (snd (snd e))"
      using mem [OF that(1)] mem [OF that(2)] that(3) wf unfolding keyed_disjoint_def by blast+
    with that(4) show ?thesis by linarith
  qed
  have "sorted_wrt (\<lambda>e f. khi (snd (snd e)) < klo (snd (snd f))) es"
    unfolding sorted_wrt_iff_nth_less
  proof (intro allI impI)
    fix i j assume ij: "i < j" "j < length es"
    then have "fst (es ! i) \<le> fst (es ! j)" "es ! i \<noteq> es ! j"
      using srt dist by (simp_all add: sorted_wrt_iff_nth_less nth_eq_iff_index_eq)
    with ij show "khi (snd (snd (es ! i))) < klo (snd (snd (es ! j)))" by (intro apart) auto
  qed
  then show ?thesis by (simp add: sorted_wrt_map)
qed

lemma search_sorted:
  assumes wf: "wf m"
  shows "sorted_wrt (\<lambda>d e. khi d < klo e) (isl_search I m lo hi)"
proof -
  obtain es where "isl_search I m lo hi = map (snd \<circ> snd) es"
    "mset es = filter_mset (overlaps lo hi) (items m)" "sorted (map fst es)"
    using items_search by blast
  then show ?thesis using sorted_entries [OF wf, of es] by simp
qed

text \<open>Where the entries tile the extent, the search delivers them as a chain.\<close>

lemma search_chain_upto:
  assumes wf: "wf m" and rng: "lo \<le> ce" "ce \<le> hi"
    and tile: "\<forall>x. lo \<le> x \<and> x \<le> ce \<longrightarrow> (\<exists>b \<in> ents m. klo b \<le> x \<and> x \<le> khi b)"
    and past: "\<forall>b \<in> ents m. klo b \<le> hi \<longrightarrow> klo b \<le> ce"
  shows "chain klo khi lo ce lo (isl_search I m lo hi)"
proof (rule chain_tile)
  note se = search_entries(1) [OF wf, of lo hi]
  show "sorted_wrt (\<lambda>d e. khi d < klo e) (isl_search I m lo hi)" by (rule search_sorted [OF wf])
  fix x assume "lo \<le> x" "x \<le> ce"
  then show "\<exists>b \<in> set (isl_search I m lo hi). klo b \<le> x \<and> x \<le> khi b"
    using tile rng(2) unfolding se by fastforce
next
  fix b assume "b \<in> set (isl_search I m lo hi)"
  then show "klo b \<le> ce \<and> lo \<le> khi b \<and> klo b \<le> khi b \<and> (lo \<le> klo b \<or> lo = lo)"
    using search_entries(1) [OF wf, of lo hi] entriesD(2) [OF wf] past by auto
qed (use rng in auto)

lemma search_distinct:
  assumes wf: "wf m"
  shows "distinct (isl_search I m lo hi)"
proof -
  have "klo d \<le> khi d" if "d \<in> set (isl_search I m lo hi)" for d
    using that search_entries(1) [OF wf] entriesD(2) [OF wf] by blast
  then show ?thesis by (intro sorted_wrt_distinct [OF search_sorted [OF wf]]) force
qed

lemma search_hd:
  assumes "wf m" "isl_search I m lo hi = d # ds"
  shows "d \<in> ents m" "klo d \<le> hi" "lo \<le> khi d"
  using search_entries(1) [OF assms(1), of lo hi] assms(2) by auto

lemma search_Nil:
  assumes "wf m" "isl_search I m lo hi = []" "d \<in> ents m"
  shows "hi < klo d \<or> khi d < lo"
  using search_entries(1) [OF assms(1), of lo hi] assms(2,3) by (force simp: not_le)

lemma all_entries:
  assumes wf: "wf m"
  shows "set (isl_all I m) = ents m" and "sorted (map klo (isl_all I m))"
    and "length (isl_all I m) = isl_count I m"
proof -
  obtain es where es: "isl_all I m = map (snd \<circ> snd) es" "mset es = items m" "sorted (map fst es)"
    using items_all by blast
  show "set (isl_all I m) = ents m"
    using arg_cong [OF es(2), of set_mset] by (simp add: es(1) entries_def)
  have "map klo (isl_all I m) = map fst es"
    using wf unfolding es(1) es(2) [symmetric] keyed_disjoint_def by simp
  then show "sorted (map klo (isl_all I m))" using es(3) by simp
  show "length (isl_all I m) = isl_count I m"
    using arg_cong [OF es(2), of size] by (simp add: es(1) items_count)
qed

lemma all_sorted:
  assumes wf: "wf m"
  shows "sorted_wrt (\<lambda>d e. khi d < klo e) (isl_all I m)"
proof -
  obtain es where "isl_all I m = map (snd \<circ> snd) es" "mset es = items m" "sorted (map fst es)" using items_all by blast
  then show ?thesis using sorted_entries [OF wf, of es] by simp
qed

lemma all_unique:
  assumes wf: "wf m" and bs: "sorted_wrt (\<lambda>d e. khi d < klo e) bs" "set bs = ents m"
  shows "isl_all I m = bs"
proof -
  have le: "klo b \<le> khi b" if "b \<in> ents m" for b using entriesD(2) [OF wf that] .
  have strict: "sorted_wrt (<) (map klo cs)" if "sorted_wrt (\<lambda>d e. khi d < klo e) cs" "set cs = ents m" for cs
    unfolding sorted_wrt_map by (rule sorted_wrt_mono_rel [OF _ that(1)]) (use le that(2) in fastforce)
  have eq: "map klo (isl_all I m) = map klo bs"
    using strict [OF all_sorted [OF wf]] strict [OF bs] all_entries(1) [OF wf] bs(2) by (intro strict_sorted_equal) auto
  have "inj_on klo (ents m)"
  proof (rule inj_onI)
    fix d e assume "d \<in> ents m" "e \<in> ents m" "klo d = klo e"
    then show "d = e" using entries_disjoint [OF wf, of d e] le [of d] le [of e] by fastforce
  qed
  then show ?thesis using eq all_entries(1) [OF wf] bs(2) by (metis map_inj_on Un_absorb)
qed

lemma insert_sorted:
  assumes "wf m" "sorted_wrt (\<lambda>d e. khi d < klo e) bs" "\<forall>b \<in> set bs. klo b \<le> khi b"
    and "\<forall>b \<in> set bs. \<forall>e \<in> ents m. khi e < klo b"
  shows "wf (foldl (\<lambda>m b. isl_insert I m (klo b) (khi b) b) m bs) \<and>
    ents (foldl (\<lambda>m b. isl_insert I m (klo b) (khi b) b) m bs) = ents m \<union> set bs"
  using assms
proof (induction bs arbitrary: m)
  case (Cons b bs)
  have "wf (isl_insert I m (klo b) (khi b) b)" "ents (isl_insert I m (klo b) (khi b) b) = insert b (ents m)"
    using insert_entry [OF Cons.prems(1), of b] Cons.prems(3,4) by auto
  with Cons show ?case by auto
qed simp

end

section \<open>An interval list\<close>

text \<open>
  A list of intervals as the container, on which concrete runs are evaluated: entries are
  delivered in the order of their lower bounds.
\<close>

definition list_isl :: "('d interval_entry list, 'd) isl_ops" where
  "list_isl = \<lparr>
     isl_empty = [],
     isl_insert = (\<lambda>m lo hi d. (lo, hi, d) # m),
     isl_remove = (\<lambda>m lo hi d. remove1 (lo, hi, d) m),
     isl_search = (\<lambda>m lo hi. map (snd \<circ> snd) (sort_key fst (filter (overlaps lo hi) m))),
     isl_all = (\<lambda>m. map (snd \<circ> snd) (sort_key fst m)),
     isl_count = length\<rparr>"

lemma list_isl_sel [simp]:
  "isl_empty list_isl = []"
  "isl_insert list_isl m lo hi d = (lo, hi, d) # m"
  "isl_remove list_isl m lo hi d = remove1 (lo, hi, d) m"
  "isl_search list_isl m lo hi = map (snd \<circ> snd) (sort_key fst (filter (overlaps lo hi) m))"
  "isl_all list_isl m = map (snd \<circ> snd) (sort_key fst m)"
  "isl_count list_isl m = length m"
  by (simp_all add: list_isl_def)

interpretation list_isl: interval_skiplist list_isl mset
proof (unfold_locales, goal_cases)
  case (4 m lo hi)
  then show ?case
    by (intro exI [of _ "sort_key fst (filter (overlaps lo hi) m)"]) simp
next
  case (5 m)
  then show ?case by (intro exI [of _ "sort_key fst m"]) simp
qed auto

end
