(* ===== verification/Segment_Log.thy ===== *)
theory Segment_Log
  imports Segment Interval_Skiplist
begin

text \<open>
  The log-structured segment of \<open>src/segment_log.c\<close>. A write appends its data to a data segment
  and a range record to a table segment, and enters the range into an interval map from logical
  offsets to offsets in the data segment; bytes no range covers come from the base segment.
  Loading replays the table, merging writes the ranges back to the base.

  The interval map \<open>I\<close> is the toolbox container and \<open>F\<close> the driver table of the three child
  segments. The segment lock makes the locked regions single steps; a queue of operations is run
  in the order it was filled, and succeeds when all of its operations do.
\<close>

section \<open>Data\<close>

record slog_range =
  r_lo :: ex_off
  r_hi :: ex_off
  r_data_offset :: ex_off

record ('m, 'g) seglog_priv =
  table_seg :: 'g
  data_seg :: 'g
  base_seg :: 'g
  mapping :: 'm
  file_size :: ex_off
  log_size :: ex_off
  data_size :: ex_off
  soft_errors :: int
  hard_errors :: int

subsection \<open>The range record on disk\<close>

text \<open>
  A \<open>slog_range_t\<close> is written as it lies in memory: three signed 64-bit integers, little endian,
  24 bytes. On disk the second one is a length.
\<close>

fun enc_le :: "nat \<Rightarrow> int \<Rightarrow> byte list" where
  "enc_le 0 x = []"
| "enc_le (Suc n) x = word_of_int x # enc_le n (x div 256)"

fun dec_le :: "byte list \<Rightarrow> int" where
  "dec_le [] = 0"
| "dec_le (b # bs) = uint b + 256 * dec_le bs"

definition dec_off :: "byte list \<Rightarrow> ex_off" where
  "dec_off bs = (let u = dec_le bs in if u < 2 ^ 63 then u else u - 2 ^ 64)"

definition slog_range_size :: ex_off where "slog_range_size = 24"

definition slog_range_bytes :: "slog_range \<Rightarrow> byte list" where
  "slog_range_bytes r = enc_le 8 (r_lo r) @ enc_le 8 (r_hi r) @ enc_le 8 (r_data_offset r)"

definition slog_range_of_bytes :: "byte list \<Rightarrow> slog_range" where
  "slog_range_of_bytes bs =
     \<lparr>r_lo = dec_off (take 8 bs), r_hi = dec_off (take 8 (drop 8 bs)),
      r_data_offset = dec_off (take 8 (drop 16 bs))\<rparr>"

lemma length_enc_le [simp]: "length (enc_le n x) = n"
  by (induction n x rule: enc_le.induct) simp_all

lemma dec_le_enc_le: "dec_le (enc_le n x) = x mod 256 ^ n"
proof (induction n x rule: enc_le.induct)
  case (2 n x)
  have "uint (word_of_int x :: byte) = x mod 256" by (simp add: uint_word_of_int)
  moreover have "x mod 256 + 256 * (x div 256 mod 256 ^ n) = x mod (256 * 256 ^ n)"
    by (simp add: zmod_zmult2_eq)
  ultimately show ?case using 2 by simp
qed simp

definition off_fits :: "ex_off \<Rightarrow> bool" where
  "off_fits x \<longleftrightarrow> - (2 ^ 63) \<le> x \<and> x < 2 ^ 63"

lemma dec_off_enc_le: "off_fits x \<Longrightarrow> dec_off (enc_le 8 x) = x"
proof -
  assume x: "off_fits x"
  show ?thesis
  proof (cases "0 \<le> x")
    case True
    with x have "x mod 2 ^ 64 = x" by (simp add: off_fits_def)
    with x show ?thesis by (simp add: dec_off_def dec_le_enc_le off_fits_def)
  next
    case False
    have "x mod 2 ^ 64 = (x + 2 ^ 64) mod 2 ^ 64" by simp
    also have "\<dots> = x + 2 ^ 64" using x False by (intro mod_pos_pos_trivial) (auto simp: off_fits_def)
    finally have "x mod 2 ^ 64 = x + 2 ^ 64" .
    with x False show ?thesis by (simp add: dec_off_def dec_le_enc_le off_fits_def)
  qed
qed

lemma slog_range_codec:
  "off_fits (r_lo r) \<Longrightarrow> off_fits (r_hi r) \<Longrightarrow> off_fits (r_data_offset r) \<Longrightarrow>
   slog_range_of_bytes (slog_range_bytes r) = r"
  by (simp add: slog_range_of_bytes_def slog_range_bytes_def dec_off_enc_le)

lemma length_slog_range_bytes [simp]: "length (slog_range_bytes r) = 24"
  by (simp add: slog_range_bytes_def)

section \<open>The interval map\<close>

subsection \<open>Truncation\<close>

fun slog_remove_table :: "('m, slog_range) isl_ops \<Rightarrow> 'm \<Rightarrow> slog_range list \<Rightarrow> 'm" where
  "slog_remove_table I m [] = m"
| "slog_remove_table I m (r # rs) = slog_remove_table I (isl_remove I m (r_lo r) (r_hi r) r) rs"

text \<open>
  The dropping loop: ranges are collected from the iterator; a full table of 100 is removed from
  the map and the search starts again.
\<close>

partial_function (option) slog_drop_loop ::
  "('m, slog_range) isl_ops \<Rightarrow> ex_off \<Rightarrow> ex_off \<Rightarrow> 'm \<Rightarrow> slog_range list \<Rightarrow> slog_range list \<Rightarrow> 'm option" where
  "slog_drop_loop I lo hi m it r_table =
     (case it of
        [] \<Rightarrow> Some (slog_remove_table I m r_table)
      | ir # it' \<Rightarrow>
          if length (r_table @ [ir]) = 100 then
            (let m' = slog_remove_table I m (r_table @ [ir])
             in slog_drop_loop I lo hi m' (isl_search I m' lo hi) [])
          else slog_drop_loop I lo hi m it' (r_table @ [ir]))"

declare slog_drop_loop.simps [code]

text \<open>
  When the first range straddles the new end it is cut, and the restarted iterator has already
  delivered its first range when the loop begins.
\<close>

definition slog_truncate_range ::
  "('m, slog_range) isl_ops \<Rightarrow> ('m, 'g) seglog_priv \<Rightarrow> slog_range \<Rightarrow> ('m, 'g) seglog_priv option" where
  "slog_truncate_range I s r =
     (let lo = r_hi r + 1; hi = file_size s
      in case isl_search I (mapping s) lo hi of
           [] \<Rightarrow> Some (s\<lparr>file_size := r_hi r + 1\<rparr>)
         | ir # it \<Rightarrow>
             map_option (\<lambda>m. s\<lparr>mapping := m, file_size := r_hi r + 1\<rparr>)
               (if r_lo ir \<le> r_hi r then
                  (let m1 = isl_remove I (mapping s) (r_lo ir) (r_hi ir) ir;
                       ir' = ir\<lparr>r_hi := r_hi r\<rparr>;
                       m2 = isl_insert I m1 (r_lo ir') (r_hi ir') ir'
                   in slog_drop_loop I lo hi m2 (tl (isl_search I m2 lo hi)) [])
                else slog_drop_loop I lo hi (mapping s) it [ir]))"

subsection \<open>Insertion\<close>

text \<open>What becomes of one old range that overlaps the new one.\<close>

definition slog_insert_step ::
  "('m, slog_range) isl_ops \<Rightarrow> 'm \<Rightarrow> slog_range \<Rightarrow> slog_range \<Rightarrow> 'm" where
  "slog_insert_step I m r ir =
     (let m1 = isl_remove I m (r_lo ir) (r_hi ir) ir
      in if r_lo ir < r_lo r then
           (if r_hi ir > r_hi r then
              (let ir2 = \<lparr>r_lo = r_hi r + 1, r_hi = r_hi ir,
                          r_data_offset = r_data_offset ir + (r_hi r + 1 - r_lo ir)\<rparr>;
                   m2 = isl_insert I m1 (r_lo ir2) (r_hi ir2) ir2;
                   ir' = ir\<lparr>r_hi := r_lo r - 1\<rparr>
               in isl_insert I m2 (r_lo ir') (r_hi ir') ir')
            else
              (let ir' = ir\<lparr>r_hi := r_lo r - 1\<rparr>
               in isl_insert I m1 (r_lo ir') (r_hi ir') ir'))
         else if r_hi ir \<le> r_hi r then m1
         else
           (let ir' = ir\<lparr>r_lo := r_hi r + 1,
                         r_data_offset := r_data_offset ir + (r_hi r + 1 - r_lo ir)\<rparr>
            in isl_insert I m1 (r_lo ir') (r_hi ir') ir'))"

partial_function (option) slog_insert_loop ::
  "('m, slog_range) isl_ops \<Rightarrow> 'm \<Rightarrow> slog_range \<Rightarrow> 'm option" where
  "slog_insert_loop I m r =
     (case isl_search I m (r_lo r) (r_hi r) of
        [] \<Rightarrow> Some m
      | ir # it \<Rightarrow> slog_insert_loop I (slog_insert_step I m r ir) r)"

declare slog_insert_loop.simps [code]

text \<open>The new range is merged with the one before it when the data of the two is contiguous.\<close>

definition slog_combine ::
  "('m, slog_range) isl_ops \<Rightarrow> 'm \<Rightarrow> slog_range \<Rightarrow> 'm \<times> slog_range" where
  "slog_combine I m r =
     (case isl_search I m (r_lo r - 1) (r_hi r) of
        [] \<Rightarrow> (m, r)
      | ir # it \<Rightarrow>
          if r_data_offset ir + r_hi ir - r_lo ir + 1 = r_data_offset r then
            (isl_remove I m (r_lo ir) (r_hi ir) ir,
             r\<lparr>r_lo := r_lo ir, r_data_offset := r_data_offset ir\<rparr>)
          else (m, r))"

definition slog_insert_range ::
  "('m, slog_range) isl_ops \<Rightarrow> ('m, 'g) seglog_priv \<Rightarrow> slog_range \<Rightarrow> ('m, 'g) seglog_priv option" where
  "slog_insert_range I s r =
     (if r_lo r = -1 then slog_truncate_range I s r
      else
        map_option
          (\<lambda>m. let (m1, r1) = slog_combine I m r
               in s\<lparr>mapping := isl_insert I m1 (r_lo r1) (r_hi r1) r1,
                    file_size := (if r_hi r1 \<ge> file_size s then r_hi r1 + 1 else file_size s)\<rparr>)
          (slog_insert_loop I (mapping s) r))"

fun slog_insert_ranges ::
  "('m, slog_range) isl_ops \<Rightarrow> ('m, 'g) seglog_priv \<Rightarrow> slog_range list \<Rightarrow> ('m, 'g) seglog_priv option" where
  "slog_insert_ranges I s [] = Some s"
| "slog_insert_ranges I s (r # rs) =
     (case slog_insert_range I s r of None \<Rightarrow> None | Some s' \<Rightarrow> slog_insert_ranges I s' rs)"

section \<open>Writing\<close>

text \<open>The table records of a write: on disk \<open>r_hi\<close> is the length.\<close>

fun seglog_write_table :: "ex_off \<Rightarrow> ex_iovec list \<Rightarrow> slog_range list" where
  "seglog_write_table d [] = []"
| "seglog_write_table d (v # vs) =
     \<lparr>r_lo = iov_offset v, r_hi = iov_len v, r_data_offset = d\<rparr> # seglog_write_table (d + iov_len v) vs"

definition slog_disk_to_mem :: "slog_range \<Rightarrow> slog_range" where
  "slog_disk_to_mem r = r\<lparr>r_hi := r_lo r + r_hi r - 1\<rparr>"

definition seglog_write_func ::
  "('m, slog_range) isl_ops \<Rightarrow> 'g segment_fn \<Rightarrow> ('m, 'g) seglog_priv \<Rightarrow> ex_iovec list \<Rightarrow> mem \<Rightarrow> ex_off \<Rightarrow>
   (op_status \<times> ('m, 'g) seglog_priv) option" where
  "seglog_write_func I F s iov buffer boff =
     (let rs = seglog_write_table (data_size s) iov;
          nbytes = sum_list (map iov_len iov);
          table_offset = log_size s; data_offset = data_size s;
          tbytes = concat (map slog_range_bytes rs);
          s1 = s\<lparr>log_size := log_size s + int (length iov) * slog_range_size,
                 data_size := data_size s + nbytes\<rparr>;
          (dst, data') = fn_write F (data_seg s1) [ex_iovec_single data_offset nbytes] buffer boff;
          (tst, table') = fn_write F (table_seg s1)
             [ex_iovec_single table_offset (int (length iov) * slog_range_size)]
             (mem_put (\<lambda>_. 0) 0 tbytes) 0;
          s2 = s1\<lparr>data_seg := data', table_seg := table'\<rparr>
      in if both dst tst \<noteq> OP_STATE_SUCCESS then
           Some (op_failure_status, s2\<lparr>hard_errors := hard_errors s2 + 1\<rparr>)
         else map_option (\<lambda>s3. (op_success_status, s3))
                (slog_insert_ranges I s2 (map slog_disk_to_mem rs)))"

section \<open>Reading\<close>

text \<open>
  A read is turned into a list of child reads, each from the base or the data segment into a
  position of the buffer.
\<close>

datatype slog_read_task = FromBase ex_iovec ex_off | FromData ex_iovec ex_off

record slog_read_state =
  rd_pos :: ex_off
  rd_bpos :: ex_off
  rd_prev_end :: ex_off
  rd_tasks :: "slog_read_task list"

definition slog_read_hole :: "slog_range \<Rightarrow> ex_off \<Rightarrow> slog_read_state \<Rightarrow> slog_read_state" where
  "slog_read_hole ir prev_end t =
     (if prev_end \<noteq> r_lo ir - 1 then
        (let n = r_lo ir - rd_pos t
         in t\<lparr>rd_pos := rd_pos t + n, rd_bpos := rd_bpos t + n,
              rd_tasks := rd_tasks t @ [FromBase (ex_iovec_single (rd_pos t) n) (rd_bpos t)]\<rparr>)
      else t)"

definition slog_read_range :: "ex_off \<Rightarrow> ex_off \<Rightarrow> slog_range \<Rightarrow> slog_read_state \<Rightarrow> slog_read_state" where
  "slog_read_range lo hi ir t0 =
     (let prev_end = (if rd_prev_end t0 = -1 then (if r_lo ir > lo then lo else r_lo ir - 1)
                      else rd_prev_end t0);
          t = slog_read_hole ir prev_end t0;
          (off, n) =
            (if r_lo ir < lo then
               (r_data_offset ir + (lo - r_lo ir),
                if r_hi ir > hi then hi - rd_pos t + 1 else r_hi ir - rd_pos t + 1)
             else if r_hi ir \<le> hi then (r_data_offset ir, r_hi ir - rd_pos t + 1)
             else (r_data_offset ir, hi - rd_pos t + 1))
      in t\<lparr>rd_pos := rd_pos t + n, rd_bpos := rd_bpos t + n, rd_prev_end := r_hi ir,
           rd_tasks := rd_tasks t @ [FromData (ex_iovec_single off n) (rd_bpos t)]\<rparr>)"

fun slog_read_ranges :: "ex_off \<Rightarrow> ex_off \<Rightarrow> slog_range list \<Rightarrow> slog_read_state \<Rightarrow> slog_read_state" where
  "slog_read_ranges lo hi [] t = t"
| "slog_read_ranges lo hi (ir # it) t = slog_read_ranges lo hi it (slog_read_range lo hi ir t)"

text \<open>The tail of one extent: all of it, or what follows the last range, from the base.\<close>

definition slog_read_tail :: "ex_off \<Rightarrow> ex_off \<Rightarrow> slog_read_state \<Rightarrow> slog_read_state" where
  "slog_read_tail lo hi t =
     (if rd_prev_end t = -1 then
        (let n = hi - lo + 1
         in t\<lparr>rd_pos := rd_pos t + n, rd_bpos := rd_bpos t + n,
              rd_tasks := rd_tasks t @ [FromBase (ex_iovec_single lo n) (rd_bpos t)]\<rparr>)
      else if rd_prev_end t < hi then
        (let n = hi - (rd_prev_end t + 1) + 1
         in t\<lparr>rd_pos := rd_pos t + n, rd_bpos := rd_bpos t + n,
              rd_tasks := rd_tasks t @ [FromBase (ex_iovec_single (rd_pos t) n) (rd_bpos t)]\<rparr>)
      else t)"

definition slog_read_extent ::
  "('m, slog_range) isl_ops \<Rightarrow> 'm \<Rightarrow> ex_iovec \<Rightarrow> ex_off \<Rightarrow> slog_read_task list \<times> ex_off" where
  "slog_read_extent I m v bpos =
     (let lo = iov_offset v; hi = lo + iov_len v - 1;
          t = slog_read_ranges lo hi (isl_search I m lo hi)
                \<lparr>rd_pos = lo, rd_bpos = bpos, rd_prev_end = -1, rd_tasks = []\<rparr>;
          t' = slog_read_tail lo hi t
      in (rd_tasks t', rd_bpos t'))"

fun slog_read_plan ::
  "('m, slog_range) isl_ops \<Rightarrow> 'm \<Rightarrow> ex_iovec list \<Rightarrow> ex_off \<Rightarrow> slog_read_task list" where
  "slog_read_plan I m [] bpos = []"
| "slog_read_plan I m (v # vs) bpos =
     (let (ts, bpos') = slog_read_extent I m v bpos in ts @ slog_read_plan I m vs bpos')"

fun run_read_tasks ::
  "'g segment_fn \<Rightarrow> 'g \<Rightarrow> 'g \<Rightarrow> mem \<Rightarrow> slog_read_task list \<Rightarrow> op_state \<times> mem \<times> 'g \<times> 'g" where
  "run_read_tasks F base data buf [] = (OP_STATE_SUCCESS, buf, base, data)"
| "run_read_tasks F base data buf (FromBase v p # ts) =
     (case fn_read F base [v] buf p of (st, buf1, base1) \<Rightarrow>
        (case run_read_tasks F base1 data buf1 ts of (st2, buf2, base2, data2) \<Rightarrow>
           (both st st2, buf2, base2, data2)))"
| "run_read_tasks F base data buf (FromData v p # ts) =
     (case fn_read F data [v] buf p of (st, buf1, data1) \<Rightarrow>
        (case run_read_tasks F base data1 buf1 ts of (st2, buf2, base2, data2) \<Rightarrow>
           (both st st2, buf2, base2, data2)))"

definition seglog_read_func ::
  "('m, slog_range) isl_ops \<Rightarrow> 'g segment_fn \<Rightarrow> ('m, 'g) seglog_priv \<Rightarrow> ex_iovec list \<Rightarrow> mem \<Rightarrow> ex_off \<Rightarrow>
   op_status \<times> mem \<times> ('m, 'g) seglog_priv" where
  "seglog_read_func I F s iov buffer boff =
     (case run_read_tasks F (base_seg s) (data_seg s) buffer (slog_read_plan I (mapping s) iov boff) of
        (err, buf, base', data') \<Rightarrow>
          (let s1 = s\<lparr>base_seg := base', data_seg := data'\<rparr>
           in if err \<noteq> OP_STATE_SUCCESS then
                (op_failure_status, buf, s1\<lparr>hard_errors := hard_errors s1 + 1\<rparr>)
              else (op_success_status, buf, s1)))"

section \<open>Loading\<close>

definition slog_range_bad :: "slog_range \<Rightarrow> bool" where
  "slog_range_bad r \<longleftrightarrow>
     (r_lo r = 0 \<and> r_hi r = 0 \<and> r_data_offset r = 0) \<or> (r_hi r = 0 \<and> r_lo r \<noteq> -1)"

text \<open>
  One table record at offset \<open>i\<close>: it is read, skipped when blank or bad, otherwise its length is
  turned into an end offset and it is inserted. \<open>e\<close> counts the errors, \<open>b\<close> flags that the last
  record was bad.
\<close>

fun slog_load_loop ::
  "nat \<Rightarrow> ('m, slog_range) isl_ops \<Rightarrow> 'g segment_fn \<Rightarrow> ex_off \<Rightarrow> int \<Rightarrow> int \<Rightarrow> ('m, 'g) seglog_priv \<Rightarrow>
   (int \<times> int \<times> ('m, 'g) seglog_priv) option" where
  "slog_load_loop 0 I F i e b s = Some (e, b, s)"
| "slog_load_loop (Suc n) I F i e b s =
     (case fn_read F (table_seg s) [ex_iovec_single i slog_range_size] (\<lambda>_. 0) 0 of
        (st, buf, table') \<Rightarrow>
          (let s1 = s\<lparr>table_seg := table'\<rparr>;
               r = slog_range_of_bytes (mem_get buf 0 slog_range_size)
           in if st = OP_STATE_SUCCESS then
                (if slog_range_bad r then
                   slog_load_loop n I F (i + slog_range_size) (e + 1) 1 s1
                 else
                   (case slog_insert_range I s1 (slog_disk_to_mem r) of
                      None \<Rightarrow> None
                    | Some s2 \<Rightarrow> slog_load_loop n I F (i + slog_range_size) e 0 s2))
              else slog_load_loop n I F (i + slog_range_size) (e + 1) 1 s1))"

text \<open>The number of records the \<open>for\<close> loop visits: offsets below the log size in steps of 24.\<close>

definition slog_load_count :: "ex_off \<Rightarrow> nat" where
  "slog_load_count n = nat ((n + slog_range_size - 1) div slog_range_size)"

definition slog_load ::
  "('m, slog_range) isl_ops \<Rightarrow> 'g segment_fn \<Rightarrow> ('m, 'g) seglog_priv \<Rightarrow> (int \<times> ('m, 'g) seglog_priv) option" where
  "slog_load I F s =
     (let s1 = s\<lparr>file_size := fn_size F (base_seg s), log_size := fn_size F (table_seg s),
                 data_size := fn_size F (data_seg s)\<rparr>
      in case slog_load_loop (slog_load_count (log_size s1)) I F 0 0 0 s1 of
           None \<Rightarrow> None
         | Some (err_count, last_bad, s2) \<Rightarrow>
             Some (if err_count > 0 then (if err_count = 1 \<and> last_bad = 1 then 0 else 1) else 0, s2))"

section \<open>Truncating\<close>

text \<open>
  The record \<open>r\<close> that is written to the table is the one that is later inserted. The end offset
  is recomputed from it under the test \<open>new_size < file_size\<close>.
\<close>

definition seglog_truncate_func ::
  "('m, slog_range) isl_ops \<Rightarrow> 'g segment_fn \<Rightarrow> ('m, 'g) seglog_priv \<Rightarrow> ex_off \<Rightarrow>
   (op_status \<times> ('m, 'g) seglog_priv) option" where
  "seglog_truncate_func I F s new_size =
     (let table_write = (\<lambda>s r. fn_write F (table_seg s) [ex_iovec_single (log_size s) slog_range_size]
                                 (mem_put (\<lambda>_. 0) 0 (slog_range_bytes r)) 0);
          finish = (\<lambda>err s r.
             if err \<noteq> OP_STATE_SUCCESS then
               Some (op_failure_status, s\<lparr>hard_errors := hard_errors s + 1\<rparr>)
             else
               (let r' = (if new_size < file_size s then r\<lparr>r_hi := r_lo r + r_hi r - 1\<rparr> else r)
                in map_option (\<lambda>s'. (op_success_status, s')) (slog_insert_range I s r')))
      in if new_size < file_size s then
           (let r = \<lparr>r_lo = -1, r_hi = new_size - 1, r_data_offset = -1\<rparr>;
                (tst, table') = table_write s r;
                s1 = s\<lparr>table_seg := table', log_size := log_size s + slog_range_size\<rparr>
            in finish tst s1 r)
         else if new_size > file_size s then
           (let r = \<lparr>r_lo = file_size s - 1, r_hi = new_size - file_size s, r_data_offset = data_size s\<rparr>;
                (tst, table') = table_write s r;
                (dst, data') = fn_write F (data_seg s) [ex_iovec_single (data_size s + r_hi r - 1) 1]
                                 (\<lambda>_. 0) 0;
                s1 = s\<lparr>table_seg := table', data_seg := data', log_size := log_size s + slog_range_size,
                       data_size := data_size s + (new_size - file_size s)\<rparr>
            in finish (both tst dst) s1 r)
         else Some (op_success_status, s))"

definition seglog_truncate ::
  "('m, slog_range) isl_ops \<Rightarrow> 'g segment_fn \<Rightarrow> ('m, 'g) seglog_priv \<Rightarrow> ex_off \<Rightarrow>
   (op_status \<times> ('m, 'g) seglog_priv) option" where
  "seglog_truncate I F s new_size =
     (if new_size < 0 then Some (op_success_status, s) else seglog_truncate_func I F s new_size)"

section \<open>The operations on all children\<close>

definition seglog_remove ::
  "'g segment_fn \<Rightarrow> ('m, 'g) seglog_priv \<Rightarrow> op_state \<times> ('m, 'g) seglog_priv" where
  "seglog_remove F s =
     (let (t, table') = fn_remove F (table_seg s); (d, data') = fn_remove F (data_seg s);
          (b, base') = fn_remove F (base_seg s)
      in (both t (both d b), s\<lparr>table_seg := table', data_seg := data', base_seg := base'\<rparr>))"

definition seglog_inspect ::
  "'g segment_fn \<Rightarrow> ('m, 'g) seglog_priv \<Rightarrow> int \<Rightarrow> op_state \<times> ('m, 'g) seglog_priv" where
  "seglog_inspect F s mode =
     (let (t, table') = fn_inspect F (table_seg s) mode; (d, data') = fn_inspect F (data_seg s) mode;
          (b, base') = fn_inspect F (base_seg s) mode
      in (both t (both d b), s\<lparr>table_seg := table', data_seg := data', base_seg := base'\<rparr>))"

definition seglog_flush ::
  "'g segment_fn \<Rightarrow> ('m, 'g) seglog_priv \<Rightarrow> ex_off \<Rightarrow> ex_off \<Rightarrow> op_state \<times> ('m, 'g) seglog_priv" where
  "seglog_flush F s lo hi =
     (let (t, table') = fn_flush F (table_seg s) 0 (log_size s);
          (d, data') = fn_flush F (data_seg s) 0 (data_size s)
      in (both t d, s\<lparr>table_seg := table', data_seg := data'\<rparr>))"

definition seglog_size :: "('m, 'g) seglog_priv \<Rightarrow> ex_off" where
  "seglog_size s = file_size s"

definition seglog_block_size :: "('m, 'g) seglog_priv \<Rightarrow> ex_off" where
  "seglog_block_size s = 1"

definition seglog_signature :: "'g segment_fn \<Rightarrow> ('m, 'g) seglog_priv \<Rightarrow> string" where
  "seglog_signature F s =
     ''log(log)'' @ [CHR 0x0A] @ fn_signature F (table_seg s) @
     ''log(data)'' @ [CHR 0x0A] @ fn_signature F (data_seg s) @
     ''log(base)'' @ [CHR 0x0A] @ fn_signature F (base_seg s)"

text \<open>\<open>slog_make\<close> puts a log on top of a base, on a freshly created (cleared) state.\<close>

definition slog_make ::
  "('m, slog_range) isl_ops \<Rightarrow> 'g segment_fn \<Rightarrow> 'g \<Rightarrow> 'g \<Rightarrow> 'g \<Rightarrow> ('m, 'g) seglog_priv" where
  "slog_make I F table data base =
     \<lparr>table_seg = table, data_seg = data, base_seg = base, mapping = isl_empty I,
      file_size = fn_size F base, log_size = 0, data_size = 0, soft_errors = 0, hard_errors = 0\<rparr>"

section \<open>Merging the log into the base\<close>

text \<open>
  The state of a merge: the two children it touches, the transfer buffer, the reads and writes
  queued since the last flush, and the fill of the buffer.
\<close>

record 'g slog_merge =
  mg_base :: 'g
  mg_data :: 'g
  mg_buf :: mem
  mg_in :: "slog_read_task list"
  mg_out :: "(ex_iovec \<times> ex_off) list"
  mg_pos :: ex_off

fun run_writes :: "'g segment_fn \<Rightarrow> 'g \<Rightarrow> mem \<Rightarrow> (ex_iovec \<times> ex_off) list \<Rightarrow> op_state \<times> 'g" where
  "run_writes F base buf [] = (OP_STATE_SUCCESS, base)"
| "run_writes F base buf ((v, p) # ws) =
     (case fn_write F base [v] buf p of (st, base1) \<Rightarrow>
        (case run_writes F base1 buf ws of (st2, base2) \<Rightarrow> (both st st2, base2)))"

text \<open>A flush waits for the reads, then for the writes, and empties the buffer.\<close>

definition slog_merge_flush :: "'g segment_fn \<Rightarrow> 'g slog_merge \<Rightarrow> op_state \<times> 'g slog_merge" where
  "slog_merge_flush F g =
     (case run_read_tasks F (mg_base g) (mg_data g) (mg_buf g) (mg_in g) of (err, buf1, base1, data1) \<Rightarrow>
        (let g1 = g\<lparr>mg_base := base1, mg_data := data1, mg_buf := buf1, mg_in := []\<rparr>
         in if err \<noteq> OP_STATE_SUCCESS then (OP_STATE_FAILURE, g1)
            else (case run_writes F base1 buf1 (mg_out g) of (err2, base2) \<Rightarrow>
              (let g2 = g1\<lparr>mg_base := base2, mg_out := [], mg_pos := 0\<rparr>
               in if err2 \<noteq> OP_STATE_SUCCESS then (OP_STATE_FAILURE, g2) else (OP_STATE_SUCCESS, g2)))))"

text \<open>
  A range larger than the buffer is copied in chunks of the following length, at \<open>bpos = 0\<close> first.
  The first chunk is already longer than the buffer, so its read runs over the end of it.
\<close>

definition slog_chunk_len :: "ex_off \<Rightarrow> ex_off \<Rightarrow> ex_off \<Rightarrow> ex_off" where
  "slog_chunk_len bufsize bpos len = (if bpos + bufsize > len then len - bpos else len)"

lemma slog_first_chunk_overruns: "bufsize < len \<Longrightarrow> bufsize < slog_chunk_len bufsize 0 len"
  by (simp add: slog_chunk_len_def)

text \<open>The loop over the ranges, with \<open>n\<close> of them to go.\<close>

fun seglog_merge_loop ::
  "'g segment_fn \<Rightarrow> ex_off \<Rightarrow> nat \<Rightarrow> slog_range list \<Rightarrow> 'g slog_merge \<Rightarrow> (op_state \<times> 'g slog_merge) outcome" where
  "seglog_merge_loop F bufsize 0 it g =
     (let len = bufsize
      in Ret (if len > bufsize \<or> mg_pos g + len > bufsize then slog_merge_flush F g else (OP_STATE_SUCCESS, g)))"
| "seglog_merge_loop F bufsize (Suc n) [] g = Crash"
| "seglog_merge_loop F bufsize (Suc n) (r # it) g =
     (let len = r_hi r - r_lo r + 1;
          (err, g1) = (if len > bufsize \<or> mg_pos g + len > bufsize then slog_merge_flush F g
                       else (OP_STATE_SUCCESS, g))
      in if err \<noteq> OP_STATE_SUCCESS then Ret (OP_STATE_FAILURE, g1)
         else if len > bufsize then Crash
         else seglog_merge_loop F bufsize n it
           (g1\<lparr>mg_in := mg_in g1 @ [FromData (ex_iovec_single (r_data_offset r) len) (mg_pos g1)],
               mg_out := mg_out g1 @ [(ex_iovec_single (r_lo r) len, mg_pos g1)],
               mg_pos := mg_pos g1 + len\<rparr>))"

definition seglog_merge_with_base_func ::
  "('m, slog_range) isl_ops \<Rightarrow> 'g segment_fn \<Rightarrow> ('m, 'g) seglog_priv \<Rightarrow> ex_off \<Rightarrow> mem \<Rightarrow> int \<Rightarrow>
   (op_status \<times> ('m, 'g) seglog_priv) outcome option" where
  "seglog_merge_with_base_func I F s bufsize buffer truncate_old_log =
     (case seglog_merge_loop F bufsize (isl_count I (mapping s)) (isl_all I (mapping s))
             \<lparr>mg_base = base_seg s, mg_data = data_seg s, mg_buf = buffer, mg_in = [], mg_out = [], mg_pos = 0\<rparr> of
        Crash \<Rightarrow> Some Crash
      | Ret (err, g) \<Rightarrow>
          (let s1 = s\<lparr>base_seg := mg_base g, data_seg := mg_data g\<rparr>
           in if err \<noteq> OP_STATE_SUCCESS then Some (Ret (op_failure_status, s1))
              else if truncate_old_log = 1 then
                (case slog_truncate_range I s1 \<lparr>r_lo = -1, r_hi = 0 - 1, r_data_offset = -1\<rparr> of
                   None \<Rightarrow> None
                 | Some s2 \<Rightarrow>
                     (let (terr, table') = fn_truncate F (table_seg s2) 0;
                          (derr, data') = fn_truncate F (data_seg s2) 0;
                          s3 = s2\<lparr>table_seg := table', data_seg := data', log_size := 0, data_size := 0\<rparr>
                      in Some (Ret (if both terr derr \<noteq> OP_STATE_SUCCESS then op_failure_status
                                    else op_success_status, s3))))
              else Some (Ret (op_success_status, s1))))"

end
