(* ===== verification/Log_Correctness.thy ===== *)
theory Log_Correctness
  imports Segment_Log
begin

text \<open>
  Correctness of the log segment modelled in \<open>Segment_Log\<close>. The interval map is a function from
  logical offsets to offsets of the data segment (\<open>slog_lookup\<close>), and the segment serves the bytes
  of the log laid over the base (\<open>slog_byte\<close>). The locale \<open>slog_map\<close> holds what follows from the
  contract of the interval container, \<open>log_store\<close> adds the contract of the child segments; both are
  interpreted at the end, where the properties are stated.
\<close>

section \<open>Where a logical byte lives\<close>

text \<open>
  The position in the data segment of the byte at \<open>x\<close>, if the log holds it, and the byte the
  segment serves at \<open>x\<close>.
\<close>

definition slog_lookup :: "('m, slog_range) isl_ops \<Rightarrow> 'm \<Rightarrow> ex_off \<Rightarrow> ex_off option" where
  "slog_lookup I m x =
     (case isl_search I m x x of
        [] \<Rightarrow> None
      | r # rs \<Rightarrow> Some (r_data_offset r + (x - r_lo r)))"

definition slog_byte ::
  "('m, slog_range) isl_ops \<Rightarrow> ('g \<Rightarrow> mem) \<Rightarrow> ('m, 'g) seglog_priv \<Rightarrow> mem" where
  "slog_byte I content s x =
     (case slog_lookup I (mapping s) x of
        None \<Rightarrow> content (base_seg s) x
      | Some d \<Rightarrow> content (data_seg s) d)"

text \<open>The remains of an old range \<open>ir\<close> when \<open>r\<close> is laid over it.\<close>

definition slog_front :: "slog_range \<Rightarrow> slog_range \<Rightarrow> slog_range" where
  "slog_front r ir = ir\<lparr>r_hi := r_lo r - 1\<rparr>"

definition slog_back :: "slog_range \<Rightarrow> slog_range \<Rightarrow> slog_range" where
  "slog_back r ir = \<lparr>r_lo = r_hi r + 1, r_hi = r_hi ir,
     r_data_offset = r_data_offset ir + (r_hi r + 1 - r_lo ir)\<rparr>"

lemma slog_front_sel [simp]:
  "r_lo (slog_front r ir) = r_lo ir" "r_hi (slog_front r ir) = r_lo r - 1"
  "r_data_offset (slog_front r ir) = r_data_offset ir"
  by (simp_all add: slog_front_def)

lemma slog_back_sel [simp]:
  "r_lo (slog_back r ir) = r_hi r + 1" "r_hi (slog_back r ir) = r_hi ir"
  "r_data_offset (slog_back r ir) = r_data_offset ir + (r_hi r + 1 - r_lo ir)"
  by (simp_all add: slog_back_def)

lemma slog_piece_neq:
  "r_lo r \<le> r_hi ir \<Longrightarrow> ir \<noteq> slog_front r ir" "r_lo ir \<le> r_hi r \<Longrightarrow> ir \<noteq> slog_back r ir"
  using slog_front_sel(2) [of r ir] slog_back_sel(1) [of r ir] by (metis zle_diff1_eq less_irrefl,
    metis zless_add1_eq add1_zle_eq less_irrefl)

definition slog_pieces :: "slog_range \<Rightarrow> slog_range \<Rightarrow> slog_range set" where
  "slog_pieces r ir = (if r_lo ir < r_lo r then {slog_front r ir} else {}) \<union>
     (if r_hi r < r_hi ir then {slog_back r ir} else {})"

locale slog_map = keyed_intervals I items r_lo r_hi
  for I :: "('m, slog_range) isl_ops" and items
begin

lemma lookup_Some:
  assumes "wf m" "d \<in> ents m" "r_lo d \<le> x" "x \<le> r_hi d"
  shows "slog_lookup I m x = Some (r_data_offset d + (x - r_lo d))"
proof -
  have set: "set (isl_search I m x x) = {d \<in> ents m. r_lo d \<le> x \<and> x \<le> r_hi d}"
    by (rule search_entries(1) [OF assms(1)])
  with assms(2-4) obtain e es where es: "isl_search I m x x = e # es"
    by (cases "isl_search I m x x") auto
  have "e \<in> ents m" "r_lo e \<le> x" "x \<le> r_hi e" using search_hd [OF assms(1) es] .
  then have "e = d" using entries_disjoint [OF assms(1), of e d] assms(2-4) by fastforce
  with es show ?thesis by (simp add: slog_lookup_def)
qed

lemma lookup_None:
  assumes "wf m" "\<And>d. d \<in> ents m \<Longrightarrow> x < r_lo d \<or> r_hi d < x"
  shows "slog_lookup I m x = None"
proof -
  have "{d \<in> ents m. r_lo d \<le> x \<and> x \<le> r_hi d} = {}"
    using assms(2) by (auto simp flip: not_less)
  then have "set (isl_search I m x x) = {}" unfolding search_entries(1) [OF assms(1)] .
  then show ?thesis by (simp add: slog_lookup_def)
qed

lemma lookup_eqI:
  assumes "wf m" "wf m'"
    and "\<And>d. d \<in> ents m \<Longrightarrow> r_lo d \<le> x \<Longrightarrow> x \<le> r_hi d \<Longrightarrow>
          \<exists>d' \<in> ents m'. r_lo d' \<le> x \<and> x \<le> r_hi d' \<and> r_data_offset d' - r_lo d' = r_data_offset d - r_lo d"
    and "\<And>d'. d' \<in> ents m' \<Longrightarrow> r_lo d' \<le> x \<Longrightarrow> x \<le> r_hi d' \<Longrightarrow>
          \<exists>d \<in> ents m. r_lo d \<le> x \<and> x \<le> r_hi d"
  shows "slog_lookup I m' x = slog_lookup I m x"
proof (cases "\<exists>d \<in> ents m. r_lo d \<le> x \<and> x \<le> r_hi d")
  case True
  then obtain d where d: "d \<in> ents m" "r_lo d \<le> x" "x \<le> r_hi d" by blast
  from assms(3) [OF d] obtain d' where d': "d' \<in> ents m'" "r_lo d' \<le> x" "x \<le> r_hi d'"
    "r_data_offset d' - r_lo d' = r_data_offset d - r_lo d" by blast
  show ?thesis
    using lookup_Some [OF assms(1) d] lookup_Some [OF assms(2) d'(1-3)] d'(4) by simp
next
  case False
  then have "slog_lookup I m x = None" by (intro lookup_None [OF assms(1)]) force
  moreover have "slog_lookup I m' x = None"
    using False assms(4) by (intro lookup_None [OF assms(2)]) force
  ultimately show ?thesis by simp
qed

text \<open>One pass of the insertion loop replaces the overlapped range by its remains.\<close>

lemma insert_step_entries:
  assumes wf: "wf m" and ir: "ir \<in> ents m" "r_lo ir \<le> r_hi r" "r_lo r \<le> r_hi ir"
    and r: "r_lo r \<le> r_hi r"
  shows "wf (slog_insert_step I m r ir)"
    and "ents (slog_insert_step I m r ir) = (ents m - {ir}) \<union> slog_pieces r ir"
proof -
  define m1 where "m1 = isl_remove I m (r_lo ir) (r_hi ir) ir"
  have m1: "wf m1" "ents m1 = ents m - {ir}"
    using remove_entry [OF wf ir(1)] by (simp_all add: m1_def)
  have sep: "r_hi e < r_lo ir \<or> r_hi ir < r_lo e" if "e \<in> ents m1" for e
    using entries_disjoint [OF wf, of e ir] that ir(1) m1(2) by auto
  define m2 where "m2 = (if r_hi r < r_hi ir
      then isl_insert I m1 (r_lo (slog_back r ir)) (r_hi (slog_back r ir)) (slog_back r ir) else m1)"
  have m2: "wf m2 \<and> ents m2 = ents m1 \<union> (if r_hi r < r_hi ir then {slog_back r ir} else {})"
  proof (cases "r_hi r < r_hi ir")
    case True
    have "r_hi e < r_lo (slog_back r ir) \<or> r_hi (slog_back r ir) < r_lo e" if "e \<in> ents m1" for e
      using sep [OF that] ir by auto
    with insert_entry [OF m1(1), of "slog_back r ir"] True show ?thesis by (simp add: m2_def)
  qed (simp add: m2_def m1)
  have step: "slog_insert_step I m r ir = (if r_lo ir < r_lo r
      then isl_insert I m2 (r_lo (slog_front r ir)) (r_hi (slog_front r ir)) (slog_front r ir) else m2)"
    by (cases ir) (simp add: slog_insert_step_def Let_def m2_def m1_def slog_back_def slog_front_def)
  have all: "wf (slog_insert_step I m r ir) \<and>
      ents (slog_insert_step I m r ir) = ents m2 \<union> (if r_lo ir < r_lo r then {slog_front r ir} else {})"
  proof (cases "r_lo ir < r_lo r")
    case True
    have "r_hi e < r_lo (slog_front r ir) \<or> r_hi (slog_front r ir) < r_lo e" if "e \<in> ents m2" for e
      using that m2 sep ir r by (fastforce split: if_splits)
    with insert_entry [of m2 "slog_front r ir"] True m2 show ?thesis by (simp add: step)
  qed (simp add: step m2)
  show "wf (slog_insert_step I m r ir)" using all by blast
  show "ents (slog_insert_step I m r ir) = (ents m - {ir}) \<union> slog_pieces r ir"
    using all m2 m1(2) by (auto simp: slog_pieces_def)
qed

lemma slog_insert_loop_correct:
  assumes "wf m" "r_lo r \<le> r_hi r"
  shows "\<exists>m'. slog_insert_loop I m r = Some m' \<and> wf m' \<and>
    (\<forall>d \<in> ents m'. r_hi d < r_lo r \<or> r_hi r < r_lo d) \<and>
    (\<forall>x. x < r_lo r \<or> r_hi r < x \<longrightarrow> slog_lookup I m' x = slog_lookup I m x)"
  using assms(1)
proof (induction "card {d \<in> ents m. r_lo d \<le> r_hi r \<and> r_lo r \<le> r_hi d}" arbitrary: m rule: less_induct)
  case less
  let ?ov = "\<lambda>m. {d \<in> ents m. r_lo d \<le> r_hi r \<and> r_lo r \<le> r_hi d}"
  show ?case
  proof (cases "isl_search I m (r_lo r) (r_hi r)")
    case Nil
    with search_Nil [OF less.prems Nil] less.prems show ?thesis
      by (subst slog_insert_loop.simps) force
  next
    case (Cons ir it)
    note ir = search_hd [OF less.prems Cons]
    let ?m = "slog_insert_step I m r ir"
    note st = insert_step_entries [OF less.prems ir assms(2)]
    have "?ov ?m \<subseteq> ?ov m - {ir}"
      using slog_piece_neq(1) [of r ir] slog_piece_neq(2) [of ir r] ir
      by (auto simp: st(2) slog_pieces_def split: if_splits)
    moreover have "ir \<in> ?ov m" using ir by auto
    ultimately have "?ov ?m \<subset> ?ov m" by blast
    then have "card (?ov ?m) < card (?ov m)" by (intro psubset_card_mono) auto
    from less.hyps [OF this st(1)] obtain m' where
      m': "slog_insert_loop I ?m r = Some m'" "wf m'" "\<forall>d \<in> ents m'. r_hi d < r_lo r \<or> r_hi r < r_lo d"
        "\<And>x. x < r_lo r \<or> r_hi r < x \<Longrightarrow> slog_lookup I m' x = slog_lookup I ?m x" by blast
    have "slog_lookup I ?m x = slog_lookup I m x" if x: "x < r_lo r \<or> r_hi r < x" for x
    proof (rule lookup_eqI [OF less.prems st(1)], goal_cases)
      case (1 d)
      with x st(2) show ?case
        by (cases "d = ir") (fastforce simp: slog_pieces_def)+
    next
      case (2 d)
      with ir st(2) show ?case by (force simp: slog_pieces_def split: if_splits)
    qed
    with m' have "\<forall>x. x < r_lo r \<or> r_hi r < x \<longrightarrow> slog_lookup I m' x = slog_lookup I m x" by simp
    with m' Cons show ?thesis by (subst slog_insert_loop.simps) auto
  qed
qed

lemma slog_combine_correct:
  assumes wf: "wf m" and r: "r_lo r \<le> r_hi r"
    and free: "\<And>d. d \<in> ents m \<Longrightarrow> r_hi d < r_lo r \<or> r_hi r < r_lo d"
    and c: "slog_combine I m r = (m1, r1)"
  defines "m' \<equiv> isl_insert I m1 (r_lo r1) (r_hi r1) r1"
  shows "wf m'" "r_hi r1 = r_hi r"
    and "slog_lookup I m' x = (if r_lo r \<le> x \<and> x \<le> r_hi r then Some (r_data_offset r + (x - r_lo r))
      else slog_lookup I m x)"
proof -
  have "wf m' \<and> r_hi r1 = r_hi r \<and> r_lo r1 \<le> r_lo r \<and>
      r_data_offset r1 - r_lo r1 = r_data_offset r - r_lo r \<and>
      ents m' = insert r1 {d \<in> ents m. d \<noteq> r1 \<and> \<not> (r_lo r1 = r_lo d \<and> r_lo d < r_lo r)} \<and>
      (r_lo r1 < r_lo r \<longrightarrow>
        (\<exists>d \<in> ents m. r_lo d = r_lo r1 \<and> r_data_offset d = r_data_offset r1 \<and> r_hi d = r_lo r - 1))"
  proof (cases "m1 = m \<and> r1 = r")
    case True
    have "{d \<in> ents m. d \<noteq> r} = ents m" using free r by force
    moreover have "d \<in> ents m \<Longrightarrow> r_lo d = r_lo r \<Longrightarrow> False" for d
      using free [of d] r entriesD(2) [OF wf, of d] by simp
    ultimately show ?thesis
      using insert_entry [OF wf r free] True unfolding m'_def by auto
  next
    case False
    with c obtain ir it where ir: "isl_search I m (r_lo r - 1) (r_hi r) = ir # it"
      "r_data_offset ir + r_hi ir - r_lo ir + 1 = r_data_offset r"
      "m1 = isl_remove I m (r_lo ir) (r_hi ir) ir"
      "r1 = r\<lparr>r_lo := r_lo ir, r_data_offset := r_data_offset ir\<rparr>"
      unfolding slog_combine_def by (simp split: list.splits if_splits)
    note e = search_hd [OF wf ir(1)]
    have hi: "r_hi ir = r_lo r - 1" using free [OF e(1)] e r by auto
    have le: "r_lo ir \<le> r_hi ir" using entriesD(2) [OF wf e(1)] .
    note m1 = remove_entry [OF wf e(1), folded ir(3)]
    have r1: "r_lo r1 = r_lo ir" "r_hi r1 = r_hi r" "r_data_offset r1 = r_data_offset ir"
      by (simp_all add: ir(4))
    have sep: "r_hi d < r_lo r1 \<or> r_hi r1 < r_lo d" if "d \<in> ents m1" for d
    proof -
      have d: "d \<in> ents m" "d \<noteq> ir" using that m1(2) by auto
      from entries_disjoint [OF wf d(1) e(1) d(2)] free [OF d(1)] hi entriesD(2) [OF wf d(1)]
      show ?thesis unfolding r1 by linarith
    qed
    have set: "ents m - {ir} = {d \<in> ents m. d \<noteq> r1 \<and> \<not> (r_lo r1 = r_lo d \<and> r_lo d < r_lo r)}"
    proof (intro equalityI subsetI)
      fix d assume d: "d \<in> ents m - {ir}"
      then have "r_hi d < r_lo r1 \<or> r_hi r1 < r_lo d" "r_lo d \<le> r_hi d"
        using sep [of d] m1(2) entriesD(2) [OF wf, of d] by blast+
      moreover have "r_lo r1 \<le> r_hi r1" using r1 hi le r by linarith
      ultimately have "r_lo r1 \<noteq> r_lo d" by linarith
      with d show "d \<in> {d \<in> ents m. d \<noteq> r1 \<and> \<not> (r_lo r1 = r_lo d \<and> r_lo d < r_lo r)}" by blast
    qed (use r1(1) hi le in force)
    have "wf m' \<and> ents m' = insert r1 (ents m - {ir})"
      using insert_entry [OF m1(1) _ sep] m1(2) r1 hi le r unfolding m'_def by simp
    with r1 hi le ir(2) e(1) show ?thesis unfolding set by auto
  qed
  then have wf': "wf m'" and hi: "r_hi r1 = r_hi r" and lo: "r_lo r1 \<le> r_lo r"
    and shift: "r_data_offset r1 - r_lo r1 = r_data_offset r - r_lo r"
    and ents: "ents m' = insert r1 {d \<in> ents m. d \<noteq> r1 \<and> \<not> (r_lo r1 = r_lo d \<and> r_lo d < r_lo r)}"
    and pre: "r_lo r1 < r_lo r \<longrightarrow>
        (\<exists>d \<in> ents m. r_lo d = r_lo r1 \<and> r_data_offset d = r_data_offset r1 \<and> r_hi d = r_lo r - 1)"
    by blast+
  show "wf m'" "r_hi r1 = r_hi r" by (fact wf' hi)+
  show "slog_lookup I m' x = (if r_lo r \<le> x \<and> x \<le> r_hi r then Some (r_data_offset r + (x - r_lo r))
      else slog_lookup I m x)"
  proof (cases "r_lo r \<le> x \<and> x \<le> r_hi r")
    case True
    with lookup_Some [OF wf', of r1 x] ents hi lo shift show ?thesis by simp
  next
    case False
    have "slog_lookup I m' x = slog_lookup I m x"
    proof (rule lookup_eqI [OF wf wf'], goal_cases)
      case (1 d)
      show ?case
      proof (cases "d \<in> ents m'")
        case False
        with 1 ents have "r_lo r1 = r_lo d" "r_lo d < r_lo r" by auto
        with pre [rule_format] obtain d' where d': "d' \<in> ents m" "r_lo d' = r_lo r1" "r_data_offset d' = r_data_offset r1"
          "r_hi d' = r_lo r - 1" by auto
        with entries_disjoint [OF wf d'(1) 1(1)] 1 \<open>r_lo r1 = r_lo d\<close> \<open>r_lo d < r_lo r\<close>
        have "d' = d" by force
        with d' 1 ents hi r lo show ?thesis by (intro bexI [of _ r1]) auto
      qed (use 1 in auto)
    next
      case (2 d')
      show ?case
      proof (cases "d' = r1")
        case True
        with 2 False hi pre show ?thesis by fastforce
      qed (use 2 ents in auto)
    qed
    with False show ?thesis by auto
  qed
qed

lemma slog_insert_range_correct:
  assumes wf: "wf (mapping s)" and r: "r_lo r \<le> r_hi r" "r_lo r \<noteq> -1"
  shows "\<exists>m'. slog_insert_range I s r =
      Some (s\<lparr>mapping := m', file_size := max (file_size s) (r_hi r + 1)\<rparr>) \<and> wf m' \<and>
    (\<forall>x. slog_lookup I m' x = (if r_lo r \<le> x \<and> x \<le> r_hi r then Some (r_data_offset r + (x - r_lo r))
       else slog_lookup I (mapping s) x))"
proof -
  from slog_insert_loop_correct [OF wf r(1)] obtain m where
    m: "slog_insert_loop I (mapping s) r = Some m" "wf m" "\<forall>d \<in> ents m. r_hi d < r_lo r \<or> r_hi r < r_lo d"
      "\<forall>x. x < r_lo r \<or> r_hi r < x \<longrightarrow> slog_lookup I m x = slog_lookup I (mapping s) x" by blast
  obtain m1 r1 where c: "slog_combine I m r = (m1, r1)" by (metis prod.exhaust)
  from m(3) have free: "\<And>d. d \<in> ents m \<Longrightarrow> r_hi d < r_lo r \<or> r_hi r < r_lo d" by blast
  note cc = slog_combine_correct [OF m(2) r(1) free c]
  have "slog_insert_range I s r = Some (s\<lparr>mapping := isl_insert I m1 (r_lo r1) (r_hi r1) r1,
      file_size := max (file_size s) (r_hi r + 1)\<rparr>)"
    using r(2) m(1) c cc(2) by (simp add: slog_insert_range_def max_def)
  moreover note cc(1)
  moreover have "slog_lookup I (isl_insert I m1 (r_lo r1) (r_hi r1) r1) x =
      (if r_lo r \<le> x \<and> x \<le> r_hi r then Some (r_data_offset r + (x - r_lo r))
       else slog_lookup I (mapping s) x)" for x
    using cc(3) [of x] m(4) by (auto simp: not_le)
  ultimately show ?thesis by blast
qed

end

section \<open>Reading is correct\<close>

text \<open>
  A list of child reads laid end to end serves the logical bytes from \<open>p\<close> to \<open>p'\<close> into the buffer
  from \<open>b\<close> to \<open>b'\<close>, where \<open>lk\<close> says in which segment and where a logical byte lives.
\<close>

fun serves ::
  "(ex_off \<Rightarrow> ex_off option) \<Rightarrow> ex_off \<Rightarrow> ex_off \<Rightarrow> slog_read_task list \<Rightarrow> ex_off \<Rightarrow> ex_off \<Rightarrow> bool" where
  "serves lk p b [] p' b' \<longleftrightarrow> p' = p \<and> b' = b"
| "serves lk p b (FromBase v q # ts) p' b' \<longleftrightarrow>
     q = b \<and> iov_offset v = p \<and> 0 < iov_len v \<and>
     (\<forall>x. p \<le> x \<and> x < p + iov_len v \<longrightarrow> lk x = None) \<and>
     serves lk (p + iov_len v) (b + iov_len v) ts p' b'"
| "serves lk p b (FromData v q # ts) p' b' \<longleftrightarrow>
     q = b \<and> 0 < iov_len v \<and>
     (\<forall>x. p \<le> x \<and> x < p + iov_len v \<longrightarrow> lk x = Some (iov_offset v + (x - p))) \<and>
     serves lk (p + iov_len v) (b + iov_len v) ts p' b'"

lemma serves_append:
  "serves lk p b ts p1 b1 \<Longrightarrow> serves lk p1 b1 us p2 b2 \<Longrightarrow> serves lk p b (ts @ us) p2 b2"
  by (induction lk p b ts p1 b1 rule: serves.induct) auto


text \<open>The state between two ranges of an extent.\<close>

definition slog_read_inv ::
  "(ex_off \<Rightarrow> ex_off option) \<Rightarrow> ex_off \<Rightarrow> ex_off \<Rightarrow> ex_off \<Rightarrow> slog_range list \<Rightarrow> slog_read_state \<Rightarrow> bool" where
  "slog_read_inv lk lo hi b es t \<longleftrightarrow>
     sorted_wrt (\<lambda>d e. r_hi d < r_lo e) es \<and>
     (\<forall>d \<in> set es. r_lo d \<le> r_hi d \<and> r_lo d \<le> hi \<and> lo \<le> r_hi d) \<and>
     (rd_prev_end t = -1 \<and> rd_pos t = lo \<and> (es \<noteq> [] \<longrightarrow> r_lo (hd es) \<noteq> lo + 1) \<or>
      lo \<le> rd_prev_end t \<and> rd_pos t = min (rd_prev_end t) hi + 1 \<and> (\<forall>d \<in> set es. rd_prev_end t < r_lo d)) \<and>
     (\<forall>d \<in> set es. \<forall>x. r_lo d \<le> x \<and> x \<le> r_hi d \<longrightarrow> lk x = Some (r_data_offset d + (x - r_lo d))) \<and>
     (\<forall>x. rd_pos t \<le> x \<and> x \<le> hi \<and> (\<forall>d \<in> set es. x < r_lo d \<or> r_hi d < x) \<longrightarrow> lk x = None) \<and>
     serves lk lo b (rd_tasks t) (rd_pos t) (rd_bpos t)"

lemma slog_read_hole_served:
  assumes "serves lk lo b (rd_tasks t) (rd_pos t) (rd_bpos t)"
    and "pe \<noteq> r_lo d - 1 \<longrightarrow> rd_pos t < r_lo d"
    and "\<forall>x. rd_pos t \<le> x \<and> x < r_lo d \<longrightarrow> lk x = None"
  defines "t' \<equiv> slog_read_hole d pe t"
  shows "serves lk lo b (rd_tasks t') (rd_pos t') (rd_bpos t')"
    "rd_pos t' = (if pe \<noteq> r_lo d - 1 then r_lo d else rd_pos t)"
  unfolding t'_def using assms(1-3)
  by (auto simp: slog_read_hole_def Let_def intro!: serves_append [OF assms(1)])

lemma slog_read_range_inv:
  assumes inv: "slog_read_inv lk lo hi b (d # es) t" and lo: "0 \<le> lo" "lo \<le> hi"
  shows "slog_read_inv lk lo hi b es (slog_read_range lo hi d t)"
proof -
  define pe where "pe = (if rd_prev_end t = -1 then (if r_lo d > lo then lo else r_lo d - 1)
    else rd_prev_end t)"
  define t1 where "t1 = slog_read_hole d pe t"
  have d: "r_lo d \<le> r_hi d" "r_lo d \<le> hi" "lo \<le> r_hi d"
    and es: "\<And>e. e \<in> set es \<Longrightarrow> r_hi d < r_lo e"
    and lkd: "\<And>x. r_lo d \<le> x \<Longrightarrow> x \<le> r_hi d \<Longrightarrow> lk x = Some (r_data_offset d + (x - r_lo d))"
    and none: "\<And>x. rd_pos t \<le> x \<Longrightarrow> x \<le> hi \<Longrightarrow> x < r_lo d \<or> r_hi d < x \<Longrightarrow>
      (\<And>e. e \<in> set es \<Longrightarrow> x < r_lo e \<or> r_hi e < x) \<Longrightarrow> lk x = None"
    and sv: "serves lk lo b (rd_tasks t) (rd_pos t) (rd_bpos t)"
    using inv by (auto simp: slog_read_inv_def)
  have st: "rd_prev_end t = -1 \<and> rd_pos t = lo \<and> r_lo d \<noteq> lo + 1 \<or>
      lo \<le> rd_prev_end t \<and> rd_pos t = min (rd_prev_end t) hi + 1 \<and> rd_prev_end t < r_lo d"
    using inv by (auto simp: slog_read_inv_def)
  have hole: "pe \<noteq> r_lo d - 1 \<longrightarrow> rd_pos t < r_lo d" "pe = r_lo d - 1 \<longrightarrow> rd_pos t = max lo (r_lo d)"
    using st d(2) lo by (auto simp: pe_def min_def max_def split: if_splits)
  have gap: "lk x = None" if "rd_pos t \<le> x \<and> x < r_lo d" for x
    using none [of x] that d es by fastforce
  have "\<forall>x. rd_pos t \<le> x \<and> x < r_lo d \<longrightarrow> lk x = None" using gap by blast
  note h = slog_read_hole_served [OF sv hole(1) this, folded t1_def]
  have pos1: "rd_pos t1 = max lo (r_lo d)"
    using h(2) hole st lo by (auto simp: max_def min_def split: if_splits)
  define n where "n = min (r_hi d) hi - rd_pos t1 + 1"
  have n: "0 < n" unfolding n_def pos1 using d lo by auto
  have step: "slog_read_range lo hi d t = t1\<lparr>rd_pos := rd_pos t1 + n, rd_bpos := rd_bpos t1 + n,
      rd_prev_end := r_hi d, rd_tasks := rd_tasks t1 @
        [FromData (ex_iovec_single (r_data_offset d + (rd_pos t1 - r_lo d)) n) (rd_bpos t1)]\<rparr>"
    unfolding slog_read_range_def pe_def [symmetric] t1_def [symmetric] Let_def n_def
    using pos1 by (auto simp: min_def max_def)
  have "serves lk (rd_pos t1) (rd_bpos t1)
      [FromData (ex_iovec_single (r_data_offset d + (rd_pos t1 - r_lo d)) n) (rd_bpos t1)]
      (rd_pos t1 + n) (rd_bpos t1 + n)"
    using n lkd by (auto simp: n_def pos1)
  from serves_append [OF h(1) this] have "serves lk lo b (rd_tasks (slog_read_range lo hi d t))
      (rd_pos (slog_read_range lo hi d t)) (rd_bpos (slog_read_range lo hi d t))"
    unfolding step by simp
  moreover have "rd_pos (slog_read_range lo hi d t) = min (r_hi d) hi + 1"
    "rd_prev_end (slog_read_range lo hi d t) = r_hi d" unfolding step by (simp_all add: n_def)
  moreover have "lk x = None" if "min (r_hi d) hi + 1 \<le> x" "x \<le> hi" "\<forall>e \<in> set es. x < r_lo e \<or> r_hi e < x" for x
  proof (rule none)
    show "rd_pos t \<le> x" using that(1,2) st d lo by auto
  qed (use that d in auto)
  ultimately show ?thesis using inv d es unfolding slog_read_inv_def by auto
qed

lemma slog_read_ranges_served:
  assumes "slog_read_inv lk lo hi b es t" and lo: "0 \<le> lo" "lo \<le> hi"
  defines "t' \<equiv> slog_read_tail lo hi (slog_read_ranges lo hi es t)"
  shows "serves lk lo b (rd_tasks t') (hi + 1) (rd_bpos t')"
  using assms(1) unfolding t'_def
proof (induction es arbitrary: t)
  case Nil
  then have sv: "serves lk lo b (rd_tasks t) (rd_pos t) (rd_bpos t)"
    and none: "\<And>x. rd_pos t \<le> x \<Longrightarrow> x \<le> hi \<Longrightarrow> lk x = None"
    and st: "rd_prev_end t = -1 \<and> rd_pos t = lo \<or>
      lo \<le> rd_prev_end t \<and> rd_pos t = min (rd_prev_end t) hi + 1"
    by (auto simp: slog_read_inv_def)
  from st consider "rd_prev_end t = -1" "rd_pos t = lo"
    | "lo \<le> rd_prev_end t" "rd_prev_end t < hi" "rd_pos t = rd_prev_end t + 1"
    | "hi \<le> rd_prev_end t" "rd_pos t = hi + 1" by linarith
  then show ?case
  proof cases
    case 1
    then show ?thesis using none lo
      by (simp add: slog_read_tail_def Let_def) (rule serves_append [OF sv], simp)
  next
    case 2
    then show ?thesis using none lo
      by (simp add: slog_read_tail_def Let_def) (rule serves_append [OF sv], simp)
  next
    case 3
    then show ?thesis using sv lo by (simp add: slog_read_tail_def)
  qed
next
  case (Cons d es)
  with slog_read_range_inv [OF Cons.prems lo] show ?case by simp
qed

context slog_map
begin

text \<open>
  The plan of one extent serves exactly its bytes, unless the extent begins with a hole of a
  single byte in front of a range.
\<close>

lemma slog_read_extent_served:
  assumes wf: "wf m" and v: "0 \<le> iov_offset v" "0 < iov_len v"
    and hole: "iov_len v = 1 \<or> slog_lookup I m (iov_offset v) \<noteq> None \<or>
      slog_lookup I m (iov_offset v + 1) = None"
    and e: "slog_read_extent I m v b = (ts, b')"
  shows "serves (slog_lookup I m) (iov_offset v) b ts (iov_offset v + iov_len v) b'"
proof -
  define lo hi where "lo = iov_offset v" and "hi = iov_offset v + iov_len v - 1"
  define es where "es = isl_search I m lo hi"
  define t where "t = \<lparr>rd_pos = lo, rd_bpos = b, rd_prev_end = -1, rd_tasks = []\<rparr>"
  note set = search_entries(1) [OF wf, of lo hi, folded es_def]
  have in_es: "d \<in> set es \<longleftrightarrow> d \<in> ents m \<and> r_lo d \<le> hi \<and> lo \<le> r_hi d" for d by (simp add: set)
  have "slog_read_inv (slog_lookup I m) lo hi b es t"
    unfolding slog_read_inv_def
  proof (intro conjI ballI allI impI)
    show "sorted_wrt (\<lambda>d e. r_hi d < r_lo e) es"
      unfolding es_def by (rule search_sorted [OF wf])
    fix d assume "d \<in> set es"
    then have d: "d \<in> ents m" "r_lo d \<le> hi" "lo \<le> r_hi d" by (simp_all add: in_es)
    then show "r_lo d \<le> r_hi d" "r_lo d \<le> hi" "lo \<le> r_hi d" using entriesD(2) [OF wf] by simp_all
    fix x assume "r_lo d \<le> x \<and> x \<le> r_hi d"
    with lookup_Some [OF wf d(1)] show "slog_lookup I m x = Some (r_data_offset d + (x - r_lo d))" by simp
  next
    fix x assume x: "rd_pos t \<le> x \<and> x \<le> hi \<and> (\<forall>d \<in> set es. x < r_lo d \<or> r_hi d < x)"
    show "slog_lookup I m x = None"
      by (rule lookup_None [OF wf]) (use x in_es in \<open>force simp: t_def\<close>)
  next
    have "r_lo (hd es) \<noteq> lo + 1" if "es \<noteq> []"
    proof
      assume first: "r_lo (hd es) = lo + 1"
      have hd: "hd es \<in> ents m" "r_lo (hd es) \<le> hi" "lo \<le> r_hi (hd es)"
        using in_es [of "hd es"] that by simp_all
      then have "slog_lookup I m (lo + 1) \<noteq> None"
        using lookup_Some [OF wf hd(1), of "lo + 1"] first entriesD(2) [OF wf hd(1)] by simp
      moreover have "slog_lookup I m lo = None"
      proof (rule lookup_None [OF wf])
        fix d assume d: "d \<in> ents m"
        show "lo < r_lo d \<or> r_hi d < lo"
        proof (cases "d \<in> set es")
          case True
          with search_sorted [OF wf, of lo hi, folded es_def] that first hd entriesD(2) [OF wf hd(1)]
          show ?thesis by (cases es) auto
        next
          case False
          with d in_es [of d] have "hi < r_lo d \<or> r_hi d < lo" by linarith
          with v show ?thesis unfolding lo_def hi_def by linarith
        qed
      qed
      ultimately show False using hole first hd(2) unfolding lo_def hi_def by auto
    qed
    then show "rd_prev_end t = -1 \<and> rd_pos t = lo \<and> (es \<noteq> [] \<longrightarrow> r_lo (hd es) \<noteq> lo + 1) \<or>
      lo \<le> rd_prev_end t \<and> rd_pos t = min (rd_prev_end t) hi + 1 \<and> (\<forall>d \<in> set es. rd_prev_end t < r_lo d)"
      by (simp add: t_def)
  qed (simp add: t_def)
  from slog_read_ranges_served [OF this] e v show ?thesis
    by (auto simp: slog_read_extent_def Let_def lo_def hi_def es_def t_def)
qed

end

section \<open>Truncating the interval map\<close>

context slog_map
begin

lemma slog_remove_table_entries:
  assumes "wf m" "distinct rs" "set rs \<subseteq> ents m"
  shows "wf (slog_remove_table I m rs) \<and> ents (slog_remove_table I m rs) = ents m - set rs"
  using assms
proof (induction rs arbitrary: m)
  case (Cons r rs)
  then have r: "r \<in> ents m" by simp
  note rm = remove_entry [OF Cons.prems(1) r]
  have "set rs \<subseteq> ents (isl_remove I m (r_lo r) (r_hi r) r)" using Cons.prems rm(2) by auto
  with Cons.IH [OF rm(1)] Cons.prems rm(2) show ?case by auto
qed simp

abbreviation ovl :: "'m \<Rightarrow> ex_off \<Rightarrow> ex_off \<Rightarrow> slog_range set" where
  "ovl m lo hi \<equiv> {d \<in> ents m. r_lo d \<le> hi \<and> lo \<le> r_hi d}"

text \<open>
  The dropping loop ends, drops all that it is given, and never more than what overlaps the
  dropped part.
\<close>

lemma slog_drop_loop_correct:
  assumes "wf m" "distinct (rt @ it)" "set (rt @ it) \<subseteq> ovl m lo hi" "length rt < 100"
  shows "\<exists>m'. slog_drop_loop I lo hi m it rt = Some m' \<and> wf m' \<and>
    ents m - ovl m lo hi \<subseteq> ents m' \<and> ents m' \<subseteq> ents m - set (rt @ it)"
  using assms
proof (induction "card (ents m)" arbitrary: m it rt rule: less_induct)
  case less
  note outer = less.hyps
  from less.prems show ?case
  proof (induction it arbitrary: rt)
    case Nil
    then have "set rt \<subseteq> ents m" by auto
    with slog_remove_table_entries [OF Nil.prems(1), of rt] Nil.prems show ?case
      by (subst slog_drop_loop.simps) auto
  next
    case (Cons ir it)
    show ?case
    proof (cases "length (rt @ [ir]) = 100")
      case False
      then have "length (rt @ [ir]) < 100" using Cons.prems(4) by simp
      with Cons.IH [of "rt @ [ir]"] Cons.prems False show ?thesis
        by (subst slog_drop_loop.simps) simp
    next
      case True
      let ?m = "slog_remove_table I m (rt @ [ir])" and ?it = "\<lambda>m. isl_search I m lo hi"
      have rm: "wf ?m" "ents ?m = ents m - set (rt @ [ir])"
        using slog_remove_table_entries [OF Cons.prems(1), of "rt @ [ir]"] Cons.prems(2,3) by auto
      have "ir \<in> ents m" using Cons.prems(3) by simp
      then have "card (ents ?m) < card (ents m)"
        unfolding rm(2) by (intro psubset_card_mono) auto
      note IH = outer [OF this rm(1), of "[]" "?it ?m"]
      have it: "set (?it ?m) = ovl ?m lo hi" by (rule search_entries(1) [OF rm(1)])
      have "distinct (?it ?m)" by (rule search_distinct [OF rm(1)])
      with IH it obtain m' where m': "slog_drop_loop I lo hi ?m (?it ?m) [] = Some m'" "wf m'"
        "ents ?m - ovl ?m lo hi \<subseteq> ents m'" "ents m' \<subseteq> ents ?m - set (?it ?m)" by auto
      have "ents m - ovl m lo hi \<subseteq> ents m'" using m'(3) rm(2) Cons.prems(3) by auto
      moreover have "ents m' \<subseteq> ents m - set (rt @ ir # it)"
        using m'(4) Cons.prems(3) unfolding it rm(2) by auto
      ultimately show ?thesis using m'(1,2) True by (subst slog_drop_loop.simps) (auto simp: Let_def)
    qed
  qed
qed

lemma slog_truncate_range_total:
  assumes wf: "wf (mapping s)"
  shows "\<exists>m'. slog_truncate_range I s r = Some (s\<lparr>mapping := m', file_size := r_hi r + 1\<rparr>) \<and> wf m'"
proof (cases "isl_search I (mapping s) (r_hi r + 1) (file_size s)")
  case Nil
  with wf show ?thesis by (auto simp: slog_truncate_range_def intro!: exI [of _ "mapping s"])
next
  case (Cons ir it)
  let ?lo = "r_hi r + 1" and ?hi = "file_size s"
  note ir = search_hd [OF wf Cons]
  show ?thesis
  proof (cases "r_lo ir \<le> r_hi r")
    case False
    have "set (ir # it) = ovl (mapping s) ?lo ?hi" "distinct (ir # it)"
      using search_entries(1) [OF wf, of ?lo ?hi] search_distinct [OF wf, of ?lo ?hi] Cons by simp_all
    then obtain m' where "slog_drop_loop I ?lo ?hi (mapping s) it [ir] = Some m'" "wf m'"
      using slog_drop_loop_correct [OF wf, where rt = "[ir]" and it = it and lo = ?lo and hi = ?hi] by auto
    with False Cons show ?thesis by (auto simp: slog_truncate_range_def)
  next
    case True
    let ?ir = "ir\<lparr>r_hi := r_hi r\<rparr>"
    let ?m1 = "isl_remove I (mapping s) (r_lo ir) (r_hi ir) ir"
    let ?m2 = "isl_insert I ?m1 (r_lo ?ir) (r_hi ?ir) ?ir"
    note rm = remove_entry [OF wf ir(1)]
    have sep: "r_hi e < r_lo ?ir \<or> r_hi ?ir < r_lo e" if "e \<in> ents ?m1" for e
    proof -
      have "e \<in> ents (mapping s)" "e \<noteq> ir" using that rm(2) by auto
      with entries_disjoint [OF wf this(1) ir(1)] ir(3) show ?thesis by auto
    qed
    have m2: "wf ?m2" using insert_entry(1) [OF rm(1) _ sep] True by simp
    have tl: "set (tl xs) \<subseteq> set xs" for xs :: "slog_range list" by (cases xs) auto
    have "set (tl (isl_search I ?m2 ?lo ?hi)) \<subseteq> ovl ?m2 ?lo ?hi"
      using tl unfolding search_entries(1) [OF m2, symmetric] .
    moreover have "distinct (tl (isl_search I ?m2 ?lo ?hi))"
      by (rule distinct_tl [OF search_distinct [OF m2]])
    ultimately obtain m' where "slog_drop_loop I ?lo ?hi ?m2 (tl (isl_search I ?m2 ?lo ?hi)) [] = Some m'" "wf m'"
      using slog_drop_loop_correct [OF m2, where rt = "[]" and it = "tl (isl_search I ?m2 ?lo ?hi)" and
        lo = ?lo and hi = ?hi] by auto
    with True Cons show ?thesis by (auto simp: slog_truncate_range_def Let_def)
  qed
qed

text \<open>When no range straddles the new end, exactly the ranges behind it are dropped.\<close>

lemma slog_truncate_range_aligned:
  assumes wf: "wf (mapping s)"
    and bound: "\<And>x. slog_lookup I (mapping s) x \<noteq> None \<Longrightarrow> x < file_size s"
    and aligned: "slog_lookup I (mapping s) (r_hi r) = None \<or> slog_lookup I (mapping s) (r_hi r + 1) = None"
  shows "\<exists>m'. slog_truncate_range I s r = Some (s\<lparr>mapping := m', file_size := r_hi r + 1\<rparr>) \<and> wf m' \<and>
    (\<forall>x. slog_lookup I m' x = (if x \<le> r_hi r then slog_lookup I (mapping s) x else None))"
proof -
  let ?lo = "r_hi r + 1" and ?hi = "file_size s"
  have below: "r_hi d < ?hi" if "d \<in> ents (mapping s)" for d
    using lookup_Some [OF wf that, of "r_hi d"] entriesD(2) [OF wf that] bound by simp
  have nostr: "r_hi d \<le> r_hi r" if d: "d \<in> ents (mapping s)" "r_lo d \<le> r_hi r" for d
  proof (rule ccontr)
    assume "\<not> r_hi d \<le> r_hi r"
    with lookup_Some [OF wf d(1), of "r_hi r"] lookup_Some [OF wf d(1), of "r_hi r + 1"] d(2) aligned
    show False by simp
  qed
  have "\<exists>m'. slog_truncate_range I s r = Some (s\<lparr>mapping := m', file_size := r_hi r + 1\<rparr>) \<and> wf m' \<and>
      ents m' = ents (mapping s) - ovl (mapping s) ?lo ?hi"
  proof (cases "isl_search I (mapping s) ?lo ?hi")
    case Nil
    then have "ovl (mapping s) ?lo ?hi = {}" using search_entries(1) [OF wf, of ?lo ?hi] by simp
    with wf Nil show ?thesis by (auto simp: slog_truncate_range_def intro!: exI [of _ "mapping s"])
  next
    case (Cons ir it)
    note ir = search_hd [OF wf Cons]
    have "\<not> r_lo ir \<le> r_hi r" using nostr [OF ir(1)] ir(3) by auto
    moreover have "set ([ir] @ it) = ovl (mapping s) ?lo ?hi" "distinct ([ir] @ it)"
      using search_entries(1) [OF wf, of ?lo ?hi] search_distinct [OF wf, of ?lo ?hi] Cons by simp_all
    moreover from this obtain m' where "slog_drop_loop I ?lo ?hi (mapping s) it [ir] = Some m'" "wf m'"
      "ents (mapping s) - ovl (mapping s) ?lo ?hi \<subseteq> ents m'" "ents m' \<subseteq> ents (mapping s) - ovl (mapping s) ?lo ?hi"
      using slog_drop_loop_correct [OF wf, where rt = "[ir]" and it = it and lo = ?lo and hi = ?hi] by auto
    ultimately show ?thesis using Cons by (auto simp: slog_truncate_range_def)
  qed
  then obtain m' where m': "slog_truncate_range I s r = Some (s\<lparr>mapping := m', file_size := r_hi r + 1\<rparr>)" "wf m'"
    "ents m' = ents (mapping s) - ovl (mapping s) ?lo ?hi" by blast
  have "slog_lookup I m' x = (if x \<le> r_hi r then slog_lookup I (mapping s) x else None)" for x
  proof (cases "x \<le> r_hi r")
    case True
    have "slog_lookup I m' x = slog_lookup I (mapping s) x"
    proof (rule lookup_eqI [OF wf m'(2)], goal_cases)
      case (1 d)
      with nostr [of d] True m'(3) show ?case by (intro bexI [of _ d]) auto
    qed (use m'(3) in auto)
    with True show ?thesis by simp
  next
    case False
    have "slog_lookup I m' x = None"
    proof (rule lookup_None [OF m'(2)])
      fix d assume "d \<in> ents m'"
      with m'(3) below [of d] False show "x < r_lo d \<or> r_hi d < x" by auto
    qed
    with False show ?thesis by simp
  qed
  with m' show ?thesis by blast
qed

end

section \<open>The log over its child segments\<close>


text \<open>The bytes of a list of extents, one after the other, and a buffer laid over them.\<close>

definition iov_gather :: "mem \<Rightarrow> ex_iovec list \<Rightarrow> byte list" where
  "iov_gather m iov = concat (map (\<lambda>v. mem_get m (iov_offset v) (iov_len v)) iov)"

lemma iov_gather_simps [simp]:
  "iov_gather m [] = []"
  "iov_gather m (v # vs) = mem_get m (iov_offset v) (iov_len v) @ iov_gather m vs"
  by (simp_all add: iov_gather_def)












lemma length_seglog_write_table [simp]: "length (seglog_write_table d iov) = length iov"
  by (induction d iov rule: seglog_write_table.induct) simp_all





















text \<open>The log's own invariant over its children.\<close>

definition log_ok ::
  "('m, slog_range) isl_ops \<Rightarrow> ('m \<Rightarrow> slog_range interval_entry multiset) \<Rightarrow> 'g segment_fn \<Rightarrow>
   ('g \<Rightarrow> bool) \<Rightarrow> ('m, 'g) seglog_priv \<Rightarrow> bool" where
  "log_ok I items F ok s \<longleftrightarrow> keyed_disjoint r_lo r_hi (items (mapping s)) \<and>
     ok (table_seg s) \<and> ok (data_seg s) \<and> ok (base_seg s) \<and> 0 \<le> log_size s \<and> 0 \<le> data_size s \<and>
     (\<forall>x d. slog_lookup I (mapping s) x = Some d \<longrightarrow>
        0 \<le> x \<and> x < file_size s \<and> 0 \<le> d \<and> d < data_size s \<and> d < fn_size F (data_seg s))"





section \<open>The contracts on the list container and the memory segment\<close>



lemma slog_mapI: "interval_skiplist I items \<Longrightarrow> slog_map I items"
  by (simp add: slog_map_def keyed_intervals_def)

lemma slog_lookup_single [simp]:
  "slog_lookup list_isl [(lo, hi, r)] x =
     (if lo \<le> x \<and> x \<le> hi then Some (r_data_offset r + (x - r_lo r)) else None)"
  by (simp add: slog_lookup_def overlaps_def)

text \<open>A log with one range: the bytes 2 to 4 of an eight-byte base are overwritten.\<close>

definition demo_log :: "(slog_range interval_entry list, byte list) seglog_priv" where
  "demo_log = \<lparr>table_seg = slog_range_bytes \<lparr>r_lo = 2, r_hi = 3, r_data_offset = 0\<rparr>, data_seg = [70, 80, 90],
     base_seg = [1, 2, 3, 4, 5, 6, 7, 8], mapping = [(2, 4, \<lparr>r_lo = 2, r_hi = 4, r_data_offset = 0\<rparr>)],
     file_size = 8, log_size = 24, data_size = 3, soft_errors = 0, hard_errors = 0\<rparr>"

lemma demo_log_sel [simp]:
  "table_seg demo_log = slog_range_bytes \<lparr>r_lo = 2, r_hi = 3, r_data_offset = 0\<rparr>"
  "data_seg demo_log = [70, 80, 90]" "base_seg demo_log = [1, 2, 3, 4, 5, 6, 7, 8]"
  "mapping demo_log = [(2, 4, \<lparr>r_lo = 2, r_hi = 4, r_data_offset = 0\<rparr>)]"
  "file_size demo_log = 8" "log_size demo_log = 24" "data_size demo_log = 3"
  by (simp_all add: demo_log_def)

lemma demo_log_ok: "log_ok list_isl mset flat_segment (\<lambda>_. True) demo_log"
  by (simp add: log_ok_def keyed_disjoint_def)



section \<open>Properties\<close>

text \<open>
  C3: inserting a range returns, keeps the intervals disjoint, maps every offset of the new range
  to its place in the data segment and leaves every other offset where it was, however the new
  range cuts, covers or continues the old ones.
\<close>

theorem slog_insert_range_overlays:
  assumes "interval_skiplist I items" "keyed_disjoint r_lo r_hi (items (mapping s))"
    and "r_lo r \<le> r_hi r" "r_lo r \<noteq> -1"
  shows "\<exists>m'. slog_insert_range I s r =
      Some (s\<lparr>mapping := m', file_size := max (file_size s) (r_hi r + 1)\<rparr>) \<and>
    keyed_disjoint r_lo r_hi (items m') \<and>
    (\<forall>x. slog_lookup I m' x = (if r_lo r \<le> x \<and> x \<le> r_hi r then Some (r_data_offset r + (x - r_lo r))
       else slog_lookup I (mapping s) x))"
  by (rule slog_map.slog_insert_range_correct [OF slog_mapI [OF assms(1)] assms(2-4)])

theorem slog_insert_range_overlays_witness:
  "\<exists>m'. slog_insert_range list_isl demo_log \<lparr>r_lo = 3, r_hi = 9, r_data_offset = 3\<rparr> =
      Some (demo_log\<lparr>mapping := m', file_size := 10\<rparr>) \<and>
    slog_lookup list_isl m' 2 = Some 0 \<and> slog_lookup list_isl m' 3 = Some 3 \<and> slog_lookup list_isl m' 0 = None"
proof -
  have "keyed_disjoint r_lo r_hi (mset (mapping demo_log))" using demo_log_ok unfolding log_ok_def by blast
  from slog_insert_range_overlays [OF list_isl.interval_skiplist_axioms this, where
      r = "\<lparr>r_lo = 3, r_hi = 9, r_data_offset = 3\<rparr>"]
  show ?thesis by auto
qed



text \<open>
  The guard of the previous property is needed. When a read begins one byte in front of a range,
  the hole of that single byte is not recognised: the byte is filled from the log, and the reads
  that follow serve the data of the range one byte too late.
\<close>

theorem seglog_read_one_byte_hole:
  "case seglog_read_func list_isl flat_segment demo_log [ex_iovec_single 1 4] (\<lambda>_. 0) 0 of
     (status, buf, s') \<Rightarrow> status = op_success_status \<and>
       mem_get buf 0 4 = [70, 80, 90, 0] \<and>
       mem_get (slog_byte list_isl mem_of demo_log) 1 4 = [2, 70, 80, 90]"
  by (simp add: seglog_read_func_def slog_read_extent_def slog_read_range_def slog_read_hole_def
      slog_read_tail_def overlaps_def Let_def mem_get_def upto.simps mem_put_def mem_of_def slog_byte_def)







text \<open>
  A truncation record at a point no range straddles drops the ranges behind the point and
  nothing else, and sets the file size to the point.
\<close>

theorem slog_truncate_aligned:
  assumes "interval_skiplist I items" "keyed_disjoint r_lo r_hi (items (mapping s))"
    and "\<And>x. slog_lookup I (mapping s) x \<noteq> None \<Longrightarrow> x < file_size s"
    and "slog_lookup I (mapping s) (r_hi r) = None \<or> slog_lookup I (mapping s) (r_hi r + 1) = None"
  shows "\<exists>m'. slog_truncate_range I s r = Some (s\<lparr>mapping := m', file_size := r_hi r + 1\<rparr>) \<and>
    keyed_disjoint r_lo r_hi (items m') \<and>
    (\<forall>x. slog_lookup I m' x = (if x \<le> r_hi r then slog_lookup I (mapping s) x else None))"
  by (rule slog_map.slog_truncate_range_aligned [OF slog_mapI [OF assms(1)] assms(2-4)])

text \<open>
  When a range straddles the point, the range behind it stays in the map: the iterator that is
  restarted after the cut has already moved past its first range. Here the ranges 0 to 9 and 10
  to 19 are truncated to length 5, and offset 15 is still mapped.
\<close>

theorem slog_truncate_straddle_keeps_range:
  "\<exists>s'. slog_truncate_range list_isl
      (demo_log\<lparr>mapping := [(0, 9, \<lparr>r_lo = 0, r_hi = 9, r_data_offset = 0\<rparr>),
                           (10, 19, \<lparr>r_lo = 10, r_hi = 19, r_data_offset = 50\<rparr>)], file_size := 20\<rparr>)
      \<lparr>r_lo = -1, r_hi = 4, r_data_offset = -1\<rparr> = Some s' \<and>
    file_size s' = 5 \<and> slog_lookup list_isl (mapping s') 15 = Some 55"
  by (subst slog_truncate_range_def, subst slog_drop_loop.simps)
    (simp add: overlaps_def Let_def slog_lookup_def slog_drop_loop.simps)

text \<open>
  Shrinking a log segment to \<open>n\<close> bytes leaves it, on success, with a size of \<open>n - 2\<close>: the record
  of a shrink is treated as if its end offset were a length.
\<close>

theorem seglog_truncate_shrink_size:
  assumes "interval_skiplist I items" "keyed_disjoint r_lo r_hi (items (mapping s))"
    and "0 \<le> n" "n < file_size s"
  shows "\<exists>status s'. seglog_truncate I F s n = Some (status, s') \<and>
    (op_state status = OP_STATE_SUCCESS \<longrightarrow> seglog_size s' = n - 2)"
proof -
  let ?r = "\<lparr>r_lo = -1, r_hi = n - 1, r_data_offset = -1\<rparr>"
  obtain tst table' where w: "fn_write F (table_seg s) [ex_iovec_single (log_size s) slog_range_size]
      (mem_put (\<lambda>_. 0) 0 (slog_range_bytes ?r)) 0 = (tst, table')" by (metis prod.exhaust)
  let ?s = "s\<lparr>table_seg := table', log_size := log_size s + slog_range_size\<rparr>"
  have "keyed_disjoint r_lo r_hi (items (mapping ?s))" using assms(2) by simp
  from slog_map.slog_truncate_range_total [OF slog_mapI [OF assms(1)] this, of "?r\<lparr>r_hi := n - 3\<rparr>"]
  obtain m' where "slog_truncate_range I ?s (?r\<lparr>r_hi := n - 3\<rparr>) = Some (?s\<lparr>mapping := m', file_size := n - 2\<rparr>)"
    by auto
  then show ?thesis using assms(3,4) w
    by (cases tst) (simp_all add: seglog_truncate_def seglog_truncate_func_def Let_def slog_insert_range_def
        seglog_size_def op_failure_status_def op_success_status_def)
qed



end
