(* ===== verification/Rs_Query.thy ===== *)
theory Rs_Query
  imports Prelude
begin

unbundle bit_operations_syntax

text \<open>
  Resource queries, \<open>src/rs_query_base.c\<close>: a query is a linked list of elements in postfix order,
  built up by \<open>add\<close>, \<open>append\<close> and \<open>dup\<close>, and turned into text and back by \<open>print\<close> and \<open>parse\<close>. The
  escaping routines of the toolbox are parameters; the locale \<open>escaping\<close> states what the text form
  relies on.
\<close>

section \<open>Data\<close>

record rsq_ele =
  q_op :: int
  q_key :: "string option"
  q_val :: "string option"
  q_key_op :: int
  q_val_op :: int

text \<open>
  The list is reached from \<open>head\<close>. \<open>tail\<close> is the last element of it, NULL, or an element that is
  not linked to the list.
\<close>

datatype rsq_tail = TailLast | TailNull | TailLost

record rsq_base =
  q_eles :: "rsq_ele list"
  q_tail :: rsq_tail

definition RSQ_BASE_OP_MAX_VAL :: int where "RSQ_BASE_OP_MAX_VAL = 4"
definition RSQ_BASE_OP_KV :: int where "RSQ_BASE_OP_KV = 1"
definition RSQ_BASE_OP_NOT :: int where "RSQ_BASE_OP_NOT = 2"
definition RSQ_BASE_OP_AND :: int where "RSQ_BASE_OP_AND = 3"
definition RSQ_BASE_OP_OR :: int where "RSQ_BASE_OP_OR = 4"
definition RSQ_BASE_KV_MAX_VAL :: int where "RSQ_BASE_KV_MAX_VAL = 3"
definition RSQ_BASE_KV_OP_BITMASK :: int where "RSQ_BASE_KV_OP_BITMASK = 7"
definition RSQ_BASE_KV_EXACT :: int where "RSQ_BASE_KV_EXACT = 1"
definition RSQ_BASE_KV_PREFIX :: int where "RSQ_BASE_KV_PREFIX = 2"
definition RSQ_BASE_KV_ANY :: int where "RSQ_BASE_KV_ANY = 3"
definition RSQ_BASE_KV_UNIQUE :: int where "RSQ_BASE_KV_UNIQUE = 64"
definition RSQ_BASE_KV_PICKONE :: int where "RSQ_BASE_KV_PICKONE = 128"

lemmas rsq_consts = RSQ_BASE_OP_MAX_VAL_def RSQ_BASE_OP_KV_def RSQ_BASE_OP_NOT_def RSQ_BASE_OP_AND_def
  RSQ_BASE_OP_OR_def RSQ_BASE_KV_MAX_VAL_def RSQ_BASE_KV_OP_BITMASK_def RSQ_BASE_KV_EXACT_def
  RSQ_BASE_KV_PREFIX_def RSQ_BASE_KV_ANY_def RSQ_BASE_KV_UNIQUE_def RSQ_BASE_KV_PICKONE_def

text \<open>The error codes of a request, \<open>src/resource_service_abstract.h\<close>.\<close>

definition RS_ERROR_OK :: int where "RS_ERROR_OK = -100"
definition RS_ERROR_NOT_ENOUGH_RIDS :: int where "RS_ERROR_NOT_ENOUGH_RIDS = -101"
definition RS_ERROR_FIXED_MATCH_FAIL :: int where "RS_ERROR_FIXED_MATCH_FAIL = -102"
definition RS_ERROR_FIXED_NOT_FOUND :: int where "RS_ERROR_FIXED_NOT_FOUND = -103"
definition RS_ERROR_HINTS_INVALID_LOCAL :: int where "RS_ERROR_HINTS_INVALID_LOCAL = -104"
definition RS_ERROR_EMPTY_STACK :: int where "RS_ERROR_EMPTY_STACK = -105"

section \<open>Operations\<close>

definition is_unique :: "rsq_ele \<Rightarrow> bool" where
  "is_unique q \<longleftrightarrow> q_key_op q AND RSQ_BASE_KV_UNIQUE \<noteq> 0 \<or> q_val_op q AND RSQ_BASE_KV_UNIQUE \<noteq> 0"

definition is_pickone :: "rsq_ele \<Rightarrow> bool" where
  "is_pickone q \<longleftrightarrow> q_key_op q AND RSQ_BASE_KV_PICKONE \<noteq> 0 \<or> q_val_op q AND RSQ_BASE_KV_PICKONE \<noteq> 0"

fun rs_query_count_loop :: "rsq_ele list \<Rightarrow> nat \<times> nat \<times> nat \<Rightarrow> nat \<times> nat \<times> nat" where
  "rs_query_count_loop [] c = c"
| "rs_query_count_loop (q # qs) (n_ele, n_unique, n_pickone) =
     rs_query_count_loop qs
       (n_ele + 1, if is_unique q then n_unique + 1 else n_unique,
        if is_pickone q then n_pickone + 1 else n_pickone)"

definition rs_query_count :: "rsq_base \<Rightarrow> nat \<times> nat \<times> nat" where
  "rs_query_count query = rs_query_count_loop (q_eles query) (0, 0, 0)"

definition rs_query_base_new :: rsq_base where
  "rs_query_base_new = \<lparr>q_eles = [], q_tail = TailNull\<rparr>"

text \<open>
  \<open>rs_query_base_add\<close> on a query pointer, NULL being \<open>None\<close>. The result is the return code and the
  query; with elements in the list and a NULL tail the new element cannot be linked.
\<close>

definition rs_query_base_add ::
  "rsq_base option \<Rightarrow> int \<Rightarrow> string option \<Rightarrow> int \<Rightarrow> string option \<Rightarrow> int \<Rightarrow> (int \<times> rsq_base option) outcome" where
  "rs_query_base_add query op key key_op val val_op =
     (if op > RSQ_BASE_OP_MAX_VAL then Ret (1, query)
      else if key_op > RSQ_BASE_KV_MAX_VAL then Ret (2, query)
      else if val_op > RSQ_BASE_KV_MAX_VAL then Ret (3, query)
      else if key_op AND RSQ_BASE_KV_UNIQUE \<noteq> 0 \<and> key_op AND RSQ_BASE_KV_UNIQUE \<noteq> 0 then Ret (4, query)
      else if val_op AND RSQ_BASE_KV_UNIQUE \<noteq> 0 \<and> val_op AND RSQ_BASE_KV_UNIQUE \<noteq> 0 then Ret (5, query)
      else
        (let q = \<lparr>q_op = op, q_key = key, q_val = val, q_key_op = key_op, q_val_op = key_op\<rparr>
         in case query of
              None \<Rightarrow> Ret (0, Some \<lparr>q_eles = [q], q_tail = TailLast\<rparr>)
            | Some r \<Rightarrow>
                if q_eles r = [] then Ret (0, Some (r\<lparr>q_eles := [q], q_tail := TailLast\<rparr>))
                else (case q_tail r of
                        TailLast \<Rightarrow> Ret (0, Some (r\<lparr>q_eles := q_eles r @ [q]\<rparr>))
                      | TailNull \<Rightarrow> Crash
                      | TailLost \<Rightarrow> Ret (0, Some r))))"

text \<open>A copied element gets fresh strings with the same text.\<close>

definition rsq_ele_dup :: "rsq_ele \<Rightarrow> rsq_ele" where
  "rsq_ele_dup q = \<lparr>q_op = q_op q, q_key = q_key q, q_val = q_val q, q_key_op = q_key_op q, q_val_op = q_val_op q\<rparr>"

text \<open>
  The query is dereferenced before the NULL test. The tail of the copy is the last new element,
  NULL when there was none.
\<close>

definition rs_query_base_dup :: "rsq_base option \<Rightarrow> rsq_base outcome" where
  "rs_query_base_dup query =
     (case query of
        None \<Rightarrow> Crash
      | Some r \<Rightarrow> Ret \<lparr>q_eles = map rsq_ele_dup (q_eles r),
                       q_tail = (if q_eles r = [] then TailNull else TailLast)\<rparr>)"

text \<open>
  \<open>prev\<close> starts as the tail: the copies are linked behind it. When the list is empty the first copy
  becomes the head. When there is no copy, the tail becomes NULL.
\<close>

definition rs_query_base_append :: "rsq_base option \<Rightarrow> rsq_base option \<Rightarrow> rsq_base option outcome" where
  "rs_query_base_append query query_append =
     (case query of
        None \<Rightarrow> Crash
      | Some r \<Rightarrow>
          (case query_append of
             None \<Rightarrow> Ret (Some r)
           | Some a \<Rightarrow>
               (let qs = map rsq_ele_dup (q_eles a)
                in if qs = [] then Ret (Some (r\<lparr>q_tail := TailNull\<rparr>))
                   else if q_eles r = [] then Ret (Some (r\<lparr>q_eles := qs, q_tail := TailLast\<rparr>))
                   else (case q_tail r of
                           TailLast \<Rightarrow> Ret (Some (r\<lparr>q_eles := q_eles r @ qs\<rparr>))
                         | _ \<Rightarrow> Ret (Some (r\<lparr>q_tail := TailLost\<rparr>))))))"

section \<open>Text form\<close>

text \<open>
  The toolbox routines: \<open>escape_text\<close>, \<open>unescape_text\<close> and \<open>escape_string_token\<close>, which splits off
  the text up to the next delimiter that is not escaped and advances its state behind it.
\<close>

record text_ops =
  escape_text :: "string \<Rightarrow> char \<Rightarrow> string \<Rightarrow> string"
  unescape_text :: "char \<Rightarrow> string \<Rightarrow> string"
  escape_string_token :: "string \<Rightarrow> char \<Rightarrow> string \<Rightarrow> string \<times> string"

definition bslash :: char where "bslash = CHR 0x5C"

definition str_of :: "string option \<Rightarrow> string" where
  "str_of s = (case s of None \<Rightarrow> '''' | Some t \<Rightarrow> t)"

definition rsq_ele_print :: "text_ops \<Rightarrow> rsq_ele \<Rightarrow> string" where
  "rsq_ele_print T q =
     print_int (q_op q) @ '':'' @ escape_text T '':'' bslash (str_of (q_key q)) @ '':'' @
     print_int (q_key_op q) @ '':'' @ escape_text T '':'' bslash (str_of (q_val q)) @ '':'' @
     print_int (q_val_op q)"

fun rsq_eles_print :: "text_ops \<Rightarrow> rsq_ele list \<Rightarrow> string" where
  "rsq_eles_print T [] = ''''"
| "rsq_eles_print T [q] = rsq_ele_print T q"
| "rsq_eles_print T (q # q' # qs) = rsq_ele_print T q @ '';'' @ rsq_eles_print T (q' # qs)"

text \<open>The text of a query, as far as it fits a buffer of 10 kB.\<close>

definition rs_query_base_print :: "text_ops \<Rightarrow> string \<Rightarrow> rsq_base option \<Rightarrow> string option" where
  "rs_query_base_print T rs_type query =
     map_option (\<lambda>r. buffer_text (10 * 1024) (rs_type @ '':'' @ rsq_eles_print T (q_eles r))) query"

definition rsq_ele_parse :: "text_ops \<Rightarrow> string \<Rightarrow> rsq_ele" where
  "rsq_ele_parse T tstate0 =
     (let (t_op, tstate1) = escape_string_token T '':'' bslash tstate0;
          (t_key, tstate2) = escape_string_token T '':'' bslash tstate1;
          (t_kop, tstate3) = escape_string_token T '':'' bslash tstate2;
          (t_val, tstate4) = escape_string_token T '':'' bslash tstate3;
          (t_vop, tstate5) = escape_string_token T '':'' bslash tstate4
      in \<lparr>q_op = atoi t_op, q_key = Some (unescape_text T bslash t_key),
          q_val = Some (unescape_text T bslash t_val),
          q_key_op = atoi t_kop, q_val_op = atoi t_vop\<rparr>)"

partial_function (option) rs_query_base_parse_loop ::
  "text_ops \<Rightarrow> string \<Rightarrow> string \<Rightarrow> rsq_ele list \<Rightarrow> rsq_ele list option" where
  "rs_query_base_parse_loop T tstate bstate acc =
     (let q = rsq_ele_parse T tstate;
          (token, bstate') = escape_string_token T '';'' bslash bstate
      in if token = '''' then Some (acc @ [q])
         else rs_query_base_parse_loop T token bstate' (acc @ [q]))"

declare rs_query_base_parse_loop.simps [code]

definition rs_query_base_parse :: "text_ops \<Rightarrow> string \<Rightarrow> rsq_base option" where
  "rs_query_base_parse T qstring =
     (let (token, bstate) = escape_string_token T '';'' bslash qstring;
          (rs_type, tstate) = escape_string_token T '':'' bslash token
      in map_option (\<lambda>qs. \<lparr>q_eles = qs, q_tail = TailLast\<rparr>)
           (rs_query_base_parse_loop T tstate bstate []))"

section \<open>What escaping promises\<close>

text \<open>Read with its escape pairs, the text has no delimiter outside a pair and no cut pair.\<close>

fun guarded :: "string \<Rightarrow> char \<Rightarrow> string \<Rightarrow> bool" where
  "guarded d e [] \<longleftrightarrow> True"
| "guarded d e [c] \<longleftrightarrow> c \<noteq> e \<and> c \<notin> set d"
| "guarded d e (c # x # s) \<longleftrightarrow> (if c = e then guarded d e s else c \<notin> set d \<and> guarded d e (x # s))"

locale escaping =
  fixes T :: text_ops
  assumes unescape_escape: "unescape_text T e (escape_text T d e s) = s"
    and escape_guarded: "guarded d e (escape_text T d e s)"
    and escape_chars: "set (escape_text T d e s) \<subseteq> insert e (set s)"
    and token_delim: "guarded d e s \<Longrightarrow> c \<in> set d \<Longrightarrow> e \<notin> set d \<Longrightarrow>
      escape_string_token T d e (s @ c # rest) = (s, rest)"
    and token_end: "guarded d e s \<Longrightarrow> escape_string_token T d e s = (s, '''')"

lemma guarded_Cons_pair [simp]: "guarded d e (e # x # s) = guarded d e s"
  by simp

lemma guarded_Cons_plain: "c \<noteq> e \<Longrightarrow> guarded d e (c # s) \<longleftrightarrow> c \<notin> set d \<and> guarded d e s"
  by (cases s) auto

lemma guarded_append: "guarded d e s \<Longrightarrow> guarded d e t \<Longrightarrow> guarded d e (s @ t)"
  by (induction d e s rule: guarded.induct) (auto simp: guarded_Cons_plain split: if_splits)

lemma guarded_mono: "guarded d e s \<Longrightarrow> set s \<inter> set d' = {} \<Longrightarrow> guarded d' e s"
  by (induction d e s rule: guarded.induct) (auto split: if_splits)

lemma guarded_plain: "e \<notin> set s \<Longrightarrow> set s \<inter> set d = {} \<Longrightarrow> guarded d e s"
  by (induction s) (auto simp: guarded_Cons_plain)

lemma print_int_chars: "c \<in> set (print_int i) \<Longrightarrow> c = CHR ''-'' \<or> is_digit c"
  by (auto simp: print_int_def dest: is_digit_print_nat split: if_splits)

lemma print_int_guarded:
  "e \<noteq> CHR ''-'' \<Longrightarrow> \<not> is_digit e \<Longrightarrow> \<forall>c \<in> set d. c \<noteq> CHR ''-'' \<and> \<not> is_digit c \<Longrightarrow> guarded d e (print_int i)"
  by (rule guarded_plain) (auto dest: print_int_chars)

lemma print_int_neq_Nil [simp]: "print_int i \<noteq> []"
  by (simp add: print_int_def)

text \<open>What a text round trip makes of an element: a NULL string comes back as an empty one.\<close>

definition rsq_ele_norm :: "rsq_ele \<Rightarrow> rsq_ele" where
  "rsq_ele_norm q = q\<lparr>q_key := Some (str_of (q_key q)), q_val := Some (str_of (q_val q))\<rparr>"

definition rsq_ele_printable :: "rsq_ele \<Rightarrow> bool" where
  "rsq_ele_printable q \<longleftrightarrow> CHR '';'' \<notin> set (str_of (q_key q)) \<and> CHR '';'' \<notin> set (str_of (q_val q))"

context escaping
begin

lemma print_colon: "guarded '':'' bslash (print_int i)" and print_semi: "guarded '';'' bslash (print_int i)"
  by (rule print_int_guarded; simp add: bslash_def is_digit_def)+

lemma token_colon: "guarded '':'' bslash s \<Longrightarrow> escape_string_token T '':'' bslash (s @ CHR '':'' # rest) = (s, rest)"
  by (rule token_delim) (simp_all add: bslash_def)

lemma token_semi: "guarded '';'' bslash s \<Longrightarrow> escape_string_token T '';'' bslash (s @ CHR '';'' # rest) = (s, rest)"
  by (rule token_delim) (simp_all add: bslash_def)

lemma rsq_ele_parse_print: "rsq_ele_parse T (rsq_ele_print T q) = rsq_ele_norm q"
  by (simp add: rsq_ele_parse_def rsq_ele_print_def token_colon print_colon escape_guarded token_end
      unescape_escape atoi_print_int rsq_ele_norm_def)

lemma escape_no_semi: "CHR '';'' \<notin> set s \<Longrightarrow> guarded '';'' bslash (escape_text T '':'' bslash s)"
  by (rule guarded_mono [OF escape_guarded [of "'':''"]])
    (use escape_chars [of "'':''" bslash s] in \<open>auto simp: bslash_def\<close>)

lemma rsq_ele_print_semi: "rsq_ele_printable q \<Longrightarrow> guarded '';'' bslash (rsq_ele_print T q)"
  unfolding rsq_ele_print_def rsq_ele_printable_def
  by (intro guarded_append print_semi escape_no_semi) (simp_all add: bslash_def)

lemma rsq_ele_print_neq_Nil [simp]: "rsq_ele_print T q \<noteq> []"
  by (simp add: rsq_ele_print_def)

lemma token_eles:
  assumes "guarded '';'' bslash pre" "\<forall>q \<in> set (q # qs). rsq_ele_printable q"
  shows "escape_string_token T '';'' bslash (pre @ rsq_eles_print T (q # qs)) =
    (pre @ rsq_ele_print T q, rsq_eles_print T qs)"
proof -
  have g: "guarded '';'' bslash (pre @ rsq_ele_print T q)"
    using assms by (intro guarded_append rsq_ele_print_semi) simp_all
  show ?thesis
    using token_semi [OF g] token_end [OF g] by (cases qs) simp_all
qed

lemma rs_query_base_parse_loop_print:
  assumes "\<forall>q \<in> set qs. rsq_ele_printable q"
  shows "rs_query_base_parse_loop T (rsq_ele_print T q) (rsq_eles_print T qs) acc =
    Some (acc @ map rsq_ele_norm (q # qs))"
  using assms
proof (induction qs arbitrary: q acc)
  case Nil
  have "escape_string_token T '';'' bslash [] = ([], [])" by (rule token_end) simp
  then show ?case by (subst rs_query_base_parse_loop.simps) (simp add: rsq_ele_parse_print)
next
  case (Cons r qs)
  then show ?case
    using token_eles [of "[]" r qs]
    by (subst rs_query_base_parse_loop.simps) (simp add: rsq_ele_parse_print)
qed

lemma rs_query_base_parse_print:
  assumes "guarded '':'' bslash ty" "CHR '';'' \<notin> set ty" "q_eles r \<noteq> []" "\<forall>q \<in> set (q_eles r). rsq_ele_printable q"
    and "rs_query_base_print T ty (Some r) = Some txt" "length txt < 10239"
  shows "rs_query_base_parse T txt = Some \<lparr>q_eles = map rsq_ele_norm (q_eles r), q_tail = TailLast\<rparr>"
proof -
  obtain q qs where r: "q_eles r = q # qs" using assms(3) by (cases "q_eles r") auto
  have "guarded '';'' bslash (ty @ '':'')"
    using guarded_mono [OF assms(1), of "'';''"] assms(2) by (intro guarded_append) (auto simp: bslash_def)
  from token_eles [OF this, of q qs] assms(4) r
  have "escape_string_token T '';'' bslash txt = (ty @ CHR '':'' # rsq_ele_print T q, rsq_eles_print T qs)"
    using assms(5) buffer_text_short [of "10 * 1024" "ty @ '':'' @ rsq_eles_print T (q_eles r)"] assms(6)
    by (auto simp: rs_query_base_print_def)
  with token_colon [OF assms(1)] rs_query_base_parse_loop_print [of qs q "[]"] assms(4) r show ?thesis
    by (simp add: rs_query_base_parse_def)
qed

end

section \<open>A reference escaping\<close>

fun ref_unescape :: "char \<Rightarrow> string \<Rightarrow> string" where
  "ref_unescape e [] = []"
| "ref_unescape e [c] = [c]"
| "ref_unescape e (c # x # s) = (if c = e then x # ref_unescape e s else c # ref_unescape e (x # s))"

fun ref_token :: "string \<Rightarrow> char \<Rightarrow> string \<Rightarrow> string \<times> string" where
  "ref_token d e [] = ([], [])"
| "ref_token d e [c] = (if c \<in> set d then ([], []) else ([c], []))"
| "ref_token d e (c # x # s) =
     (if c = e then (case ref_token d e s of (a, b) \<Rightarrow> (c # x # a, b))
      else if c \<in> set d then ([], x # s)
      else (case ref_token d e (x # s) of (a, b) \<Rightarrow> (c # a, b)))"

definition ref_text :: text_ops where
  "ref_text = \<lparr>
     escape_text = (\<lambda>d e s. concat (map (\<lambda>c. if c \<in> set d \<or> c = e then [e, c] else [c]) s)),
     unescape_text = ref_unescape, escape_string_token = ref_token\<rparr>"

lemma ref_unescape_plain: "c \<noteq> e \<Longrightarrow> ref_unescape e (c # s) = c # ref_unescape e s"
  by (cases s) auto

interpretation ref_text: escaping ref_text
proof (unfold_locales, goal_cases)
  case (1 e d s)
  then show ?case by (induction s) (auto simp: ref_text_def ref_unescape_plain)
next
  case (2 d e s)
  then show ?case by (induction s) (auto simp: ref_text_def guarded_Cons_plain)
next
  case (3 d e s)
  then show ?case by (auto simp: ref_text_def split: if_splits)
next
  case (4 d e s c rest)
  then show ?case
  proof (induction d e s rule: guarded.induct)
    case (1 d e)
    then show ?case by (cases rest) (auto simp: ref_text_def)
  next
    case (2 d e x)
    then show ?case by (cases rest) (auto simp: ref_text_def)
  next
    case (3 d e x y s)
    then show ?case by (auto simp: ref_text_def split: if_splits)
  qed
next
  case (5 d e s)
  then show ?case by (induction d e s rule: guarded.induct) (auto simp: ref_text_def split: if_splits)
qed

section \<open>Well-formed queries\<close>

definition rsq_wf :: "rsq_base \<Rightarrow> bool" where
  "rsq_wf r \<longleftrightarrow> q_tail r = (if q_eles r = [] then TailNull else TailLast)"

lemma rs_query_count_loop_eq:
  "rs_query_count_loop qs (a, b, c) =
     (a + length qs, b + length (filter is_unique qs), c + length (filter is_pickone qs))"
  by (induction qs arbitrary: a b c) simp_all

lemma rs_query_count_eq:
  "rs_query_count r = (length (q_eles r), length (filter is_unique (q_eles r)), length (filter is_pickone (q_eles r)))"
  by (simp add: rs_query_count_def rs_query_count_loop_eq)

lemma map_rsq_ele_dup [simp]: "map rsq_ele_dup qs = qs"
  by (simp add: rsq_ele_dup_def map_idI)

lemma rs_query_base_new_wf [simp]: "rsq_wf rs_query_base_new" "q_eles rs_query_base_new = []"
  by (simp_all add: rsq_wf_def rs_query_base_new_def)

section \<open>Properties\<close>

text \<open>
  C30: parsing the text of a non-empty query gives the query back, with NULL strings as empty ones,
  when no key or value has a semicolon in it, whatever other characters they have,
  and the text did not fill the buffer.
\<close>

theorem rs_query_print_parse:
  assumes "escaping T" "guarded '':'' bslash ty" "CHR '';'' \<notin> set ty"
    and "q_eles r \<noteq> []" "\<forall>q \<in> set (q_eles r). rsq_ele_printable q"
    and "rs_query_base_print T ty (Some r) = Some txt" "length txt < 10239"
  shows "rs_query_base_parse T txt = Some \<lparr>q_eles = map rsq_ele_norm (q_eles r), q_tail = TailLast\<rparr>"
  by (rule escaping.rs_query_base_parse_print [OF assms])

theorem rs_query_print_parse_witness:
  "\<exists>txt. rs_query_base_print ref_text ''simple'' (Some \<lparr>q_eles =
      [\<lparr>q_op = 1, q_key = Some ''a:b'', q_val = None, q_key_op = 1, q_val_op = 3\<rparr>], q_tail = TailLast\<rparr>) = Some txt \<and>
    rs_query_base_parse ref_text txt = Some \<lparr>q_eles =
      [\<lparr>q_op = 1, q_key = Some ''a:b'', q_val = Some '''', q_key_op = 1, q_val_op = 3\<rparr>], q_tail = TailLast\<rparr>"
proof -
  let ?r = "\<lparr>q_eles = [\<lparr>q_op = 1, q_key = Some ''a:b'', q_val = None, q_key_op = 1, q_val_op = 3\<rparr>], q_tail = TailLast\<rparr>"
  have len: "map_option (\<lambda>t. length t < 10239) (rs_query_base_print ref_text ''simple'' (Some ?r)) = Some True" by code_simp
  then obtain t where t: "rs_query_base_print ref_text ''simple'' (Some ?r) = Some t" "length t < 10239" by auto
  from rs_query_print_parse [OF ref_text.escaping_axioms _ _ _ _ t] t(1) show ?thesis
    by (simp add: rsq_ele_printable_def str_of_def rsq_ele_norm_def bslash_def)
qed

text \<open>
  Adding to a well-formed query never crashes and keeps it well formed. It appends exactly one
  element, with the key operator stored as the value operator too, when the operators are in
  range and the unique bit is not set, and otherwise reports an error and leaves the query as it is.
\<close>

theorem rs_query_add_correct:
  assumes "rsq_wf r"
  shows "\<exists>code r'. rs_query_base_add (Some r) op key key_op val val_op = Ret (code, Some r') \<and> rsq_wf r' \<and>
    (code = 0 \<longleftrightarrow> op \<le> 4 \<and> key_op \<le> 3 \<and> val_op \<le> 3 \<and> key_op AND 64 = 0 \<and> val_op AND 64 = 0) \<and>
    q_eles r' = (if code = 0
      then q_eles r @ [\<lparr>q_op = op, q_key = key, q_val = val, q_key_op = key_op, q_val_op = key_op\<rparr>] else q_eles r)"
  using assms by (auto simp: rs_query_base_add_def rsq_wf_def rsq_consts Let_def)

text \<open>
  Appending a non-empty query to a well-formed one concatenates them and keeps the result well
  formed; appending a copy of it gives the same.
\<close>

theorem rs_query_append_correct:
  assumes "rsq_wf r" "q_eles a \<noteq> []"
  shows "\<exists>d. rs_query_base_dup (Some a) = Ret d \<and> rsq_wf d \<and> q_eles d = q_eles a \<and>
    (\<exists>r'. rs_query_base_append (Some r) (Some a) = Ret (Some r') \<and>
       rs_query_base_append (Some r) (Some d) = Ret (Some r') \<and> rsq_wf r' \<and> q_eles r' = q_eles r @ q_eles a)"
  using assms by (auto simp: rs_query_base_append_def rs_query_base_dup_def rsq_wf_def Let_def)

text \<open>
  Appending an empty query to one with elements clears its tail pointer, and the next add of a
  valid element dereferences it.
\<close>

theorem rs_query_append_empty_breaks:
  assumes "q_eles r \<noteq> []" "q_eles a = []" "op \<le> 4" "key_op \<le> 3" "val_op \<le> 3" "key_op AND 64 = 0" "val_op AND 64 = 0"
  shows "\<exists>r'. rs_query_base_append (Some r) (Some a) = Ret (Some r') \<and> q_eles r' = q_eles r \<and> \<not> rsq_wf r' \<and>
    rs_query_base_add (Some r') op key key_op val val_op = Crash"
  using assms by (auto simp: rs_query_base_append_def rs_query_base_add_def rsq_wf_def rsq_consts Let_def)

end
