(* ===== verification/Rs_Simple.thy ===== *)
theory Rs_Simple
  imports Rs_Query
begin

unbundle bit_operations_syntax

text \<open>
  The simple resource service, \<open>src/rs_simple.c\<close>, and the space report, \<open>src/rs_space.c\<close>: the table
  of resources (RIDs) loaded from a configuration, the evaluation of a query against a RID, the
  selection of RIDs for a request, and the periodic check of their state.

  RID entries are shared between the table, the randomised array and the check table, so they
  live in a store and the three hold addresses. The sorted lists of the toolbox are a parameter
  (\<open>list_ops\<close>), as are its random numbers and the configuration parser, whose result is a list of
  groups of key/value pairs.
\<close>

section \<open>Sorted lists\<close>

text \<open>
  \<open>li_from l s n\<close> is what an iterator positioned by \<open>list_iter_search_compare\<close> on the first \<open>n\<close>
  characters of \<open>s\<close> delivers.
\<close>

record ('l, 'v) list_ops =
  li_empty :: 'l
  li_insert :: "'l \<Rightarrow> string \<Rightarrow> 'v \<Rightarrow> 'l"
  li_search :: "'l \<Rightarrow> string \<Rightarrow> 'v option"
  li_from :: "'l \<Rightarrow> string \<Rightarrow> nat \<Rightarrow> (string \<times> 'v) list"
  li_all :: "'l \<Rightarrow> (string \<times> 'v) list"
  li_count :: "'l \<Rightarrow> nat"

locale sorted_list =
  fixes L :: "('l, 'v) list_ops"
  assumes all_empty: "li_all L (li_empty L) = []"
    and all_insert: "k \<notin> fst ` set (li_all L l) \<Longrightarrow>
      mset (li_all L (li_insert L l k v)) = add_mset (k, v) (mset (li_all L l))"
    and insert_keys: "fst ` set (li_all L (li_insert L l k v)) = insert k (fst ` set (li_all L l))"
    and insert_sub: "set (li_all L (li_insert L l k v)) \<subseteq> insert (k, v) (set (li_all L l))"
    and all_distinct: "distinct (map fst (li_all L l))"
    and search_all: "li_search L l k = map_of (li_all L l) k"
    and from_sub: "set (li_from L l s n) \<subseteq> set (li_all L l)"
    and from_prefix: "(k, v) \<in> set (li_all L l) \<Longrightarrow> take n k = take n s \<Longrightarrow> (k, v) \<in> set (li_from L l s n)"
    and count_all: "li_count L l = length (li_all L l)"

section \<open>Data\<close>

definition RS_STATUS_UP :: int where "RS_STATUS_UP = 0"
definition RS_STATUS_IGNORE :: int where "RS_STATUS_IGNORE = 1"
definition RS_STATUS_OUT_OF_SPACE :: int where "RS_STATUS_OUT_OF_SPACE = 2"
definition RS_STATUS_DOWN :: int where "RS_STATUS_DOWN = 3"

lemmas rs_consts = RS_STATUS_UP_def RS_STATUS_IGNORE_def RS_STATUS_OUT_OF_SPACE_def RS_STATUS_DOWN_def
  RS_ERROR_OK_def RS_ERROR_NOT_ENOUGH_RIDS_def RS_ERROR_FIXED_MATCH_FAIL_def RS_ERROR_FIXED_NOT_FOUND_def
  RS_ERROR_HINTS_INVALID_LOCAL_def RS_ERROR_EMPTY_STACK_def

record 'l rss_rid_entry =
  rid_key :: string
  ds_key :: string
  attr :: 'l
  status :: int
  slot :: nat
  space_total :: ex_off
  space_used :: ex_off
  space_free :: ex_off

record rss_check_entry =
  ce_ds_key :: string
  ce_rid_key :: string
  ce_re :: nat

record ('l, 't) rs_simple_priv =
  rids :: "'l rss_rid_entry list"
  rid_table :: 't
  random_array :: "nat list"
  rid_mapping :: "(string \<times> rss_check_entry) list"
  mapping_updates :: "nat \<rightharpoonup> nat"
  modify_time :: int
  current_check :: int
  min_free :: int
  shutdown :: int
  dynamic_mapping :: int
  unique_rids :: int
  check_timeout :: int
  last_config_size :: int

section \<open>Matching one RID\<close>

record kvq_ele =
  kv_key :: "string option"
  kv_value :: "string option"

record kvq_table =
  kt_unique :: "kvq_ele list list"
  kt_pickone :: "kvq_ele list"

definition strncmp_eq :: "string \<Rightarrow> string \<Rightarrow> nat \<Rightarrow> bool" where
  "strncmp_eq a b n \<longleftrightarrow> take n a = take n b"

text \<open>
  The earlier matches: a key of an earlier match is compared without a NULL test, a value only
  when it is there.
\<close>

fun uniq_key_seen :: "string \<Rightarrow> kvq_ele list \<Rightarrow> bool outcome" where
  "uniq_key_seen key [] = Ret False"
| "uniq_key_seen key (u # us) =
     (case kv_key u of None \<Rightarrow> Crash
      | Some k \<Rightarrow> if key = k then Ret True else uniq_key_seen key us)"

definition uniq_value_seen :: "string \<Rightarrow> kvq_ele list \<Rightarrow> bool" where
  "uniq_value_seen val us \<longleftrightarrow> Some val \<in> kv_value ` set us"

text \<open>
  One attribute against a KV element. A pickone slot beyond its array is \<open>None\<close>. The length for a
  prefix comparison of the value is that of the key.
\<close>

definition rss_test_attr ::
  "rsq_ele \<Rightarrow> nat \<Rightarrow> kvq_ele list \<Rightarrow> kvq_ele option \<Rightarrow> string \<times> string \<Rightarrow> bool outcome" where
  "rss_test_attr q n_match uniq pickone kv =
     (let key = fst kv; val = snd kv;
          k_unique = q_key_op q AND RSQ_BASE_KV_UNIQUE; k_pickone = q_key_op q AND RSQ_BASE_KV_PICKONE;
          k_op = q_key_op q AND RSQ_BASE_KV_OP_BITMASK;
          v_unique = q_val_op q AND RSQ_BASE_KV_UNIQUE; v_pickone = q_val_op q AND RSQ_BASE_KV_PICKONE;
          v_op = q_val_op q AND RSQ_BASE_KV_OP_BITMASK;
          nlen = length (str_of (q_key q));
          k_found = (if k_op = RSQ_BASE_KV_EXACT then key = str_of (q_key q)
                     else if k_op = RSQ_BASE_KV_PREFIX then strncmp_eq key (str_of (q_key q)) nlen
                     else k_op = RSQ_BASE_KV_ANY)
      in if \<not> k_found then Ret False
         else
           (case (if n_match > 0 then
                    (if k_unique > 0 then
                       (case uniq_key_seen key (take n_match uniq) of Crash \<Rightarrow> Crash | Ret b \<Rightarrow> Ret (\<not> b))
                     else if k_pickone > 0 then
                       (case pickone of None \<Rightarrow> Crash
                        | Some p \<Rightarrow> (case kv_key p of None \<Rightarrow> Crash | Some k \<Rightarrow> Ret (key = k)))
                     else Ret True)
                  else Ret True) of
              Crash \<Rightarrow> Crash
            | Ret found1 \<Rightarrow>
                (let found2 = (found1 \<and>
                       (if v_op = RSQ_BASE_KV_EXACT then val = str_of (q_val q)
                        else if v_op = RSQ_BASE_KV_PREFIX then strncmp_eq val (str_of (q_val q)) nlen
                        else True))
                 in if found2 \<and> n_match > 0 then
                      (if v_unique > 0 then Ret (\<not> uniq_value_seen val (take n_match uniq))
                       else if v_pickone > 0 then
                         (case pickone of None \<Rightarrow> Crash
                          | Some p \<Rightarrow> Ret (kv_value p = None \<or> kv_value p = Some val))
                       else Ret True)
                    else Ret found2)))"

fun rss_test_loop ::
  "rsq_ele \<Rightarrow> nat \<Rightarrow> kvq_ele list \<Rightarrow> kvq_ele option \<Rightarrow> (string \<times> string) list \<Rightarrow> (string \<times> string) option outcome" where
  "rss_test_loop q n_match uniq pickone [] = Ret None"
| "rss_test_loop q n_match uniq pickone (kv # kvs) =
     (case rss_test_attr q n_match uniq pickone kv of
        Crash \<Rightarrow> Crash
      | Ret found \<Rightarrow> if found then Ret (Some kv) else rss_test_loop q n_match uniq pickone kvs)"

text \<open>The match is recorded in the slot of this pick when the element asks for it.\<close>

definition rss_test_store ::
  "rsq_ele \<Rightarrow> nat \<Rightarrow> kvq_ele list \<Rightarrow> kvq_ele option \<Rightarrow> string \<times> string \<Rightarrow> (kvq_ele list \<times> kvq_ele option) outcome" where
  "rss_test_store q n_match uniq pickone kv =
     (let k_unique = q_key_op q AND RSQ_BASE_KV_UNIQUE > 0; v_unique = q_val_op q AND RSQ_BASE_KV_UNIQUE > 0;
          k_pickone = q_key_op q AND RSQ_BASE_KV_PICKONE > 0; v_pickone = q_val_op q AND RSQ_BASE_KV_PICKONE > 0
      in if (k_unique \<or> v_unique) \<and> n_match \<ge> length uniq then Crash
         else if (k_pickone \<or> v_pickone) \<and> pickone = None then Crash
         else
           (let u = uniq ! n_match;
                u1 = (if k_unique then u\<lparr>kv_key := Some (fst kv)\<rparr> else u);
                u2 = (if v_unique then u1\<lparr>kv_value := Some (snd kv)\<rparr> else u1);
                uniq' = (if k_unique \<or> v_unique then uniq[n_match := u2] else uniq);
                p1 = (if k_pickone then map_option (\<lambda>p. p\<lparr>kv_key := Some (fst kv)\<rparr>) pickone else pickone);
                p2 = (if v_pickone then map_option (\<lambda>p. p\<lparr>kv_value := Some (snd kv)\<rparr>) p1 else p1)
            in Ret (uniq', p2)))"

definition rss_test ::
  "('l, string) list_ops \<Rightarrow> rsq_ele \<Rightarrow> 'l rss_rid_entry \<Rightarrow> nat \<Rightarrow> kvq_ele list \<Rightarrow> kvq_ele option \<Rightarrow>
   (int \<times> kvq_ele list \<times> kvq_ele option) outcome" where
  "rss_test LA q rse n_match uniq pickone =
     (let s = str_of (q_key q)
      in case rss_test_loop q n_match uniq pickone (li_from LA (attr rse) s (length s)) of
           Crash \<Rightarrow> Crash
         | Ret None \<Rightarrow> Ret (0, uniq, pickone)
         | Ret (Some kv) \<Rightarrow>
             (case rss_test_store q n_match uniq pickone kv of
                Crash \<Rightarrow> Crash
              | Ret (uniq', pickone') \<Rightarrow> Ret (1, uniq', pickone')))"

section \<open>Evaluating a query on a RID\<close>

text \<open>
  The query runs on a stack of truth values. \<open>AND\<close> only looks at its second operand when the first
  holds, \<open>OR\<close> tests the pointers it popped and not what they point to, and an unknown operator
  pushes \<open>-1\<close>.
\<close>

fun rss_eval ::
  "('l, string) list_ops \<Rightarrow> 'l rss_rid_entry \<Rightarrow> nat \<Rightarrow> rsq_ele list \<Rightarrow> nat \<Rightarrow> nat \<Rightarrow> int list \<Rightarrow> kvq_table \<Rightarrow>
   (int list \<times> kvq_table) outcome" where
  "rss_eval LA rse i [] i_unique i_pickone stack kvq = Ret (stack, kvq)"
| "rss_eval LA rse i (q # qs) i_unique i_pickone stack kvq =
     (if q_op q = RSQ_BASE_OP_KV then
        (if i_unique \<ge> length (kt_unique kvq) then Crash
         else
           (case rss_test LA q rse i (kt_unique kvq ! i_unique)
                   (if i_pickone < length (kt_pickone kvq) then Some (kt_pickone kvq ! i_pickone) else None) of
              Crash \<Rightarrow> Crash
            | Ret (state, uniq', pick') \<Rightarrow>
                rss_eval LA rse i qs (if is_unique q then i_unique + 1 else i_unique)
                  (if is_pickone q then i_pickone + 1 else i_pickone) (state # stack)
                  \<lparr>kt_unique = (kt_unique kvq)[i_unique := uniq'],
                   kt_pickone = (case pick' of None \<Rightarrow> kt_pickone kvq
                                 | Some p \<Rightarrow> (kt_pickone kvq)[i_pickone := p])\<rparr>))
      else if q_op q = RSQ_BASE_OP_NOT then
        (case stack of [] \<Rightarrow> Crash
         | a # st \<Rightarrow> rss_eval LA rse i qs i_unique i_pickone ((if a = 0 then 1 else 0) # st) kvq)
      else if q_op q = RSQ_BASE_OP_AND then
        (case stack of
           [] \<Rightarrow> Crash
         | [a] \<Rightarrow> if a = 0 then rss_eval LA rse i qs i_unique i_pickone [0] kvq else Crash
         | a # b # st \<Rightarrow>
             rss_eval LA rse i qs i_unique i_pickone ((if a \<noteq> 0 \<and> b \<noteq> 0 then 1 else 0) # st) kvq)
      else if q_op q = RSQ_BASE_OP_OR then
        (case stack of
           [] \<Rightarrow> rss_eval LA rse i qs i_unique i_pickone [0] kvq
         | [a] \<Rightarrow> rss_eval LA rse i qs i_unique i_pickone [1] kvq
         | a # b # st \<Rightarrow> rss_eval LA rse i qs i_unique i_pickone (1 # st) kvq)
      else rss_eval LA rse i qs i_unique i_pickone (-1 # stack) kvq)"

text \<open>
  The global query, then the local one on the same stack; the top of the stack is the verdict.
\<close>

definition rss_eval_both ::
  "('l, string) list_ops \<Rightarrow> 'l rss_rid_entry \<Rightarrow> nat \<Rightarrow> rsq_ele list \<Rightarrow> rsq_ele list option \<Rightarrow>
   kvq_table \<Rightarrow> kvq_table \<Rightarrow> (int option \<times> kvq_table \<times> kvq_table) outcome" where
  "rss_eval_both LA rse i global local kvg kvl =
     (case rss_eval LA rse i global 0 0 [] kvg of
        Crash \<Rightarrow> Crash
      | Ret (stack, kvg') \<Rightarrow>
          (case local of
             None \<Rightarrow> Ret (case stack of [] \<Rightarrow> None | a # st \<Rightarrow> Some a, kvg', kvl)
           | Some lq \<Rightarrow>
               (case rss_eval LA rse i lq 0 0 stack kvl of
                  Crash \<Rightarrow> Crash
                | Ret (stack', kvl') \<Rightarrow> Ret (case stack' of [] \<Rightarrow> None | a # st \<Rightarrow> Some a, kvg', kvl'))))"

section \<open>Requests\<close>

record rid_change_entry =
  rc_state :: int
  rc_delta :: ex_off
  rc_tolerance :: ex_off

text \<open>A hint names the restricted pool it picks from by its number; hints may share a pool.\<close>

record rs_hints =
  h_fixed_rid_key :: string
  h_status :: int
  h_local_rsq :: "rsq_base option"
  h_pick_from :: "nat option"

record rs_request =
  rq_rid_index :: int
  rq_size :: ex_off
  rq_rid_key :: "string option"
  rq_ds_key :: "string option"

record rs_req_state =
  rr_hints :: "rs_hints list option"
  rr_req :: "rs_request list"
  rr_pools :: "(string \<rightharpoonup> rid_change_entry) list"
  rr_kvg :: kvq_table
  rr_kvl :: kvq_table
  rr_status :: op_status
  rr_err_cnt :: int
  rr_found :: int

text \<open>The space request \<open>i\<close> takes, and the assignment of a RID to it.\<close>

definition rs_request_change :: "rs_request list \<Rightarrow> nat \<Rightarrow> ex_off" where
  "rs_request_change req i = sum_list (map rq_size (filter (\<lambda>r. rq_rid_index r = int i) req))"

definition rs_request_assign :: "rs_request list \<Rightarrow> nat \<Rightarrow> 'l rss_rid_entry \<Rightarrow> rs_request list" where
  "rs_request_assign req i rse =
     map (\<lambda>r. if rq_rid_index r = int i
              then r\<lparr>rq_rid_key := Some (rid_key rse), rq_ds_key := Some (ds_key rse)\<rparr> else r) req"

text \<open>Whether a restricted pool lets this RID take \<open>change\<close> more bytes, and its entry.\<close>

definition rs_pick_from ::
  "(string \<rightharpoonup> rid_change_entry) list \<Rightarrow> nat option \<Rightarrow> string \<Rightarrow> ex_off \<Rightarrow> rid_change_entry option option" where
  "rs_pick_from pools pick_from key change =
     (case pick_from of
        None \<Rightarrow> Some None
      | Some p \<Rightarrow>
          (case (pools ! p) key of
             None \<Rightarrow> None
           | Some rc \<Rightarrow>
               if rc_state rc = 1 then None
               else if rc_delta rc \<le> 0 then None
               else if change - rc_delta rc > rc_tolerance rc then None
               else Some (Some rc)))"

definition rid_change_taken :: "rid_change_entry \<Rightarrow> ex_off \<Rightarrow> rid_change_entry" where
  "rid_change_taken rc change =
     (let d = rc_delta rc - change
      in rc\<lparr>rc_delta := d,
            rc_state := (if \<bar>d\<bar> \<le> rc_tolerance rc \<or> rc_tolerance rc = 0 then 1 else 0)\<rparr>)"

definition hint_set_status :: "rs_hints list option \<Rightarrow> nat \<Rightarrow> int \<Rightarrow> rs_hints list option outcome" where
  "hint_set_status hints i st =
     (case hints of None \<Rightarrow> Crash
      | Some hs \<Rightarrow> if i < length hs then Ret (Some (hs[i := (hs ! i)\<lparr>h_status := st\<rparr>])) else Crash)"

text \<open>What happens when the query accepted the RID.\<close>

definition rs_request_take ::
  "'l rss_rid_entry \<Rightarrow> nat \<Rightarrow> nat \<Rightarrow> nat option \<Rightarrow> rid_change_entry option \<Rightarrow> ex_off \<Rightarrow> rs_req_state \<Rightarrow> rs_req_state outcome" where
  "rs_request_take rse i fixed_size pick_from rid_change change S =
     (case (if i < fixed_size then hint_set_status (rr_hints S) i RS_ERROR_OK else Ret (rr_hints S)) of
        Crash \<Rightarrow> Crash
      | Ret hints' \<Rightarrow>
          Ret (S\<lparr>rr_found := 1, rr_hints := hints', rr_req := rs_request_assign (rr_req S) i rse,
                 rr_pools := (case (pick_from, rid_change) of
                     (Some p, Some rc) \<Rightarrow> (rr_pools S)[p := (rr_pools S ! p)(rid_key rse \<mapsto> rid_change_taken rc change)]
                   | _ \<Rightarrow> rr_pools S)\<rparr>))"

text \<open>
  The scan of the RIDs for pick \<open>i\<close>, over the addresses in scanning order. An empty stack is an
  error, but the scan goes on with the next RID.
\<close>

fun rs_request_scan ::
  "('l, string) list_ops \<Rightarrow> 'l rss_rid_entry list \<Rightarrow> rsq_ele list \<Rightarrow> nat \<Rightarrow> nat \<Rightarrow> int \<Rightarrow> rsq_ele list option \<Rightarrow>
   nat option \<Rightarrow> ex_off \<Rightarrow> nat list \<Rightarrow> rs_req_state \<Rightarrow> rs_req_state outcome" where
  "rs_request_scan LA heap global i fixed_size ignore_err local pick_from change [] S = Ret S"
| "rs_request_scan LA heap global i fixed_size ignore_err local pick_from change (a # as) S =
     (let rse = heap ! a
      in case rs_pick_from (rr_pools S) pick_from (rid_key rse) change of
           None \<Rightarrow> rs_request_scan LA heap global i fixed_size ignore_err local pick_from change as S
         | Some rid_change \<Rightarrow>
             if status rse \<noteq> RS_STATUS_UP \<and> i \<ge> fixed_size then
               rs_request_scan LA heap global i fixed_size ignore_err local pick_from change as S
             else
               (case rss_eval_both LA rse i global local (rr_kvg S) (rr_kvl S) of
                  Crash \<Rightarrow> Crash
                | Ret (verdict, kvg', kvl') \<Rightarrow>
                    (let S1 = S\<lparr>rr_kvg := kvg', rr_kvl := kvl'\<rparr>
                     in case verdict of
                          None \<Rightarrow>
                            rs_request_scan LA heap global i fixed_size ignore_err local pick_from change as
                              (S1\<lparr>rr_found := 0, rr_status := \<lparr>op_state = OP_STATE_FAILURE,
                                                              error_code = RS_ERROR_EMPTY_STACK\<rparr>\<rparr>)
                        | Some state \<Rightarrow>
                            if state = 1 then rs_request_take rse i fixed_size pick_from rid_change change S1
                            else if i < fixed_size then
                              (case hint_set_status (rr_hints S1) i RS_ERROR_FIXED_MATCH_FAIL of
                                 Crash \<Rightarrow> Crash
                               | Ret hints' \<Rightarrow>
                                   Ret (S1\<lparr>rr_status := \<lparr>op_state = OP_STATE_FAILURE,
                                                          error_code = RS_ERROR_FIXED_MATCH_FAIL\<rparr>,
                                           rr_hints := hints',
                                           rr_err_cnt := rr_err_cnt S1 + (if ignore_err = 0 then 1 else 0)\<rparr>))
                            else rs_request_scan LA heap global i fixed_size ignore_err local pick_from change as
                                   (S1\<lparr>rr_found := 0\<rparr>))))"

definition rs_scan_order :: "nat list \<Rightarrow> nat \<Rightarrow> nat list" where
  "rs_scan_order arr rnd_off = map (\<lambda>j. arr ! ((rnd_off + j) mod length arr)) [0..<length arr]"

text \<open>
  What the hints say about pick \<open>i\<close>: the pick is skipped (\<open>Inl\<close> the state after the skip), or its
  local query and the offset the scan starts at.
\<close>

definition rs_request_hint ::
  "('t, nat) list_ops \<Rightarrow> ('l, 't) rs_simple_priv \<Rightarrow> nat \<Rightarrow> nat \<Rightarrow> nat \<Rightarrow> rs_req_state \<Rightarrow>
   (rs_req_state + (rsq_ele list option \<times> nat \<times> nat option)) outcome" where
  "rs_request_hint LT rss fixed_size i rnd_off S =
     (case rr_hints S of
        None \<Rightarrow> Ret (Inr (None, rnd_off, None))
      | Some hs \<Rightarrow>
          if i \<ge> length hs then Crash
          else
            (let h = hs ! i;
                 bad = (case h_local_rsq h of None \<Rightarrow> False
                        | Some lq \<Rightarrow> (case rs_query_count lq of (n, nu, np) \<Rightarrow> nu \<noteq> 0 \<and> np \<noteq> 0))
             in if bad then
                  Ret (Inl (S\<lparr>rr_status := \<lparr>op_state = OP_STATE_FAILURE, error_code = RS_ERROR_FIXED_NOT_FOUND\<rparr>,
                              rr_hints := Some (hs[i := h\<lparr>h_status := RS_ERROR_HINTS_INVALID_LOCAL\<rparr>]),
                              rr_err_cnt := rr_err_cnt S + 1\<rparr>))
                else if i < fixed_size then
                  (case li_search LT (rid_table rss) (h_fixed_rid_key h) of
                     None \<Rightarrow> Ret (Inl (S\<lparr>rr_hints := Some (hs[i := h\<lparr>h_status := RS_ERROR_FIXED_NOT_FOUND\<rparr>])\<rparr>))
                   | Some a \<Rightarrow> Ret (Inr (map_option q_eles (h_local_rsq h), slot (rids rss ! a), h_pick_from h)))
                else Ret (Inr (map_option q_eles (h_local_rsq h), rnd_off, h_pick_from h))))"

text \<open>The picks \<open>i\<close> to \<open>n_rid - 1\<close>, with \<open>n\<close> of them to go.\<close>

fun rs_request_loop ::
  "('l, string) list_ops \<Rightarrow> ('t, nat) list_ops \<Rightarrow> (nat \<Rightarrow> nat) \<Rightarrow> ('l, 't) rs_simple_priv \<Rightarrow> rsq_ele list \<Rightarrow> nat \<Rightarrow> int \<Rightarrow>
   nat \<Rightarrow> nat \<Rightarrow> rs_req_state \<Rightarrow> rs_req_state outcome" where
  "rs_request_loop LA LT rnd rss global fixed_size ignore_err 0 i S = Ret S"
| "rs_request_loop LA LT rnd rss global fixed_size ignore_err (Suc n) i S =
     (case rs_request_hint LT rss fixed_size i (rnd i) (S\<lparr>rr_found := 0\<rparr>) of
        Crash \<Rightarrow> Crash
      | Ret (Inl S1) \<Rightarrow> rs_request_loop LA LT rnd rss global fixed_size ignore_err n (i + 1) S1
      | Ret (Inr (local, off, pick_from)) \<Rightarrow>
          (case rs_request_scan LA (rids rss) global i fixed_size ignore_err local pick_from
                  (rs_request_change (rr_req S) i) (rs_scan_order (random_array rss) off) (S\<lparr>rr_found := 0\<rparr>) of
             Crash \<Rightarrow> Crash
           | Ret S1 \<Rightarrow> if rr_found S1 = 0 \<and> i \<ge> fixed_size then Ret S1
                      else rs_request_loop LA LT rnd rss global fixed_size ignore_err n (i + 1) S1))"

definition kvq_blank :: kvq_ele where "kvq_blank = \<lparr>kv_key = None, kv_value = None\<rparr>"

text \<open>
  The tables: a row of \<open>n_rid\<close> slots for every unique element and one more, a slot for every pickone
  element and one more; for the local queries one of each.
\<close>

definition rs_kvq_global :: "rsq_base \<Rightarrow> nat \<Rightarrow> kvq_table" where
  "rs_kvq_global query n_rid =
     (case rs_query_count query of (n, nu, np) \<Rightarrow>
        \<lparr>kt_unique = replicate (nu + 1) (replicate n_rid kvq_blank),
         kt_pickone = replicate (if np = 0 then 1 else np + 1) kvq_blank\<rparr>)"

definition rs_kvq_local :: "nat \<Rightarrow> kvq_table" where
  "rs_kvq_local n_rid = \<lparr>kt_unique = [replicate n_rid kvq_blank], kt_pickone = [kvq_blank]\<rparr>"

text \<open>
  The request as a whole, on the state \<open>rss\<close> after the refresh, whose return code is \<open>refresh\<close>. It
  gives the outcome that is known at once (\<open>None\<close> when the allocations are queued) and the final
  state of the arguments.
\<close>

definition rs_simple_request ::
  "('l, string) list_ops \<Rightarrow> ('t, nat) list_ops \<Rightarrow> (nat \<Rightarrow> nat) \<Rightarrow> int \<Rightarrow> ('l, 't) rs_simple_priv \<Rightarrow> rsq_base \<Rightarrow>
   rs_request list \<Rightarrow> rs_hints list option \<Rightarrow> (string \<rightharpoonup> rid_change_entry) list \<Rightarrow> nat \<Rightarrow> nat \<Rightarrow> int \<Rightarrow>
   (op_status option \<times> rs_req_state) outcome" where
  "rs_simple_request LA LT rnd refresh rss rsq req hints pools fixed_size n_rid ignore_err =
     (let S0 = \<lparr>rr_hints = hints, rr_req = map (\<lambda>r. r\<lparr>rq_rid_key := None\<rparr>) req, rr_pools = pools,
                rr_kvg = rs_kvq_global rsq n_rid, rr_kvl = rs_kvq_local n_rid,
                rr_status = op_success_status, rr_err_cnt = 0, rr_found = 0\<rparr>
      in if refresh \<noteq> 0 then Ret (Some op_failure_status, S0)
         else
           (case rs_request_loop LA LT rnd rss (q_eles rsq) fixed_size ignore_err n_rid 0 S0 of
              Crash \<Rightarrow> Crash
            | Ret S \<Rightarrow>
                if rr_found S = 0 \<or> rr_err_cnt S > 0 then
                  (let st = (if error_code (rr_status S) = 0
                             then \<lparr>op_state = OP_STATE_FAILURE, error_code = RS_ERROR_NOT_ENOUGH_RIDS\<rparr>
                             else rr_status S)
                   in Ret (Some st, S\<lparr>rr_status := st\<rparr>))
                else Ret (None, S)))"

section \<open>The resource table\<close>

text \<open>\<open>strdup\<close> of a missing value is undefined.\<close>

definition rs_simple_get_rid_value ::
  "('l, string) list_ops \<Rightarrow> ('t, nat) list_ops \<Rightarrow> ('l, 't) rs_simple_priv \<Rightarrow> string \<Rightarrow> string \<Rightarrow> string outcome" where
  "rs_simple_get_rid_value LA LT rss key_rid key =
     (let value = (case li_search LT (rid_table rss) key_rid of
                     None \<Rightarrow> None
                   | Some a \<Rightarrow> li_search LA (attr (rids rss ! a)) key)
      in case value of None \<Rightarrow> Crash | Some v \<Rightarrow> Ret v)"

text \<open>
  Loading an entry: \<open>sgi\<close> is the toolbox's integer parser. The keys the entry needs are kept as
  options until the end.
\<close>

record 'l rss_loading =
  ld_rid_key :: "string option"
  ld_ds_key :: "string option"
  ld_entry :: "'l rss_rid_entry"

definition rss_load_element ::
  "('l, string) list_ops \<Rightarrow> (string option \<Rightarrow> int) \<Rightarrow> string \<times> string option \<Rightarrow> 'l rss_loading \<Rightarrow> 'l rss_loading outcome" where
  "rss_load_element LA sgi kv d =
     (let key = fst kv; value = snd kv; e = ld_entry d
      in if key = ''rid_key'' then
           (case value of None \<Rightarrow> Crash
            | Some v \<Rightarrow> Ret (d\<lparr>ld_rid_key := Some v,
                               ld_entry := e\<lparr>rid_key := v, attr := li_insert LA (attr e) key v\<rparr>\<rparr>))
         else if key = ''ds_key'' then
           (case value of None \<Rightarrow> Crash
            | Some v \<Rightarrow> Ret (d\<lparr>ld_ds_key := Some v, ld_entry := e\<lparr>ds_key := v\<rparr>\<rparr>))
         else if key = ''status'' then
           (case value of None \<Rightarrow> Crash | Some v \<Rightarrow> Ret (d\<lparr>ld_entry := e\<lparr>status := atoi v\<rparr>\<rparr>))
         else if key = ''space_free'' then Ret (d\<lparr>ld_entry := e\<lparr>space_free := sgi value\<rparr>\<rparr>)
         else if key = ''space_used'' then Ret (d\<lparr>ld_entry := e\<lparr>space_used := sgi value\<rparr>\<rparr>)
         else if key = ''space_total'' then Ret (d\<lparr>ld_entry := e\<lparr>space_total := sgi value\<rparr>\<rparr>)
         else (case value of None \<Rightarrow> Ret d
               | Some v \<Rightarrow> Ret (d\<lparr>ld_entry := e\<lparr>attr := li_insert LA (attr e) key v\<rparr>\<rparr>)))"

fun rss_load_elements ::
  "('l, string) list_ops \<Rightarrow> (string option \<Rightarrow> int) \<Rightarrow> (string \<times> string option) list \<Rightarrow> 'l rss_loading \<Rightarrow> 'l rss_loading outcome" where
  "rss_load_elements LA sgi [] d = Ret d"
| "rss_load_elements LA sgi (kv # kvs) d =
     (case rss_load_element LA sgi kv d of Crash \<Rightarrow> Crash | Ret d' \<Rightarrow> rss_load_elements LA sgi kvs d')"

definition rss_load_entry ::
  "('l, string) list_ops \<Rightarrow> (string option \<Rightarrow> int) \<Rightarrow> (string \<times> string option) list \<Rightarrow> 'l rss_rid_entry option outcome" where
  "rss_load_entry LA sgi grp =
     (case rss_load_elements LA sgi grp
             \<lparr>ld_rid_key = None, ld_ds_key = None,
              ld_entry = \<lparr>rid_key = '''', ds_key = '''', attr = li_empty LA, status = RS_STATUS_UP, slot = 0,
                          space_total = 0, space_used = 0, space_free = 0\<rparr>\<rparr> of
        Crash \<Rightarrow> Crash
      | Ret d \<Rightarrow> Ret (if ld_rid_key d = None \<or> ld_ds_key d = None then None else Some (ld_entry d)))"

section \<open>Loading the configuration\<close>

text \<open>
  The groups of the configuration, in order. Entries go to the end of the store and into the
  table under their RID key.
\<close>

fun rs_simple_load_groups ::
  "('l, string) list_ops \<Rightarrow> ('t, nat) list_ops \<Rightarrow> (string option \<Rightarrow> int) \<Rightarrow> (string \<times> (string \<times> string option) list) list \<Rightarrow>
   'l rss_rid_entry list \<Rightarrow> 't \<Rightarrow> ('l rss_rid_entry list \<times> 't) outcome" where
  "rs_simple_load_groups LA LT sgi [] heap table = Ret (heap, table)"
| "rs_simple_load_groups LA LT sgi (g # gs) heap table =
     (if fst g = ''rid'' then
        (case rss_load_entry LA sgi (snd g) of
           Crash \<Rightarrow> Crash
         | Ret None \<Rightarrow> rs_simple_load_groups LA LT sgi gs heap table
         | Ret (Some rse) \<Rightarrow>
             rs_simple_load_groups LA LT sgi gs (heap @ [rse]) (li_insert LT table (rid_key rse) (length heap)))
      else rs_simple_load_groups LA LT sgi gs heap table)"

text \<open>The first free slot at or after \<open>n\<close>, going round; \<open>k\<close> bounds the steps left.\<close>

fun rss_free_slot :: "nat \<Rightarrow> nat option list \<Rightarrow> nat \<Rightarrow> nat option" where
  "rss_free_slot 0 arr n = None"
| "rss_free_slot (Suc k) arr n =
     (if arr ! n \<noteq> None then rss_free_slot k arr ((n + 1) mod length arr) else Some n)"

text \<open>
  Every entry of the table, in order, gets a random free slot of the array; \<open>rnd n i\<close> is the \<open>i\<close>-th
  random number, below \<open>n\<close>.
\<close>

fun rss_permute ::
  "(nat \<Rightarrow> nat \<Rightarrow> nat) \<Rightarrow> nat list \<Rightarrow> nat \<Rightarrow> 'l rss_rid_entry list \<Rightarrow> nat option list \<Rightarrow>
   ('l rss_rid_entry list \<times> nat option list) option" where
  "rss_permute rnd [] i heap arr = Some (heap, arr)"
| "rss_permute rnd (a # as) i heap arr =
     (case rss_free_slot (length arr) arr (rnd (length arr) i) of
        None \<Rightarrow> None
      | Some n \<Rightarrow> rss_permute rnd as (i + 1) (heap[a := (heap ! a)\<lparr>slot := n\<rparr>]) (arr[n := Some a]))"

definition rs_simple_load ::
  "('l, string) list_ops \<Rightarrow> ('t, nat) list_ops \<Rightarrow> (string option \<Rightarrow> int) \<Rightarrow> (nat \<Rightarrow> nat \<Rightarrow> nat) \<Rightarrow>
   (string \<times> (string \<times> string option) list) list \<Rightarrow> ('l, 't) rs_simple_priv \<Rightarrow> ('l, 't) rs_simple_priv option outcome" where
  "rs_simple_load LA LT sgi rnd cfg rss =
     (case rs_simple_load_groups LA LT sgi cfg [] (li_empty LT) of
        Crash \<Rightarrow> Crash
      | Ret (heap, table) \<Rightarrow>
          Ret (map_option
             (\<lambda>(heap', arr). rss\<lparr>rids := heap', rid_table := table, random_array := map the arr\<rparr>)
             (rss_permute rnd (map snd (li_all LT table)) 0 heap (replicate (li_count LT table) None))))"

section \<open>The check table\<close>

text \<open>The first entry of a RID key is kept, a second one switches dynamic mapping off.\<close>

fun rss_make_check_loop ::
  "'l rss_rid_entry list \<Rightarrow> nat list \<Rightarrow> (string \<times> rss_check_entry) list \<Rightarrow> int \<Rightarrow> (string \<times> rss_check_entry) list \<times> int" where
  "rss_make_check_loop heap [] m uniq = (m, uniq)"
| "rss_make_check_loop heap (a # as) m uniq =
     (let re = heap ! a;
          ce = \<lparr>ce_ds_key = ds_key re, ce_rid_key = rid_key re, ce_re = a\<rparr>
      in case map_of m (rid_key re) of
           None \<Rightarrow> rss_make_check_loop heap as (m @ [(rid_key re, ce)]) uniq
         | Some ce2 \<Rightarrow> rss_make_check_loop heap as m 0)"

definition rss_make_check_table :: "('l, 't) rs_simple_priv \<Rightarrow> ('l, 't) rs_simple_priv" where
  "rss_make_check_table rss =
     (case rss_make_check_loop (rids rss) (random_array rss) [] 1 of
        (m, uniq) \<Rightarrow> rss\<lparr>rid_mapping := m, unique_rids := uniq\<rparr>)"

text \<open>
  The refresh: \<open>stat\<close> gives the modification time of the file, if there is one, and \<open>cfg\<close> its
  groups.
\<close>

definition rs_simple_refresh ::
  "('l, string) list_ops \<Rightarrow> ('t, nat) list_ops \<Rightarrow> (string option \<Rightarrow> int) \<Rightarrow> (nat \<Rightarrow> nat \<Rightarrow> nat) \<Rightarrow> int option \<Rightarrow>
   (string \<times> (string \<times> string option) list) list \<Rightarrow> ('l, 't) rs_simple_priv \<Rightarrow>
   (int \<times> ('l, 't) rs_simple_priv) option outcome" where
  "rs_simple_refresh LA LT sgi rnd stat cfg rss =
     (case stat of
        None \<Rightarrow> Ret (Some (0, rss))
      | Some mtime \<Rightarrow>
          if modify_time rss \<noteq> mtime then
            (case rs_simple_load LA LT sgi rnd cfg (rss\<lparr>modify_time := mtime\<rparr>) of
               Crash \<Rightarrow> Crash
             | Ret r \<Rightarrow> Ret (map_option (\<lambda>rss'. (0, rss_make_check_table rss')) r))
          else Ret (Some (0, rss)))"

section \<open>Checking the resources\<close>

text \<open>The answer of the data service to an inquiry.\<close>

record ds_inquiry =
  in_state :: op_state
  in_free :: ex_off
  in_used :: ex_off
  in_total :: ex_off

text \<open>
  The threshold \<open>min_free\<close> is an unsigned 64-bit number, so the signed free space is converted to
  unsigned for the comparison.
\<close>

definition rss_check_status :: "int \<Rightarrow> ds_inquiry \<Rightarrow> 'l rss_rid_entry \<Rightarrow> 'l rss_rid_entry" where
  "rss_check_status minfree a re =
     (if in_state a = OP_STATE_SUCCESS then
        (let re1 = re\<lparr>space_free := in_free a, space_used := in_used a, space_total := in_total a\<rparr>
         in if status re1 \<noteq> RS_STATUS_IGNORE then
              (if space_free re1 mod 2 ^ 64 \<le> minfree then re1\<lparr>status := RS_STATUS_OUT_OF_SPACE\<rparr>
               else re1\<lparr>status := RS_STATUS_UP\<rparr>)
            else re1)
      else if status re \<noteq> RS_STATUS_IGNORE then re\<lparr>status := RS_STATUS_DOWN\<rparr>
      else re)"

fun rss_check_loop ::
  "int \<Rightarrow> (string \<Rightarrow> ds_inquiry) \<Rightarrow> rss_check_entry list \<Rightarrow> 'l rss_rid_entry list \<Rightarrow> int \<Rightarrow> 'l rss_rid_entry list \<times> int" where
  "rss_check_loop minfree inq [] heap change = (heap, change)"
| "rss_check_loop minfree inq (ce # ces) heap change =
     (let re = heap ! ce_re ce;
          re' = rss_check_status minfree (inq (ce_ds_key ce)) re
      in rss_check_loop minfree inq ces (heap[ce_re ce := re'])
           (if status re \<noteq> status re' then 1 else change))"

definition rss_perform_check ::
  "(string \<Rightarrow> ds_inquiry) \<Rightarrow> ('l, 't) rs_simple_priv \<Rightarrow> int \<times> ('l, 't) rs_simple_priv" where
  "rss_perform_check inq rss =
     (if modify_time rss = current_check rss then
        (case rss_check_loop (min_free rss) inq (map snd (rid_mapping rss)) (rids rss) 0 of
           (heap, change) \<Rightarrow> (change, rss\<lparr>rids := heap\<rparr>))
      else (0, rss))"

section \<open>Notification of mapping changes\<close>

text \<open>
  A registration is kept under the first word of the structure registered, its lock. The store
  \<open>ns\<close> holds the registered structures.
\<close>

record rs_mapping_notify =
  rn_lock :: nat
  map_version :: int
  status_version :: int

definition rss_mapping_register ::
  "rs_mapping_notify list \<Rightarrow> nat \<Rightarrow> ('l, 't) rs_simple_priv \<Rightarrow> ('l, 't) rs_simple_priv" where
  "rss_mapping_register ns p rss = rss\<lparr>mapping_updates := (mapping_updates rss)(rn_lock (ns ! p) \<mapsto> p)\<rparr>"

definition rss_mapping_unregister ::
  "rs_mapping_notify list \<Rightarrow> nat \<Rightarrow> ('l, 't) rs_simple_priv \<Rightarrow> ('l, 't) rs_simple_priv" where
  "rss_mapping_unregister ns p rss = rss\<lparr>mapping_updates := (mapping_updates rss)(rn_lock (ns ! p) := None)\<rparr>"

text \<open>\<open>rnd\<close> is the random status version, between 0 and 100000.\<close>

definition rss_mapping_notify ::
  "int \<Rightarrow> rs_mapping_notify list \<Rightarrow> int \<Rightarrow> int \<Rightarrow> ('l, 't) rs_simple_priv \<Rightarrow> rs_mapping_notify list" where
  "rss_mapping_notify rnd ns new_version status_change rss =
     (let change = (if status_change > 0 then rnd else status_change)
      in map (\<lambda>p. if p \<in> ran (mapping_updates rss)
                  then (let n = (ns ! p)\<lparr>map_version := new_version\<rparr>
                        in if change > 0 then n\<lparr>status_version := change\<rparr> else n)
                  else ns ! p) [0..<length ns])"

definition rss_translate_cap_set ::
  "(string \<Rightarrow> string \<Rightarrow> 'c \<Rightarrow> 'c) \<Rightarrow> ('l, 't) rs_simple_priv \<Rightarrow> string \<Rightarrow> 'c \<Rightarrow> 'c" where
  "rss_translate_cap_set ds_translate rss key cs =
     (case map_of (rid_mapping rss) key of
        None \<Rightarrow> cs
      | Some rce \<Rightarrow> ds_translate key (ce_ds_key rce) cs)"

text \<open>
  One turn of the check thread: refresh, note a reload, check, notify. The thread starts with
  \<open>current_check\<close> 0 and turns until \<open>shutdown\<close>.
\<close>

definition rss_check_turn ::
  "('l, string) list_ops \<Rightarrow> ('t, nat) list_ops \<Rightarrow> (string option \<Rightarrow> int) \<Rightarrow> (nat \<Rightarrow> nat \<Rightarrow> nat) \<Rightarrow> int option \<Rightarrow>
   (string \<times> (string \<times> string option) list) list \<Rightarrow> (string \<Rightarrow> ds_inquiry) \<Rightarrow> int \<Rightarrow>
   rs_mapping_notify list \<Rightarrow> ('l, 't) rs_simple_priv \<Rightarrow> (rs_mapping_notify list \<times> ('l, 't) rs_simple_priv) option outcome" where
  "rss_check_turn LA LT sgi rnd stat cfg inq vrnd ns rss =
     (case rs_simple_refresh LA LT sgi rnd stat cfg rss of
        Crash \<Rightarrow> Crash
      | Ret r \<Rightarrow>
          Ret (map_option
            (\<lambda>(err, rss1).
               let do_notify = (if current_check rss1 \<noteq> modify_time rss1 then 1 else 0 :: int);
                   rss2 = (if do_notify = 1 then rss1\<lparr>current_check := modify_time rss1\<rparr> else rss1);
                   version = modify_time rss2;
                   (change, rss3) = (if check_timeout rss2 \<le> 0 then (0, rss2) else rss_perform_check inq rss2)
               in (if (do_notify = 1 \<and> dynamic_mapping rss3 = 1) \<or> change \<noteq> 0
                   then rss_mapping_notify vrnd ns version change rss3 else ns, rss3)) r))"

definition rss_check_start :: "('l, 't) rs_simple_priv \<Rightarrow> ('l, 't) rs_simple_priv" where
  "rss_check_start rss = rss\<lparr>current_check := 0\<rparr>"

section \<open>Reporting the configuration\<close>

text \<open>The lines of one RID, as key/value pairs, and the text of them all.\<close>

definition rss_config_elements :: "('l, string) list_ops \<Rightarrow> 'l rss_rid_entry list \<Rightarrow> rss_check_entry \<Rightarrow> (string \<times> string) list" where
  "rss_config_elements LA heap ce =
     (let re = heap ! ce_re ce
      in [(''rid_key'', ce_rid_key ce), (''ds_key'', ce_ds_key ce), (''status'', print_int (status re)),
          (''space_used'', print_int (space_used re)), (''space_free'', print_int (space_free re)),
          (''space_total'', print_int (space_total re))] @
         filter (\<lambda>(k, v). k \<noteq> ''rid_key'' \<and> k \<noteq> ''ds_key'') (li_all LA (attr re)))"

definition rss_config_entry_text :: "(string \<times> string) list \<Rightarrow> string" where
  "rss_config_entry_text kvs =
     ''[rid]'' @ newline @ concat (map (\<lambda>(k, v). k @ ''='' @ v @ newline) kvs) @ newline"

definition rss_config_text :: "('l, string) list_ops \<Rightarrow> ('l, 't) rs_simple_priv \<Rightarrow> string" where
  "rss_config_text LA rss =
     concat (map (\<lambda>ce. rss_config_entry_text (rss_config_elements LA (rids rss) ce)) (map snd (rid_mapping rss)))"

text \<open>The buffer is doubled, and the text printed again, until it fits.\<close>

partial_function (option) rss_config_grow :: "string \<Rightarrow> int \<Rightarrow> int option" where
  "rss_config_grow txt bufsize =
     (let bufsize' = 2 * bufsize
      in if int (length txt) \<ge> bufsize' then rss_config_grow txt bufsize' else Some bufsize')"

declare rss_config_grow.simps [code]

definition rss_get_rid_config ::
  "('l, string) list_ops \<Rightarrow> ('l, 't) rs_simple_priv \<Rightarrow> (string \<times> ('l, 't) rs_simple_priv) option" where
  "rss_get_rid_config LA rss =
     (let txt = rss_config_text LA rss;
          bufsize = (if last_config_size rss > 0 then c_div (last_config_size rss) 2 + 4096 else 100 * 1024)
      in map_option (\<lambda>b. (txt, rss\<lparr>last_config_size := int (length txt)\<rparr>)) (rss_config_grow txt bufsize))"

section \<open>The space report\<close>

record rs_space_t =
  n_rids_total :: int
  n_rids_free :: int
  n_rids_status :: "int list"
  used_total :: int
  free_total :: int
  total_total :: int
  used_up :: int
  free_up :: int
  total_up :: int

definition rs_space_zero :: rs_space_t where
  "rs_space_zero = \<lparr>n_rids_total = 0, n_rids_free = 0, n_rids_status = [0, 0, 0], used_total = 0, free_total = 0,
     total_total = 0, used_up = 0, free_up = 0, total_up = 0\<rparr>"

text \<open>One RID: the report, then its status, free, used and total space as far as read.\<close>

fun rs_space_elements ::
  "(string option \<Rightarrow> int) \<Rightarrow> (string \<times> string option) list \<Rightarrow> rs_space_t \<times> int \<times> int \<times> int \<times> int \<Rightarrow>
   rs_space_t \<times> int \<times> int \<times> int \<times> int" where
  "rs_space_elements sgi [] c = c"
| "rs_space_elements sgi ((key, value) # kvs) (sp, st, nfree, nused, ntotal) =
     (let n = sgi value
      in if key = ''space_free'' then
           rs_space_elements sgi kvs (if n > 0 then sp\<lparr>n_rids_free := n_rids_free sp + 1\<rparr> else sp, st, n, nused, ntotal)
         else if key = ''space_used'' then rs_space_elements sgi kvs (sp, st, nfree, n, ntotal)
         else if key = ''space_total'' then rs_space_elements sgi kvs (sp, st, nfree, nused, n)
         else if key = ''status'' then
           rs_space_elements sgi kvs
             (if 0 \<le> n \<and> n \<le> 2
              then sp\<lparr>n_rids_status := (n_rids_status sp)[nat n := n_rids_status sp ! nat n + 1]\<rparr> else sp,
              n, nfree, nused, ntotal)
         else rs_space_elements sgi kvs (sp, st, nfree, nused, ntotal))"

fun rs_space_groups ::
  "(string option \<Rightarrow> int) \<Rightarrow> (string \<times> (string \<times> string option) list) list \<Rightarrow> rs_space_t \<Rightarrow> rs_space_t" where
  "rs_space_groups sgi [] sp = sp"
| "rs_space_groups sgi (g # gs) sp =
     rs_space_groups sgi gs
       (if fst g = ''rid'' then
          (case rs_space_elements sgi (snd g) (sp\<lparr>n_rids_total := n_rids_total sp + 1\<rparr>, 0, 0, 0, 0) of
             (sp1, st, nfree, nused, ntotal) \<Rightarrow>
               (let sp2 = sp1\<lparr>used_total := used_total sp1 + nused, free_total := free_total sp1 + nfree,
                              total_total := total_total sp1 + ntotal\<rparr>
                in if st = RS_STATUS_UP then
                     sp2\<lparr>used_up := used_up sp2 + nused, free_up := free_up sp2 + nfree,
                         total_up := total_up sp2 + ntotal\<rparr>
                   else sp2))
        else sp)"

definition rs_space ::
  "(string option \<Rightarrow> int) \<Rightarrow> (string \<times> (string \<times> string option) list) list option \<Rightarrow> rs_space_t" where
  "rs_space sgi config = (case config of None \<Rightarrow> rs_space_zero | Some gs \<Rightarrow> rs_space_groups sgi gs rs_space_zero)"

end
