(* ===== verification/Rs_Correctness.thy ===== *)
theory Rs_Correctness
  imports Rs_Simple
begin

unbundle bit_operations_syntax

text \<open>
  Correctness of the resource service modelled in \<open>Rs_Simple\<close>: what a query accepts, which RIDs a
  request is given, that loading makes a permutation of the table, what a check does to the status of
  a RID, and that the configuration report can be loaded again.
\<close>

section \<open>An association list as the sorted list\<close>

text \<open>A reference container: entries under distinct keys, an insertion replaces.\<close>

typedef 'v kvlist = "{kvs :: (string \<times> 'v) list. distinct (map fst kvs)}"
  by (rule exI [of _ "[]"]) simp

setup_lifting type_definition_kvlist

lift_definition kvl_empty :: "'v kvlist" is "[]" by simp

lift_definition kvl_insert :: "'v kvlist \<Rightarrow> string \<Rightarrow> 'v \<Rightarrow> 'v kvlist" is
  "\<lambda>kvs k v. (k, v) # filter (\<lambda>kv. fst kv \<noteq> k) kvs"
  by (auto simp: distinct_map inj_on_def)

lift_definition kvl_all :: "'v kvlist \<Rightarrow> (string \<times> 'v) list" is "\<lambda>kvs. kvs" .

definition kvl_ops :: "('v kvlist, 'v) list_ops" where
  "kvl_ops = \<lparr>li_empty = kvl_empty, li_insert = kvl_insert, li_search = (\<lambda>l k. map_of (kvl_all l) k),
     li_from = (\<lambda>l s n. kvl_all l), li_all = kvl_all, li_count = (\<lambda>l. length (kvl_all l))\<rparr>"

interpretation kvl: sorted_list kvl_ops
proof (unfold_locales, goal_cases)
  case 1
  show ?case by (simp add: kvl_ops_def) (transfer, simp)
next
  case (2 k l v)
  then have "k \<notin> fst ` set (kvl_all l)" by (simp add: kvl_ops_def)
  then have "mset (kvl_all (kvl_insert l k v)) = add_mset (k, v) (mset (kvl_all l))"
  proof (transfer)
    fix k and l :: "(string \<times> 'a) list" and v
    assume "k \<notin> fst ` set l"
    then have "filter (\<lambda>kv. fst kv \<noteq> k) l = l" by (intro filter_True) auto
    then show "mset ((k, v) # filter (\<lambda>kv. fst kv \<noteq> k) l) = add_mset (k, v) (mset l)" by simp
  qed
  then show ?case by (simp add: kvl_ops_def)
next
  case (3 l k v)
  have "fst ` set (kvl_all (kvl_insert l k v)) = insert k (fst ` set (kvl_all l))"
    by transfer auto
  then show ?case by (simp add: kvl_ops_def)
next
  case (4 l k v)
  have "set (kvl_all (kvl_insert l k v)) \<subseteq> insert (k, v) (set (kvl_all l))" by transfer auto
  then show ?case by (simp add: kvl_ops_def)
next
  case (5 l)
  have "distinct (map fst (kvl_all l))" by transfer simp
  then show ?case by (simp add: kvl_ops_def)
qed (simp_all add: kvl_ops_def)

section \<open>What a KV element accepts\<close>

definition rsq_plain :: "rsq_ele \<Rightarrow> bool" where
  "rsq_plain q \<longleftrightarrow> q_op q = RSQ_BASE_OP_KV \<and> \<not> is_unique q \<and> \<not> is_pickone q"

definition key_accepts :: "rsq_ele \<Rightarrow> string \<Rightarrow> bool" where
  "key_accepts q key \<longleftrightarrow>
     (let k_op = q_key_op q AND RSQ_BASE_KV_OP_BITMASK; s = str_of (q_key q)
      in k_op = RSQ_BASE_KV_EXACT \<and> key = s \<or>
         k_op = RSQ_BASE_KV_PREFIX \<and> take (length s) key = s \<or> k_op = RSQ_BASE_KV_ANY)"

definition val_accepts :: "rsq_ele \<Rightarrow> string \<Rightarrow> bool" where
  "val_accepts q val \<longleftrightarrow>
     (let v_op = q_val_op q AND RSQ_BASE_KV_OP_BITMASK; s = str_of (q_val q); n = length (str_of (q_key q))
      in (v_op = RSQ_BASE_KV_EXACT \<longrightarrow> val = s) \<and> (v_op = RSQ_BASE_KV_PREFIX \<longrightarrow> take n val = take n s))"

text \<open>
  The iterator only starts at the keys with the prefix, so an element that takes any key must come
  with an empty one to see them all.
\<close>

definition rsq_scans_all :: "rsq_ele \<Rightarrow> bool" where
  "rsq_scans_all q \<longleftrightarrow> q_key_op q AND RSQ_BASE_KV_OP_BITMASK = RSQ_BASE_KV_ANY \<longrightarrow> str_of (q_key q) = ''''"

lemma rss_test_attr_plain:
  assumes "rsq_plain q"
  shows "rss_test_attr q n uniq pick (k, v) = Ret (key_accepts q k \<and> val_accepts q v)"
proof -
  have "q_key_op q AND RSQ_BASE_KV_UNIQUE = 0" "q_key_op q AND RSQ_BASE_KV_PICKONE = 0"
    "q_val_op q AND RSQ_BASE_KV_UNIQUE = 0" "q_val_op q AND RSQ_BASE_KV_PICKONE = 0"
    using assms by (simp_all add: rsq_plain_def is_unique_def is_pickone_def)
  then show ?thesis
    by (auto simp: rss_test_attr_def key_accepts_def val_accepts_def strncmp_eq_def Let_def rsq_consts)
qed

lemma rss_test_loop_plain:
  assumes "rsq_plain q"
  shows "rss_test_loop q n uniq pick kvs = Ret (find (\<lambda>(k, v). key_accepts q k \<and> val_accepts q v) kvs)"
proof (induction kvs)
  case (Cons kv kvs)
  then show ?case by (cases kv) (simp add: rss_test_attr_plain [OF assms])
qed simp

lemma key_accepts_prefix:
  "key_accepts q k \<Longrightarrow> rsq_scans_all q \<Longrightarrow> take (length (str_of (q_key q))) k = take (length (str_of (q_key q))) (str_of (q_key q))"
  by (auto simp: key_accepts_def rsq_scans_all_def Let_def)

context sorted_list
begin

lemma from_accepts:
  assumes "rsq_scans_all q"
  shows "(\<exists>kv \<in> set (li_from L l (str_of (q_key q)) (length (str_of (q_key q)))). key_accepts q (fst kv) \<and> P kv) \<longleftrightarrow>
    (\<exists>kv \<in> set (li_all L l). key_accepts q (fst kv) \<and> P kv)"
proof -
  let ?it = "li_from L l (str_of (q_key q)) (length (str_of (q_key q)))"
  have "kv \<in> set ?it" if "kv \<in> set (li_all L l)" "key_accepts q (fst kv)" for kv
    using from_prefix [of "fst kv" "snd kv"] key_accepts_prefix [OF that(2) assms] that(1) by simp
  with from_sub [of l "str_of (q_key q)" "length (str_of (q_key q))"] show ?thesis by blast
qed

end

lemma rss_test_plain_correct:
  assumes "sorted_list LA" "rsq_plain q" "rsq_scans_all q"
  shows "rss_test LA q rse n uniq pick =
    Ret (if \<exists>kv \<in> set (li_all LA (attr rse)). key_accepts q (fst kv) \<and> val_accepts q (snd kv) then 1 else 0, uniq, pick)"
proof -
  let ?P = "\<lambda>(k, v). key_accepts q k \<and> val_accepts q v"
  let ?s = "str_of (q_key q)"
  have store: "rss_test_store q n uniq pick kv = Ret (uniq, pick)" for kv
    using assms(2) by (auto simp: rss_test_store_def rsq_plain_def is_unique_def is_pickone_def)
  have ex: "(\<exists>kv \<in> set (li_from LA (attr rse) ?s (length ?s)). ?P kv) \<longleftrightarrow>
      (\<exists>kv \<in> set (li_all LA (attr rse)). key_accepts q (fst kv) \<and> val_accepts q (snd kv))"
    using sorted_list.from_accepts [OF assms(1,3), of "attr rse" "\<lambda>kv. val_accepts q (snd kv)"]
    by (simp add: case_prod_unfold)
  show ?thesis
  proof (cases "find ?P (li_from LA (attr rse) ?s (length ?s))")
    case None
    then have "\<not> (\<exists>kv \<in> set (li_all LA (attr rse)). key_accepts q (fst kv) \<and> val_accepts q (snd kv))"
      using ex unfolding find_None_iff by blast
    with None show ?thesis by (simp add: rss_test_def Let_def rss_test_loop_plain [OF assms(2)])
  next
    case (Some kv)
    then have "\<exists>kv \<in> set (li_all LA (attr rse)). key_accepts q (fst kv) \<and> val_accepts q (snd kv)"
      using ex unfolding find_Some_iff by (metis nth_mem)
    with Some show ?thesis by (simp add: rss_test_def Let_def rss_test_loop_plain [OF assms(2)] store)
  qed
qed

section \<open>Queries as expressions\<close>

text \<open>
  A query is a boolean expression over attribute tests in postfix order. \<open>holds\<close> is its meaning on the
  attributes of a RID.
\<close>

datatype rs_expr = Test rsq_ele | NotE rs_expr | AndE rs_expr rs_expr | OrE rs_expr rs_expr

definition rsq_operator :: "int \<Rightarrow> rsq_ele" where
  "rsq_operator op = \<lparr>q_op = op, q_key = None, q_val = None, q_key_op = 0, q_val_op = 0\<rparr>"

fun postfix :: "rs_expr \<Rightarrow> rsq_ele list" where
  "postfix (Test q) = [q]"
| "postfix (NotE e) = postfix e @ [rsq_operator RSQ_BASE_OP_NOT]"
| "postfix (AndE a b) = postfix a @ postfix b @ [rsq_operator RSQ_BASE_OP_AND]"
| "postfix (OrE a b) = postfix a @ postfix b @ [rsq_operator RSQ_BASE_OP_OR]"

fun tests :: "rs_expr \<Rightarrow> rsq_ele set" where
  "tests (Test q) = {q}"
| "tests (NotE e) = tests e"
| "tests (AndE a b) = tests a \<union> tests b"
| "tests (OrE a b) = tests a \<union> tests b"



text \<open>The meaning the code gives: a disjunction is always true.\<close>

fun holds_coded :: "(string \<times> string) list \<Rightarrow> rs_expr \<Rightarrow> bool" where
  "holds_coded kvs (Test q) = (\<exists>kv \<in> set kvs. key_accepts q (fst kv) \<and> val_accepts q (snd kv))"
| "holds_coded kvs (NotE e) = (\<not> holds_coded kvs e)"
| "holds_coded kvs (AndE a b) = (holds_coded kvs a \<and> holds_coded kvs b)"
| "holds_coded kvs (OrE a b) = True"


lemma rsq_operator_sel [simp]: "q_op (rsq_operator op) = op"
  by (simp add: rsq_operator_def)

lemma rss_eval_postfix:
  assumes "sorted_list LA" "kt_unique kvq \<noteq> []"
    and "\<forall>q \<in> tests e. rsq_plain q \<and> rsq_scans_all q"
  shows "rss_eval LA rse i (postfix e @ qs) 0 0 st kvq =
    rss_eval LA rse i qs 0 0 ((if holds_coded (li_all LA (attr rse)) e then 1 else 0) # st) kvq"
  using assms(3)
proof (induction e arbitrary: qs st)
  case (Test q)
  then have q: "rsq_plain q" "rsq_scans_all q" by simp_all
  then have "q_op q = RSQ_BASE_OP_KV" "\<not> is_unique q" "\<not> is_pickone q" by (simp_all add: rsq_plain_def)
  then show ?case
    using assms(2) by (cases kvq) (simp add: rss_test_plain_correct [OF assms(1) q])
qed (auto simp: rsq_consts)

section \<open>Requests without hints\<close>

lemma rs_request_assign_sel [simp]:
  "map rq_rid_index (rs_request_assign req i rse) = map rq_rid_index req"
  by (simp add: rs_request_assign_def)

text \<open>The scan of one pick leaves the requests alone, or assigns an enabled RID the query accepts.\<close>

definition rid_accepted :: "('l, string) list_ops \<Rightarrow> rsq_ele list \<Rightarrow> nat \<Rightarrow> 'l rss_rid_entry \<Rightarrow> bool" where
  "rid_accepted LA global i rse \<longleftrightarrow> status rse = RS_STATUS_UP \<and>
     (\<exists>kvg kvl kvg' kvl'. rss_eval_both LA rse i global None kvg kvl = Ret (Some 1, kvg', kvl'))"

lemma rs_request_scan_assigns:
  assumes "rs_request_scan LA heap global i 0 ign None None ch as S = Ret S'" "rr_found S = 0"
  shows "rr_hints S' = rr_hints S \<and> rr_err_cnt S' = rr_err_cnt S \<and>
    (if rr_found S' = 0 then rr_req S' = rr_req S
     else \<exists>a \<in> set as. rid_accepted LA global i (heap ! a) \<and> rr_req S' = rs_request_assign (rr_req S) i (heap ! a))"
  using assms
proof (induction as arbitrary: S)
  case (Cons a as)
  let ?rse = "heap ! a"
  show ?case
  proof (cases "status ?rse = RS_STATUS_UP")
    case False
    with Cons.IH [of S] Cons.prems show ?thesis by (auto simp: rs_pick_from_def split: if_splits)
  next
    case True
    then obtain v kvg kvl where e: "rss_eval_both LA ?rse i global None (rr_kvg S) (rr_kvl S) = Ret (v, kvg, kvl)"
      using Cons.prems(1)
      by (cases "rss_eval_both LA ?rse i global None (rr_kvg S) (rr_kvl S)") (auto simp: rs_pick_from_def Let_def)
    show ?thesis
    proof (cases "v = Some 1")
      case True': True
      with True e have "rid_accepted LA global i ?rse" by (auto simp: rid_accepted_def)
      with True True' e Cons.prems show ?thesis
        by (auto simp: rs_pick_from_def rs_request_take_def Let_def)
    next
      case False
      define S2 where "S2 = (if v = None then S\<lparr>rr_kvg := kvg, rr_kvl := kvl, rr_found := 0,
          rr_status := \<lparr>op_state = OP_STATE_FAILURE, error_code = RS_ERROR_EMPTY_STACK\<rparr>\<rparr>
        else S\<lparr>rr_kvg := kvg, rr_kvl := kvl, rr_found := 0\<rparr>)"
      have "rs_request_scan LA heap global i 0 ign None None ch as S2 = Ret S'"
        using Cons.prems True e False
        by (auto simp: rs_pick_from_def Let_def S2_def split: option.splits if_splits)
      from Cons.IH [OF this] show ?thesis by (auto simp: S2_def split: if_splits)
    qed
  qed
qed simp

lemma set_rs_scan_order: "set (rs_scan_order arr off) \<subseteq> set arr"
  by (auto simp: rs_scan_order_def intro!: nth_mem mod_less_divisor)

text \<open>Picks below \<open>i\<close> have their RID when the loop is at \<open>i\<close>.\<close>

definition assigned_below ::
  "('l, string) list_ops \<Rightarrow> ('l, 't) rs_simple_priv \<Rightarrow> rsq_ele list \<Rightarrow> nat \<Rightarrow> rs_request list \<Rightarrow> bool" where
  "assigned_below LA rss global i req \<longleftrightarrow>
     (\<forall>r \<in> set req. 0 \<le> rq_rid_index r \<and> rq_rid_index r < int i \<longrightarrow>
        (\<exists>a \<in> set (random_array rss). rid_accepted LA global (nat (rq_rid_index r)) (rids rss ! a) \<and>
           rq_rid_key r = Some (rid_key (rids rss ! a)) \<and> rq_ds_key r = Some (ds_key (rids rss ! a))))"

lemma assigned_below_Suc:
  assumes "assigned_below LA rss global i req" "a \<in> set (random_array rss)"
    "rid_accepted LA global i (rids rss ! a)"
  shows "assigned_below LA rss global (Suc i) (rs_request_assign req i (rids rss ! a))"
  unfolding assigned_below_def
proof (intro ballI impI)
  fix r assume r: "r \<in> set (rs_request_assign req i (rids rss ! a))" "0 \<le> rq_rid_index r \<and> rq_rid_index r < int (Suc i)"
  then obtain r0 where r0: "r0 \<in> set req"
    "r = (if rq_rid_index r0 = int i then r0\<lparr>rq_rid_key := Some (rid_key (rids rss ! a)),
       rq_ds_key := Some (ds_key (rids rss ! a))\<rparr> else r0)" by (auto simp: rs_request_assign_def)
  show "\<exists>a \<in> set (random_array rss). rid_accepted LA global (nat (rq_rid_index r)) (rids rss ! a) \<and>
           rq_rid_key r = Some (rid_key (rids rss ! a)) \<and> rq_ds_key r = Some (ds_key (rids rss ! a))"
  proof (cases "rq_rid_index r0 = int i")
    case True
    with r0 assms(2,3) show ?thesis by (intro bexI [of _ a]) auto
  next
    case False
    with r0 r(2) have "0 \<le> rq_rid_index r0 \<and> rq_rid_index r0 < int i" "r = r0" by auto
    with assms(1) r0(1) show ?thesis unfolding assigned_below_def by blast
  qed
qed

lemma rs_request_loop_assigns:
  assumes "rs_request_loop LA LT rnd rss global 0 ign n i S = Ret S'"
    and "rr_hints S = None" "rr_err_cnt S = 0" "assigned_below LA rss global i (rr_req S)"
    and "rr_found S' \<noteq> 0"
  shows "assigned_below LA rss global (i + n) (rr_req S') \<and>
    map rq_rid_index (rr_req S') = map rq_rid_index (rr_req S)"
  using assms(1-4)
proof (induction n arbitrary: i S)
  case 0
  then show ?case by simp
next
  case (Suc n)
  let ?S0 = "S\<lparr>rr_found := 0\<rparr>"
  let ?scan = "rs_request_scan LA (rids rss) global i 0 ign None None (rs_request_change (rr_req S) i)
      (rs_scan_order (random_array rss) (rnd i)) ?S0"
  have hint: "rs_request_hint LT rss 0 i (rnd i) ?S0 = Ret (Inr (None, rnd i, None))"
    using Suc.prems(2) by (simp add: rs_request_hint_def)
  then obtain S1 where s1: "?scan = Ret S1"
    using Suc.prems(1) by (auto split: outcome.splits)
  note sc = rs_request_scan_assigns [OF s1]
  have found: "rr_found S1 \<noteq> 0" using Suc.prems(1) assms(5) hint s1 by (auto split: if_splits)
  with sc obtain a where a: "a \<in> set (random_array rss)" "rid_accepted LA global i (rids rss ! a)"
    "rr_req S1 = rs_request_assign (rr_req S) i (rids rss ! a)" "rr_hints S1 = None" "rr_err_cnt S1 = 0"
    using set_rs_scan_order Suc.prems(2,3) by fastforce
  have "rs_request_loop LA LT rnd rss global 0 ign n (i + 1) S1 = Ret S'"
    using Suc.prems(1) hint s1 found by simp
  from Suc.IH [OF this a(4,5)] assigned_below_Suc [OF Suc.prems(4) a(1,2)] a(3) show ?case by simp
qed


definition demo_rid :: "string kvlist rss_rid_entry" where
  "demo_rid = \<lparr>rid_key = ''r1'', ds_key = ''d1'', attr = kvl_insert kvl_empty ''host'' ''a'',
     status = RS_STATUS_UP, slot = 0, space_total = 0, space_used = 0, space_free = 0\<rparr>"

definition demo_test :: "string \<Rightarrow> rsq_ele" where
  "demo_test v = \<lparr>q_op = 1, q_key = Some ''host'', q_val = Some v, q_key_op = 1, q_val_op = 1\<rparr>"

lemma demo_test_plain: "rsq_plain (demo_test v)" "rsq_scans_all (demo_test v)"
  by (simp_all add: demo_test_def rsq_plain_def rsq_scans_all_def is_unique_def is_pickone_def rsq_consts)

lemma demo_rid_attr: "li_all kvl_ops (attr demo_rid) = [(''host'', ''a'')]"
  by (simp add: demo_rid_def kvl_ops_def kvl_insert.rep_eq kvl_all.rep_eq kvl_empty.rep_eq)

lemma demo_test_accepts: "key_accepts (demo_test v) ''host''" "val_accepts (demo_test v) w \<longleftrightarrow> w = v"
  by (simp_all add: demo_test_def key_accepts_def val_accepts_def rsq_consts str_of_def Let_def)


text \<open>
  A disjunction accepts every RID, also one on which both of its parts fail: the popped pointers
  are tested instead of the truth values.
\<close>

theorem rss_query_or_always_accepts:
  assumes "sorted_list LA" "kt_unique kvq \<noteq> []" "\<forall>q \<in> tests a \<union> tests b. rsq_plain q \<and> rsq_scans_all q"
  shows "rss_eval_both LA rse i (postfix (OrE a b)) None kvq kvl = Ret (Some 1, kvq, kvl)"
  using rss_eval_postfix [OF assms(1,2), of "OrE a b" rse i "[]" "[]"] assms(3)
  by (simp add: rss_eval_both_def)

text \<open>
  C25: when a request without hints is granted, every allocation that belongs to one of its picks is
  placed on a RID of the table that is up and that the query accepted for this pick.
\<close>

theorem rs_simple_request_assigns:
  assumes "rs_simple_request LA LT rnd refresh rss rsq req None pools 0 n_rid ign = Ret (None, S)"
  shows "\<forall>r \<in> set (rr_req S). 0 \<le> rq_rid_index r \<and> rq_rid_index r < int n_rid \<longrightarrow>
    (\<exists>a \<in> set (random_array rss). rid_accepted LA (q_eles rsq) (nat (rq_rid_index r)) (rids rss ! a) \<and>
       rq_rid_key r = Some (rid_key (rids rss ! a)) \<and> rq_ds_key r = Some (ds_key (rids rss ! a)))"
proof -
  define S0 where "S0 = \<lparr>rr_hints = None, rr_req = map (\<lambda>r. r\<lparr>rq_rid_key := None\<rparr>) req, rr_pools = pools,
    rr_kvg = rs_kvq_global rsq n_rid, rr_kvl = rs_kvq_local n_rid, rr_status = op_success_status,
    rr_err_cnt = 0, rr_found = 0\<rparr>"
  have "rs_request_loop LA LT rnd rss (q_eles rsq) 0 ign n_rid 0 S0 = Ret S" "rr_found S \<noteq> 0"
    using assms by (auto simp: rs_simple_request_def S0_def Let_def split: if_splits outcome.splits)
  from rs_request_loop_assigns [OF this(1) _ _ _ this(2)] show ?thesis
    by (simp add: S0_def assigned_below_def)
qed

definition demo_rss :: "(string kvlist, nat kvlist) rs_simple_priv" where
  "demo_rss = \<lparr>rids = [demo_rid], rid_table = kvl_insert kvl_empty ''r1'' 0, random_array = [0], rid_mapping = [],
     mapping_updates = Map.empty, modify_time = 0, current_check = 0, min_free = 0, shutdown = 0,
     dynamic_mapping = 0, unique_rids = 1, check_timeout = 0, last_config_size = 0\<rparr>"

theorem rs_simple_request_assigns_witness:
  "\<exists>S. rs_simple_request kvl_ops kvl_ops (\<lambda>_. 0) 0 demo_rss
      \<lparr>q_eles = postfix (Test (demo_test ''a'')), q_tail = TailLast\<rparr>
      [\<lparr>rq_rid_index = 0, rq_size = 10, rq_rid_key = None, rq_ds_key = None\<rparr>] None [] 0 1 0 = Ret (None, S) \<and>
    (\<forall>r \<in> set (rr_req S). rq_rid_index r = 0 \<longrightarrow> rq_rid_key r = Some ''r1'')"
proof -
  let ?q = "\<lparr>q_eles = postfix (Test (demo_test ''a'')), q_tail = TailLast\<rparr>"
  let ?req = "[\<lparr>rq_rid_index = 0, rq_size = 10, rq_rid_key = None, rq_ds_key = None\<rparr>]"
  have "kt_unique (rs_kvq_global ?q 1) \<noteq> []" by (simp add: rs_kvq_global_def split: prod.split)
  from rss_eval_postfix [OF kvl.sorted_list_axioms this, of "Test (demo_test ''a'')" demo_rid 0 "[]" "[]"]
  have ev: "rss_eval kvl_ops demo_rid 0 [demo_test ''a''] 0 0 [] (rs_kvq_global ?q 1) =
      Ret ([1], rs_kvq_global ?q 1)"
    by (simp add: demo_test_plain demo_rid_attr demo_test_accepts)
  have "status demo_rid = RS_STATUS_UP" by (simp add: demo_rid_def)
  then obtain S where S: "rs_simple_request kvl_ops kvl_ops (\<lambda>_. 0) 0 demo_rss ?q ?req None [] 0 1 0 = Ret (None, S)"
    using ev by (auto simp: rs_simple_request_def rs_request_hint_def rs_scan_order_def rs_pick_from_def
        rss_eval_both_def rs_request_take_def demo_rss_def Let_def)
  from rs_simple_request_assigns [OF S]
  have "\<forall>r \<in> set (rr_req S). rq_rid_index r = 0 \<longrightarrow> rq_rid_key r = Some ''r1''"
    by (auto simp: demo_rss_def demo_rid_def)
  with S show ?thesis by blast
qed

section \<open>The randomised array\<close>

text \<open>The search for a free slot ends, because one is free.\<close>

lemma rss_free_slot_found:
  assumes "m < length arr" "arr ! m = None" "n < length arr"
  shows "\<exists>n'. rss_free_slot (length arr) arr n = Some n' \<and> n' < length arr \<and> arr ! n' = None"
proof -
  have "\<exists>n'. rss_free_slot k arr n = Some n' \<and> n' < length arr \<and> arr ! n' = None"
    if "n < length arr" "j < k" "(n + j) mod length arr = m" for k j n
    using that
  proof (induction k arbitrary: n j)
    case (Suc k)
    show ?case
    proof (cases "arr ! n = None")
      case False
      with Suc.prems assms(2) have "j \<noteq> 0" by (cases j) auto
      then obtain j' where j: "j = Suc j'" by (cases j) auto
      have "((n + 1) mod length arr + j') mod length arr = m"
        using Suc.prems(3) by (simp add: j mod_simps)
      moreover have "(n + 1) mod length arr < length arr" using Suc.prems(1) by (intro mod_less_divisor) linarith
      ultimately show ?thesis
        using Suc.IH [of "(n + 1) mod length arr" j'] Suc.prems(2) False by (simp add: j)
    qed (use Suc.prems in simp)
  qed simp
  moreover obtain j where "j < length arr" "(n + j) mod length arr = m"
  proof (cases "n \<le> m")
    case True
    with assms(1) show ?thesis by (intro that [of "m - n"]) auto
  next
    case False
    with assms show ?thesis by (intro that [of "length arr - n + m"]) (auto simp: mod_if)
  qed
  ultimately show ?thesis using assms(3) by blast
qed

text \<open>
  The array while it is filled: the placed addresses are the filled slots, each entry knows its
  slot, and nothing else of an entry changes.
\<close>

definition slots_ok :: "'l rss_rid_entry list \<Rightarrow> nat option list \<Rightarrow> bool" where
  "slots_ok heap arr \<longleftrightarrow> (\<forall>n a. n < length arr \<and> arr ! n = Some a \<longrightarrow> a < length heap \<and> slot (heap ! a) = n)"

definition same_but_slot :: "'l rss_rid_entry list \<Rightarrow> 'l rss_rid_entry list \<Rightarrow> bool" where
  "same_but_slot heap heap' \<longleftrightarrow> map (\<lambda>re. re\<lparr>slot := 0\<rparr>) heap' = map (\<lambda>re. re\<lparr>slot := 0\<rparr>) heap"

lemma mset_fill_slot:
  assumes "n < length arr" "arr ! n = None"
  shows "mset (arr[n := Some a]) = add_mset (Some a) (mset arr - {#None#})"
  using assms by (simp add: mset_update)

lemma rss_permute_correct:
  assumes "distinct as" "set as \<subseteq> {..<length heap}" "\<forall>i. rnd (length arr) i < length arr \<or> as = []"
    and "count (mset arr) None = length as" "slots_ok heap arr" "\<forall>a \<in> set as. Some a \<notin> set arr"
  shows "\<exists>heap' arr'. rss_permute rnd as i heap arr = Some (heap', arr') \<and> length arr' = length arr \<and>
    mset arr' = mset arr - replicate_mset (length as) None + mset (map Some as) \<and>
    slots_ok heap' arr' \<and> same_but_slot heap heap'"
  using assms
proof (induction as arbitrary: i heap arr)
  case Nil
  then show ?case by (simp add: same_but_slot_def)
next
  case (Cons a as)
  have "None \<in> set arr" using Cons.prems(4) by (metis count_mset_0_iff length_Cons nat.distinct(1))
  then obtain m where m: "m < length arr" "arr ! m = None" by (metis in_set_conv_nth)
  have "rnd (length arr) i < length arr" using Cons.prems(3) by blast
  from rss_free_slot_found [OF m this] obtain n where n: "rss_free_slot (length arr) arr (rnd (length arr) i) = Some n"
    "n < length arr" "arr ! n = None" by blast
  let ?heap = "heap[a := (heap ! a)\<lparr>slot := n\<rparr>]" and ?arr = "arr[n := Some a]"
  have a: "a < length heap" "a \<notin> set as" "Some a \<notin> set arr" using Cons.prems by auto
  have ms: "mset ?arr = add_mset (Some a) (mset arr - {#None#})" by (rule mset_fill_slot [OF n(2,3)])
  have slots: "slots_ok ?heap ?arr"
    unfolding slots_ok_def
  proof (intro allI impI)
    fix k b assume k: "k < length ?arr \<and> ?arr ! k = Some b"
    show "b < length ?heap \<and> slot (?heap ! b) = k"
    proof (cases "k = n")
      case True
      with k a(1) show ?thesis by auto
    next
      case False
      with k have b: "arr ! k = Some b" "k < length arr" by auto
      then have "b \<noteq> a" using a(3) nth_mem [of k arr] by auto
      with b Cons.prems(5) show ?thesis by (auto simp: slots_ok_def)
    qed
  qed
  have "\<exists>heap' arr'. rss_permute rnd as (i + 1) ?heap ?arr = Some (heap', arr') \<and> length arr' = length ?arr \<and>
    mset arr' = mset ?arr - replicate_mset (length as) None + mset (map Some as) \<and>
    slots_ok heap' arr' \<and> same_but_slot ?heap heap'"
  proof (rule Cons.IH)
    show "\<forall>b \<in> set as. Some b \<notin> set ?arr"
      using Cons.prems(6) a(2) set_update_subset_insert [of arr n "Some a"] by auto
    show "count (mset ?arr) None = length as" using Cons.prems(4) by (simp add: ms)
  qed (use Cons.prems slots in auto)
  then obtain heap' arr' where r: "rss_permute rnd as (i + 1) ?heap ?arr = Some (heap', arr')" "length arr' = length arr"
    "mset arr' = mset ?arr - replicate_mset (length as) None + mset (map Some as)" "slots_ok heap' arr'"
    "same_but_slot ?heap heap'" by auto
  have "same_but_slot heap ?heap"
    using a(1) by (auto simp: same_but_slot_def map_update list_update_same_conv [THEN iffD2])
  then have "same_but_slot heap heap'" using r(5) by (simp add: same_but_slot_def)
  moreover have "mset arr' = mset arr - replicate_mset (length (a # as)) None + mset (map Some (a # as))"
    unfolding r(3) ms by (simp add: multiset_eq_iff)
  ultimately show ?case using n(1) r by simp
qed

text \<open>What the groups leave behind: every table entry is an address of the store under its key.\<close>

definition table_ok :: "('t, nat) list_ops \<Rightarrow> 'l rss_rid_entry list \<Rightarrow> 't \<Rightarrow> bool" where
  "table_ok LT heap t \<longleftrightarrow> (\<forall>(k, a) \<in> set (li_all LT t). a < length heap \<and> rid_key (heap ! a) = k)"

lemma rs_simple_load_groups_ok:
  assumes "sorted_list LT" "rs_simple_load_groups LA LT sgi gs heap t = Ret (heap', t')" "table_ok LT heap t"
  shows "table_ok LT heap' t'"
  using assms(2,3)
proof (induction gs arbitrary: heap t)
  case (Cons g gs)
  note law = sorted_list.insert_sub [OF assms(1)]
  show ?case
  proof (cases "fst g = ''rid''")
    case False
    with Cons show ?thesis by simp
  next
    case True
    then obtain r where r: "rss_load_entry LA sgi (snd g) = Ret r"
      using Cons.prems(1) by (cases "rss_load_entry LA sgi (snd g)") auto
    show ?thesis
    proof (cases r)
      case None
      with Cons True r show ?thesis by simp
    next
      case (Some rse)
      have "table_ok LT (heap @ [rse]) (li_insert LT t (rid_key rse) (length heap))"
        unfolding table_ok_def
      proof
        fix x assume "x \<in> set (li_all LT (li_insert LT t (rid_key rse) (length heap)))"
        then have "x = (rid_key rse, length heap) \<or> x \<in> set (li_all LT t)" using law by fastforce
        then show "case x of (k, a) \<Rightarrow> a < length (heap @ [rse]) \<and> rid_key ((heap @ [rse]) ! a) = k"
          using Cons.prems(2) by (fastforce simp: table_ok_def nth_append)
      qed
      with Cons True r Some show ?thesis by simp
    qed
  qed
qed simp

lemma table_ok_distinct:
  assumes "sorted_list LT" "table_ok LT heap t"
  shows "distinct (map snd (li_all LT t))" "set (map snd (li_all LT t)) \<subseteq> {..<length heap}"
proof -
  have d: "distinct (map fst (li_all LT t))" by (rule sorted_list.all_distinct [OF assms(1)])
  have key: "fst x = rid_key (heap ! snd x)" if "x \<in> set (li_all LT t)" for x
    using bspec [OF assms(2) [unfolded table_ok_def] that] by (simp add: case_prod_unfold)
  have "inj_on snd (set (li_all LT t))"
  proof (rule inj_onI)
    fix x y assume "x \<in> set (li_all LT t)" "y \<in> set (li_all LT t)" "snd x = snd y"
    with key [of x] key [of y] show "x = y" by (simp add: prod_eq_iff)
  qed
  with d show "distinct (map snd (li_all LT t))" by (simp add: distinct_map)
  show "set (map snd (li_all LT t)) \<subseteq> {..<length heap}" using assms(2) by (auto simp: table_ok_def)
qed

text \<open>
  C28: loading a configuration always fills the randomised array: it is a permutation of the entries
  of the table, every entry knows the slot it is in, and the table holds every entry under its own
  key.
\<close>

theorem rs_simple_load_permutation:
  assumes "sorted_list LT" "\<And>n i. 0 < n \<Longrightarrow> rnd n i < n"
    and "rs_simple_load LA LT sgi rnd cfg rss = Ret r"
  shows "\<exists>rss'. r = Some rss' \<and>
    mset (random_array rss') = mset (map snd (li_all LT (rid_table rss'))) \<and>
    (\<forall>n < length (random_array rss'). slot (rids rss' ! (random_array rss' ! n)) = n) \<and>
    table_ok LT (rids rss') (rid_table rss')"
proof -
  obtain heap t where g: "rs_simple_load_groups LA LT sgi cfg [] (li_empty LT) = Ret (heap, t)"
    using assms(3) by (auto simp: rs_simple_load_def split: outcome.splits)
  have "table_ok LT [] (li_empty LT)"
    by (simp add: table_ok_def sorted_list.all_empty [OF assms(1)])
  from rs_simple_load_groups_ok [OF assms(1) g this] have t: "table_ok LT heap t" .
  let ?as = "map snd (li_all LT t)"
  have cnt: "li_count LT t = length ?as" by (simp add: sorted_list.count_all [OF assms(1)])
  have "\<exists>heap' arr'. rss_permute rnd ?as 0 heap (replicate (length ?as) None) = Some (heap', arr') \<and>
    length arr' = length (replicate (length ?as) None :: nat option list) \<and>
    mset arr' = mset (replicate (length ?as) None) - replicate_mset (length ?as) None + mset (map Some ?as) \<and>
    slots_ok heap' arr' \<and> same_but_slot heap heap'"
    by (rule rss_permute_correct) (use table_ok_distinct [OF assms(1) t] assms(2) in \<open>auto simp: slots_ok_def\<close>)
  then obtain heap' arr' where p: "rss_permute rnd ?as 0 heap (replicate (length ?as) None) = Some (heap', arr')"
    "mset arr' = image_mset Some (mset ?as)" "slots_ok heap' arr'" "same_but_slot heap heap'" by (auto simp: multiset.map_comp comp_def)
  have r: "r = Some (rss\<lparr>rids := heap', rid_table := t, random_array := map the arr'\<rparr>)"
    using assms(3) g p(1) cnt by (simp add: rs_simple_load_def)
  have perm: "mset (map the arr') = mset ?as"
    using p(2) by (simp add: mset_map multiset.map_comp comp_def)
  have "arr' ! n \<noteq> None" if "n < length arr'" for n
    using p(2) nth_mem_mset [OF that] by auto
  then have slots: "slot (heap' ! (map the arr' ! n)) = n" if "n < length arr'" for n
    using p(3) that by (fastforce simp: slots_ok_def)
  have len: "length heap' = length heap" using p(4) unfolding same_but_slot_def by (metis length_map)
  have "rid_key (heap' ! a) = rid_key (heap ! a)" if "a < length heap" for a
  proof -
    have "(heap' ! a)\<lparr>slot := 0\<rparr> = (heap ! a)\<lparr>slot := 0\<rparr>"
      using p(4) that len unfolding same_but_slot_def by (metis nth_map)
    then have "rid_key ((heap' ! a)\<lparr>slot := 0\<rparr>) = rid_key ((heap ! a)\<lparr>slot := 0\<rparr>)" by (rule arg_cong)
    then show ?thesis by simp
  qed
  note keys = len this
  have "table_ok LT heap' t" using t keys by (auto simp: table_ok_def)
  with r perm slots show ?thesis by auto
qed

theorem rs_simple_load_permutation_witness:
  "\<exists>rss'. rs_simple_load kvl_ops kvl_ops (\<lambda>_. 0) (\<lambda>n i. 0)
      [(''rid'', [(''rid_key'', Some ''a''), (''ds_key'', Some ''x'')]),
       (''rid'', [(''rid_key'', Some ''b''), (''ds_key'', Some ''y'')])] demo_rss = Ret (Some rss') \<and>
    (\<forall>n < length (random_array rss'). slot (rids rss' ! (random_array rss' ! n)) = n)"
proof -
  let ?cfg = "[(''rid'', [(''rid_key'', Some ''a''), (''ds_key'', Some ''x'')]),
       (''rid'', [(''rid_key'', Some ''b''), (''ds_key'', Some ''y'')])]"
  obtain r where r: "rs_simple_load kvl_ops kvl_ops (\<lambda>_. 0) (\<lambda>n i. 0) ?cfg demo_rss = Ret r"
    by (simp add: rs_simple_load_def rss_load_entry_def rss_load_element_def Let_def)
  from rs_simple_load_permutation [OF kvl.sorted_list_axioms _ r] r show ?thesis by auto
qed

section \<open>Unique picks\<close>






text \<open>The row of values of the earlier picks.\<close>

definition unique_row :: "rs_req_state \<Rightarrow> kvq_ele list" where
  "unique_row S = hd (kt_unique (rr_kvg S))"









section \<open>Checking and reporting\<close>



text \<open>The check table has one entry per RID key, each for a slot of the randomised array.\<close>

definition check_table_ok :: "('l, 't) rs_simple_priv \<Rightarrow> bool" where
  "check_table_ok rss \<longleftrightarrow> distinct (map ce_re (map snd (rid_mapping rss))) \<and> distinct (map fst (rid_mapping rss)) \<and>
     (\<forall>(k, ce) \<in> set (rid_mapping rss). ce_re ce < length (rids rss) \<and> k = rid_key (rids rss ! ce_re ce) \<and>
        ce_rid_key ce = k \<and> ce_ds_key ce = ds_key (rids rss ! ce_re ce) \<and> ce_re ce \<in> set (random_array rss))"

lemma rss_make_check_loop_correct:
  assumes "rss_make_check_loop heap as m u = (m', u')"
    and "distinct (map fst m)" "\<forall>(k, ce) \<in> set m. k = rid_key (heap ! ce_re ce) \<and> ce_rid_key ce = k \<and>
      ce_ds_key ce = ds_key (heap ! ce_re ce) \<and> ce_re ce \<in> A" "set as \<subseteq> A"
  shows "distinct (map fst m') \<and> (\<forall>(k, ce) \<in> set m'. k = rid_key (heap ! ce_re ce) \<and> ce_rid_key ce = k \<and>
      ce_ds_key ce = ds_key (heap ! ce_re ce) \<and> ce_re ce \<in> A) \<and>
    fst ` set m' = fst ` set m \<union> (\<lambda>a. rid_key (heap ! a)) ` set as \<and>
    u' = (if distinct (map (\<lambda>a. rid_key (heap ! a)) as) \<and>
      fst ` set m \<inter> (\<lambda>a. rid_key (heap ! a)) ` set as = {} then u else 0)"
  using assms
proof (induction as arbitrary: m u)
  case (Cons a as)
  let ?ce = "\<lparr>ce_ds_key = ds_key (heap ! a), ce_rid_key = rid_key (heap ! a), ce_re = a\<rparr>"
  show ?case
  proof (cases "map_of m (rid_key (heap ! a))")
    case None
    then have new: "rid_key (heap ! a) \<notin> fst ` set m" by (simp add: map_of_eq_None_iff)
    have "rss_make_check_loop heap as (m @ [(rid_key (heap ! a), ?ce)]) u = (m', u')"
      using Cons.prems(1) None by (simp add: Let_def)
    from Cons.IH [OF this] Cons.prems new show ?thesis by auto
  next
    case (Some ce2)
    then have old: "rid_key (heap ! a) \<in> fst ` set m" by (force dest: map_of_SomeD)
    have "rss_make_check_loop heap as m 0 = (m', u')" using Cons.prems(1) Some by (simp add: Let_def)
    from Cons.IH [OF this] Cons.prems old show ?thesis by auto
  qed
qed simp

text \<open>
  The check table built from the randomised array has exactly one entry for every RID key, under
  that key, and marks the RIDs as unique exactly when no two entries of the array share a key.
\<close>

theorem rss_make_check_table_correct:
  assumes "set (random_array rss) \<subseteq> {..<length (rids rss)}"
  shows "check_table_ok (rss_make_check_table rss) \<and>
    fst ` set (rid_mapping (rss_make_check_table rss)) = (\<lambda>a. rid_key (rids rss ! a)) ` set (random_array rss) \<and>
    unique_rids (rss_make_check_table rss) =
      (if distinct (map (\<lambda>a. rid_key (rids rss ! a)) (random_array rss)) then 1 else 0)"
proof -
  obtain m u where l: "rss_make_check_loop (rids rss) (random_array rss) [] 1 = (m, u)" by (metis prod.exhaust)
  note c = rss_make_check_loop_correct [OF l, where A = "set (random_array rss)"]
  then have d: "distinct (map fst m)"
    and e: "\<And>k ce. (k, ce) \<in> set m \<Longrightarrow> k = rid_key (rids rss ! ce_re ce) \<and> ce_rid_key ce = k \<and>
      ce_ds_key ce = ds_key (rids rss ! ce_re ce) \<and> ce_re ce \<in> set (random_array rss)"
    and k: "fst ` set m = (\<lambda>a. rid_key (rids rss ! a)) ` set (random_array rss)"
    and u: "u = (if distinct (map (\<lambda>a. rid_key (rids rss ! a)) (random_array rss)) then 1 else 0)" by auto
  have "map fst m = map (\<lambda>a. rid_key (rids rss ! a)) (map ce_re (map snd m))" using e by auto
  with d have "distinct (map ce_re (map snd m))" by (metis distinct_map)
  with d e k u assms show ?thesis
    by (auto simp: rss_make_check_table_def l check_table_ok_def)
qed



subsection \<open>The configuration report can be loaded\<close>

definition reserved_keys :: "string set" where
  "reserved_keys = {''rid_key'', ''ds_key'', ''status'', ''space_free'', ''space_used'', ''space_total''}"

definition some_values :: "(string \<times> string) list \<Rightarrow> (string \<times> string option) list" where
  "some_values kvs = map (\<lambda>(k, v). (k, Some v)) kvs"

lemma rss_load_elements_append:
  "rss_load_elements LA sgi (xs @ ys) d =
     (case rss_load_elements LA sgi xs d of Crash \<Rightarrow> Crash | Ret d' \<Rightarrow> rss_load_elements LA sgi ys d')"
  by (induction xs arbitrary: d) (auto split: outcome.splits)

context sorted_list
begin

lemma load_attributes:
  fixes d :: "'l rss_loading"
  assumes "distinct (map fst kvs)" "fst ` set kvs \<inter> fst ` set (li_all L (attr (ld_entry d))) = {}"
  shows "\<exists>l. mset (li_all L l) = mset kvs + mset (li_all L (attr (ld_entry d))) \<and>
    l = foldl (\<lambda>l (k, v). li_insert L l k v) (attr (ld_entry d)) kvs"
  using assms
proof (induction kvs arbitrary: d)
  case (Cons kv kvs)
  obtain k v where kv: "kv = (k, v)" by (metis prod.exhaust)
  let ?l = "attr (ld_entry d)"
  have new: "k \<notin> fst ` set (li_all L ?l)" using Cons.prems(2) by (auto simp: kv)
  let ?d = "d\<lparr>ld_entry := (ld_entry d)\<lparr>attr := li_insert L ?l k v\<rparr>\<rparr>"
  have "fst ` set kvs \<inter> fst ` set (li_all L (attr (ld_entry ?d))) = {}"
    using Cons.prems by (auto simp: insert_keys kv)
  with Cons.IH [of ?d] Cons.prems(1) all_insert [OF new, of v] show ?case by (simp add: kv)
qed simp

end

lemma rss_load_elements_attributes:
  assumes "fst ` set kvs \<inter> reserved_keys = {}"
  shows "rss_load_elements LA sgi (some_values kvs) d =
    Ret (d\<lparr>ld_entry := (ld_entry d)\<lparr>attr := foldl (\<lambda>l (k, v). li_insert LA l k v) (attr (ld_entry d)) kvs\<rparr>\<rparr>)"
  using assms
proof (induction kvs arbitrary: d)
  case (Cons kv kvs)
  obtain k v where kv: "kv = (k, v)" by (metis prod.exhaust)
  have "k \<notin> reserved_keys" using Cons.prems by (auto simp: kv)
  then have "rss_load_element LA sgi (k, Some v) d =
      Ret (d\<lparr>ld_entry := (ld_entry d)\<lparr>attr := li_insert LA (attr (ld_entry d)) k v\<rparr>\<rparr>)"
    by (simp add: rss_load_element_def reserved_keys_def Let_def)
  with Cons show ?case by (simp add: kv some_values_def)
qed (simp add: some_values_def)

lemma mset_rest_rid_key:
  assumes "distinct (map fst kvs)" "(''rid_key'', v) \<in> set kvs" "''ds_key'' \<notin> fst ` set kvs"
  shows "mset kvs = mset (filter (\<lambda>(k, v). k \<noteq> ''rid_key'' \<and> k \<noteq> ''ds_key'') kvs) + {#(''rid_key'', v)#}"
  using assms
proof (induction kvs)
  case (Cons kv kvs)
  show ?case
  proof (cases "fst kv = ''rid_key''")
    case True
    with Cons.prems have kv: "kv = (''rid_key'', v)" by (cases kv) (auto simp: image_iff)
    have "filter (\<lambda>(k, v). k \<noteq> ''rid_key'' \<and> k \<noteq> ''ds_key'') kvs = kvs"
      by (rule filter_True) (use Cons.prems kv in \<open>force simp: image_iff\<close>)
    with kv show ?thesis by simp
  next
    case False
    with Cons show ?thesis by (cases kv) auto
  qed
qed simp

text \<open>
  C31: the report of a RID loads back as the RID: for an entry whose own attributes avoid the reserved
  keys, the reported key/value lines give an entry with the same keys, status and space and the
  same attributes.
\<close>

theorem rss_config_roundtrip:
  assumes L: "sorted_list LA" and sgi: "\<And>n. sgi (Some (print_int n)) = n"
    and re: "re = heap ! ce_re ce" "ce_rid_key ce = rid_key re" "ce_ds_key ce = ds_key re"
    and rid: "(''rid_key'', rid_key re) \<in> set (li_all LA (attr re))"
    and res: "fst ` set (li_all LA (attr re)) \<inter> reserved_keys \<subseteq> {''rid_key''}"
  shows "\<exists>re'. rss_load_entry LA sgi (some_values (rss_config_elements LA heap ce)) = Ret (Some re') \<and>
    rid_key re' = rid_key re \<and> ds_key re' = ds_key re \<and> status re' = status re \<and> space_used re' = space_used re \<and>
    space_free re' = space_free re \<and> space_total re' = space_total re \<and>
    mset (li_all LA (attr re')) = mset (li_all LA (attr re))"
proof -
  let ?rest = "filter (\<lambda>(k, v). k \<noteq> ''rid_key'' \<and> k \<noteq> ''ds_key'') (li_all LA (attr re))"
  have dist: "distinct (map fst (li_all LA (attr re)))" by (rule sorted_list.all_distinct [OF L])
  have rest: "fst ` set ?rest \<inter> reserved_keys = {}" "distinct (map fst ?rest)" "''rid_key'' \<notin> fst ` set ?rest"
    using res distinct_map_filter [OF dist] by auto
  define l1 where "l1 = li_insert LA (li_empty LA) ''rid_key'' (rid_key re)"
  have l1: "mset (li_all LA l1) = {#(''rid_key'', rid_key re)#}"
    using sorted_list.all_insert [OF L] sorted_list.all_empty [OF L] by (simp add: l1_def)
  define d1 where "d1 = \<lparr>ld_rid_key = Some (rid_key re), ld_ds_key = Some (ds_key re),
      ld_entry = \<lparr>rid_key = rid_key re, ds_key = ds_key re, attr = l1, status = status re, slot = 0,
        space_total = space_total re, space_used = space_used re, space_free = space_free re\<rparr>\<rparr>"
  have head: "rss_load_elements LA sgi (some_values
      [(''rid_key'', ce_rid_key ce), (''ds_key'', ce_ds_key ce), (''status'', print_int (status re)),
       (''space_used'', print_int (space_used re)), (''space_free'', print_int (space_free re)),
       (''space_total'', print_int (space_total re))])
      \<lparr>ld_rid_key = None, ld_ds_key = None, ld_entry = \<lparr>rid_key = '''', ds_key = '''', attr = li_empty LA,
        status = RS_STATUS_UP, slot = 0, space_total = 0, space_used = 0, space_free = 0\<rparr>\<rparr> = Ret d1"
    by (simp add: some_values_def rss_load_element_def Let_def sgi atoi_print_int re(2,3) d1_def l1_def)
  have "fst ` set ?rest \<inter> fst ` set (li_all LA (attr (ld_entry d1))) = {}"
    using rest(3) arg_cong [OF l1, of set_mset] by (auto simp: d1_def)
  from sorted_list.load_attributes [OF L rest(2) this] obtain l where
    l: "mset (li_all LA l) = mset ?rest + mset (li_all LA l1)"
      "l = foldl (\<lambda>l (k, v). li_insert LA l k v) l1 ?rest" by (auto simp: d1_def)
  have "mset (li_all LA (attr re)) = mset ?rest + {#(''rid_key'', rid_key re)#}"
    using dist rid res by (intro mset_rest_rid_key) (auto simp: reserved_keys_def)
  then have same: "mset (li_all LA l) = mset (li_all LA (attr re))" by (simp add: l(1) l1)
  have "rss_load_elements LA sgi (some_values (rss_config_elements LA heap ce))
      \<lparr>ld_rid_key = None, ld_ds_key = None, ld_entry = \<lparr>rid_key = '''', ds_key = '''', attr = li_empty LA,
        status = RS_STATUS_UP, slot = 0, space_total = 0, space_used = 0, space_free = 0\<rparr>\<rparr> =
      Ret (d1\<lparr>ld_entry := (ld_entry d1)\<lparr>attr := l\<rparr>\<rparr>)"
  proof -
    have el: "some_values (rss_config_elements LA heap ce) = some_values
      [(''rid_key'', ce_rid_key ce), (''ds_key'', ce_ds_key ce), (''status'', print_int (status re)),
       (''space_used'', print_int (space_used re)), (''space_free'', print_int (space_free re)),
       (''space_total'', print_int (space_total re))] @ some_values ?rest"
      by (simp add: rss_config_elements_def re(1) [symmetric] Let_def some_values_def)
    have "attr (ld_entry d1) = l1" by (simp add: d1_def)
    then show ?thesis
      unfolding el rss_load_elements_append head outcome.case rss_load_elements_attributes [OF rest(1)] l(2) by simp
  qed
  with same show ?thesis by (simp add: rss_load_entry_def d1_def)
qed

text \<open>A reference for the toolbox's integer parser: plain decimal numbers.\<close>

definition plain_integer :: "string option \<Rightarrow> int" where
  "plain_integer v = (case v of None \<Rightarrow> 0 | Some s \<Rightarrow> atoi s)"

theorem rss_config_roundtrip_witness:
  "\<exists>re'. rss_load_entry kvl_ops plain_integer (some_values (rss_config_elements kvl_ops
      [demo_rid\<lparr>attr := kvl_insert (attr demo_rid) ''rid_key'' ''r1'', space_free := 77\<rparr>]
      \<lparr>ce_ds_key = ''d1'', ce_rid_key = ''r1'', ce_re = 0\<rparr>)) = Ret (Some re') \<and>
    rid_key re' = ''r1'' \<and> space_free re' = 77"
proof -
  let ?re = "demo_rid\<lparr>attr := kvl_insert (attr demo_rid) ''rid_key'' ''r1'', space_free := 77\<rparr>"
  have all: "li_all kvl_ops (attr ?re) = [(''rid_key'', ''r1''), (''host'', ''a'')]"
    using demo_rid_attr by (simp add: kvl_ops_def kvl_insert.rep_eq kvl_all.rep_eq)
  have sgi: "plain_integer (Some (print_int n)) = n" for n by (simp add: plain_integer_def atoi_print_int)
  have re: "?re = [?re] ! ce_re \<lparr>ce_ds_key = ''d1'', ce_rid_key = ''r1'', ce_re = 0\<rparr>" by simp
  have "(''rid_key'', rid_key ?re) \<in> set (li_all kvl_ops (attr ?re))"
    "fst ` set (li_all kvl_ops (attr ?re)) \<inter> reserved_keys \<subseteq> {''rid_key''}"
    unfolding all by (simp_all add: demo_rid_def reserved_keys_def)
  from rss_config_roundtrip [OF kvl.sorted_list_axioms sgi re _ _ this]
  show ?thesis by (auto simp: demo_rid_def)
qed

text \<open>The buffer of the report grows until the text fits.\<close>

lemma rss_config_grow_fits:
  "0 < b \<Longrightarrow> \<exists>b'. rss_config_grow txt b = Some b' \<and> int (length txt) < b'"
proof (induction "nat (int (length txt) - b)" arbitrary: b rule: less_induct)
  case less
  show ?case
  proof (cases "int (length txt) \<ge> 2 * b")
    case True
    then have "nat (int (length txt) - 2 * b) < nat (int (length txt) - b)" using less.prems by simp
    from less.hyps [OF this] less.prems True show ?thesis by (subst rss_config_grow.simps) (simp add: Let_def)
  next
    case False
    then show ?thesis by (subst rss_config_grow.simps) (simp add: Let_def)
  qed
qed

text \<open>
  C32: the configuration report always returns, whatever size the last report had: the text has a
  section for every entry of the check table and its length is remembered.
\<close>

theorem rss_get_rid_config_returns:
  assumes "0 \<le> last_config_size rss"
  shows "rss_get_rid_config LA rss =
    Some (rss_config_text LA rss, rss\<lparr>last_config_size := int (length (rss_config_text LA rss))\<rparr>)"
proof -
  have "0 < (if last_config_size rss > 0 then c_div (last_config_size rss) 2 + 4096 else 100 * 1024)"
    using assms by (auto simp: c_div_nonneg intro: add_nonneg_pos)
  from rss_config_grow_fits [OF this, of "rss_config_text LA rss"] show ?thesis
    by (auto simp: rss_get_rid_config_def Let_def)
qed

theorem rss_get_rid_config_returns_witness:
  "\<exists>txt rss'. rss_get_rid_config kvl_ops demo_rss = Some (txt, rss') \<and> last_config_size rss' = int (length txt)"
  using rss_get_rid_config_returns [of demo_rss kvl_ops] by (simp add: demo_rss_def)

subsection \<open>The space report\<close>

lemma rs_space_elements_keeps:
  assumes "rs_space_elements sgi kvs (sp, st, nf, nu, nt) = (sp', st', nf', nu', nt')"
    and "\<forall>v. 0 \<le> sgi v" "0 \<le> nf" "0 \<le> nu" "0 \<le> nt"
  shows "used_total sp' = used_total sp \<and> free_total sp' = free_total sp \<and> total_total sp' = total_total sp \<and>
    used_up sp' = used_up sp \<and> free_up sp' = free_up sp \<and> total_up sp' = total_up sp \<and>
    n_rids_total sp' = n_rids_total sp \<and> 0 \<le> nf' \<and> 0 \<le> nu' \<and> 0 \<le> nt'"
  using assms
proof (induction kvs arbitrary: sp st nf nu nt)
  case (Cons kv kvs)
  obtain k v where kv: "kv = (k, v)" by (metis prod.exhaust)
  have n: "0 \<le> sgi v" using Cons.prems(2) by blast
  from Cons.prems(1) show ?case
    unfolding kv rs_space_elements.simps Let_def
    by (auto split: if_splits dest!: Cons.IH [OF _ Cons.prems(2)] simp: n Cons.prems(3-5))
qed simp

lemma rs_space_groups_bounds:
  assumes "\<forall>v. 0 \<le> sgi v" "used_up sp \<le> used_total sp" "free_up sp \<le> free_total sp" "total_up sp \<le> total_total sp"
  shows "used_up (rs_space_groups sgi gs sp) \<le> used_total (rs_space_groups sgi gs sp) \<and>
    free_up (rs_space_groups sgi gs sp) \<le> free_total (rs_space_groups sgi gs sp) \<and>
    total_up (rs_space_groups sgi gs sp) \<le> total_total (rs_space_groups sgi gs sp) \<and>
    n_rids_total (rs_space_groups sgi gs sp) = n_rids_total sp + int (length (filter (\<lambda>g. fst g = ''rid'') gs))"
  using assms(2-)
proof (induction gs arbitrary: sp)
  case (Cons g gs)
  show ?case
  proof (cases "fst g = ''rid''")
    case True
    obtain sp1 st nf nu nt where e: "rs_space_elements sgi (snd g) (sp\<lparr>n_rids_total := n_rids_total sp + 1\<rparr>, 0, 0, 0, 0) =
        (sp1, st, nf, nu, nt)" by (metis prod.exhaust)
    note k = rs_space_elements_keeps [OF e assms(1)]
    define sp2 where "sp2 = sp1\<lparr>used_total := used_total sp1 + nu, free_total := free_total sp1 + nf,
      total_total := total_total sp1 + nt\<rparr>"
    define sp3 where "sp3 = (if st = RS_STATUS_UP then sp2\<lparr>used_up := used_up sp2 + nu, free_up := free_up sp2 + nf,
      total_up := total_up sp2 + nt\<rparr> else sp2)"
    have step: "rs_space_groups sgi (g # gs) sp = rs_space_groups sgi gs sp3"
      using True e by (simp add: sp3_def sp2_def Let_def)
    have "used_up sp3 \<le> used_total sp3" "free_up sp3 \<le> free_total sp3" "total_up sp3 \<le> total_total sp3"
      "n_rids_total sp3 = n_rids_total sp + 1" using k Cons.prems by (auto simp: sp3_def sp2_def)
    with Cons.IH [of sp3] True show ?thesis unfolding step by simp
  qed (use Cons in simp)
qed simp

text \<open>
  The space report counts every resource group of the configuration, and the space of the
  resources that are up never exceeds the space of them all.
\<close>

theorem rs_space_up_within_total:
  assumes "\<forall>v. 0 \<le> sgi v"
  shows "used_up (rs_space sgi (Some gs)) \<le> used_total (rs_space sgi (Some gs)) \<and>
    free_up (rs_space sgi (Some gs)) \<le> free_total (rs_space sgi (Some gs)) \<and>
    total_up (rs_space sgi (Some gs)) \<le> total_total (rs_space sgi (Some gs)) \<and>
    n_rids_total (rs_space sgi (Some gs)) = int (length (filter (\<lambda>g. fst g = ''rid'') gs))"
  using rs_space_groups_bounds [OF assms, of rs_space_zero gs] by (simp add: rs_space_def rs_space_zero_def)

end
