(* ===== verification/Raid4.thy ===== *)
theory Raid4
  imports Prelude
begin

unbundle bit_operations_syntax

text \<open>
  The single-parity code of \<open>src/raid4.c\<close>. A strip is the list of the bytes behind one \<open>char *\<close>, the
  strips of a stripe are a list of them, and the array of erasures ends with \<open>-1\<close>. The decoder
  restores any one lost data strip from the parity of the stripe.
\<close>

section \<open>Model\<close>

type_synonym strip = "byte list"

definition xor_block :: "strip \<Rightarrow> strip \<Rightarrow> nat \<Rightarrow> strip" where
  "xor_block dat par nbytes =
     map (\<lambda>i. if i < nbytes then par ! i XOR dat ! i else par ! i) [0..<length par]"

text \<open>\<open>memcpy\<close> of the first \<open>n\<close> bytes.\<close>

definition memcpy_strip :: "strip \<Rightarrow> strip \<Rightarrow> nat \<Rightarrow> strip" where
  "memcpy_strip dest source n = take n source @ drop n dest"

definition raid4_encode :: "nat \<Rightarrow> strip list \<Rightarrow> strip list \<Rightarrow> nat \<Rightarrow> strip list" where
  "raid4_encode data_strips dat par block_size =
     fold (\<lambda>i p. p[0 := xor_block (dat ! i) (p ! 0) block_size]) [1..<data_strips]
       (par[0 := memcpy_strip (par ! 0) (dat ! 0) block_size])"

text \<open>
  The decoder reads the first two erasures; a negative first erasure would index the strips in
  front of the array.
\<close>

definition raid4_decode ::
  "nat \<Rightarrow> int list \<Rightarrow> strip list \<Rightarrow> strip list \<Rightarrow> nat \<Rightarrow> (int \<times> strip list) outcome" where
  "raid4_decode data_strips erasures dat par block_size =
     (if length erasures < 2 then Crash
      else if erasures ! 1 \<noteq> -1 then Ret (-1, dat)
      else if erasures ! 0 \<ge> int data_strips then Ret (0, dat)
      else if erasures ! 0 < 0 then Crash
      else
        (let k = nat (erasures ! 0);
             dat1 = dat[k := memcpy_strip (dat ! k) (par ! 0) block_size]
         in Ret (0, fold (\<lambda>i d. if i \<noteq> k then d[k := xor_block (d ! i) (d ! k) block_size] else d)
                      [0..<data_strips] dat1)))"

section \<open>Parity of a stripe\<close>

text \<open>The reference: byte \<open>j\<close> of the parity is the sum, modulo 2, of the bytes \<open>j\<close> of the strips.\<close>

fun parity_byte :: "nat \<Rightarrow> strip list \<Rightarrow> byte" where
  "parity_byte j [] = 0"
| "parity_byte j (s # ss) = s ! j XOR parity_byte j ss"

definition stripe_ok :: "nat \<Rightarrow> nat \<Rightarrow> strip list \<Rightarrow> bool" where
  "stripe_ok n block_size ss \<longleftrightarrow> length ss = n \<and> (\<forall>s \<in> set ss. length s = block_size)"

lemma length_xor_block [simp]: "length (xor_block d p n) = length p"
  by (simp add: xor_block_def)

lemma nth_xor_block [simp]: "j < length p \<Longrightarrow> length p = n \<Longrightarrow> xor_block d p n ! j = p ! j XOR d ! j"
  by (simp add: xor_block_def)

lemma memcpy_strip_full [simp]: "length s = n \<Longrightarrow> length d = n \<Longrightarrow> memcpy_strip d s n = s"
  by (simp add: memcpy_strip_def)

lemma parity_byte_remove:
  "distinct is \<Longrightarrow> k \<in> set is \<Longrightarrow>
     parity_byte j (map f is) = f k ! j XOR parity_byte j (map f (filter (\<lambda>i. i \<noteq> k) is))"
proof (induction "is")
  case (Cons i "is")
  show ?case
  proof (cases "i = k")
    case True
    with Cons.prems have "filter (\<lambda>i. i \<noteq> k) is = is" by (auto simp: filter_id_conv)
    with True show ?thesis by simp
  next
    case False
    with Cons show ?thesis by (simp add: ac_simps)
  qed
qed simp

text \<open>
  Both loops add strips into strip \<open>k\<close> of an array; \<open>src\<close> is where the added strips are read from,
  which the loop does not change.
\<close>

lemma xor_fold:
  assumes "k < length d" "length (d ! k) = n"
    and "\<And>d q i. i \<in> set is \<Longrightarrow> src (d[k := q]) i = src d i"
  shows "\<exists>q. fold (\<lambda>i d. d[k := xor_block (src d i) (d ! k) n]) is d = d[k := q] \<and> length q = n \<and>
    (\<forall>j < n. q ! j = d ! k ! j XOR parity_byte j (map (src d) is))"
  using assms
proof (induction "is" arbitrary: d)
  case Nil
  then show ?case by (intro exI [of _ "d ! k"]) simp
next
  case (Cons i "is")
  let ?d = "d[k := xor_block (src d i) (d ! k) n]"
  have "\<exists>q. fold (\<lambda>i d. d[k := xor_block (src d i) (d ! k) n]) is ?d = ?d[k := q] \<and> length q = n \<and>
      (\<forall>j < n. q ! j = ?d ! k ! j XOR parity_byte j (map (src ?d) is))"
    by (rule Cons.IH) (use Cons.prems in auto)
  moreover have "map (src ?d) is = map (src d) is" using Cons.prems(3) by auto
  ultimately show ?case using Cons.prems(1,2) by (auto simp: xor.assoc)
qed

lemma raid4_encode_parity:
  assumes "stripe_ok n block_size dat" "stripe_ok 1 block_size par" "0 < n"
  shows "\<exists>p. raid4_encode n dat par block_size = [p] \<and> length p = block_size \<and>
    (\<forall>j < block_size. p ! j = parity_byte j dat)"
proof -
  have len: "\<And>i. i < n \<Longrightarrow> length (dat ! i) = block_size" using assms(1) by (auto simp: stripe_ok_def)
  obtain q where par: "par = [q]" "length q = block_size"
    using assms(2) by (auto simp: stripe_ok_def length_Suc_conv)
  have "map ((!) dat) [0..<n] = dat" using assms(1) map_nth [of dat] by (simp add: stripe_ok_def)
  moreover have "[0..<n] = 0 # [1..<n]" using assms(3) by (simp add: upt_conv_Cons)
  ultimately have d: "parity_byte j dat = dat ! 0 ! j XOR parity_byte j (map ((!) dat) [1..<n])" for j
    by (metis list.simps(9) parity_byte.simps(2))
  show ?thesis
    using xor_fold [of 0 "[dat ! 0]" block_size "[1..<n]" "\<lambda>_. (!) dat"] len [of 0] assms(3)
    by (auto simp: raid4_encode_def par d)
qed

lemma raid4_decode_restores:
  assumes "stripe_ok n block_size dat" "length p = block_size" "k < n" "length lost = block_size"
    and "\<And>j. j < block_size \<Longrightarrow> p ! j = parity_byte j dat"
  shows "raid4_decode n (int k # -1 # es) (dat[k := lost]) [p] block_size = Ret (0, dat)"
proof -
  have len: "length dat = n" "\<And>i. i < n \<Longrightarrow> length (dat ! i) = block_size"
    using assms(1) by (auto simp: stripe_ok_def)
  let ?is = "filter (\<lambda>i. i \<noteq> k) [0..<n]"
  obtain q where q: "fold (\<lambda>i d. d[k := xor_block (d ! i) (d ! k) block_size]) ?is (dat[k := p]) = dat[k := q]"
    "length q = block_size" "\<forall>j < block_size. q ! j = p ! j XOR parity_byte j (map ((!) (dat[k := p])) ?is)"
    using xor_fold [of k "dat[k := p]" block_size ?is "(!)"] assms(2,3) len(1) by auto
  have same: "map ((!) (dat[k := p])) ?is = map ((!) dat) ?is" by auto
  have "parity_byte j dat = dat ! k ! j XOR parity_byte j (map ((!) dat) ?is)" for j
    using parity_byte_remove [of "[0..<n]" k j "(!) dat"] map_nth [of dat] assms(3) len(1) by simp
  then have "q ! j = dat ! k ! j" if "j < block_size" for j
    using q(3) [unfolded same] assms(5) that by (simp add: xor.assoc)
  then have "q = dat ! k" using q(2) len(2) [OF assms(3)] by (intro nth_equalityI) auto
  moreover have "fold (\<lambda>i d. if i \<noteq> k then d[k := xor_block (d ! i) (d ! k) block_size] else d) [0..<n] (dat[k := p]) =
      fold (\<lambda>i d. d[k := xor_block (d ! i) (d ! k) block_size]) ?is (dat[k := p])"
    unfolding fold_filter by (rule arg_cong [where f = "\<lambda>f. fold f [0..<n] (dat[k := p])"]) (auto simp: fun_eq_iff)
  ultimately show ?thesis using q(1) assms(2-4) len by (simp add: raid4_decode_def Let_def)
qed

section \<open>Properties\<close>

text \<open>
  C35: any one strip of a stripe can be lost. After encoding, the decoder given the index of the
  lost data strip restores exactly the strips that were encoded, whatever was left in the lost
  strip; when only the parity is lost it leaves the data as it is, and when a second erasure is
  listed it reports an error and changes nothing.
\<close>

theorem raid4_roundtrip:
  assumes "stripe_ok n block_size dat" "stripe_ok 1 block_size par" "k < n" "length lost = block_size"
  shows "raid4_decode n (int k # -1 # es) (dat[k := lost]) (raid4_encode n dat par block_size) block_size = Ret (0, dat) \<and>
    raid4_decode n (int n # -1 # es) dat par block_size = Ret (0, dat) \<and>
    (e \<noteq> -1 \<longrightarrow> raid4_decode n (int k # e # es) (dat[k := lost]) par block_size = Ret (-1, dat[k := lost]))"
proof -
  obtain p where p: "raid4_encode n dat par block_size = [p]" "length p = block_size"
    "\<And>j. j < block_size \<Longrightarrow> p ! j = parity_byte j dat"
    using raid4_encode_parity [OF assms(1,2)] assms(3) by auto
  show ?thesis
    unfolding p(1) using raid4_decode_restores [OF assms(1) p(2) assms(3,4) p(3)] by (simp add: raid4_decode_def)
qed

theorem raid4_roundtrip_witness:
  "raid4_decode 3 [1, -1] [[1, 2], [0, 0], [5, 6]] (raid4_encode 3 [[1, 2], [3, 4], [5, 6]] [[9, 9]] 2) 2 =
     Ret (0, [[1, 2], [3, 4], [5, 6]])"
  using raid4_roundtrip [of 3 2 "[[1, 2], [3, 4], [5, 6]]" "[[9, 9]]" 1 "[0, 0]" "[]" 0]
  by (simp add: stripe_ok_def)

end
