(* ===== verification/Data_Service.thy ===== *)
theory Data_Service
  imports Prelude
begin

text \<open>
  The capability sets of a data service, \<open>src/ds_ibp.c\<close>, with the list of capabilities that are
  kept warm. A data service is reached through a table of functions
  (\<open>src/data_service_abstract.h\<close>); the part of it that handles capabilities is the record
  \<open>ds_fn\<close>, and the locale \<open>cap_service\<close> states what its users rely on.
\<close>

section \<open>The interface\<close>

definition DS_CAP_READ :: int where "DS_CAP_READ = 1"
definition DS_CAP_WRITE :: int where "DS_CAP_WRITE = 2"
definition DS_CAP_MANAGE :: int where "DS_CAP_MANAGE = 3"

lemmas ds_consts = DS_CAP_READ_def DS_CAP_WRITE_def DS_CAP_MANAGE_def

text \<open>
  \<open>'c\<close> are the capability sets and \<open>'w\<close> is the state of the service, which the warming operations
  change.
\<close>

record ('c, 'w) ds_fn =
  ds_type :: string
  new_cap_set :: 'c
  get_cap :: "'c \<Rightarrow> int \<Rightarrow> string option"
  set_cap :: "'c \<Rightarrow> int \<Rightarrow> string option \<Rightarrow> int \<times> 'c"
  cap_auto_warm :: "'w \<Rightarrow> 'c \<Rightarrow> ('w \<times> 'c) outcome"
  cap_stop_warm :: "'w \<Rightarrow> 'c \<Rightarrow> 'w outcome"

definition cap_keys :: "int set" where
  "cap_keys = {DS_CAP_READ, DS_CAP_WRITE, DS_CAP_MANAGE}"

locale cap_service =
  fixes D :: "('c, 'w) ds_fn"
  assumes new_get: "get_cap D (new_cap_set D) k = None"
    and set_get: "set_cap D c k v = (e, c') \<Longrightarrow> k \<in> cap_keys \<Longrightarrow> e = 0 \<and> get_cap D c' k = v"
    and set_other: "set_cap D c k v = (e, c') \<Longrightarrow> j \<noteq> k \<Longrightarrow> get_cap D c' j = get_cap D c j"
    and set_bad: "k \<notin> cap_keys \<Longrightarrow> set_cap D c k v = (1, c)"
begin

text \<open>The three capabilities of a set, stored one after the other as the loader does.\<close>

lemma set_three:
  "get_cap D (snd (set_cap D (snd (set_cap D (snd (set_cap D c DS_CAP_READ r)) DS_CAP_WRITE w)) DS_CAP_MANAGE m)) k =
     (if k = DS_CAP_READ then r else if k = DS_CAP_WRITE then w else if k = DS_CAP_MANAGE then m else get_cap D c k)"
proof -
  have step: "get_cap D (snd (set_cap D c' j v)) k' = (if k' = j then v else get_cap D c' k')"
    if "j \<in> cap_keys" for c' j v k'
    using set_get [OF prod.collapse [symmetric] that] set_other [OF prod.collapse [symmetric]] by auto
  show ?thesis by (simp add: step cap_keys_def ds_consts)
qed

end

section \<open>The IBP service\<close>

record ibp_capset =
  readCap :: "string option"
  writeCap :: "string option"
  manageCap :: "string option"

definition ds_ibp_new_cap_set :: ibp_capset where
  "ds_ibp_new_cap_set = \<lparr>readCap = None, writeCap = None, manageCap = None\<rparr>"

definition ds_ibp_get_cap :: "ibp_capset \<Rightarrow> int \<Rightarrow> string option" where
  "ds_ibp_get_cap cs key =
     (if key = DS_CAP_READ then readCap cs
      else if key = DS_CAP_WRITE then writeCap cs
      else if key = DS_CAP_MANAGE then manageCap cs
      else None)"

definition ds_ibp_set_cap :: "ibp_capset \<Rightarrow> int \<Rightarrow> string option \<Rightarrow> int \<times> ibp_capset" where
  "ds_ibp_set_cap cs key cap =
     (if key = DS_CAP_READ then (0, cs\<lparr>readCap := cap\<rparr>)
      else if key = DS_CAP_WRITE then (0, cs\<lparr>writeCap := cap\<rparr>)
      else if key = DS_CAP_MANAGE then (0, cs\<lparr>manageCap := cap\<rparr>)
      else (1, cs))"

text \<open>
  The warming list is a hash table over the management capability; a NULL key crashes the hash
  function.
\<close>

type_synonym warm_table = "string \<rightharpoonup> ibp_capset"

definition ds_ibp_cap_auto_warm :: "warm_table \<Rightarrow> ibp_capset \<Rightarrow> (warm_table \<times> ibp_capset) outcome" where
  "ds_ibp_cap_auto_warm tbl cs =
     (let w = \<lparr>readCap = readCap cs, writeCap = writeCap cs, manageCap = manageCap cs\<rparr>
      in case manageCap w of
           None \<Rightarrow> Crash
         | Some key \<Rightarrow> Ret (tbl(key \<mapsto> w), w))"

definition ds_ibp_cap_stop_warm :: "warm_table \<Rightarrow> ibp_capset option \<Rightarrow> warm_table outcome" where
  "ds_ibp_cap_stop_warm tbl dcs =
     (case dcs of
        None \<Rightarrow> Ret tbl
      | Some cs \<Rightarrow>
          (case manageCap cs of
             None \<Rightarrow> Crash
           | Some key \<Rightarrow> Ret (tbl(key := None))))"

definition ds_ibp_fn :: "(ibp_capset, warm_table) ds_fn" where
  "ds_ibp_fn = \<lparr>ds_type = ''ibp'', new_cap_set = ds_ibp_new_cap_set, get_cap = ds_ibp_get_cap,
     set_cap = ds_ibp_set_cap, cap_auto_warm = ds_ibp_cap_auto_warm,
     cap_stop_warm = (\<lambda>tbl cs. ds_ibp_cap_stop_warm tbl (Some cs))\<rparr>"

lemma ds_ibp_fn_sel [simp]:
  "ds_type ds_ibp_fn = ''ibp''" "new_cap_set ds_ibp_fn = ds_ibp_new_cap_set"
  "get_cap ds_ibp_fn = ds_ibp_get_cap" "set_cap ds_ibp_fn = ds_ibp_set_cap"
  "cap_auto_warm ds_ibp_fn = ds_ibp_cap_auto_warm"
  "cap_stop_warm ds_ibp_fn tbl cs = ds_ibp_cap_stop_warm tbl (Some cs)"
  by (simp_all add: ds_ibp_fn_def)

interpretation ibp: cap_service ds_ibp_fn
  by unfold_locales
    (auto simp: ds_ibp_new_cap_set_def ds_ibp_get_cap_def ds_ibp_set_cap_def cap_keys_def ds_consts split: if_splits)

subsection \<open>Translation to another resource\<close>

text \<open>
  A capability reads \<open>ibp://host:port/rid#key\<close>. The position behind the preamble is looked for at the
  first colon only; the host part ends at the first hash behind it.
\<close>

fun cap_start :: "string \<Rightarrow> nat \<Rightarrow> nat option" where
  "cap_start [] i = None"
| "cap_start (c # cs) i =
     (if c = CHR '':'' then (if take 2 cs = ''//'' then Some (i + 3) else None)
      else cap_start cs (i + 1))"

fun cap_end :: "string \<Rightarrow> nat \<Rightarrow> nat option" where
  "cap_end [] i = None"
| "cap_end (c # cs) i = (if c = CHR ''#'' then Some i else cap_end cs (i + 1))"

text \<open>
  A capability is rewritten in a buffer of 2048 bytes; the part from \<open>end\<close> on is kept, and a
  capability that is shorter than that is read past its end.
\<close>

definition cap_rewrite :: "string \<Rightarrow> nat \<Rightarrow> string option \<Rightarrow> string option outcome" where
  "cap_rewrite ds_key e cap =
     (case cap of
        None \<Rightarrow> Ret None
      | Some s \<Rightarrow> if e \<le> length s then Ret (Some (take 2047 (''ibp://'' @ ds_key @ drop e s))) else Crash)"

definition ds_ibp_translate_cap_set :: "string \<Rightarrow> ibp_capset \<Rightarrow> ibp_capset outcome" where
  "ds_ibp_translate_cap_set ds_key cs =
     (case (case readCap cs of
              None \<Rightarrow> (case writeCap cs of None \<Rightarrow> manageCap cs | Some w \<Rightarrow> Some w)
            | Some r \<Rightarrow> Some r) of
        None \<Rightarrow> Ret cs
      | Some str \<Rightarrow>
          (case cap_start str 0 of
             None \<Rightarrow> Ret cs
           | Some start \<Rightarrow>
               (case cap_end (drop start str) start of
                  None \<Rightarrow> Ret cs
                | Some e \<Rightarrow>
                    (let len = e - start
                     in if take len ds_key = take len (drop start str) \<and> length ds_key = len then Ret cs
                        else case cap_rewrite ds_key e (readCap cs) of
                               Crash \<Rightarrow> Crash
                             | Ret r \<Rightarrow>
                                 (case cap_rewrite ds_key e (writeCap cs) of
                                    Crash \<Rightarrow> Crash
                                  | Ret w \<Rightarrow>
                                      (case cap_rewrite ds_key e (manageCap cs) of
                                         Crash \<Rightarrow> Crash
                                       | Ret m \<Rightarrow> Ret \<lparr>readCap = r, writeCap = w, manageCap = m\<rparr>))))))"

section \<open>Translated capabilities\<close>

definition ibp_cap :: "string \<Rightarrow> string \<Rightarrow> string" where
  "ibp_cap host rest = ''ibp://'' @ host @ ''#'' @ rest"

lemma cap_end_host: "CHR ''#'' \<notin> set host \<Longrightarrow> cap_end (host @ CHR ''#'' # rest) i = Some (i + length host)"
  by (induction host arbitrary: i) auto

lemma cap_start_ibp [simp]: "cap_start (ibp_cap host rest) 0 = Some 6"
  by (simp add: ibp_cap_def)

lemma cap_end_ibp [simp]: "CHR ''#'' \<notin> set host \<Longrightarrow> cap_end (drop 6 (ibp_cap host rest)) 6 = Some (6 + length host)"
  by (simp add: ibp_cap_def cap_end_host)

lemma drop_host [simp]: "drop (6 + length host) (ibp_cap host rest) = CHR ''#'' # rest"
  by (subst add.commute, subst drop_drop [symmetric]) (simp add: ibp_cap_def)

lemma cap_rewrite_ibp:
  "length ds_key + length rest < 2040 \<Longrightarrow>
     cap_rewrite ds_key (6 + length host) (Some (ibp_cap host rest)) = Ret (Some (ibp_cap ds_key rest))"
  using drop_host [of host rest] by (simp add: cap_rewrite_def) (simp add: ibp_cap_def)

lemma host_of_cap: "take (length host) (drop 6 (ibp_cap host rest)) = host"
  by (simp add: ibp_cap_def)

text \<open>
  Translating the capabilities of a block to the resource it moved to replaces the host part of
  each capability of the set and keeps the rest, whichever capabilities the set has; a second
  translation to the same resource changes nothing.
\<close>

theorem ds_ibp_translate_correct:
  assumes "CHR ''#'' \<notin> set host" "CHR ''#'' \<notin> set ds_key"
    and "\<forall>c \<in> {r, w, m}. \<forall>s. c = Some s \<longrightarrow> length ds_key + length s < 2040"
  shows "let cs = \<lambda>h. \<lparr>readCap = map_option (ibp_cap h) r, writeCap = map_option (ibp_cap h) w,
      manageCap = map_option (ibp_cap h) m\<rparr>
    in ds_ibp_translate_cap_set ds_key (cs host) = Ret (cs ds_key) \<and>
       ds_ibp_translate_cap_set ds_key (cs ds_key) = Ret (cs ds_key)"
proof -
  let ?cs = "\<lambda>h. \<lparr>readCap = map_option (ibp_cap h) r, writeCap = map_option (ibp_cap h) w, manageCap = map_option (ibp_cap h) m\<rparr>"
  have rw: "cap_rewrite ds_key (6 + length host) (map_option (ibp_cap host) c) = Ret (map_option (ibp_cap ds_key) c)"
    if "c \<in> {r, w, m}" for c
  proof (cases c)
    case (Some s)
    with assms(3) that have "length ds_key + length s < 2040" by blast
    with Some show ?thesis by (simp add: cap_rewrite_ibp)
  qed (simp add: cap_rewrite_def)
  have first: "(case map_option (ibp_cap h) r of
      None \<Rightarrow> (case map_option (ibp_cap h) w of None \<Rightarrow> map_option (ibp_cap h) m | Some w \<Rightarrow> Some w)
    | Some r \<Rightarrow> Some r) = map_option (ibp_cap h) (case r of None \<Rightarrow> (case w of None \<Rightarrow> m | Some s \<Rightarrow> Some s) | Some s \<Rightarrow> Some s)" for h
    by (simp split: option.split)
  have same: "ds_ibp_translate_cap_set ds_key (?cs ds_key) = Ret (?cs ds_key)"
    unfolding ds_ibp_translate_cap_set_def ibp_capset.simps first
    by (cases "case r of None \<Rightarrow> (case w of None \<Rightarrow> m | Some s \<Rightarrow> Some s) | Some s \<Rightarrow> Some s")
      (simp_all add: assms(2) host_of_cap)
  have "ds_ibp_translate_cap_set ds_key (?cs host) = Ret (?cs ds_key)"
  proof (cases "case r of None \<Rightarrow> (case w of None \<Rightarrow> m | Some s \<Rightarrow> Some s) | Some s \<Rightarrow> Some s")
    case None
    then have "r = None" "w = None" "m = None" by (auto split: option.splits)
    then show ?thesis by (simp add: ds_ibp_translate_cap_set_def)
  next
    case (Some s)
    show ?thesis
    proof (cases "ds_key = host")
      case True
      with same show ?thesis by simp
    next
      case False
      then have "\<not> (take (length host) ds_key = host \<and> length ds_key = length host)" by auto
      then show ?thesis unfolding ds_ibp_translate_cap_set_def ibp_capset.simps first Some
        by (simp add: assms(1) host_of_cap rw Let_def del: take_all) blast
    qed
  qed
  with same show ?thesis by (simp add: Let_def)
qed


section \<open>Warming\<close>

text \<open>
  Adding a capability set to the warming list and removing it again leaves the list without the
  entry and otherwise as it was; while it is warmed, the list holds a copy of the set under the
  management capability.
\<close>

theorem ds_ibp_warm_cycle:
  assumes "manageCap cs = Some key"
  shows "\<exists>tbl' w. ds_ibp_cap_auto_warm tbl cs = Ret (tbl', w) \<and> tbl' key = Some w \<and>
    readCap w = readCap cs \<and> writeCap w = writeCap cs \<and> manageCap w = manageCap cs \<and>
    ds_ibp_cap_stop_warm tbl' (Some w) = Ret (tbl(key := None)) \<and>
    (\<forall>k. k \<noteq> key \<longrightarrow> tbl' k = tbl k)"
  using assms by (simp add: ds_ibp_cap_auto_warm_def ds_ibp_cap_stop_warm_def Let_def)

end
