(* ===== verification/Data_Block.thy ===== *)
theory Data_Block
  imports Data_Service Service_Manager Segment Rs_Query
begin

text \<open>
  Data blocks, \<open>src/data_block.c\<close>: the descriptor of one allocation with its capabilities, sizes,
  reference count and a stack of attributes, and its text form in an exnode. The attributes are
  reached through pointers, and one of them can be on the stack twice, so they live in a store
  that belongs to the block.
\<close>

section \<open>Data\<close>

text \<open>The value of an attribute is NULL, a string, or a pointer to a string that was freed.\<close>

datatype attr_value = NullValue | Value string | FreedValue

record attr_cell =
  at_key :: string
  at_value :: attr_value
  at_freed :: bool

record ('c, 'w) data_block =
  db_id :: ex_id
  db_size :: ex_off
  db_max_size :: ex_off
  db_ref_count :: int
  db_initial_ref_count :: int
  db_cap :: 'c
  db_ds :: "('c, 'w) ds_fn"
  db_rid_key :: "string option"
  db_attr_stack :: "nat list option"
  db_attrs :: "attr_cell list"
  db_warm :: "'c option"

section \<open>Attributes\<close>

fun db_find :: "attr_cell list \<Rightarrow> nat list \<Rightarrow> string \<Rightarrow> nat option" where
  "db_find cells [] key = None"
| "db_find cells (p # ps) key = (if at_key (cells ! p) = key then Some p else db_find cells ps key)"

definition db_find_key :: "attr_cell list \<Rightarrow> nat list option \<Rightarrow> string \<Rightarrow> nat option" where
  "db_find_key cells stack key = (case stack of None \<Rightarrow> None | Some ps \<Rightarrow> db_find cells ps key)"

definition db_push :: "nat \<Rightarrow> nat list option \<Rightarrow> nat list option" where
  "db_push p stack = Some (p # (case stack of None \<Rightarrow> [] | Some ps \<Rightarrow> ps))"

text \<open>
  Setting an attribute. Without the key and without a value the NULL pointer is dereferenced. The
  old value is freed first; without a new value the pointer to it stays.
\<close>

definition data_block_set_attr :: "('c, 'w) data_block \<Rightarrow> string \<Rightarrow> string option \<Rightarrow> (int \<times> ('c, 'w) data_block) outcome" where
  "data_block_set_attr b key val =
     (case db_find_key (db_attrs b) (db_attr_stack b) key of
        None \<Rightarrow>
          (case val of
             None \<Rightarrow> Crash
           | Some v \<Rightarrow>
               Ret (0, b\<lparr>db_attrs := db_attrs b @ [\<lparr>at_key = key, at_value = Value v, at_freed = False\<rparr>],
                         db_attr_stack := db_push (length (db_attrs b)) (db_attr_stack b)\<rparr>))
      | Some p \<Rightarrow>
          (let cell = db_attrs b ! p
           in if at_value cell = FreedValue then Crash
              else
                (let v = (case val of
                            Some v \<Rightarrow> Value v
                          | None \<Rightarrow> if at_value cell = NullValue then NullValue else FreedValue)
                 in Ret (0, b\<lparr>db_attrs := (db_attrs b)[p := cell\<lparr>at_value := v\<rparr>],
                              db_attr_stack := db_push p (db_attr_stack b)\<rparr>))))"

definition data_block_get_attr :: "('c, 'w) data_block \<Rightarrow> string \<Rightarrow> attr_value" where
  "data_block_get_attr b key =
     (case db_find_key (db_attrs b) (db_attr_stack b) key of
        None \<Rightarrow> NullValue
      | Some p \<Rightarrow> at_value (db_attrs b ! p))"

section \<open>Warming\<close>

definition data_block_auto_warm :: "'w \<Rightarrow> ('c, 'w) data_block \<Rightarrow> ('w \<times> ('c, 'w) data_block) outcome" where
  "data_block_auto_warm w b =
     (case cap_auto_warm (db_ds b) w (db_cap b) of
        Crash \<Rightarrow> Crash
      | Ret (w', c) \<Rightarrow> Ret (w', b\<lparr>db_warm := Some c\<rparr>))"

definition data_block_stop_warm :: "'w \<Rightarrow> ('c, 'w) data_block \<Rightarrow> ('w \<times> ('c, 'w) data_block) outcome" where
  "data_block_stop_warm w b =
     (case db_warm b of
        None \<Rightarrow> Ret (w, b)
      | Some c \<Rightarrow>
          (case cap_stop_warm (db_ds b) w c of
             Crash \<Rightarrow> Crash
           | Ret w' \<Rightarrow> Ret (w', b\<lparr>db_warm := None\<rparr>)))"

section \<open>Text form\<close>

definition attr_special :: string where "attr_special = ''=#[]''"

text \<open>The attributes are popped off the stack and freed as they are printed.\<close>

fun db_pop_attrs ::
  "text_ops \<Rightarrow> nat list \<Rightarrow> attr_cell list \<Rightarrow> ((string \<times> string) list \<times> attr_cell list) outcome" where
  "db_pop_attrs T [] cells = Ret ([], cells)"
| "db_pop_attrs T (p # ps) cells =
     (let cell = cells ! p; cells' = cells[p := cell\<lparr>at_freed := True\<rparr>]
      in if at_freed cell then Crash
         else case at_value cell of
                FreedValue \<Rightarrow> Crash
              | NullValue \<Rightarrow> db_pop_attrs T ps cells'
              | Value v \<Rightarrow>
                  (case db_pop_attrs T ps cells' of
                     Crash \<Rightarrow> Crash
                   | Ret (kvs, cells'') \<Rightarrow>
                       Ret ((escape_text T attr_special bslash (at_key cell), escape_text T attr_special bslash v) # kvs,
                            cells'')))"

text \<open>
  The lines of a block as key/value pairs. \<open>escape_text\<close> takes the length of its argument, so a
  missing capability crashes; a missing RID key is printed by the C library.
\<close>

definition null_text :: "string option \<Rightarrow> string" where
  "null_text s = (case s of None \<Rightarrow> ''(null)'' | Some t \<Rightarrow> t)"

definition data_block_elements ::
  "text_ops \<Rightarrow> ('c, 'w) data_block \<Rightarrow> ((string \<times> string) list \<times> ('c, 'w) data_block) outcome" where
  "data_block_elements T b =
     (case (get_cap (db_ds b) (db_cap b) DS_CAP_READ, get_cap (db_ds b) (db_cap b) DS_CAP_WRITE,
            get_cap (db_ds b) (db_cap b) DS_CAP_MANAGE) of
        (Some r, Some w, Some m) \<Rightarrow>
          (let kvs = [(''type'', ds_type (db_ds b)), (''rid_key'', null_text (db_rid_key b)),
                      (''size'', print_int (db_size b)), (''max_size'', print_int (db_max_size b)),
                      (''ref_count'', print_int (db_ref_count b)),
                      (''read_cap'', escape_text T attr_special bslash r),
                      (''write_cap'', escape_text T attr_special bslash w),
                      (''manage_cap'', escape_text T attr_special bslash m)]
           in case db_attr_stack b of
                None \<Rightarrow> Ret (kvs, b)
              | Some ps \<Rightarrow>
                  (case db_pop_attrs T ps (db_attrs b) of
                     Crash \<Rightarrow> Crash
                   | Ret (as, cells) \<Rightarrow> Ret (kvs @ as, b\<lparr>db_attrs := cells, db_attr_stack := Some []\<rparr>)))
      | _ \<Rightarrow> Crash)"

definition block_group :: "ex_id \<Rightarrow> string" where
  "block_group i = ''block-'' @ print_nat (unat i)"

definition segment_group :: "ex_id \<Rightarrow> string" where
  "segment_group i = ''segment-'' @ print_nat (unat i)"

definition group_text :: "string \<Rightarrow> (string \<times> string) list \<Rightarrow> string" where
  "group_text name kvs =
     ''['' @ name @ '']'' @ newline @ concat (map (\<lambda>(k, v). k @ ''='' @ v @ newline) kvs) @ newline"

text \<open>\<open>exnode_exchange_append_text\<close> of \<open>src/exnode.c\<close>, on the text collected so far (NULL is \<open>None\<close>).\<close>

definition exnode_exchange_append_text :: "string option \<Rightarrow> string option \<Rightarrow> string option" where
  "exnode_exchange_append_text txt buf =
     (case buf of
        None \<Rightarrow> txt
      | Some t \<Rightarrow>
          (case txt of
             None \<Rightarrow> Some t
           | Some s \<Rightarrow> if length s = 0 then Some t else Some (s @ newline @ t)))"

definition data_block_serialize_text ::
  "text_ops \<Rightarrow> ('c, 'w) data_block \<Rightarrow> string option \<Rightarrow> (int \<times> string option \<times> ('c, 'w) data_block) outcome" where
  "data_block_serialize_text T b txt =
     (case data_block_elements T b of
        Crash \<Rightarrow> Crash
      | Ret (kvs, b') \<Rightarrow>
          Ret (0, exnode_exchange_append_text txt (Some (buffer_text 2048 (group_text (block_group (db_id b)) kvs))), b'))"

definition data_block_serialize ::
  "text_ops \<Rightarrow> ex_type \<Rightarrow> ('c, 'w) data_block \<Rightarrow> string option \<Rightarrow> (int \<times> string option \<times> ('c, 'w) data_block) outcome" where
  "data_block_serialize T ty b txt =
     (case ty of
        EX_TEXT \<Rightarrow> data_block_serialize_text T b txt
      | EX_PROTOCOL_BUFFERS \<Rightarrow> Ret (-1, txt, b)
      | EX_OTHER \<Rightarrow> Ret (-1, txt, b))"

text \<open>
  A parsed text is a list of groups. \<open>inip_get_string\<close> and \<open>inip_get_integer\<close> take the first element
  of that key; \<open>num\<close> is the integer the toolbox reads from a text.
\<close>

type_synonym inip_file = "(string \<times> (string \<times> string) list) list"

definition inip_get_string :: "(string \<times> string) list \<Rightarrow> string \<Rightarrow> string \<Rightarrow> string" where
  "inip_get_string kvs key def = (case map_of kvs key of None \<Rightarrow> def | Some v \<Rightarrow> v)"

definition inip_get_integer :: "(string \<Rightarrow> int) \<Rightarrow> (string \<times> string) list \<Rightarrow> string \<Rightarrow> int \<Rightarrow> int" where
  "inip_get_integer num kvs key def = (case map_of kvs key of None \<Rightarrow> def | Some v \<Rightarrow> num v)"

definition block_builtin :: "string list" where
  "block_builtin = [''rid_key'', ''size'', ''max_size'', ''type'', ''ref_count'', ''read_cap'', ''write_cap'', ''manage_cap'']"

fun db_load_attrs :: "text_ops \<Rightarrow> (string \<times> string) list \<Rightarrow> attr_cell list \<Rightarrow> nat list option \<Rightarrow> attr_cell list \<times> nat list option" where
  "db_load_attrs T [] cells stack = (cells, stack)"
| "db_load_attrs T ((k, v) # kvs) cells stack =
     (if k \<notin> set block_builtin then
        db_load_attrs T kvs
          (cells @ [\<lparr>at_key = unescape_text T bslash k, at_value = Value (unescape_text T bslash v), at_freed = False\<rparr>])
          (db_push (length cells) stack)
      else db_load_attrs T kvs cells stack)"

definition DS_SM_RUNNING :: string where "DS_SM_RUNNING = ''ds_running''"

definition data_block_deserialize_text ::
  "text_ops \<Rightarrow> (string \<Rightarrow> int) \<Rightarrow> ('c, 'w) ds_fn service_manager \<Rightarrow> ex_id \<Rightarrow> inip_file \<Rightarrow> ('c, 'w) data_block option" where
  "data_block_deserialize_text T num sm i fd =
     (case map_of fd (block_group i) of
        None \<Rightarrow> None
      | Some kvs \<Rightarrow>
          (case lookup_service sm DS_SM_RUNNING (inip_get_string kvs ''type'' '''') of
             None \<Rightarrow> None
           | Some ds \<Rightarrow>
               (let c0 = new_cap_set ds;
                    c1 = snd (set_cap ds c0 DS_CAP_READ (Some (unescape_text T bslash (inip_get_string kvs ''read_cap'' ''''))));
                    c2 = snd (set_cap ds c1 DS_CAP_WRITE (Some (unescape_text T bslash (inip_get_string kvs ''write_cap'' ''''))));
                    c3 = snd (set_cap ds c2 DS_CAP_MANAGE (Some (unescape_text T bslash (inip_get_string kvs ''manage_cap'' ''''))));
                    (cells, stack) = db_load_attrs T kvs [] None
                in Some \<lparr>db_id = i, db_size = inip_get_integer num kvs ''size'' 0,
                         db_max_size = inip_get_integer num kvs ''max_size'' 0, db_ref_count = 0,
                         db_initial_ref_count = inip_get_integer num kvs ''ref_count'' 0,
                         db_cap = c3, db_ds = ds, db_rid_key = Some (inip_get_string kvs ''rid_key'' ''''),
                         db_attr_stack = stack, db_attrs = cells, db_warm = None\<rparr>)))"

definition data_block_deserialize ::
  "text_ops \<Rightarrow> (string \<Rightarrow> int) \<Rightarrow> ex_type \<Rightarrow> ('c, 'w) ds_fn service_manager \<Rightarrow> ex_id \<Rightarrow> inip_file \<Rightarrow> ('c, 'w) data_block option" where
  "data_block_deserialize T num ty sm i fd =
     (case ty of
        EX_TEXT \<Rightarrow> data_block_deserialize_text T num sm i fd
      | EX_PROTOCOL_BUFFERS \<Rightarrow> None
      | EX_OTHER \<Rightarrow> None)"

text \<open>The random word is the argument of \<open>generate_ex_id\<close>.\<close>

definition data_block_create :: "('c, 'w) ds_fn \<Rightarrow> ex_id \<Rightarrow> ('c, 'w) data_block" where
  "data_block_create ds rnd =
     \<lparr>db_id = generate_ex_id rnd, db_size = 0, db_max_size = 0, db_ref_count = 0, db_initial_ref_count = 0,
      db_cap = new_cap_set ds, db_ds = ds, db_rid_key = None, db_attr_stack = None, db_attrs = [], db_warm = None\<rparr>"

text \<open>
  Destroying a block that is still referenced does nothing. Otherwise the descriptor is gone
  (\<open>None\<close>), and the capability leaves the warming list.
\<close>

definition data_block_destroy :: "'w \<Rightarrow> ('c, 'w) data_block option \<Rightarrow> ('w \<times> ('c, 'w) data_block option) outcome" where
  "data_block_destroy w b =
     (case b of
        None \<Rightarrow> Ret (w, None)
      | Some b \<Rightarrow>
          if db_ref_count b > 0 then Ret (w, Some b)
          else
            (case db_warm b of
               None \<Rightarrow> Ret (w, None)
             | Some c \<Rightarrow>
                 (case data_block_stop_warm w b of
                    Crash \<Rightarrow> Crash
                  | Ret (w', _) \<Rightarrow> Ret (w', None))))"


section \<open>Setting and getting\<close>

definition db_stack :: "('c, 'w) data_block \<Rightarrow> nat list" where
  "db_stack b = (case db_attr_stack b of None \<Rightarrow> [] | Some ps \<Rightarrow> ps)"

definition db_wf :: "('c, 'w) data_block \<Rightarrow> bool" where
  "db_wf b \<longleftrightarrow> (\<forall>p \<in> set (db_stack b). p < length (db_attrs b))"

lemma db_find_key_stack: "db_find_key cells (db_attr_stack b) key = db_find cells (db_stack b) key"
  by (simp add: db_find_key_def db_stack_def split: option.split)

lemma db_stack_push [simp]: "(case db_push p st of None \<Rightarrow> [] | Some ps \<Rightarrow> ps) = p # (case st of None \<Rightarrow> [] | Some ps \<Rightarrow> ps)"
  by (simp add: db_push_def)

lemma db_find_Some: "db_find cells ps key = Some p \<Longrightarrow> p \<in> set ps \<and> at_key (cells ! p) = key"
  by (induction ps) (auto split: if_splits)

lemma db_find_cong:
  "(\<And>p. p \<in> set ps \<Longrightarrow> at_key (cells ! p) = at_key (cells' ! p)) \<Longrightarrow> db_find cells ps key = db_find cells' ps key"
  by (induction ps) auto

lemma get_attr_stack:
  "data_block_get_attr b key = (case db_find (db_attrs b) (db_stack b) key of None \<Rightarrow> NullValue | Some p \<Rightarrow> at_value (db_attrs b ! p))"
  by (simp add: data_block_get_attr_def db_find_key_stack)

lemma set_attr_new:
  assumes "db_wf b" "db_find (db_attrs b) (db_stack b) key = None"
    and "data_block_set_attr b key (Some v) = Ret (e, b')"
  shows "e = 0 \<and> db_wf b' \<and> (\<forall>k. data_block_get_attr b' k = (if k = key then Value v else data_block_get_attr b k))"
proof -
  let ?cells = "db_attrs b @ [\<lparr>at_key = key, at_value = Value v, at_freed = False\<rparr>]"
  have b': "e = 0" "db_attrs b' = ?cells" "db_stack b' = length (db_attrs b) # db_stack b"
    using assms(2,3) by (auto simp: data_block_set_attr_def db_find_key_stack db_stack_def)
  have in_old: "p \<in> set (db_stack b) \<Longrightarrow> ?cells ! p = db_attrs b ! p" for p
    using assms(1) by (auto simp: db_wf_def nth_append)
  have find: "db_find ?cells (db_stack b) k = db_find (db_attrs b) (db_stack b) k" for k
    by (rule db_find_cong) (simp add: in_old)
  have "data_block_get_attr b' k = data_block_get_attr b k" if "k \<noteq> key" for k
    using that by (auto simp: get_attr_stack b' find in_old dest!: db_find_Some split: option.split)
  moreover have "data_block_get_attr b' key = Value v" by (simp add: get_attr_stack b')
  ultimately show ?thesis using assms(1) b' by (auto simp: db_wf_def)
qed

lemma set_attr_old:
  assumes "db_wf b" "db_find (db_attrs b) (db_stack b) key = Some p"
    and "data_block_set_attr b key (Some v) = Ret (e, b')"
  shows "e = 0 \<and> db_wf b' \<and> (\<forall>k. data_block_get_attr b' k = (if k = key then Value v else data_block_get_attr b k))"
proof -
  let ?cells = "(db_attrs b)[p := (db_attrs b ! p)\<lparr>at_value := Value v\<rparr>]"
  have b': "e = 0" "db_attrs b' = ?cells" "db_stack b' = p # db_stack b"
    using assms(2,3) by (auto simp: data_block_set_attr_def db_find_key_stack db_stack_def Let_def split: if_splits)
  have p: "p < length (db_attrs b)" "at_key (db_attrs b ! p) = key"
    using db_find_Some [OF assms(2)] assms(1) by (auto simp: db_wf_def)
  have key: "at_key (?cells ! q) = at_key (db_attrs b ! q)" for q
    using p(1) by (cases "q = p") auto
  have find: "db_find ?cells (db_stack b) k = db_find (db_attrs b) (db_stack b) k" for k
    by (rule db_find_cong) (rule key)
  have "data_block_get_attr b' k = data_block_get_attr b k" if "k \<noteq> key" for k
  proof -
    have "q \<noteq> p" if "db_find (db_attrs b) (db_stack b) k = Some q" for q
      using db_find_Some [OF that] p(2) \<open>k \<noteq> key\<close> by auto
    then show ?thesis using \<open>k \<noteq> key\<close> p by (auto simp: get_attr_stack b' find split: option.split)
  qed
  moreover have "data_block_get_attr b' key = Value v" using p by (simp add: get_attr_stack b')
  ultimately show ?thesis using assms(1) b' p(1) by (auto simp: db_wf_def)
qed

text \<open>
  Setting an attribute of a block returns 0, and afterwards the attribute has the new value and
  every other attribute the value it had, whether the key is new or not.
\<close>

theorem data_block_set_get:
  assumes "db_wf b" "data_block_set_attr b key (Some v) = Ret (e, b')"
  shows "e = 0 \<and> db_wf b' \<and> (\<forall>k. data_block_get_attr b' k = (if k = key then Value v else data_block_get_attr b k))"
  using set_attr_new [OF assms(1) _ assms(2)] set_attr_old [OF assms(1) _ assms(2)]
  by (cases "db_find (db_attrs b) (db_stack b) key") simp_all

section \<open>An attribute that is set twice\<close>

lemma pop_freed_crash:
  "p \<in> set ps \<Longrightarrow> p < length cells \<Longrightarrow> at_freed (cells ! p) \<Longrightarrow> db_pop_attrs T ps cells = Crash"
proof (induction ps arbitrary: cells)
  case (Cons q qs)
  show ?case
  proof (cases "q = p")
    case False
    with Cons.prems Cons.IH [of "cells[q := (cells ! q)\<lparr>at_freed := True\<rparr>]"]
    show ?thesis by (auto simp: Let_def split: attr_value.split)
  qed (use Cons.prems in \<open>simp add: Let_def\<close>)
qed simp

text \<open>
  An attribute that is set a second time makes the block impossible to store: its record is then
  on the stack twice, and the serializer, which frees every record it pops, pops a freed record.
\<close>

theorem data_block_reset_attr_crash:
  assumes "db_wf b" "db_find_key (db_attrs b) (db_attr_stack b) key = Some p"
    and "data_block_set_attr b key (Some v) = Ret (e, b')"
  shows "data_block_serialize_text T b' txt = Crash"
proof -
  let ?cells = "(db_attrs b)[p := (db_attrs b ! p)\<lparr>at_value := Value v\<rparr>]"
  have p: "p \<in> set (db_stack b)" "p < length (db_attrs b)"
    using assms(1) db_find_Some [of "db_attrs b" "db_stack b" key p] assms(2)
    by (auto simp: db_wf_def db_find_key_stack)
  have b': "db_attrs b' = ?cells" "db_attr_stack b' = Some (p # db_stack b)"
    using assms(2,3) by (auto simp: data_block_set_attr_def db_push_def db_stack_def Let_def split: if_splits)
  have "db_pop_attrs T (p # db_stack b) ?cells = Crash"
    using pop_freed_crash [OF p(1), of "?cells[p := (?cells ! p)\<lparr>at_freed := True\<rparr>]" T] p(2)
    by (simp add: Let_def)
  then show ?thesis
    by (auto simp: data_block_serialize_text_def data_block_elements_def b' Let_def split: option.split)
qed

section \<open>Round trip\<close>

text \<open>What a block is worth storing: its attributes as a list of keys and values, top of the stack first.\<close>

definition cell_value :: "attr_cell \<Rightarrow> string" where
  "cell_value c = (case at_value c of Value v \<Rightarrow> v | _ \<Rightarrow> '''')"

definition attr_pairs :: "attr_cell list \<Rightarrow> nat list \<Rightarrow> (string \<times> string) list" where
  "attr_pairs cells ps = map (\<lambda>p. (at_key (cells ! p), cell_value (cells ! p))) ps"

definition db_storable :: "('c, 'w) data_block \<Rightarrow> bool" where
  "db_storable b \<longleftrightarrow> distinct (db_stack b) \<and>
     (\<forall>p \<in> set (db_stack b). p < length (db_attrs b) \<and> \<not> at_freed (db_attrs b ! p) \<and>
        (\<exists>v. at_value (db_attrs b ! p) = Value v))"

lemma pop_attrs_storable:
  assumes "distinct ps"
    and "\<And>p. p \<in> set ps \<Longrightarrow> p < length cells \<and> \<not> at_freed (cells ! p) \<and> (\<exists>v. at_value (cells ! p) = Value v)"
  shows "\<exists>cells'. db_pop_attrs T ps cells =
    Ret (map (\<lambda>(k, v). (escape_text T attr_special bslash k, escape_text T attr_special bslash v)) (attr_pairs cells ps), cells')"
  using assms
proof (induction ps arbitrary: cells)
  case (Cons p ps)
  let ?cells = "cells[p := (cells ! p)\<lparr>at_freed := True\<rparr>]"
  have same: "?cells ! q = cells ! q" if "q \<in> set ps" for q
    using Cons.prems(1) that by (metis distinct.simps(2) nth_list_update_neq)
  then have "attr_pairs ?cells ps = attr_pairs cells ps" by (simp add: attr_pairs_def)
  moreover have "\<exists>cells'. db_pop_attrs T ps ?cells =
      Ret (map (\<lambda>(k, v). (escape_text T attr_special bslash k, escape_text T attr_special bslash v)) (attr_pairs ?cells ps), cells')"
    by (rule Cons.IH) (use Cons.prems same in auto)
  ultimately show ?case
    using Cons.prems(2) [of p] by (auto simp: Let_def attr_pairs_def cell_value_def)
qed (simp add: attr_pairs_def)

definition stack_values :: "attr_cell list \<Rightarrow> nat list option \<Rightarrow> bool" where
  "stack_values cells stack \<longleftrightarrow>
     (\<forall>p \<in> set (case stack of None \<Rightarrow> [] | Some ps \<Rightarrow> ps). p < length cells \<and> (\<exists>v. at_value (cells ! p) = Value v))"

lemma load_attrs_pairs:
  assumes "db_load_attrs T kvs cells stack = (cells', stack')" "stack_values cells stack"
  shows "attr_pairs cells' (case stack' of None \<Rightarrow> [] | Some ps \<Rightarrow> ps) =
      rev (map (\<lambda>(k, v). (unescape_text T bslash k, unescape_text T bslash v)) (filter (\<lambda>(k, v). k \<notin> set block_builtin) kvs)) @
      attr_pairs cells (case stack of None \<Rightarrow> [] | Some ps \<Rightarrow> ps) \<and> stack_values cells' stack'"
  using assms
proof (induction T kvs cells stack arbitrary: cells' stack' rule: db_load_attrs.induct)
  case (2 T k v kvs cells stack)
  let ?st = "case stack of None \<Rightarrow> [] | Some ps \<Rightarrow> ps"
  let ?cell = "\<lparr>at_key = unescape_text T bslash k, at_value = Value (unescape_text T bslash v), at_freed = False\<rparr>"
  have old: "attr_pairs (cells @ [?cell]) ?st = attr_pairs cells ?st"
    using "2.prems"(2) by (auto simp: attr_pairs_def stack_values_def nth_append)
  have new: "stack_values (cells @ [?cell]) (db_push (length cells) stack)"
    using "2.prems"(2) by (auto simp: stack_values_def nth_append)
  show ?case
  proof (cases "k \<in> set block_builtin")
    case False
    have "attr_pairs (cells @ [?cell]) (length cells # ?st) =
        (unescape_text T bslash k, unescape_text T bslash v) # attr_pairs cells ?st"
      using old by (simp add: attr_pairs_def cell_value_def)
    with "2.IH"(1) [OF False _ new] "2.prems"(1) False show ?thesis by simp
  qed (use "2.IH"(2) "2.prems" in simp)
qed auto

lemma get_attr_pairs:
  assumes "\<forall>p \<in> set (db_stack b). \<exists>v. at_value (db_attrs b ! p) = Value v"
  shows "data_block_get_attr b k =
    (case map_of (attr_pairs (db_attrs b) (db_stack b)) k of None \<Rightarrow> NullValue | Some v \<Rightarrow> Value v)"
proof -
  have "(case db_find (db_attrs b) ps k of None \<Rightarrow> NullValue | Some p \<Rightarrow> at_value (db_attrs b ! p)) =
      (case map_of (attr_pairs (db_attrs b) ps) k of None \<Rightarrow> NullValue | Some v \<Rightarrow> Value v)"
    if "set ps \<subseteq> set (db_stack b)" for ps
    using that assms by (induction ps) (auto simp: attr_pairs_def cell_value_def)
  then show ?thesis by (simp add: get_attr_stack)
qed

lemma map_of_rev: "distinct (map fst kvs) \<Longrightarrow> map_of (rev kvs) = map_of kvs"
  by (rule map_of_inject_set [THEN iffD2]) (simp_all add: rev_map [symmetric])


text \<open>The stored lines, split into the fixed keys and the attributes.\<close>

definition block_lines :: "text_ops \<Rightarrow> ('c, 'w) data_block \<Rightarrow> string \<Rightarrow> string \<Rightarrow> string \<Rightarrow> (string \<times> string) list" where
  "block_lines T b r w m =
     [(''type'', ds_type (db_ds b)), (''rid_key'', null_text (db_rid_key b)),
      (''size'', print_int (db_size b)), (''max_size'', print_int (db_max_size b)),
      (''ref_count'', print_int (db_ref_count b)),
      (''read_cap'', escape_text T attr_special bslash r),
      (''write_cap'', escape_text T attr_special bslash w),
      (''manage_cap'', escape_text T attr_special bslash m)]"

definition attr_lines :: "text_ops \<Rightarrow> (string \<times> string) list \<Rightarrow> (string \<times> string) list" where
  "attr_lines T kvs = map (\<lambda>(k, v). (escape_text T attr_special bslash k, escape_text T attr_special bslash v)) kvs"

lemma block_elements_storable:
  assumes "db_storable b" "get_cap (db_ds b) (db_cap b) DS_CAP_READ = Some r"
    "get_cap (db_ds b) (db_cap b) DS_CAP_WRITE = Some w" "get_cap (db_ds b) (db_cap b) DS_CAP_MANAGE = Some m"
  shows "\<exists>b'. data_block_elements T b =
    Ret (block_lines T b r w m @ attr_lines T (attr_pairs (db_attrs b) (db_stack b)), b')"
proof (cases "db_attr_stack b")
  case None
  then show ?thesis
    by (simp add: data_block_elements_def assms(2-4) block_lines_def attr_lines_def attr_pairs_def db_stack_def Let_def)
next
  case (Some ps)
  with assms(1) pop_attrs_storable [of ps "db_attrs b" T] show ?thesis
    by (auto simp: data_block_elements_def assms(2-4) block_lines_def attr_lines_def db_storable_def db_stack_def Let_def)
qed

lemma block_lines_builtin: "fst ` set (block_lines T b r w m) \<subseteq> set block_builtin"
  by (auto simp: block_lines_def block_builtin_def)

lemma filter_lines:
  assumes "\<forall>(k, v) \<in> set kvs. escape_text T attr_special bslash k \<notin> set block_builtin"
  shows "filter (\<lambda>(k, v). k \<notin> set block_builtin) (block_lines T b r w m @ attr_lines T kvs) = attr_lines T kvs"
proof -
  have "filter (\<lambda>(k, v). k \<notin> set block_builtin) (block_lines T b r w m) = []"
    using block_lines_builtin [of T b r w m] by (auto simp: filter_empty_conv)
  moreover have "filter (\<lambda>(k, v). k \<notin> set block_builtin) (attr_lines T kvs) = attr_lines T kvs"
    using assms by (auto simp: filter_id_conv attr_lines_def)
  ultimately show ?thesis by simp
qed

context escaping
begin

lemma unescape_lines:
  "map (\<lambda>(k, v). (unescape_text T bslash k, unescape_text T bslash v)) (attr_lines T kvs) = kvs"
  by (induction kvs) (auto simp: attr_lines_def unescape_escape)

end

text \<open>
  C36: a stored data block loads back. A block whose attributes are all set and whose attribute keys
  do not collide with the fixed ones has a text form; reading a file whose group of this block has
  those lines, with the data service registered, gives a block with the same identifier, sizes, RID
  key, capabilities and attributes. The reference count starts at zero again and the stored one
  becomes the initial count.
\<close>

theorem data_block_roundtrip:
  assumes "escaping T" "cap_service (db_ds b)" "\<And>i. num (print_int i) = i"
    and "db_storable b" "distinct (map fst (attr_pairs (db_attrs b) (db_stack b)))"
    and "\<forall>(k, v) \<in> set (attr_pairs (db_attrs b) (db_stack b)). escape_text T attr_special bslash k \<notin> set block_builtin"
    and "get_cap (db_ds b) (db_cap b) DS_CAP_READ = Some r"
      "get_cap (db_ds b) (db_cap b) DS_CAP_WRITE = Some w" "get_cap (db_ds b) (db_cap b) DS_CAP_MANAGE = Some m"
    and "db_rid_key b = Some rid" "lookup_service sm DS_SM_RUNNING (ds_type (db_ds b)) = Some (db_ds b)"
  shows "\<exists>kvs b'. data_block_elements T b = Ret (kvs, b') \<and>
    (\<forall>fd. map_of fd (block_group (db_id b)) = Some kvs \<longrightarrow>
      (\<exists>b''. data_block_deserialize_text T num sm (db_id b) fd = Some b'' \<and>
         db_id b'' = db_id b \<and> db_size b'' = db_size b \<and> db_max_size b'' = db_max_size b \<and>
         db_rid_key b'' = db_rid_key b \<and> db_ref_count b'' = 0 \<and> db_initial_ref_count b'' = db_ref_count b \<and>
         (\<forall>k \<in> cap_keys. get_cap (db_ds b'') (db_cap b'') k = get_cap (db_ds b) (db_cap b) k) \<and>
         (\<forall>k. data_block_get_attr b'' k = data_block_get_attr b k)))"
proof -
  let ?as = "attr_pairs (db_attrs b) (db_stack b)"
  define kvs where "kvs = block_lines T b r w m @ attr_lines T ?as"
  have un: "unescape_text T bslash (escape_text T attr_special bslash s) = s" for s
    by (rule escaping.unescape_escape [OF assms(1)])
  obtain b' where el: "data_block_elements T b = Ret (kvs, b')"
    using block_elements_storable [OF assms(4,7-9)] unfolding kvs_def by blast
  have fields: "map_of kvs ''type'' = Some (ds_type (db_ds b))" "map_of kvs ''rid_key'' = Some rid"
    "map_of kvs ''size'' = Some (print_int (db_size b))" "map_of kvs ''max_size'' = Some (print_int (db_max_size b))"
    "map_of kvs ''ref_count'' = Some (print_int (db_ref_count b))"
    "map_of kvs ''read_cap'' = Some (escape_text T attr_special bslash r)"
    "map_of kvs ''write_cap'' = Some (escape_text T attr_special bslash w)"
    "map_of kvs ''manage_cap'' = Some (escape_text T attr_special bslash m)"
    by (simp_all add: kvs_def block_lines_def null_text_def assms(10))
  obtain cells stack where ld: "db_load_attrs T kvs [] None = (cells, stack)" by (metis prod.exhaust)
  have at: "attr_pairs cells (case stack of None \<Rightarrow> [] | Some ps \<Rightarrow> ps) = rev ?as" "stack_values cells stack"
    using load_attrs_pairs [OF ld, unfolded kvs_def filter_lines [OF assms(6)] escaping.unescape_lines [OF assms(1)]]
    by (simp_all add: stack_values_def attr_pairs_def [of "[]"])
  {
    fix fd assume fd: "map_of fd (block_group (db_id b)) = Some kvs"
    define b'' where "b'' = the (data_block_deserialize_text T num sm (db_id b) fd)"
    have eq: "data_block_deserialize_text T num sm (db_id b) fd = Some b''"
      by (simp add: b''_def data_block_deserialize_text_def fd inip_get_string_def fields assms(11) ld Let_def)
    then have f: "db_id b'' = db_id b" "db_size b'' = db_size b" "db_max_size b'' = db_max_size b"
      "db_rid_key b'' = db_rid_key b" "db_ref_count b'' = 0" "db_initial_ref_count b'' = db_ref_count b"
      "db_ds b'' = db_ds b" "db_attrs b'' = cells" "db_attr_stack b'' = stack"
      by (auto simp: data_block_deserialize_text_def fd inip_get_string_def inip_get_integer_def fields assms(3,10,11) ld Let_def)
    have cap: "get_cap (db_ds b'') (db_cap b'') k = get_cap (db_ds b) (db_cap b) k" if "k \<in> cap_keys" for k
    proof -
      have "db_cap b'' = snd (set_cap (db_ds b) (snd (set_cap (db_ds b) (snd (set_cap (db_ds b) (new_cap_set (db_ds b))
          DS_CAP_READ (Some r))) DS_CAP_WRITE (Some w))) DS_CAP_MANAGE (Some m))"
        using eq by (auto simp: data_block_deserialize_text_def fd inip_get_string_def fields assms(11) ld Let_def un)
      then show ?thesis
        using that assms(7-9) by (auto simp: f cap_service.set_three [OF assms(2)] cap_keys_def)
    qed
    have "data_block_get_attr b'' k = data_block_get_attr b k" for k
    proof -
      have "db_stack b'' = (case stack of None \<Rightarrow> [] | Some ps \<Rightarrow> ps)" by (simp add: db_stack_def f)
      then have "data_block_get_attr b'' k = (case map_of (rev ?as) k of None \<Rightarrow> NullValue | Some v \<Rightarrow> Value v)"
        using get_attr_pairs [of b'' k] at by (simp add: f stack_values_def)
      also have "\<dots> = data_block_get_attr b k"
        using get_attr_pairs [of b k] assms(4) by (simp add: map_of_rev [OF assms(5)] db_storable_def)
      finally show ?thesis .
    qed
    with eq f cap have "\<exists>b''. data_block_deserialize_text T num sm (db_id b) fd = Some b'' \<and>
         db_id b'' = db_id b \<and> db_size b'' = db_size b \<and> db_max_size b'' = db_max_size b \<and>
         db_rid_key b'' = db_rid_key b \<and> db_ref_count b'' = 0 \<and> db_initial_ref_count b'' = db_ref_count b \<and>
         (\<forall>k \<in> cap_keys. get_cap (db_ds b'') (db_cap b'') k = get_cap (db_ds b) (db_cap b) k) \<and>
         (\<forall>k. data_block_get_attr b'' k = data_block_get_attr b k)" by blast
  }
  with el show ?thesis by blast
qed


theorem data_block_roundtrip_witness:
  "\<exists>(b :: (ibp_capset, warm_table) data_block) kvs b' b''. db_attrs b = [\<lparr>at_key = ''a=b'', at_value = Value ''[x]'', at_freed = False\<rparr>] \<and>
     data_block_elements ref_text b = Ret (kvs, b') \<and>
     data_block_deserialize_text ref_text atoi
       \<lparr>sm_table = [DS_SM_RUNNING \<mapsto> [''ibp'' \<mapsto> ds_ibp_fn]]\<rparr> 7 [(''exnode'', []), (''block-7'', kvs)] = Some b'' \<and>
     db_size b'' = 100 \<and> db_initial_ref_count b'' = 2 \<and> data_block_get_attr b'' ''a=b'' = Value ''[x]''"
proof -
  let ?b = "(data_block_create ds_ibp_fn 7)\<lparr>db_id := 7, db_size := 100, db_ref_count := 2, db_rid_key := Some ''r1'',
     db_cap := \<lparr>readCap = Some ''r#'', writeCap = Some ''w#'', manageCap = Some ''m#''\<rparr>,
     db_attrs := [\<lparr>at_key = ''a=b'', at_value = Value ''[x]'', at_freed = False\<rparr>], db_attr_stack := Some [0]\<rparr>"
  let ?sm = "\<lparr>sm_table = [DS_SM_RUNNING \<mapsto> [''ibp'' \<mapsto> ds_ibp_fn]]\<rparr>"
  have st: "db_stack ?b = [0]" "db_ds ?b = ds_ibp_fn" by (simp_all add: db_stack_def data_block_create_def)
  have esc: "escape_text ref_text attr_special bslash ''a=b'' \<notin> set block_builtin" by code_simp
  have grp: "block_group 7 = ''block-7''" by code_simp
  have "\<exists>kvs b'. data_block_elements ref_text ?b = Ret (kvs, b') \<and>
    (\<forall>fd. map_of fd (block_group (db_id ?b)) = Some kvs \<longrightarrow>
      (\<exists>b''. data_block_deserialize_text ref_text atoi ?sm (db_id ?b) fd = Some b'' \<and>
         db_id b'' = db_id ?b \<and> db_size b'' = db_size ?b \<and> db_max_size b'' = db_max_size ?b \<and>
         db_rid_key b'' = db_rid_key ?b \<and> db_ref_count b'' = 0 \<and> db_initial_ref_count b'' = db_ref_count ?b \<and>
         (\<forall>k \<in> cap_keys. get_cap (db_ds b'') (db_cap b'') k = get_cap (db_ds ?b) (db_cap ?b) k) \<and>
         (\<forall>k. data_block_get_attr b'' k = data_block_get_attr ?b k)))"
    by (rule data_block_roundtrip [where r = "''r#''" and w = "''w#''" and m = "''m#''" and rid = "''r1''"])
      (use esc st in \<open>simp_all add: ref_text.escaping_axioms ibp.cap_service_axioms atoi_print_int db_storable_def
        attr_pairs_def ds_ibp_get_cap_def ds_consts lookup_service_def\<close>)
  then obtain kvs b' where k: "data_block_elements ref_text ?b = Ret (kvs, b')" and
    all: "\<And>fd. map_of fd (block_group (db_id ?b)) = Some kvs \<Longrightarrow>
      (\<exists>b''. data_block_deserialize_text ref_text atoi ?sm (db_id ?b) fd = Some b'' \<and>
         db_id b'' = db_id ?b \<and> db_size b'' = db_size ?b \<and> db_max_size b'' = db_max_size ?b \<and>
         db_rid_key b'' = db_rid_key ?b \<and> db_ref_count b'' = 0 \<and> db_initial_ref_count b'' = db_ref_count ?b \<and>
         (\<forall>k \<in> cap_keys. get_cap (db_ds b'') (db_cap b'') k = get_cap (db_ds ?b) (db_cap ?b) k) \<and>
         (\<forall>k. data_block_get_attr b'' k = data_block_get_attr ?b k))" by blast
  have "map_of [(''exnode'', []), (''block-7'', kvs)] (block_group (db_id ?b)) = Some kvs" by (simp add: grp)
  from all [OF this] obtain b'' where
    "data_block_deserialize_text ref_text atoi ?sm (db_id ?b) [(''exnode'', []), (''block-7'', kvs)] = Some b''"
    "db_size b'' = db_size ?b" "db_initial_ref_count b'' = db_ref_count ?b"
    "data_block_get_attr b'' ''a=b'' = data_block_get_attr ?b ''a=b''" by blast
  moreover have "data_block_get_attr ?b ''a=b'' = Value ''[x]''"
    by (simp add: data_block_get_attr_def db_find_key_def)
  ultimately have "db_attrs ?b = [\<lparr>at_key = ''a=b'', at_value = Value ''[x]'', at_freed = False\<rparr>] \<and>
     data_block_elements ref_text ?b = Ret (kvs, b') \<and>
     data_block_deserialize_text ref_text atoi ?sm 7 [(''exnode'', []), (''block-7'', kvs)] = Some b'' \<and>
     db_size b'' = 100 \<and> db_initial_ref_count b'' = 2 \<and> data_block_get_attr b'' ''a=b'' = Value ''[x]''"
    using k by simp
  then show ?thesis by blast
qed

end
