(* ===== verification/Depot.thy ===== *)
theory Depot
  imports Segment Rs_Query
begin

text \<open>
  The storage a block driver works on: the data service reached through \<open>ds_read\<close>, \<open>ds_write\<close>,
  \<open>ds_truncate\<close>, \<open>ds_remove\<close>, \<open>ds_copy\<close> and \<open>ds_probe\<close> (\<open>src/data_service_abstract.h\<close>), and the
  allocation of new blocks through \<open>rs_data_request\<close>. The storage servers are not part of the
  repository: the operations are a parameter, the record \<open>ds_io\<close>, and the locale \<open>depot\<close> states
  what the drivers rely on. An allocation is named by its capability set.
\<close>

section \<open>The interface\<close>

text \<open>
  The vector operations move bytes between the extents of an allocation and the pieces of a
  buffer, each a position and a length: the bytes of the extents, in order, are those of the
  pieces, in order.
\<close>

fun put_pieces :: "mem \<Rightarrow> (ex_off \<times> ex_off) list \<Rightarrow> byte list \<Rightarrow> mem" where
  "put_pieces m [] bs = m"
| "put_pieces m ((p, n) # ps) bs = put_pieces (mem_put m p (take (nat n) bs)) ps (drop (nat n) bs)"

definition get_pieces :: "mem \<Rightarrow> (ex_off \<times> ex_off) list \<Rightarrow> byte list" where
  "get_pieces m ps = concat (map (\<lambda>(p, n). mem_get m p n) ps)"

definition pieces_len :: "(ex_off \<times> ex_off) list \<Rightarrow> ex_off" where
  "pieces_len ps = sum_list (map snd ps)"

definition iov_pieces :: "ex_iovec list \<Rightarrow> (ex_off \<times> ex_off) list" where
  "iov_pieces vs = map (\<lambda>v. (iov_offset v, iov_len v)) vs"

text \<open>
  A request lists, for every block, the index of the resource pick and the size; \<open>n\<close> is the number
  of picks. If it succeeds, it gives a capability set and the key of the chosen resource for each
  block. A probe returns the maximal size of the allocation.
\<close>

record ('d, 'c) ds_io =
  io_request :: "'d \<Rightarrow> rsq_base option \<Rightarrow> (int \<times> ex_off) list \<Rightarrow> int \<Rightarrow> op_state \<times> ('c \<times> string) list \<times> 'd"
  io_truncate :: "'d \<Rightarrow> 'c \<Rightarrow> ex_off \<Rightarrow> op_state \<times> 'd"
  io_remove :: "'d \<Rightarrow> 'c \<Rightarrow> op_state \<times> 'd"
  io_read :: "'d \<Rightarrow> 'c \<Rightarrow> ex_off \<Rightarrow> mem \<Rightarrow> ex_off \<Rightarrow> ex_off \<Rightarrow> op_state \<times> mem \<times> 'd"
  io_write :: "'d \<Rightarrow> 'c \<Rightarrow> ex_off \<Rightarrow> mem \<Rightarrow> ex_off \<Rightarrow> ex_off \<Rightarrow> op_state \<times> 'd"
  io_readv :: "'d \<Rightarrow> 'c \<Rightarrow> ex_iovec list \<Rightarrow> mem \<Rightarrow> (ex_off \<times> ex_off) list \<Rightarrow> op_state \<times> mem \<times> 'd"
  io_writev :: "'d \<Rightarrow> 'c \<Rightarrow> ex_iovec list \<Rightarrow> mem \<Rightarrow> (ex_off \<times> ex_off) list \<Rightarrow> op_state \<times> 'd"
  io_copy :: "'d \<Rightarrow> 'c \<Rightarrow> ex_off \<Rightarrow> 'c \<Rightarrow> ex_off \<Rightarrow> ex_off \<Rightarrow> op_state \<times> 'd"
  io_probe :: "'d \<Rightarrow> 'c \<Rightarrow> op_state \<times> ex_off \<times> 'd"

text \<open>
  \<open>live\<close> are the allocations that exist, \<open>cap_size\<close> is how long they are and \<open>bytes\<close> what they hold.
  \<open>keeps\<close>: every allocation of \<open>C\<close> is still there with the same length and the same bytes.
\<close>

definition keeps ::
  "('d \<Rightarrow> 'c set) \<Rightarrow> ('d \<Rightarrow> 'c \<Rightarrow> ex_off) \<Rightarrow> ('d \<Rightarrow> 'c \<Rightarrow> mem) \<Rightarrow> 'c set \<Rightarrow> 'd \<Rightarrow> 'd \<Rightarrow> bool" where
  "keeps live cap_size bytes C d d' \<longleftrightarrow>
     (\<forall>c \<in> C. c \<in> live d \<longrightarrow> c \<in> live d' \<and> cap_size d' c = cap_size d c \<and>
        (\<forall>x. 0 \<le> x \<and> x < cap_size d c \<longrightarrow> bytes d' c x = bytes d c x))"

locale depot =
  fixes IO :: "('d, 'c) ds_io"
    and live :: "'d \<Rightarrow> 'c set"
    and cap_size :: "'d \<Rightarrow> 'c \<Rightarrow> ex_off"
    and bytes :: "'d \<Rightarrow> 'c \<Rightarrow> mem"
  assumes request_law: "io_request IO d rsq reqs n = (st, grants, d') \<Longrightarrow> \<forall>r \<in> set reqs. 0 < snd r \<Longrightarrow>
      keeps live cap_size bytes UNIV d d' \<and>
      (st = OP_STATE_SUCCESS \<longrightarrow> length grants = length reqs \<and> distinct (map fst grants) \<and>
         (\<forall>i < length reqs. fst (grants ! i) \<in> live d' - live d \<and> cap_size d' (fst (grants ! i)) = snd (reqs ! i)))"
    and truncate_law: "io_truncate IO d c n = (st, d') \<Longrightarrow> c \<in> live d \<Longrightarrow> 0 < n \<Longrightarrow>
      keeps live cap_size bytes (- {c}) d d' \<and> c \<in> live d' \<and>
      (cap_size d' c = n \<or> st \<noteq> OP_STATE_SUCCESS \<and> cap_size d' c = cap_size d c) \<and>
      (\<forall>x. 0 \<le> x \<and> x < cap_size d c \<and> x < cap_size d' c \<longrightarrow> bytes d' c x = bytes d c x)"
    and remove_law: "io_remove IO d c = (st, d') \<Longrightarrow> c \<in> live d \<Longrightarrow> keeps live cap_size bytes (- {c}) d d'"
    and read_law: "io_read IO d c off buf boff n = (st, buf', d') \<Longrightarrow> c \<in> live d \<Longrightarrow> 0 \<le> off \<Longrightarrow> 0 < n \<Longrightarrow>
      off + n \<le> cap_size d c \<Longrightarrow>
      keeps live cap_size bytes UNIV d d' \<and>
      (st = OP_STATE_SUCCESS \<longrightarrow> buf' = mem_put buf boff (mem_get (bytes d c) off n))"
    and write_law: "io_write IO d c off buf boff n = (st, d') \<Longrightarrow> c \<in> live d \<Longrightarrow> 0 \<le> off \<Longrightarrow> 0 < n \<Longrightarrow>
      off + n \<le> cap_size d c \<Longrightarrow>
      keeps live cap_size bytes (- {c}) d d' \<and> c \<in> live d' \<and> cap_size d' c = cap_size d c \<and>
      (\<forall>x. 0 \<le> x \<and> x < cap_size d c \<and> \<not> (off \<le> x \<and> x < off + n) \<longrightarrow> bytes d' c x = bytes d c x) \<and>
      (st = OP_STATE_SUCCESS \<longrightarrow> (\<forall>x. off \<le> x \<and> x < off + n \<longrightarrow> bytes d' c x = buf (boff + (x - off))))"
    and readv_law: "io_readv IO d c vs buf ps = (st, buf', d') \<Longrightarrow> c \<in> live d \<Longrightarrow>
      \<forall>v \<in> set vs. 0 \<le> iov_offset v \<and> 0 < iov_len v \<and> iov_offset v + iov_len v \<le> cap_size d c \<Longrightarrow>
      pieces_len (iov_pieces vs) = pieces_len ps \<Longrightarrow>
      keeps live cap_size bytes UNIV d d' \<and>
      (st = OP_STATE_SUCCESS \<longrightarrow> buf' = put_pieces buf ps (get_pieces (bytes d c) (iov_pieces vs)))"
    and writev_law: "io_writev IO d c vs buf ps = (st, d') \<Longrightarrow> c \<in> live d \<Longrightarrow>
      \<forall>v \<in> set vs. 0 \<le> iov_offset v \<and> 0 < iov_len v \<and> iov_offset v + iov_len v \<le> cap_size d c \<Longrightarrow>
      pieces_len (iov_pieces vs) = pieces_len ps \<Longrightarrow>
      keeps live cap_size bytes (- {c}) d d' \<and> c \<in> live d' \<and> cap_size d' c = cap_size d c \<and>
      (\<forall>x. 0 \<le> x \<and> x < cap_size d c \<and> \<not> (\<exists>v \<in> set vs. iov_offset v \<le> x \<and> x < iov_offset v + iov_len v) \<longrightarrow>
         bytes d' c x = bytes d c x) \<and>
      (st = OP_STATE_SUCCESS \<longrightarrow>
         (\<forall>x. 0 \<le> x \<and> x < cap_size d c \<longrightarrow> bytes d' c x = put_pieces (bytes d c) (iov_pieces vs) (get_pieces buf ps) x))"
    and copy_law: "io_copy IO d a aoff c off n = (st, d') \<Longrightarrow> a \<in> live d \<Longrightarrow> c \<in> live d \<Longrightarrow> a \<noteq> c \<Longrightarrow>
      0 \<le> aoff \<Longrightarrow> 0 \<le> off \<Longrightarrow> 0 < n \<Longrightarrow> aoff + n \<le> cap_size d a \<Longrightarrow> off + n \<le> cap_size d c \<Longrightarrow>
      keeps live cap_size bytes (- {c}) d d' \<and> c \<in> live d' \<and> cap_size d' c = cap_size d c \<and>
      (st = OP_STATE_SUCCESS \<longrightarrow> (\<forall>x. off \<le> x \<and> x < off + n \<longrightarrow> bytes d' c x = bytes d a (aoff + (x - off))))"
begin

abbreviation kept :: "'c set \<Rightarrow> 'd \<Rightarrow> 'd \<Rightarrow> bool" where
  "kept C d d' \<equiv> keeps live cap_size bytes C d d'"

end

lemma keeps_refl [simp]: "keeps live cap_size bytes C d d"
  by (simp add: keeps_def)

lemma keeps_trans:
  "keeps live cap_size bytes C d d' \<Longrightarrow> keeps live cap_size bytes C d' d'' \<Longrightarrow> keeps live cap_size bytes C d d''"
  by (simp add: keeps_def)

lemma keeps_mono: "keeps live cap_size bytes C d d' \<Longrightarrow> B \<subseteq> C \<Longrightarrow> keeps live cap_size bytes B d d'"
  by (auto simp: keeps_def)

lemma keepsD:
  assumes "keeps live cap_size bytes C d d'" "c \<in> C" "c \<in> live d"
  shows "c \<in> live d'" "cap_size d' c = cap_size d c" "0 \<le> x \<Longrightarrow> x < cap_size d c \<Longrightarrow> bytes d' c x = bytes d c x"
  using assms by (auto simp: keeps_def)

section \<open>A depot held in memory\<close>

text \<open>
  Allocations are the positions of a list of byte lists; an allocation that was removed is empty.
  Requests are granted while the depot has fewer than \<open>cap\<close> allocations.
\<close>

definition mem_bytes :: "byte list list \<Rightarrow> nat \<Rightarrow> mem" where
  "mem_bytes d c = (if c < length d then mem_of (d ! c) else (\<lambda>_. 0))"

definition mem_size :: "byte list list \<Rightarrow> nat \<Rightarrow> ex_off" where
  "mem_size d c = (if c < length d then int (length (d ! c)) else 0)"

definition mem_patch :: "byte list \<Rightarrow> ex_off \<Rightarrow> byte list \<Rightarrow> byte list" where
  "mem_patch bs off ds = map (\<lambda>i. mem_put (mem_of bs) off ds (int i)) [0..<length bs]"

definition mem_depot :: "nat \<Rightarrow> (byte list list, nat) ds_io" where
  "mem_depot cap = \<lparr>
     io_request = (\<lambda>d rsq reqs n.
        if length d + length reqs \<le> cap then
          (OP_STATE_SUCCESS, map (\<lambda>i. (length d + i, ''rid'')) [0..<length reqs],
           d @ map (\<lambda>r. replicate (nat (snd r)) 0) reqs)
        else (OP_STATE_FAILURE, [], d)),
     io_truncate = (\<lambda>d c n. (OP_STATE_SUCCESS, d[c := take (nat n) (d ! c) @ replicate (nat n - length (d ! c)) 0])),
     io_remove = (\<lambda>d c. (OP_STATE_SUCCESS, d[c := []])),
     io_read = (\<lambda>d c off buf boff n.
        (OP_STATE_SUCCESS, mem_put buf boff (mem_get (mem_bytes d c) off n), d)),
     io_write = (\<lambda>d c off buf boff n.
        (OP_STATE_SUCCESS, d[c := mem_patch (d ! c) off (mem_get buf boff n)])),
     io_readv = (\<lambda>d c vs buf ps.
        (OP_STATE_SUCCESS, put_pieces buf ps (get_pieces (mem_bytes d c) (iov_pieces vs)), d)),
     io_writev = (\<lambda>d c vs buf ps.
        (OP_STATE_SUCCESS,
         d[c := map (\<lambda>i. put_pieces (mem_of (d ! c)) (iov_pieces vs) (get_pieces buf ps) (int i)) [0..<length (d ! c)]])),
     io_copy = (\<lambda>d a aoff c off n.
        (OP_STATE_SUCCESS, d[c := mem_patch (d ! c) off (mem_get (mem_bytes d a) aoff n)])),
     io_probe = (\<lambda>d c. (OP_STATE_SUCCESS, mem_size d c, d))\<rparr>"

lemma length_mem_patch [simp]: "length (mem_patch bs off ds) = length bs"
  by (simp add: mem_patch_def)

lemma mem_of_patch:
  "0 \<le> x \<Longrightarrow> x < int (length bs) \<Longrightarrow> mem_of (mem_patch bs off ds) x = mem_put (mem_of bs) off ds x"
  unfolding mem_patch_def by (subst mem_of_def) (simp add: nat_less_iff)

lemma put_pieces_out:
  "\<forall>(p, n) \<in> set ps. 0 \<le> n \<and> \<not> (p \<le> x \<and> x < p + n) \<Longrightarrow> put_pieces m ps bs x = m x"
proof (induction m ps bs rule: put_pieces.induct)
  case (2 m p n ps bs)
  then have "mem_put m p (take (nat n) bs) x = m x" by (intro mem_put_out) auto
  with 2 show ?case by simp
qed simp

interpretation mem_depot: depot "mem_depot cap" "\<lambda>d. {..<length d}" mem_size mem_bytes
proof (unfold_locales, goal_cases)
  case (1 d rsq reqs n st grants d')
  then have "0 \<le> snd (reqs ! i)" if "i < length reqs" for i
    using that by (meson less_imp_le nth_mem)
  with 1 show ?case
    by (auto simp: mem_depot_def keeps_def mem_size_def mem_bytes_def nth_append distinct_map inj_on_def
        split: if_splits)
next
  case (2 d c n st d')
  then show ?case
    by (auto simp: mem_depot_def keeps_def mem_size_def mem_bytes_def mem_of_def nth_append)
next
  case (3 d c st d')
  then show ?case by (auto simp: mem_depot_def keeps_def mem_size_def mem_bytes_def)
next
  case (4 d c off buf boff n st buf' d')
  then show ?case by (auto simp: mem_depot_def)
next
  case (5 d c off buf boff n st d')
  then show ?case
    by (auto simp: mem_depot_def keeps_def mem_size_def mem_bytes_def mem_of_patch mem_put_get)
next
  case (6 d c vs buf ps st buf' d')
  then show ?case by (auto simp: mem_depot_def)
next
  case (7 d c vs buf ps st d')
  then have d': "d' = d[c := map (\<lambda>i. put_pieces (mem_of (d ! c)) (iov_pieces vs) (get_pieces buf ps) (int i)) [0..<length (d ! c)]]"
    and c: "c < length d" by (auto simp: mem_depot_def)
  have new: "mem_bytes d' c x = put_pieces (mem_bytes d c) (iov_pieces vs) (get_pieces buf ps) x" if "0 \<le> x" "x < mem_size d c" for x
    using that c by (simp add: d' mem_bytes_def mem_size_def) (simp add: mem_of_def nat_less_iff)
  have old: "mem_bytes d' c x = mem_bytes d c x"
    if "0 \<le> x" "x < mem_size d c" "\<not> (\<exists>v \<in> set vs. iov_offset v \<le> x \<and> x < iov_offset v + iov_len v)" for x
    unfolding new [OF that(1,2)] by (rule put_pieces_out) (use 7(3) that(3) in \<open>fastforce simp: iov_pieces_def\<close>)
  show ?case using new old c by (auto simp: d' keeps_def mem_size_def mem_bytes_def)
next
  case (8 d a aoff c off n st d')
  then show ?case
    by (auto simp: mem_depot_def keeps_def mem_size_def mem_bytes_def mem_of_patch mem_put_get)
qed

end
