(* ===== verification/Segment_Linear.thy ===== *)
theory Segment_Linear
  imports Interval_Skiplist Data_Block Depot
begin

text \<open>
  The linear segment, \<open>src/segment_linear.c\<close>: consecutive blocks on the depots, kept in an interval
  skip list over the offsets of the segment. The list, the depots and the resource requests are
  parameters. Every operation returns the state of the segment, which includes the state of the
  depots, or crashes where the code dereferences a NULL pointer.
\<close>

section \<open>Data\<close>

record ('c, 'd) seglin_slot =
  sl_data :: "('c, 'd) data_block"
  sl_cap_offset :: ex_off
  sl_seg_offset :: ex_off
  sl_seg_end :: ex_off
  sl_len :: ex_off

text \<open>The private part of the segment and the fields of \<open>segment_t\<close> the driver uses.\<close>

record ('m, 'c, 'd) seglin_priv =
  lin_id :: ex_id
  lin_name :: "string option"
  lin_ref_count :: int
  used_size :: ex_off
  total_size :: ex_off
  max_block_size :: ex_off
  excess_block_size :: ex_off
  lin_rsq :: "rsq_base option"
  n_rid_default :: int
  lin_hard_errors :: int
  isl :: 'm
  lin_ds :: "('c, 'd) ds_fn"
  lin_world :: 'd

section \<open>Releasing blocks\<close>

definition sl_release :: "'d \<Rightarrow> ('c, 'd) data_block \<Rightarrow> 'd outcome" where
  "sl_release w b =
     (case data_block_destroy w (Some (b\<lparr>db_ref_count := db_ref_count b - 1\<rparr>)) of
        Crash \<Rightarrow> Crash
      | Ret (w', _) \<Rightarrow> Ret w')"

fun sl_release_all :: "'d \<Rightarrow> ('c, 'd) seglin_slot list \<Rightarrow> 'd outcome" where
  "sl_release_all w [] = Ret w"
| "sl_release_all w (b # bs) =
     (case sl_release w (sl_data b) of Crash \<Rightarrow> Crash | Ret w' \<Rightarrow> sl_release_all w' bs)"

section \<open>Growing\<close>

definition sl_new_slot :: "('c, 'd) ds_fn \<Rightarrow> ex_id \<Rightarrow> ex_off \<Rightarrow> ex_off \<Rightarrow> ('c, 'd) seglin_slot" where
  "sl_new_slot ds rnd off len =
     \<lparr>sl_data = (data_block_create ds rnd)\<lparr>db_size := len, db_max_size := len\<rparr>, sl_cap_offset = 0,
      sl_seg_offset = off, sl_seg_end = off + len - 1, sl_len = len\<rparr>"

text \<open>
  The blocks that cover the offsets from \<open>off\<close> to the new size; \<open>rnd i\<close> is the random word drawn for
  block \<open>i\<close>.
\<close>

function sl_new_slots ::
  "('c, 'd) ds_fn \<Rightarrow> (nat \<Rightarrow> ex_id) \<Rightarrow> nat \<Rightarrow> ex_off \<Rightarrow> ex_off \<Rightarrow> ex_off \<Rightarrow> ('c, 'd) seglin_slot list" where
  "sl_new_slots ds rnd i off new_size mx =
     (if off < new_size \<and> 0 < mx then
        sl_new_slot ds (rnd i) off (if off + mx > new_size then new_size - off else mx) #
        sl_new_slots ds rnd (i + 1) (off + mx) new_size mx
      else [])"
  by pat_completeness auto
termination by (relation "measure (\<lambda>(ds, rnd, i, off, new_size, mx). nat (new_size - off))") auto

declare sl_new_slots.simps [simp del]

text \<open>
  The last block, when it is not full, is expanded. The result is that block with its new length,
  and the offset where new blocks begin.
\<close>

definition sl_grow_last ::
  "('m, ('c, 'd) seglin_slot) isl_ops \<Rightarrow> ('m, 'c, 'd) seglin_priv \<Rightarrow> ex_off \<Rightarrow>
   ((('c, 'd) seglin_slot \<times> ex_off) option \<times> ex_off) outcome" where
  "sl_grow_last I s new_size =
     (if total_size s > 0 then
        (case isl_search I (isl s) (total_size s - 1) (total_size s) of
           [] \<Rightarrow> Crash
         | b # _ \<Rightarrow>
             if sl_len b < max_block_size s then
               (let dsize = (if new_size - sl_seg_offset b > max_block_size s then max_block_size s
                             else new_size - sl_seg_offset b)
                in Ret (Some (b, dsize), sl_seg_offset b + dsize))
             else Ret (None, sl_seg_end b + 1))
      else Ret (None, total_size s))"

definition sl_requests :: "int \<Rightarrow> ('c, 'd) seglin_slot list \<Rightarrow> (int \<times> ex_off) list" where
  "sl_requests n_rid slots = map (\<lambda>(i, b). (int i mod \<bar>n_rid\<bar>, sl_len b)) (enumerate 0 slots)"

definition sl_n_rid :: "int \<Rightarrow> ('c, 'd) seglin_slot list \<Rightarrow> int" where
  "sl_n_rid n_rid slots = (if n_rid > int (length slots) then int (length slots) else n_rid)"

text \<open>With nothing to expand and nothing to allocate, the code waits for a NULL operation.\<close>

definition sl_grow_exec ::
  "('d, 'c) ds_io \<Rightarrow> ('m, 'c, 'd) seglin_priv \<Rightarrow> (('c, 'd) seglin_slot \<times> ex_off) option \<Rightarrow>
   ('c, 'd) seglin_slot list \<Rightarrow> (op_state \<times> ('c \<times> string) list \<times> 'd) outcome" where
  "sl_grow_exec IO s bex slots =
     (let reqs = sl_requests (n_rid_default s) slots; n = sl_n_rid (n_rid_default s) slots
      in case bex of
           None \<Rightarrow>
             if slots = [] then Crash
             else Ret (io_request IO (lin_world s) (lin_rsq s) reqs n)
         | Some (b, dsize) \<Rightarrow>
             (case io_truncate IO (lin_world s) (db_cap (sl_data b)) dsize of
                (st1, d1) \<Rightarrow>
                  if slots = [] then Ret (st1, [], d1)
                  else (case io_request IO d1 (lin_rsq s) reqs n of
                          (st2, grants, d2) \<Rightarrow> Ret (both st1 st2, grants, d2))))"

definition sl_grant :: "('c, 'd) seglin_slot \<Rightarrow> 'c \<times> string \<Rightarrow> ('c, 'd) seglin_slot" where
  "sl_grant b g = b\<lparr>sl_data := (sl_data b)\<lparr>db_cap := fst g, db_rid_key := Some (snd g),
     db_ref_count := db_ref_count (sl_data b) + 1\<rparr>\<rparr>"

definition sl_expand :: "('c, 'd) seglin_slot \<Rightarrow> ex_off \<Rightarrow> ('c, 'd) seglin_slot" where
  "sl_expand b dsize = b\<lparr>sl_len := dsize, sl_seg_end := sl_seg_offset b + dsize - 1,
     sl_data := (sl_data b)\<lparr>db_size := dsize, db_max_size := dsize\<rparr>\<rparr>"

definition sl_insert :: "('m, ('c, 'd) seglin_slot) isl_ops \<Rightarrow> 'm \<Rightarrow> ('c, 'd) seglin_slot \<Rightarrow> 'm" where
  "sl_insert I m b = isl_insert I m (sl_seg_offset b) (sl_seg_end b) b"

definition sl_delete :: "('m, ('c, 'd) seglin_slot) isl_ops \<Rightarrow> 'm \<Rightarrow> ('c, 'd) seglin_slot \<Rightarrow> 'm" where
  "sl_delete I m b = isl_remove I m (sl_seg_offset b) (sl_seg_end b) b"

text \<open>A zero is written to the last byte of every new or expanded block.\<close>

fun sl_zero_ends :: "('d, 'c) ds_io \<Rightarrow> 'd \<Rightarrow> ('c, 'd) seglin_slot list \<Rightarrow> op_state \<times> 'd" where
  "sl_zero_ends IO d [] = (OP_STATE_SUCCESS, d)"
| "sl_zero_ends IO d (b # bs) =
     (case io_write IO d (db_cap (sl_data b)) (sl_cap_offset b + db_max_size (sl_data b) - 1) (\<lambda>_. 0) 0 1 of
        (st, d1) \<Rightarrow> (case sl_zero_ends IO d1 bs of (st2, d2) \<Rightarrow> (both st st2, d2)))"

definition sl_grow ::
  "('m, ('c, 'd) seglin_slot) isl_ops \<Rightarrow> ('d, 'c) ds_io \<Rightarrow> (nat \<Rightarrow> ex_id) \<Rightarrow> ('m, 'c, 'd) seglin_priv \<Rightarrow> ex_off \<Rightarrow>
   (op_status \<times> ('m, 'c, 'd) seglin_priv) outcome" where
  "sl_grow I IO rnd s new_size_arg =
     (let new_size = (if new_size_arg < 0 then - new_size_arg else new_size_arg)
      in if new_size_arg < 0 \<and> new_size < total_size s then Ret (op_success_status, s)
         else if max_block_size s \<le> 0 then Crash
         else
           case sl_grow_last I s new_size of
             Crash \<Rightarrow> Crash
           | Ret (bex, lo) \<Rightarrow>
               (let slots = sl_new_slots (lin_ds s) rnd 0 lo new_size (max_block_size s)
                in if slots \<noteq> [] \<and> n_rid_default s = 0 then Crash
                   else
                     case sl_grow_exec IO s bex slots of
                       Crash \<Rightarrow> Crash
                     | Ret (err, grants, d) \<Rightarrow>
                         if err = OP_STATE_SUCCESS then
                           (let granted = map2 sl_grant slots grants;
                                expanded = (case bex of None \<Rightarrow> [] | Some (b, dsize) \<Rightarrow> [sl_expand b dsize]);
                                m1 = (case bex of None \<Rightarrow> isl s
                                      | Some (b, dsize) \<Rightarrow> sl_insert I (sl_delete I (isl s) b) (sl_expand b dsize));
                                m2 = foldl (sl_insert I) m1 granted;
                                (err2, d2) = sl_zero_ends IO d (expanded @ granted)
                            in Ret (if err2 = OP_STATE_SUCCESS then op_success_status else op_failure_status,
                                    s\<lparr>isl := m2, total_size := new_size, lin_world := d2\<rparr>))
                         else
                           (case sl_release_all d slots of
                              Crash \<Rightarrow> Crash
                            | Ret d2 \<Rightarrow> Ret (op_failure_status, s\<lparr>lin_world := d2\<rparr>))))"

section \<open>Shrinking and truncating\<close>

fun sl_remove_blocks :: "('d, 'c) ds_io \<Rightarrow> 'd \<Rightarrow> ('c, 'd) seglin_slot list \<Rightarrow> op_state \<times> 'd" where
  "sl_remove_blocks IO d [] = (OP_STATE_SUCCESS, d)"
| "sl_remove_blocks IO d (b # bs) =
     (case io_remove IO d (db_cap (sl_data b)) of
        (st, d1) \<Rightarrow> (case sl_remove_blocks IO d1 bs of (st2, d2) \<Rightarrow> (both st st2, d2)))"

text \<open>
  The first block is removed or cut; the others are removed. The slots are taken off the list
  whatever the depots answer.
\<close>

definition sl_shrink ::
  "('m, ('c, 'd) seglin_slot) isl_ops \<Rightarrow> ('d, 'c) ds_io \<Rightarrow> ('m, 'c, 'd) seglin_priv \<Rightarrow> ex_off \<Rightarrow>
   (op_status \<times> ('m, 'c, 'd) seglin_priv) outcome" where
  "sl_shrink I IO s new_size =
     (case isl_search I (isl s) new_size (total_size s) of
        [] \<Rightarrow> Crash
      | b # bs \<Rightarrow>
          (let dsize = new_size - sl_seg_offset b;
               gone = (if dsize = 0 then b # bs else bs);
               (st1, d1) = (if dsize = 0 then io_remove IO (lin_world s) (db_cap (sl_data b))
                            else io_truncate IO (lin_world s) (db_cap (sl_data b)) dsize);
               (st2, d2) = sl_remove_blocks IO d1 bs
           in case sl_release_all d2 (rev gone) of
                Crash \<Rightarrow> Crash
              | Ret d3 \<Rightarrow>
                  (let m1 = foldl (sl_delete I) (isl s) (rev gone);
                       m2 = (if dsize = 0 then m1
                             else sl_insert I (sl_delete I m1 b)
                                    (b\<lparr>sl_seg_end := sl_seg_offset b + dsize - 1, sl_len := dsize\<rparr>))
                   in Ret (if both st1 st2 = OP_STATE_SUCCESS then op_success_status else op_failure_status,
                           s\<lparr>isl := m2, total_size := new_size, used_size := new_size, lin_world := d3\<rparr>))))"

definition sl_truncate ::
  "('m, ('c, 'd) seglin_slot) isl_ops \<Rightarrow> ('d, 'c) ds_io \<Rightarrow> (nat \<Rightarrow> ex_id) \<Rightarrow> ('m, 'c, 'd) seglin_priv \<Rightarrow> ex_off \<Rightarrow>
   (op_status \<times> ('m, 'c, 'd) seglin_priv) outcome" where
  "sl_truncate I IO rnd s new_size =
     (if new_size < 0 then sl_grow I IO rnd s new_size
      else if total_size s > new_size then sl_shrink I IO s new_size
      else if total_size s < new_size then sl_grow I IO rnd s new_size
      else Ret (op_success_status, s))"

section \<open>Reading and writing\<close>

text \<open>
  A transfer is planned block by block. An operation is started through the queue only from the
  point on where some extent was found to span a second block; without a queue, only the last
  operation is started.
\<close>

record 'c sl_task =
  tk_cap :: 'c
  tk_off :: ex_off
  tk_bpos :: ex_off
  tk_len :: ex_off

record 'c sl_plan =
  pl_bpos :: ex_off
  pl_gop :: "'c sl_task option"
  pl_que :: "'c sl_task list option"

fun sl_plan_slots :: "ex_off \<Rightarrow> ex_off \<Rightarrow> ('c, 'd) seglin_slot list \<Rightarrow> 'c sl_plan \<Rightarrow> 'c sl_plan" where
  "sl_plan_slots lo hi [] p = p"
| "sl_plan_slots lo hi (b # bs) p =
     (let start = (if lo \<le> sl_seg_offset b then 0 else lo - sl_seg_offset b);
          bend = (if hi \<ge> sl_seg_end b then sl_len b - 1 else hi - sl_seg_offset b);
          blen = bend - start + 1;
          t = \<lparr>tk_cap = db_cap (sl_data b), tk_off = start + sl_cap_offset b, tk_bpos = pl_bpos p, tk_len = blen\<rparr>;
          q = (if bs \<noteq> [] \<and> pl_que p = None then Some [] else pl_que p)
      in sl_plan_slots lo hi bs
           \<lparr>pl_bpos = pl_bpos p + blen, pl_gop = Some t, pl_que = map_option (\<lambda>ts. ts @ [t]) q\<rparr>)"

fun sl_plan_iov ::
  "('m, ('c, 'd) seglin_slot) isl_ops \<Rightarrow> 'm \<Rightarrow> ex_iovec list \<Rightarrow> 'c sl_plan \<Rightarrow> 'c sl_plan" where
  "sl_plan_iov I m [] p = p"
| "sl_plan_iov I m (v # vs) p =
     (let lo = iov_offset v; hi = lo + iov_len v - 1
      in sl_plan_iov I m vs (sl_plan_slots lo hi (isl_search I m lo hi) p))"

definition sl_plan_tasks :: "('m, ('c, 'd) seglin_slot) isl_ops \<Rightarrow> 'm \<Rightarrow> ex_iovec list \<Rightarrow> ex_off \<Rightarrow> 'c sl_task list option" where
  "sl_plan_tasks I m iov boff =
     (let p = sl_plan_iov I m iov \<lparr>pl_bpos = boff, pl_gop = None, pl_que = None\<rparr>
      in case pl_que p of Some ts \<Rightarrow> Some ts | None \<Rightarrow> map_option (\<lambda>t. [t]) (pl_gop p))"

fun sl_run_reads :: "('d, 'c) ds_io \<Rightarrow> 'd \<Rightarrow> mem \<Rightarrow> 'c sl_task list \<Rightarrow> op_state \<times> mem \<times> 'd" where
  "sl_run_reads IO d buf [] = (OP_STATE_SUCCESS, buf, d)"
| "sl_run_reads IO d buf (t # ts) =
     (case io_read IO d (tk_cap t) (tk_off t) buf (tk_bpos t) (tk_len t) of
        (st, buf1, d1) \<Rightarrow> (case sl_run_reads IO d1 buf1 ts of (st2, buf2, d2) \<Rightarrow> (both st st2, buf2, d2)))"

fun sl_run_writes :: "('d, 'c) ds_io \<Rightarrow> 'd \<Rightarrow> mem \<Rightarrow> 'c sl_task list \<Rightarrow> op_state \<times> 'd" where
  "sl_run_writes IO d buf [] = (OP_STATE_SUCCESS, d)"
| "sl_run_writes IO d buf (t # ts) =
     (case io_write IO d (tk_cap t) (tk_off t) buf (tk_bpos t) (tk_len t) of
        (st, d1) \<Rightarrow> (case sl_run_writes IO d1 buf ts of (st2, d2) \<Rightarrow> (both st st2, d2)))"

text \<open>
  What waiting for the transfer gives; with nothing planned a failed operation is made up. A read
  reports success in either case: \<open>waitall_ok\<close> tells which answers of \<open>gop_waitall\<close> the code takes
  for no error, the test against the number 0.
\<close>

definition seglin_read_exec ::
  "('m, ('c, 'd) seglin_slot) isl_ops \<Rightarrow> ('d, 'c) ds_io \<Rightarrow> ('m, 'c, 'd) seglin_priv \<Rightarrow> ex_iovec list \<Rightarrow> mem \<Rightarrow> ex_off \<Rightarrow>
   op_state \<times> mem \<times> 'd" where
  "seglin_read_exec I IO s iov buffer boff =
     (case sl_plan_tasks I (isl s) iov boff of
        None \<Rightarrow> (OP_STATE_FAILURE, buffer, lin_world s)
      | Some ts \<Rightarrow> sl_run_reads IO (lin_world s) buffer ts)"

definition seglin_read_func ::
  "(op_state \<Rightarrow> bool) \<Rightarrow> ('m, ('c, 'd) seglin_slot) isl_ops \<Rightarrow> ('d, 'c) ds_io \<Rightarrow> ('m, 'c, 'd) seglin_priv \<Rightarrow>
   ex_iovec list \<Rightarrow> mem \<Rightarrow> ex_off \<Rightarrow> op_status \<times> mem \<times> ('m, 'c, 'd) seglin_priv" where
  "seglin_read_func waitall_ok I IO s iov buffer boff =
     (case seglin_read_exec I IO s iov buffer boff of
        (st, buf, d) \<Rightarrow>
          if waitall_ok st then (op_success_status, buf, s\<lparr>lin_world := d\<rparr>)
          else (op_success_status, buf, s\<lparr>lin_world := d, lin_hard_errors := lin_hard_errors s + 1\<rparr>))"

definition seglin_write_op ::
  "('m, ('c, 'd) seglin_slot) isl_ops \<Rightarrow> ('d, 'c) ds_io \<Rightarrow> ('m, 'c, 'd) seglin_priv \<Rightarrow> ex_iovec list \<Rightarrow> mem \<Rightarrow> ex_off \<Rightarrow>
   op_state \<times> ('m, 'c, 'd) seglin_priv" where
  "seglin_write_op I IO s iov buffer boff =
     (case sl_plan_tasks I (isl s) iov boff of
        None \<Rightarrow> (OP_STATE_FAILURE, s)
      | Some ts \<Rightarrow>
          (case sl_run_writes IO (lin_world s) buffer ts of (st, d) \<Rightarrow> (st, s\<lparr>lin_world := d\<rparr>)))"

definition sl_maxpos :: "ex_iovec list \<Rightarrow> ex_off" where
  "sl_maxpos iov = foldl (\<lambda>mx v. let pos = iov_offset v + iov_len v - 1 in if pos > mx then pos else mx) 0 iov"

text \<open>The space a write needs is reserved first; how that went is not looked at.\<close>

definition seglin_write_grow ::
  "('m, ('c, 'd) seglin_slot) isl_ops \<Rightarrow> ('d, 'c) ds_io \<Rightarrow> (nat \<Rightarrow> ex_id) \<Rightarrow> ('m, 'c, 'd) seglin_priv \<Rightarrow> ex_off \<Rightarrow>
   (op_status \<times> ('m, 'c, 'd) seglin_priv) outcome" where
  "seglin_write_grow I IO rnd s maxpos =
     (if maxpos \<ge> total_size s \<and> total_size s < maxpos + excess_block_size s
      then sl_truncate I IO rnd s (maxpos + excess_block_size s)
      else Ret (op_success_status, s))"

definition seglin_write_func ::
  "('m, ('c, 'd) seglin_slot) isl_ops \<Rightarrow> ('d, 'c) ds_io \<Rightarrow> (nat \<Rightarrow> ex_id) \<Rightarrow> ('m, 'c, 'd) seglin_priv \<Rightarrow>
   ex_iovec list \<Rightarrow> mem \<Rightarrow> ex_off \<Rightarrow> (op_status \<times> ('m, 'c, 'd) seglin_priv) outcome" where
  "seglin_write_func I IO rnd s iov buffer boff =
     (let maxpos = sl_maxpos iov
      in case seglin_write_grow I IO rnd s maxpos of
           Crash \<Rightarrow> Crash
         | Ret (_, s1) \<Rightarrow>
             (case seglin_write_op I IO s1 iov buffer boff of
                (err, s2) \<Rightarrow>
                  (let s3 = s2\<lparr>used_size := (if used_size s2 \<le> maxpos then maxpos + 1 else used_size s2)\<rparr>
                   in if err = OP_STATE_SUCCESS then Ret (op_success_status, s3)
                      else Ret (op_failure_status, s3\<lparr>lin_hard_errors := lin_hard_errors s3 + 1\<rparr>))))"


section \<open>Removal, inspection and sizes\<close>

definition seglin_remove ::
  "('m, ('c, 'd) seglin_slot) isl_ops \<Rightarrow> ('d, 'c) ds_io \<Rightarrow> ('m, 'c, 'd) seglin_priv \<Rightarrow> op_state \<times> ('m, 'c, 'd) seglin_priv" where
  "seglin_remove I IO s =
     (case sl_remove_blocks IO (lin_world s) (isl_all I (isl s)) of (st, d) \<Rightarrow> (st, s\<lparr>lin_world := d\<rparr>))"

text \<open>
  All blocks are probed; the callback then compares every allocation with its slot. When a probe
  failed, its clean-up uses the block pointer it never set.
\<close>

fun sl_probe_all :: "('d, 'c) ds_io \<Rightarrow> 'd \<Rightarrow> ('c, 'd) seglin_slot list \<Rightarrow> op_state \<times> ex_off list \<times> 'd" where
  "sl_probe_all IO d [] = (OP_STATE_SUCCESS, [], d)"
| "sl_probe_all IO d (b # bs) =
     (case io_probe IO d (db_cap (sl_data b)) of
        (st, n, d1) \<Rightarrow> (case sl_probe_all IO d1 bs of (st2, ns, d2) \<Rightarrow> (both st st2, n # ns, d2)))"

definition seglin_probe_cb :: "('c, 'd) seglin_slot list \<Rightarrow> ex_off list \<Rightarrow> op_state \<Rightarrow> op_state outcome" where
  "seglin_probe_cb bs ns state =
     (if state = OP_STATE_SUCCESS then
        Ret (if \<exists>(b, psize) \<in> set (zip bs ns). psize < sl_cap_offset b + sl_len b then OP_STATE_FAILURE
             else OP_STATE_SUCCESS)
      else if bs \<noteq> [] then Crash
      else Ret OP_STATE_FAILURE)"

definition seglin_inspect_op ::
  "('m, ('c, 'd) seglin_slot) isl_ops \<Rightarrow> ('d, 'c) ds_io \<Rightarrow> ('m, 'c, 'd) seglin_priv \<Rightarrow>
   (op_state \<times> ('m, 'c, 'd) seglin_priv) outcome" where
  "seglin_inspect_op I IO s =
     (let bs = isl_all I (isl s)
      in case sl_probe_all IO (lin_world s) bs of
           (st, ns, d) \<Rightarrow>
             (case seglin_probe_cb bs ns st of
                Crash \<Rightarrow> Crash
              | Ret st' \<Rightarrow> Ret (st', s\<lparr>lin_world := d\<rparr>)))"

definition INSPECT_SOFT_ERRORS :: int where "INSPECT_SOFT_ERRORS = 7"
definition INSPECT_HARD_ERRORS :: int where "INSPECT_HARD_ERRORS = 8"
definition INSPECT_MIGRATE :: int where "INSPECT_MIGRATE = 9"

text \<open>For a mode that is not listed, no operation is made: \<open>None\<close>.\<close>

definition seglin_inspect :: "('m, 'c, 'd) seglin_priv \<Rightarrow> int \<Rightarrow> op_status option" where
  "seglin_inspect s mode =
     (if 1 \<le> mode \<and> mode \<le> 6 \<or> mode = INSPECT_MIGRATE then Some op_failure_status
      else if mode = INSPECT_SOFT_ERRORS \<or> mode = INSPECT_HARD_ERRORS then
        Some \<lparr>op_state = (if lin_hard_errors s = 0 then OP_STATE_SUCCESS else OP_STATE_FAILURE),
              error_code = lin_hard_errors s\<rparr>
      else None)"

definition seglin_flush :: "('m, 'c, 'd) seglin_priv \<Rightarrow> ex_off \<Rightarrow> ex_off \<Rightarrow> op_state \<times> ('m, 'c, 'd) seglin_priv" where
  "seglin_flush s lo hi = (OP_STATE_SUCCESS, s)"

definition seglin_size :: "('m, 'c, 'd) seglin_priv \<Rightarrow> ex_off" where
  "seglin_size s = used_size s"

definition seglin_block_size :: "('m, 'c, 'd) seglin_priv \<Rightarrow> ex_off" where
  "seglin_block_size s = 1"

definition seglin_signature :: "('m, 'c, 'd) seglin_priv \<Rightarrow> string" where
  "seglin_signature s = ''linear(n_rid_default='' @ print_int (n_rid_default s) @ '')'' @ newline"

section \<open>Creation\<close>

definition segment_linear_create ::
  "('m, ('c, 'd) seglin_slot) isl_ops \<Rightarrow> ('c, 'd) ds_fn \<Rightarrow> 'd \<Rightarrow> ex_id \<Rightarrow> ('m, 'c, 'd) seglin_priv" where
  "segment_linear_create I ds w rnd =
     \<lparr>lin_id = generate_ex_id rnd, lin_name = None, lin_ref_count = 0, used_size = 0, total_size = 0,
      max_block_size = 10 * 1024 * 1024, excess_block_size = 1 * 1024 * 1024, lin_rsq = None, n_rid_default = 1,
      lin_hard_errors = 0, isl = isl_empty I, lin_ds = ds, lin_world = w\<rparr>"

definition segment_linear_make ::
  "('m, ('c, 'd) seglin_slot) isl_ops \<Rightarrow> ('d, 'c) ds_io \<Rightarrow> (nat \<Rightarrow> ex_id) \<Rightarrow> ('m, 'c, 'd) seglin_priv \<Rightarrow> rsq_base \<Rightarrow> int \<Rightarrow>
   ex_off \<Rightarrow> ex_off \<Rightarrow> (op_status \<times> ('m, 'c, 'd) seglin_priv) outcome" where
  "segment_linear_make I IO rnd s rsq n_rid block_size tsize =
     (case rs_query_base_dup (Some rsq) of
        Crash \<Rightarrow> Crash
      | Ret q \<Rightarrow>
          sl_truncate I IO rnd
            (s\<lparr>n_rid_default := n_rid, max_block_size := block_size, excess_block_size := c_div block_size 4,
               lin_rsq := Some q\<rparr>) tsize)"

text \<open>Destroying a segment that is still referenced does nothing; otherwise every block loses a reference.\<close>

definition seglin_destroy ::
  "('m, ('c, 'd) seglin_slot) isl_ops \<Rightarrow> ('m, 'c, 'd) seglin_priv \<Rightarrow> ('d \<times> ('m, 'c, 'd) seglin_priv option) outcome" where
  "seglin_destroy I s =
     (if lin_ref_count s > 0 then Ret (lin_world s, Some s)
      else case sl_release_all (lin_world s) (isl_all I (isl s)) of
             Crash \<Rightarrow> Crash
           | Ret d \<Rightarrow> Ret (d, None))"

section \<open>Cloning\<close>

text \<open>
  The clone gets a block of the same length for every block of the source. All of them are asked
  for with the same pick index, and with no blocks at all the code waits for a NULL operation. The
  two segments live on the same depots.
\<close>

definition sl_clone_slot :: "('c, 'd) ds_fn \<Rightarrow> ex_id \<Rightarrow> ('c, 'd) seglin_slot \<Rightarrow> ('c, 'd) seglin_slot" where
  "sl_clone_slot ds rnd bs =
     \<lparr>sl_data = (data_block_create ds rnd)\<lparr>db_size := sl_len bs, db_max_size := sl_len bs\<rparr>, sl_cap_offset = 0,
      sl_seg_offset = sl_seg_offset bs, sl_seg_end = sl_seg_end bs, sl_len = sl_len bs\<rparr>"

definition sl_clone_grant :: "('c, 'd) seglin_slot \<Rightarrow> 'c \<times> string \<Rightarrow> ('c, 'd) seglin_slot" where
  "sl_clone_grant b g = b\<lparr>sl_data := (sl_data b)\<lparr>db_cap := fst g, db_ref_count := db_ref_count (sl_data b) + 1\<rparr>\<rparr>"

fun sl_copy_blocks ::
  "('d, 'c) ds_io \<Rightarrow> 'd \<Rightarrow> (('c, 'd) seglin_slot \<times> ('c, 'd) seglin_slot) list \<Rightarrow> op_state \<times> 'd" where
  "sl_copy_blocks IO d [] = (OP_STATE_SUCCESS, d)"
| "sl_copy_blocks IO d ((bs, bd) # ps) =
     (case io_copy IO d (db_cap (sl_data bs)) (sl_cap_offset bs) (db_cap (sl_data bd)) (sl_cap_offset bd) (sl_len bs) of
        (st, d1) \<Rightarrow> (case sl_copy_blocks IO d1 ps of (st2, d2) \<Rightarrow> (both st st2, d2)))"

definition seglin_clone_blocks ::
  "('m, ('c, 'd) seglin_slot) isl_ops \<Rightarrow> ('d, 'c) ds_io \<Rightarrow> (nat \<Rightarrow> ex_id) \<Rightarrow> ('m, 'c, 'd) seglin_priv \<Rightarrow>
   ('m, 'c, 'd) seglin_priv \<Rightarrow> (op_status \<times> ('m, 'c, 'd) seglin_priv) outcome" where
  "seglin_clone_blocks I IO rnd ss sd =
     (let srcs = isl_all I (isl ss);
          new = map (\<lambda>(i, b). sl_clone_slot (lin_ds sd) (rnd i) b) (enumerate 0 srcs);
          n = int (length srcs);
          reqs = map (\<lambda>b. (n mod \<bar>n_rid_default sd\<bar>, sl_len b)) new
      in if srcs = [] \<or> n_rid_default sd = 0 then Crash
         else case io_request IO (lin_world sd) (lin_rsq sd) reqs (sl_n_rid (n_rid_default sd) new) of
                (st, grants, d1) \<Rightarrow>
                  if st \<noteq> OP_STATE_SUCCESS then Ret (op_failure_status, sd\<lparr>lin_world := d1\<rparr>)
                  else
                    (let granted = map2 sl_clone_grant new grants;
                         (cst, d2) = sl_copy_blocks IO d1 (zip srcs granted)
                     in Ret (if cst = OP_STATE_SUCCESS then op_success_status else op_failure_status,
                             sd\<lparr>isl := foldl (sl_insert I) (isl sd) granted, lin_world := d2,
                                total_size := total_size ss, used_size := used_size ss\<rparr>)))"

definition seglin_clone_func ::
  "('m, ('c, 'd) seglin_slot) isl_ops \<Rightarrow> ('d, 'c) ds_io \<Rightarrow> (nat \<Rightarrow> ex_id) \<Rightarrow> int \<Rightarrow> ('m, 'c, 'd) seglin_priv \<Rightarrow>
   ('m, 'c, 'd) seglin_priv \<Rightarrow> (op_status \<times> ('m, 'c, 'd) seglin_priv) outcome" where
  "seglin_clone_func I IO rnd trunc ss sd =
     (if trunc = 1 then
        (case sl_truncate I IO rnd sd 0 of
           Crash \<Rightarrow> Crash
         | Ret (_, sd1) \<Rightarrow> seglin_clone_blocks I IO rnd ss sd1)
      else seglin_clone_blocks I IO rnd ss sd)"

definition CLONE_STRUCTURE :: int where "CLONE_STRUCTURE = 0"

text \<open>
  \<open>clone_seg\<close> is the existing clone, if there is one; \<open>attr\<close> the query to use, if one is given.
\<close>

definition seglin_clone ::
  "('m, ('c, 'd) seglin_slot) isl_ops \<Rightarrow> ('d, 'c) ds_io \<Rightarrow> text_ops \<Rightarrow> (nat \<Rightarrow> ex_id) \<Rightarrow> ex_id \<Rightarrow> ('m, 'c, 'd) seglin_priv \<Rightarrow>
   ('m, 'c, 'd) seglin_priv option \<Rightarrow> int \<Rightarrow> string option \<Rightarrow> (op_status \<times> ('m, 'c, 'd) seglin_priv) outcome" where
  "seglin_clone I IO T rnd i ss clone_seg mode attr =
     (let base =
        (case clone_seg of
           Some sd \<Rightarrow> Ret sd
         | None \<Rightarrow>
             (case (case attr of None \<Rightarrow> rs_query_base_dup (lin_rsq ss)
                    | Some q \<Rightarrow> (case rs_query_base_parse T q of None \<Rightarrow> Crash | Some r \<Rightarrow> Ret r)) of
                Crash \<Rightarrow> Crash
              | Ret r \<Rightarrow>
                  Ret ((segment_linear_create I (lin_ds ss) (lin_world ss) i)\<lparr>lin_name := lin_name ss, lin_rsq := Some r,
                         n_rid_default := n_rid_default ss\<rparr>)))
      in case base of
           Crash \<Rightarrow> Crash
         | Ret sd \<Rightarrow>
             (let sd1 = sd\<lparr>max_block_size := max_block_size ss, excess_block_size := excess_block_size ss\<rparr>
              in if mode = CLONE_STRUCTURE then
                   (if clone_seg \<noteq> None then sl_truncate I IO rnd sd1 0 else Ret (op_success_status, sd1))
                 else seglin_clone_func I IO rnd (if clone_seg \<noteq> None then 1 else 0) ss sd1))"

section \<open>Text form\<close>

definition sl_block_line :: "('c, 'd) seglin_slot \<Rightarrow> string \<times> string" where
  "sl_block_line b =
     (''block'', print_nat (unat (db_id (sl_data b))) @ '':'' @ print_int (sl_seg_offset b) @ '':'' @
        print_int (sl_cap_offset b) @ '':'' @ print_int (sl_seg_end b) @ '':'' @ print_int (sl_len b))"

definition seglin_elements ::
  "text_ops \<Rightarrow> string \<Rightarrow> ('m, ('c, 'd) seglin_slot) isl_ops \<Rightarrow> ('m, 'c, 'd) seglin_priv \<Rightarrow> (string \<times> string) list" where
  "seglin_elements T rs_type I s =
     (case lin_name s of
        Some nm \<Rightarrow> if nm = '''' then [] else [(''name'', escape_text T ''='' bslash nm)]
      | None \<Rightarrow> []) @
     [(''type'', ''linear''), (''ref_count'', print_int (lin_ref_count s))] @
     (case rs_query_base_print T rs_type (lin_rsq s) of
        None \<Rightarrow> []
      | Some q \<Rightarrow> [(''query_default'', escape_text T ''='' bslash q)]) @
     [(''n_rid_default'', print_int (n_rid_default s)), (''max_block_size'', print_int (max_block_size s)),
      (''excess_block_size'', print_int (excess_block_size s)), (''max_size'', print_int (total_size s)),
      (''used_size'', print_int (used_size s))] @
     map sl_block_line (isl_all I (isl s))"

text \<open>
  Storing the blocks empties their attribute stacks; the slots, which hold the blocks by pointer,
  see that.
\<close>

fun sl_serialize_blocks ::
  "text_ops \<Rightarrow> ('m, ('c, 'd) seglin_slot) isl_ops \<Rightarrow> ('c, 'd) seglin_slot list \<Rightarrow> 'm \<Rightarrow> string option \<Rightarrow>
   ('m \<times> string option) outcome" where
  "sl_serialize_blocks T I [] m t = Ret (m, t)"
| "sl_serialize_blocks T I (b # bs) m t =
     (case data_block_serialize T EX_TEXT (sl_data b) t of
        Crash \<Rightarrow> Crash
      | Ret (_, t', db) \<Rightarrow>
          sl_serialize_blocks T I bs (sl_insert I (sl_delete I m b) (b\<lparr>sl_data := db\<rparr>)) t')"

definition seglin_serialize_text ::
  "text_ops \<Rightarrow> string \<Rightarrow> ('m, ('c, 'd) seglin_slot) isl_ops \<Rightarrow> ('m, 'c, 'd) seglin_priv \<Rightarrow> string option \<Rightarrow>
   (int \<times> string option \<times> ('m, 'c, 'd) seglin_priv) outcome" where
  "seglin_serialize_text T rs_type I s t =
     (case sl_serialize_blocks T I (isl_all I (isl s)) (isl s) None of
        Crash \<Rightarrow> Crash
      | Ret (m, caps) \<Rightarrow>
          (let segbuf = buffer_text (10 * 1024)
             (''['' @ segment_group (lin_id s) @ '']'' @ newline @
              concat (map (\<lambda>(k, v). k @ ''='' @ v @ newline) (seglin_elements T rs_type I s)))
           in Ret (0, exnode_exchange_append_text (exnode_exchange_append_text t caps) (Some segbuf), s\<lparr>isl := m\<rparr>)))"

text \<open>A block line is split at the colons; \<open>num\<close> reads a number.\<close>

definition sl_parse_block ::
  "text_ops \<Rightarrow> (string \<Rightarrow> int) \<Rightarrow> string \<Rightarrow> ex_id \<times> ex_off \<times> ex_off \<times> ex_off \<times> ex_off" where
  "sl_parse_block T num value =
     (let (t1, r1) = escape_string_token T '':'' bslash value;
          (t2, r2) = escape_string_token T '':'' bslash r1;
          (t3, r3) = escape_string_token T '':'' bslash r2;
          (t4, r4) = escape_string_token T '':'' bslash r3;
          (t5, r5) = escape_string_token T '':'' bslash r4
      in (word_of_int (num t1), num t2, num t3, num t4, num t5))"

fun sl_load_blocks ::
  "text_ops \<Rightarrow> (string \<Rightarrow> int) \<Rightarrow> ('m, ('c, 'd) seglin_slot) isl_ops \<Rightarrow> ('c, 'd) ds_fn service_manager \<Rightarrow> inip_file \<Rightarrow>
   (string \<times> string) list \<Rightarrow> 'm \<Rightarrow> int \<Rightarrow> int \<times> 'm" where
  "sl_load_blocks T num I sm fd [] m fail = (fail, m)"
| "sl_load_blocks T num I sm fd ((k, v) # kvs) m fail =
     (if k = ''block'' then
        (case sl_parse_block T num v of
           (i, so, co, se, ln) \<Rightarrow>
             (case data_block_deserialize T num EX_TEXT sm i fd of
                None \<Rightarrow> sl_load_blocks T num I sm fd kvs m 1
              | Some db \<Rightarrow>
                  sl_load_blocks T num I sm fd kvs
                    (sl_insert I m \<lparr>sl_data = db\<lparr>db_ref_count := db_ref_count db + 1\<rparr>, sl_cap_offset = co,
                       sl_seg_offset = so, sl_seg_end = se, sl_len = ln\<rparr>) fail))
      else sl_load_blocks T num I sm fd kvs m fail)"

text \<open>A query text whose parser does not return makes the whole call not return.\<close>

definition seglin_deserialize_text ::
  "text_ops \<Rightarrow> (string \<Rightarrow> int) \<Rightarrow> ('m, ('c, 'd) seglin_slot) isl_ops \<Rightarrow> ('c, 'd) ds_fn service_manager \<Rightarrow>
   ('m, 'c, 'd) seglin_priv \<Rightarrow> ex_id \<Rightarrow> inip_file \<Rightarrow> (int \<times> ('m, 'c, 'd) seglin_priv) outcome" where
  "seglin_deserialize_text T num I sm s i fd =
     (let kvs = (case map_of fd (segment_group i) of None \<Rightarrow> [] | Some kvs \<Rightarrow> kvs);
          mb = inip_get_integer num kvs ''max_block_size'' (10 * 1024 * 1024);
          (fail, m) = sl_load_blocks T num I sm fd kvs (isl s) 0
      in case rs_query_base_parse T (unescape_text T bslash (inip_get_string kvs ''query_default'' '''')) of
           None \<Rightarrow> Crash
         | Some q \<Rightarrow>
             Ret (fail, s\<lparr>lin_id := i, lin_name := Some (inip_get_string kvs ''name'' ''''), lin_rsq := Some q,
               n_rid_default := inip_get_integer num kvs ''n_rid_default'' 2, max_block_size := mb,
               excess_block_size := inip_get_integer num kvs ''excess_block_size'' (c_div mb 4),
               total_size := inip_get_integer num kvs ''max_size'' 0,
               used_size := inip_get_integer num kvs ''used_size'' 0, isl := m\<rparr>))"

definition seglin_deserialize ::
  "text_ops \<Rightarrow> (string \<Rightarrow> int) \<Rightarrow> ex_type \<Rightarrow> ('m, ('c, 'd) seglin_slot) isl_ops \<Rightarrow> ('c, 'd) ds_fn service_manager \<Rightarrow>
   ('m, 'c, 'd) seglin_priv \<Rightarrow> ex_id \<Rightarrow> inip_file \<Rightarrow> (int \<times> ('m, 'c, 'd) seglin_priv) outcome" where
  "seglin_deserialize T num ty I sm s i fd =
     (case ty of
        EX_TEXT \<Rightarrow> seglin_deserialize_text T num I sm s i fd
      | EX_PROTOCOL_BUFFERS \<Rightarrow> Ret (-1, s)
      | EX_OTHER \<Rightarrow> Ret (-1, s))"

end
