(* ===== verification/Linear_Correctness.thy ===== *)
theory Linear_Correctness
  imports Segment_Linear
begin

text \<open>
  Correctness of the linear segment. The slots tile the reserved space, each on an allocation of
  its own; under that invariant reads deliver, and writes change, exactly the bytes they name,
  growing keeps what was stored and shrinking keeps what is left.
\<close>

section \<open>Invariant and contents\<close>

definition slot_ok :: "('d \<Rightarrow> 'c set) \<Rightarrow> ('d \<Rightarrow> 'c \<Rightarrow> ex_off) \<Rightarrow> 'd \<Rightarrow> ('c, 'd) seglin_slot \<Rightarrow> bool" where
  "slot_ok live cap_size d b \<longleftrightarrow>
     sl_cap_offset b = 0 \<and> 0 \<le> sl_seg_offset b \<and> 0 < sl_len b \<and> sl_seg_end b = sl_seg_offset b + sl_len b - 1 \<and>
     db_cap (sl_data b) \<in> live d \<and> sl_len b \<le> cap_size d (db_cap (sl_data b)) \<and> db_warm (sl_data b) = None"

definition lin_ok ::
  "('m \<Rightarrow> ('c, 'd) seglin_slot interval_entry multiset) \<Rightarrow> ('d \<Rightarrow> 'c set) \<Rightarrow> ('d \<Rightarrow> 'c \<Rightarrow> ex_off) \<Rightarrow>
   ('m, 'c, 'd) seglin_priv \<Rightarrow> bool" where
  "lin_ok items live cap_size s \<longleftrightarrow>
     keyed_disjoint sl_seg_offset sl_seg_end (items (isl s)) \<and>
     (\<forall>b \<in> entries (items (isl s)). slot_ok live cap_size (lin_world s) b \<and> sl_seg_end b < total_size s) \<and>
     inj_on (\<lambda>b. db_cap (sl_data b)) (entries (items (isl s))) \<and>
     (\<forall>x. 0 \<le> x \<and> x < total_size s \<longrightarrow>
        (\<exists>b \<in> entries (items (isl s)). sl_seg_offset b \<le> x \<and> x \<le> sl_seg_end b)) \<and>
     0 \<le> total_size s \<and> 0 < max_block_size s \<and> 0 < n_rid_default s"

text \<open>The byte of a slot at an offset of the segment, and of the segment at that offset.\<close>

definition slot_byte :: "('d \<Rightarrow> 'c \<Rightarrow> mem) \<Rightarrow> 'd \<Rightarrow> ('c, 'd) seglin_slot \<Rightarrow> ex_off \<Rightarrow> byte" where
  "slot_byte bytes d b x = bytes d (db_cap (sl_data b)) (sl_cap_offset b + (x - sl_seg_offset b))"

definition lin_byte ::
  "('m, ('c, 'd) seglin_slot) isl_ops \<Rightarrow> ('d \<Rightarrow> 'c \<Rightarrow> mem) \<Rightarrow> ('m, 'c, 'd) seglin_priv \<Rightarrow> mem" where
  "lin_byte I bytes s x =
     (case isl_search I (isl s) x x of [] \<Rightarrow> 0 | b # _ \<Rightarrow> slot_byte bytes (lin_world s) b x)"

lemma lin_byte_upd [simp]:
  "lin_byte I bytes (s\<lparr>used_size := u\<rparr>) = lin_byte I bytes s"
  "lin_byte I bytes (s\<lparr>lin_hard_errors := e\<rparr>) = lin_byte I bytes s"
  by (simp_all add: fun_eq_iff lin_byte_def split: list.split)

section \<open>The plan of a transfer\<close>

fun sl_tasks :: "ex_off \<Rightarrow> ex_off \<Rightarrow> ('c, 'd) seglin_slot list \<Rightarrow> ex_off \<Rightarrow> 'c sl_task list" where
  "sl_tasks lo hi [] bpos = []"
| "sl_tasks lo hi (b # bs) bpos =
     (let start = (if lo \<le> sl_seg_offset b then 0 else lo - sl_seg_offset b);
          bend = (if hi \<ge> sl_seg_end b then sl_len b - 1 else hi - sl_seg_offset b);
          blen = bend - start + 1
      in \<lparr>tk_cap = db_cap (sl_data b), tk_off = start + sl_cap_offset b, tk_bpos = bpos, tk_len = blen\<rparr> #
         sl_tasks lo hi bs (bpos + blen))"

lemma plan_slots_queued:
  "pl_que p = Some ts \<Longrightarrow> pl_que (sl_plan_slots lo hi bs p) = Some (ts @ sl_tasks lo hi bs (pl_bpos p))"
  by (induction lo hi bs p arbitrary: ts rule: sl_plan_slots.induct) (simp_all add: Let_def)

lemma plan_tasks_single:
  "sl_plan_tasks I m [ex_iovec_single lo n] boff =
     (if isl_search I m lo (lo + n - 1) = [] then None
      else Some (sl_tasks lo (lo + n - 1) (isl_search I m lo (lo + n - 1)) boff))"
proof -
  obtain bs where bs: "isl_search I m lo (lo + n - 1) = bs" by simp
  show ?thesis
  proof (cases bs)
    case (Cons b bs')
    show ?thesis
      by (cases "bs' = []") (simp_all add: sl_plan_tasks_def bs Cons Let_def plan_slots_queued)
  qed (simp add: sl_plan_tasks_def bs)
qed

abbreviation slot_chain :: "ex_off \<Rightarrow> ex_off \<Rightarrow> ex_off \<Rightarrow> ('c, 'd) seglin_slot list \<Rightarrow> bool" where
  "slot_chain \<equiv> chain sl_seg_offset sl_seg_end"

lemma chain_tasks:
  assumes "slot_chain lo hi pos (b # bs)" "sl_seg_end b = sl_seg_offset b + sl_len b - 1"
  shows "sl_tasks lo hi (b # bs) bpos =
    \<lparr>tk_cap = db_cap (sl_data b), tk_off = pos - sl_seg_offset b + sl_cap_offset b, tk_bpos = bpos,
     tk_len = min hi (sl_seg_end b) - pos + 1\<rparr> # sl_tasks lo hi bs (bpos + (min hi (sl_seg_end b) - pos + 1))"
proof -
  let ?start = "if lo \<le> sl_seg_offset b then 0 else lo - sl_seg_offset b"
  let ?bend = "if hi \<ge> sl_seg_end b then sl_len b - 1 else hi - sl_seg_offset b"
  have "?start = pos - sl_seg_offset b" "?bend - ?start + 1 = min hi (sl_seg_end b) - pos + 1"
    using assms by (auto simp: min_def max_def split: if_splits)
  then show ?thesis by (simp only: sl_tasks.simps Let_def)
qed

section \<open>Transfers\<close>

lemma slot_ok_keeps:
  assumes "keeps live cap_size bytes C d d'" "slot_ok live cap_size d b" "db_cap (sl_data b) \<in> C"
  shows "slot_ok live cap_size d' b"
    and "sl_seg_offset b \<le> y \<Longrightarrow> y \<le> sl_seg_end b \<Longrightarrow> slot_byte bytes d' b y = slot_byte bytes d b y"
  using assms keepsD [OF assms(1,3)] by (auto simp: slot_ok_def slot_byte_def)

locale lin_store =
  keyed_intervals I items sl_seg_offset sl_seg_end + depot IO live cap_size bytes
  for I :: "('m, ('c, 'd) seglin_slot) isl_ops" and items :: "'m \<Rightarrow> ('c, 'd) seglin_slot interval_entry multiset"
    and IO :: "('d, 'c) ds_io" and live :: "'d \<Rightarrow> 'c set" and cap_size :: "'d \<Rightarrow> 'c \<Rightarrow> ex_off"
    and bytes :: "'d \<Rightarrow> 'c \<Rightarrow> mem"
begin

abbreviation sok :: "'d \<Rightarrow> ('c, 'd) seglin_slot \<Rightarrow> bool" where
  "sok d b \<equiv> slot_ok live cap_size d b"

abbreviation lok :: "('m, 'c, 'd) seglin_priv \<Rightarrow> bool" where
  "lok s \<equiv> lin_ok items live cap_size s"

abbreviation sbyte :: "'d \<Rightarrow> ('c, 'd) seglin_slot \<Rightarrow> ex_off \<Rightarrow> byte" where
  "sbyte d b y \<equiv> slot_byte bytes d b y"

lemma run_reads_chain:
  assumes "slot_chain lo hi pos bs" "\<And>b. b \<in> set bs \<Longrightarrow> sok d b"
    and "\<And>b y. b \<in> set bs \<Longrightarrow> sl_seg_offset b \<le> y \<Longrightarrow> y \<le> sl_seg_end b \<Longrightarrow> sbyte d b y = C y"
    and "sl_run_reads IO d buf (sl_tasks lo hi bs bpos) = (st, buf', d')"
  shows "kept UNIV d d' \<and> (st = OP_STATE_SUCCESS \<longrightarrow> buf' = mem_put buf bpos (mem_get C pos (hi - pos + 1)))"
  using assms
proof (induction bs arbitrary: pos d buf bpos st buf' d')
  case Nil
  then show ?case by (auto simp: mem_get_def)
next
  case (Cons b bs)
  let ?n = "min hi (sl_seg_end b) - pos + 1"
  have sb: "sok d b" using Cons.prems(2) by simp
  then have shape: "sl_seg_end b = sl_seg_offset b + sl_len b - 1" "sl_cap_offset b = 0" by (auto simp: slot_ok_def)
  have ch: "max lo (sl_seg_offset b) = pos" "pos \<le> hi" "pos \<le> sl_seg_end b" "slot_chain lo hi (sl_seg_end b + 1) bs"
    using Cons.prems(1) by auto
  obtain st1 buf1 d1 where r: "io_read IO d (db_cap (sl_data b)) (pos - sl_seg_offset b) buf bpos ?n = (st1, buf1, d1)"
    by (metis prod.exhaust)
  have "sl_seg_offset b \<le> pos" using ch(1) by auto
  with sb ch shape have rl: "kept UNIV d d1"
    "st1 = OP_STATE_SUCCESS \<Longrightarrow> buf1 = mem_put buf bpos (mem_get (bytes d (db_cap (sl_data b))) (pos - sl_seg_offset b) ?n)"
    using read_law [OF r] by (auto simp: slot_ok_def)
  obtain st2 buf2 d2 where rest: "sl_run_reads IO d1 buf1 (sl_tasks lo hi bs (bpos + ?n)) = (st2, buf2, d2)"
    by (metis prod.exhaust)
  have res: "st = both st1 st2" "buf' = buf2" "d' = d2"
    using Cons.prems(4) rest r unfolding chain_tasks [OF Cons.prems(1) shape(1)] by (auto simp: shape(2))
  have "kept UNIV d1 d2 \<and> (st2 = OP_STATE_SUCCESS \<longrightarrow>
      buf2 = mem_put buf1 (bpos + ?n) (mem_get C (sl_seg_end b + 1) (hi - (sl_seg_end b + 1) + 1)))"
    by (rule Cons.IH [OF ch(4) _ _ rest])
      (use Cons.prems(2,3) slot_ok_keeps [OF rl(1)] in auto)
  moreover have "mem_get (bytes d (db_cap (sl_data b))) (pos - sl_seg_offset b) ?n = mem_get C pos ?n"
  proof -
    have "bytes d (db_cap (sl_data b)) (pos - sl_seg_offset b + k) = C (pos + k)" if "0 \<le> k" "k < ?n" for k
      using Cons.prems(3) [of b "pos + k"] that ch \<open>sl_seg_offset b \<le> pos\<close>
      by (simp add: slot_byte_def shape(2) algebra_simps)
    then show ?thesis by (auto simp: mem_get_eq_iff)
  qed
  moreover have "mem_put (mem_put buf bpos (mem_get C pos ?n)) (bpos + ?n) (mem_get C (sl_seg_end b + 1) (hi - sl_seg_end b)) =
      mem_put buf bpos (mem_get C pos (hi - pos + 1))"
    using ch(2,3) by (auto simp: mem_put_get fun_eq_iff min_def intro!: arg_cong [where f = C])
  ultimately have "st = OP_STATE_SUCCESS \<Longrightarrow> buf' = mem_put buf bpos (mem_get C pos (hi - pos + 1))"
    and k2: "kept UNIV d1 d'"
    using rl(2) res by auto
  with keeps_trans [OF rl(1) k2] show ?case by blast
qed

lemma lok_facts:
  assumes "lok s"
  shows "wf (isl s)" "b \<in> ents (isl s) \<Longrightarrow> sok (lin_world s) b" "b \<in> ents (isl s) \<Longrightarrow> sl_seg_end b < total_size s"
    "inj_on (\<lambda>b. db_cap (sl_data b)) (ents (isl s))"
    "0 \<le> x \<Longrightarrow> x < total_size s \<Longrightarrow> \<exists>b \<in> ents (isl s). sl_seg_offset b \<le> x \<and> x \<le> sl_seg_end b"
  using assms by (auto simp: lin_ok_def)

lemma search_chain:
  assumes "lok s" "0 \<le> lo" "lo \<le> hi" "lo < total_size s"
  shows "slot_chain lo (min hi (total_size s - 1)) lo (isl_search I (isl s) lo hi)"
proof (rule search_chain_upto [OF lok_facts(1) [OF assms(1)]])
  show "\<forall>x. lo \<le> x \<and> x \<le> min hi (total_size s - 1) \<longrightarrow> (\<exists>b \<in> ents (isl s). sl_seg_offset b \<le> x \<and> x \<le> sl_seg_end b)"
    using lok_facts(5) [OF assms(1)] assms(2) by auto
  show "\<forall>b \<in> ents (isl s). sl_seg_offset b \<le> hi \<longrightarrow> sl_seg_offset b \<le> min hi (total_size s - 1)"
    using lok_facts(1,3) [OF assms(1)] entriesD(2) by fastforce
qed (use assms in auto)

lemma lin_byte_slot:
  assumes "wf (isl s)" "b \<in> ents (isl s)" "sl_seg_offset b \<le> x" "x \<le> sl_seg_end b"
  shows "lin_byte I bytes s x = sbyte (lin_world s) b x"
proof -
  have b: "b \<in> set (isl_search I (isl s) x x)" using search_entries(1) [OF assms(1)] assms by simp
  then obtain c cs where c: "isl_search I (isl s) x x = c # cs" by (cases "isl_search I (isl s) x x") auto
  have "c = b"
    using search_hd [OF assms(1) c] entries_disjoint [OF assms(1,2), of c] assms(3,4) by fastforce
  with c show ?thesis by (simp add: lin_byte_def)
qed

lemma search_nonempty:
  assumes "lok s" "0 \<le> lo" "lo \<le> hi" "lo < total_size s"
  shows "isl_search I (isl s) lo hi \<noteq> []"
  using lok_facts(5) [OF assms(1,2,4)] search_entries(1) [OF lok_facts(1) [OF assms(1)], of lo hi] assms(3) by fastforce

lemma world_kept:
  assumes "lok s" "kept UNIV (lin_world s) d"
  shows "lok (s\<lparr>lin_world := d\<rparr>)" "0 \<le> x \<Longrightarrow> x < total_size s \<Longrightarrow> lin_byte I bytes (s\<lparr>lin_world := d\<rparr>) x = lin_byte I bytes s x"
proof -
  note lf = lok_facts [OF assms(1)]
  note k = slot_ok_keeps [OF assms(2) lf(2) UNIV_I]
  show "lok (s\<lparr>lin_world := d\<rparr>)" using assms(1) k(1) by (auto simp: lin_ok_def)
  assume "0 \<le> x" "x < total_size s"
  then obtain b where b: "b \<in> ents (isl s)" "sl_seg_offset b \<le> x" "x \<le> sl_seg_end b" using lf(5) by blast
  show "lin_byte I bytes (s\<lparr>lin_world := d\<rparr>) x = lin_byte I bytes s x"
    using lin_byte_slot [of "s\<lparr>lin_world := d\<rparr>" b x] lin_byte_slot [of s b x] lf(1) b k(2) by simp
qed

lemma seglin_read_exec_correct:
  assumes "lok s" "0 \<le> off" "0 < n" "off + n \<le> total_size s"
    and "seglin_read_exec I IO s [ex_iovec_single off n] buf boff = (st, buf', d')"
  shows "kept UNIV (lin_world s) d' \<and>
    (st = OP_STATE_SUCCESS \<longrightarrow> buf' = mem_put buf boff (mem_get (lin_byte I bytes s) off n))"
proof -
  let ?bs = "isl_search I (isl s) off (off + n - 1)"
  note lf = lok_facts [OF assms(1)]
  have ne: "?bs \<noteq> []" by (rule search_nonempty) (use assms in auto)
  have "min (off + n - 1) (total_size s - 1) = off + n - 1" using assms(4) by simp
  then have ch: "slot_chain off (off + n - 1) off ?bs" using search_chain [OF assms(1,2), of "off + n - 1"] assms(3,4) by simp
  have mem: "b \<in> ents (isl s)" if "b \<in> set ?bs" for b using that search_entries(1) [OF lf(1)] by auto
  have r: "sl_run_reads IO (lin_world s) buf (sl_tasks off (off + n - 1) ?bs boff) = (st, buf', d')"
    using assms(5) ne by (simp add: seglin_read_exec_def plan_tasks_single)
  have "kept UNIV (lin_world s) d' \<and>
      (st = OP_STATE_SUCCESS \<longrightarrow> buf' = mem_put buf boff (mem_get (lin_byte I bytes s) off (off + n - 1 - off + 1)))"
    by (rule run_reads_chain [OF ch _ _ r]) (use lf(2) mem lin_byte_slot [OF lf(1) mem] in auto)
  then show ?thesis by simp
qed

end


context lin_store
begin

text \<open>
  One write into the slot \<open>b\<close> of a set of slots on allocations of their own: the other slots, and the
  bytes of \<open>b\<close> it does not name, stay.
\<close>

lemma write_slot:
  assumes B: "\<And>c. c \<in> B \<Longrightarrow> sok d c" "inj_on (\<lambda>b. db_cap (sl_data b)) B" "b \<in> B"
    and rng: "sl_seg_offset b \<le> p" "0 < n" "p + n - 1 \<le> sl_seg_end b"
    and w: "io_write IO d (db_cap (sl_data b)) (p - sl_seg_offset b) buf bpos n = (st, d')"
  shows "\<And>c. c \<in> B \<Longrightarrow> sok d' c"
    and "\<And>c y. c \<in> B \<Longrightarrow> sl_seg_offset c \<le> y \<Longrightarrow> y \<le> sl_seg_end c \<Longrightarrow> \<not> (c = b \<and> p \<le> y \<and> y < p + n) \<Longrightarrow>
      sbyte d' c y = sbyte d c y"
    and "\<And>y. st = OP_STATE_SUCCESS \<Longrightarrow> p \<le> y \<Longrightarrow> y < p + n \<Longrightarrow> sbyte d' b y = buf (bpos + (y - p))"
proof -
  let ?c = "db_cap (sl_data b)"
  have sb: "sl_cap_offset b = 0" "sl_seg_end b = sl_seg_offset b + sl_len b - 1" "?c \<in> live d" "sl_len b \<le> cap_size d ?c"
    using B(1) [OF B(3)] by (auto simp: slot_ok_def)
  have wl: "kept (- {?c}) d d'" "?c \<in> live d'" "cap_size d' ?c = cap_size d ?c"
    "\<And>x. 0 \<le> x \<Longrightarrow> x < cap_size d ?c \<Longrightarrow> \<not> (p - sl_seg_offset b \<le> x \<and> x < p - sl_seg_offset b + n) \<Longrightarrow>
        bytes d' ?c x = bytes d ?c x"
    "\<And>x. st = OP_STATE_SUCCESS \<Longrightarrow> p - sl_seg_offset b \<le> x \<Longrightarrow> x < p - sl_seg_offset b + n \<Longrightarrow>
        bytes d' ?c x = buf (bpos + (x - (p - sl_seg_offset b)))"
    using write_law [OF w sb(3)] rng sb(2,4) by auto
  have other: "db_cap (sl_data c) \<in> - {?c}" if "c \<in> B" "c \<noteq> b" for c
    using inj_onD [OF B(2) _ that(1) B(3)] that(2) by auto
  show "sok d' c" if "c \<in> B" for c
  proof (cases "c = b")
    case True
    then show ?thesis using B(1) [OF B(3)] wl(2,3) by (simp add: slot_ok_def)
  qed (use slot_ok_keeps(1) [OF wl(1) B(1) other] that in auto)
  show "sbyte d' c y = sbyte d c y"
    if "c \<in> B" "sl_seg_offset c \<le> y" "y \<le> sl_seg_end c" "\<not> (c = b \<and> p \<le> y \<and> y < p + n)" for c y
  proof (cases "c = b")
    case True
    then show ?thesis using wl(4) [of "y - sl_seg_offset b"] that sb by (auto simp: slot_byte_def)
  qed (use slot_ok_keeps(2) [OF wl(1) B(1) other] that in auto)
  show "sbyte d' b y = buf (bpos + (y - p))" if "st = OP_STATE_SUCCESS" "p \<le> y" "y < p + n" for y
    using wl(5) [of "y - sl_seg_offset b"] that sb(1) by (simp add: slot_byte_def)
qed

lemma run_writes_chain:
  assumes "slot_chain lo hi pos bs" "set bs \<subseteq> B" "distinct bs"
    and "\<And>b. b \<in> B \<Longrightarrow> sok d b" "inj_on (\<lambda>b. db_cap (sl_data b)) B"
    and "sl_run_writes IO d buf (sl_tasks lo hi bs bpos) = (st, d')"
  shows "(\<forall>b \<in> B. sok d' b) \<and>
    (\<forall>b \<in> B. \<forall>y. sl_seg_offset b \<le> y \<and> y \<le> sl_seg_end b \<and> \<not> (b \<in> set bs \<and> pos \<le> y \<and> y \<le> hi) \<longrightarrow>
       sbyte d' b y = sbyte d b y) \<and>
    (st = OP_STATE_SUCCESS \<longrightarrow>
       (\<forall>b \<in> set bs. \<forall>y. sl_seg_offset b \<le> y \<and> y \<le> sl_seg_end b \<and> pos \<le> y \<and> y \<le> hi \<longrightarrow>
          sbyte d' b y = buf (bpos + (y - pos))))"
  using assms
proof (induction bs arbitrary: pos d bpos st d')
  case (Cons b bs)
  let ?n = "min hi (sl_seg_end b) - pos + 1" and ?pos = "sl_seg_end b + 1"
  have bB: "b \<in> B" using Cons.prems(2) by simp
  have shape: "sl_seg_end b = sl_seg_offset b + sl_len b - 1" "sl_cap_offset b = 0"
    using Cons.prems(4) [OF bB] by (auto simp: slot_ok_def)
  have ch: "sl_seg_offset b \<le> pos" "pos \<le> hi" "pos \<le> sl_seg_end b" "slot_chain lo hi ?pos bs"
    using Cons.prems(1) by auto
  obtain st1 d1 where w: "io_write IO d (db_cap (sl_data b)) (pos - sl_seg_offset b) buf bpos ?n = (st1, d1)"
    by (metis prod.exhaust)
  obtain st2 d2 where rest: "sl_run_writes IO d1 buf (sl_tasks lo hi bs (bpos + ?n)) = (st2, d2)"
    by (metis prod.exhaust)
  have res: "st = both st1 st2" "d' = d2"
    using Cons.prems(6) rest w unfolding chain_tasks [OF Cons.prems(1) shape(1)] by (auto simp: shape(2))
  note ws = write_slot [OF Cons.prems(4,5) bB ch(1) _ _ w]
  have ok1: "\<And>c. c \<in> B \<Longrightarrow> sok d1 c" by (rule ws(1)) (use ch in auto)
  have same1: "sbyte d1 c y = sbyte d c y"
    if "c \<in> B" "sl_seg_offset c \<le> y" "y \<le> sl_seg_end c" "\<not> (c = b \<and> pos \<le> y \<and> y \<le> hi)" for c y
    by (rule ws(2)) (use that ch in auto)
  have new1: "sbyte d1 b y = buf (bpos + (y - pos))"
    if "st1 = OP_STATE_SUCCESS" "pos \<le> y" "y \<le> hi" "y \<le> sl_seg_end b" for y
    by (rule ws(3)) (use that ch in auto)
  have "set bs \<subseteq> B" "distinct bs" "b \<notin> set bs" using Cons.prems(2,3) by auto
  note IH = Cons.IH [OF ch(4) this(1,2) ok1 Cons.prems(5) rest]
  have "sbyte d2 c y = sbyte d c y"
    if "c \<in> B" "sl_seg_offset c \<le> y" "y \<le> sl_seg_end c" "\<not> (c \<in> set (b # bs) \<and> pos \<le> y \<and> y \<le> hi)" for c y
    using IH same1 [OF that(1-3)] that \<open>b \<notin> set bs\<close> ch(3) by auto
  moreover have "sbyte d2 c y = buf (bpos + (y - pos))"
    if "st = OP_STATE_SUCCESS" "c \<in> set (b # bs)" "sl_seg_offset c \<le> y" "y \<le> sl_seg_end c" "pos \<le> y" "y \<le> hi" for c y
  proof (cases "c = b")
    case True
    have "sbyte d2 b y = sbyte d1 b y" using IH bB that True \<open>b \<notin> set bs\<close> by auto
    then show ?thesis using new1 [of y] that True res(1) by simp
  next
    case False
    then have c: "c \<in> set bs" using that(2) by simp
    have "lo < ?pos" using Cons.prems(1) by auto
    with chain_ge [OF ch(4) _ c] have "?pos \<le> sl_seg_offset c" "?pos \<le> hi" by auto
    then have "?pos \<le> y" "?n = ?pos - pos" using that by (auto simp: min_def)
    then show ?thesis using IH c that res(1) by (auto simp: algebra_simps)
  qed
  ultimately show ?case using IH res(2) by blast
qed auto

end


section \<open>New slots\<close>

text \<open>A slot as the grow loop makes it, before it has an allocation.\<close>

definition slot_blank :: "('c, 'd) seglin_slot \<Rightarrow> bool" where
  "slot_blank b \<longleftrightarrow> sl_cap_offset b = 0 \<and> 0 < sl_len b \<and> sl_seg_end b = sl_seg_offset b + sl_len b - 1 \<and>
     db_max_size (sl_data b) = sl_len b \<and> db_warm (sl_data b) = None \<and> db_ref_count (sl_data b) = 0"

lemma new_slots_tile:
  assumes "0 < mx"
  shows "sorted_wrt (\<lambda>d e. sl_seg_end d < sl_seg_offset e) (sl_new_slots ds rnd i off new_size mx) \<and>
    (\<forall>b \<in> set (sl_new_slots ds rnd i off new_size mx). slot_blank b \<and> off \<le> sl_seg_offset b \<and> sl_seg_end b < new_size) \<and>
    (\<forall>x. off \<le> x \<and> x < new_size \<longrightarrow>
       (\<exists>b \<in> set (sl_new_slots ds rnd i off new_size mx). sl_seg_offset b \<le> x \<and> x \<le> sl_seg_end b))"
  using assms
proof (induction ds rnd i off new_size mx rule: sl_new_slots.induct)
  case (1 ds rnd i off new_size mx)
  show ?case
  proof (cases "off < new_size")
    case True
    let ?len = "if off + mx > new_size then new_size - off else mx"
    let ?b = "sl_new_slot ds (rnd i) off ?len"
    let ?bs = "sl_new_slots ds rnd (i + 1) (off + mx) new_size mx"
    have eq: "sl_new_slots ds rnd i off new_size mx = ?b # ?bs"
      using True 1(2) by (subst sl_new_slots.simps) simp
    have b: "slot_blank ?b" "sl_seg_offset ?b = off" "sl_seg_end ?b = off + ?len - 1" "off + ?len \<le> new_size"
      "off + ?len - 1 < off + mx"
      using True 1(2) by (auto simp: slot_blank_def sl_new_slot_def data_block_create_def)
    note IH = 1(1) [OF _ 1(2)]
    have "sl_seg_end ?b < sl_seg_offset c" if "c \<in> set ?bs" for c using IH True 1(2) that b by fastforce
    moreover have "\<exists>c \<in> set (?b # ?bs). sl_seg_offset c \<le> x \<and> x \<le> sl_seg_end c" if "off \<le> x" "x < new_size" for x
    proof (cases "x < off + mx")
      case True
      then have "x \<le> off + ?len - 1" using that by auto
      with b that show ?thesis by auto
    qed (use IH \<open>off < new_size\<close> 1(2) that in auto)
    moreover have "slot_blank c \<and> off \<le> sl_seg_offset c \<and> sl_seg_end c < new_size" if "c \<in> set (?b # ?bs)" for c
      using that IH True 1(2) b by fastforce
    ultimately show ?thesis unfolding eq using IH True 1(2) by simp
  qed (subst sl_new_slots.simps, simp)+
qed

lemma new_slots_ne: "0 < mx \<Longrightarrow> off < new_size \<Longrightarrow> sl_new_slots ds rnd i off new_size mx \<noteq> []"
  by (subst sl_new_slots.simps) simp

lemma sl_grant_sel [simp]:
  "sl_seg_offset (sl_grant b g) = sl_seg_offset b" "sl_seg_end (sl_grant b g) = sl_seg_end b"
  "sl_len (sl_grant b g) = sl_len b" "sl_cap_offset (sl_grant b g) = sl_cap_offset b"
  "db_cap (sl_data (sl_grant b g)) = fst g" "db_warm (sl_data (sl_grant b g)) = db_warm (sl_data b)"
  "db_max_size (sl_data (sl_grant b g)) = db_max_size (sl_data b)"
  by (simp_all add: sl_grant_def)

lemma sl_expand_sel [simp]:
  "sl_seg_offset (sl_expand b n) = sl_seg_offset b" "sl_seg_end (sl_expand b n) = sl_seg_offset b + n - 1"
  "sl_len (sl_expand b n) = n" "sl_cap_offset (sl_expand b n) = sl_cap_offset b"
  "db_cap (sl_data (sl_expand b n)) = db_cap (sl_data b)" "db_warm (sl_data (sl_expand b n)) = db_warm (sl_data b)"
  "db_max_size (sl_data (sl_expand b n)) = n"
  by (simp_all add: sl_expand_def)

lemma release_all_cold: "\<forall>b \<in> set bs. db_warm (sl_data b) = None \<Longrightarrow> sl_release_all w bs = Ret w"
  by (induction bs) (simp_all add: sl_release_def data_block_destroy_def)

context lin_store
begin

lemma foldl_insert:
  assumes "wf m" "sorted_wrt (\<lambda>d e. sl_seg_end d < sl_seg_offset e) bs"
    and "\<And>b. b \<in> set bs \<Longrightarrow> sl_seg_offset b \<le> sl_seg_end b"
    and "\<And>b e. b \<in> set bs \<Longrightarrow> e \<in> ents m \<Longrightarrow> sl_seg_end e < sl_seg_offset b"
  shows "wf (foldl (sl_insert I) m bs) \<and> ents (foldl (sl_insert I) m bs) = ents m \<union> set bs"
  using assms
proof (induction bs arbitrary: m)
  case (Cons b bs)
  have i: "wf (sl_insert I m b)" "ents (sl_insert I m b) = insert b (ents m)"
    unfolding sl_insert_def by (rule insert_entry; use Cons.prems in fastforce)+
  have "wf (foldl (sl_insert I) (sl_insert I m b) bs) \<and>
      ents (foldl (sl_insert I) (sl_insert I m b) bs) = ents (sl_insert I m b) \<union> set bs"
    by (rule Cons.IH) (use Cons.prems i in auto)
  then show ?case using i by auto
qed simp

lemma foldl_delete:
  assumes "wf m" "distinct bs" "set bs \<subseteq> ents m"
  shows "wf (foldl (sl_delete I) m bs) \<and> ents (foldl (sl_delete I) m bs) = ents m - set bs"
  using assms
proof (induction bs arbitrary: m)
  case (Cons b bs)
  have i: "wf (sl_delete I m b)" "ents (sl_delete I m b) = ents m - {b}"
    unfolding sl_delete_def by (rule remove_entry; use Cons.prems in auto)+
  have "wf (foldl (sl_delete I) (sl_delete I m b) bs) \<and>
      ents (foldl (sl_delete I) (sl_delete I m b) bs) = ents (sl_delete I m b) - set bs"
    by (rule Cons.IH) (use Cons.prems i in auto)
  then show ?case using i by auto
qed simp

lemma zero_ends_keep:
  assumes "\<And>c. c \<in> B \<Longrightarrow> sok d c" "inj_on (\<lambda>b. db_cap (sl_data b)) B"
    and "\<And>z. z \<in> set zs \<Longrightarrow> z \<in> B \<and> db_max_size (sl_data z) = sl_len z"
    and "sl_zero_ends IO d zs = (st, d')"
  shows "(\<forall>c \<in> B. sok d' c) \<and> (\<forall>c \<in> B. \<forall>y. sl_seg_offset c \<le> y \<and> y \<le> sl_seg_end c \<and> \<not> (c \<in> set zs \<and> y = sl_seg_end c) \<longrightarrow>
      sbyte d' c y = sbyte d c y)"
  using assms
proof (induction zs arbitrary: d st d')
  case (Cons z zs)
  have z: "z \<in> B" "sl_cap_offset z = 0" "sl_seg_end z = sl_seg_offset z + sl_len z - 1" "db_max_size (sl_data z) = sl_len z"
    "0 < sl_len z"
    using Cons.prems(1,3) by (auto simp: slot_ok_def)
  obtain st1 d1 where w: "io_write IO d (db_cap (sl_data z)) (sl_seg_end z - sl_seg_offset z) (\<lambda>_. 0) 0 1 = (st1, d1)"
    by (metis prod.exhaust)
  obtain st2 d2 where rest: "sl_zero_ends IO d1 zs = (st2, d2)" by (metis prod.exhaust)
  have res: "d' = d2" using Cons.prems(4) w rest z by (auto simp: algebra_simps)
  note ws = write_slot [OF Cons.prems(1,2) z(1) _ _ _ w]
  have ok1: "\<And>c. c \<in> B \<Longrightarrow> sok d1 c" by (rule ws(1)) (use z in auto)
  have same1: "sbyte d1 c y = sbyte d c y"
    if "c \<in> B" "sl_seg_offset c \<le> y" "y \<le> sl_seg_end c" "\<not> (c = z \<and> y = sl_seg_end c)" for c y
    by (rule ws(2)) (use that z in auto)
  have "\<And>z. z \<in> set zs \<Longrightarrow> z \<in> B \<and> db_max_size (sl_data z) = sl_len z" using Cons.prems(3) by simp
  note IH = Cons.IH [OF ok1 Cons.prems(2) this rest]
  have "sbyte d2 c y = sbyte d c y"
    if "c \<in> B" "sl_seg_offset c \<le> y" "y \<le> sl_seg_end c" "\<not> (c \<in> set (z # zs) \<and> y = sl_seg_end c)" for c y
  proof -
    have "sbyte d2 c y = sbyte d1 c y" using IH that by auto
    also have "\<dots> = sbyte d c y" by (rule same1 [OF that(1-3)]) (use that(4) in auto)
    finally show ?thesis .
  qed
  with IH show ?case unfolding res by blast
qed auto

end


section \<open>Growing\<close>

text \<open>What the first step of a grow finds: nothing to expand, or the last slot with its new length.\<close>

definition grow_from ::
  "('c, 'd) seglin_slot set \<Rightarrow> ex_off \<Rightarrow> ex_off \<Rightarrow> (('c, 'd) seglin_slot \<times> ex_off) option \<Rightarrow> ex_off \<Rightarrow> bool" where
  "grow_from E tot new_size bex lo \<longleftrightarrow>
     (case bex of
        None \<Rightarrow> lo = tot
      | Some (b, dsize) \<Rightarrow> b \<in> E \<and> sl_seg_end b = tot - 1 \<and> sl_len b < dsize \<and> lo = sl_seg_offset b + dsize \<and> lo \<le> new_size)"

context lin_store
begin

lemma grow_last_found:
  assumes "lok s" "total_size s < new_size"
  shows "\<exists>bex lo. sl_grow_last I s new_size = Ret (bex, lo) \<and> grow_from (ents (isl s)) (total_size s) new_size bex lo"
proof (cases "total_size s > 0")
  case True
  note lf = lok_facts [OF assms(1)]
  obtain b bs where b: "isl_search I (isl s) (total_size s - 1) (total_size s) = b # bs"
    using search_nonempty [OF assms(1), of "total_size s - 1" "total_size s"] True
    by (cases "isl_search I (isl s) (total_size s - 1) (total_size s)") auto
  note bm = search_hd [OF lf(1) b]
  have "sl_seg_end b = sl_seg_offset b + sl_len b - 1" using lf(2) [OF bm(1)] by (simp add: slot_ok_def)
  moreover have "sl_seg_end b = total_size s - 1" using lf(3) [OF bm(1)] bm(3) by simp
  ultimately show ?thesis using True b bm(1) assms(2) by (auto simp: sl_grow_last_def grow_from_def Let_def)
next
  case False
  then show ?thesis using assms by (auto simp: sl_grow_last_def grow_from_def)
qed

lemma grow_exec_found:
  assumes ok: "lok s" and gf: "grow_from (ents (isl s)) (total_size s) new_size bex lo"
    and sl: "\<And>b. b \<in> set slots \<Longrightarrow> slot_blank b" "bex = None \<Longrightarrow> slots \<noteq> []"
  shows "\<exists>err grants d. sl_grow_exec IO s bex slots = Ret (err, grants, d) \<and>
    (\<forall>c \<in> ents (isl s). sok d c \<and> (\<forall>y. sl_seg_offset c \<le> y \<and> y \<le> sl_seg_end c \<longrightarrow> sbyte d c y = sbyte (lin_world s) c y)) \<and>
    (err = OP_STATE_SUCCESS \<longrightarrow>
       (\<forall>b n. bex = Some (b, n) \<longrightarrow> cap_size d (db_cap (sl_data b)) = n) \<and>
       length grants = length slots \<and> distinct (map fst grants) \<and>
       (\<forall>i < length slots. fst (grants ! i) \<in> live d \<and> cap_size d (fst (grants ! i)) = sl_len (slots ! i) \<and>
          (\<forall>c \<in> ents (isl s). db_cap (sl_data c) \<noteq> fst (grants ! i))))"
proof -
  note lf = lok_facts [OF ok]
  let ?reqs = "sl_requests (n_rid_default s) slots" and ?n = "sl_n_rid (n_rid_default s) slots"
  have reqs: "length ?reqs = length slots" "\<And>i. i < length slots \<Longrightarrow> snd (?reqs ! i) = sl_len (slots ! i)"
    "\<forall>r \<in> set ?reqs. 0 < snd r"
    using sl(1) by (auto simp: sl_requests_def slot_blank_def nth_enumerate_eq in_set_enumerate_eq)
  have ask: "(\<forall>c \<in> ents (isl s). sok d' c \<and> (\<forall>y. sl_seg_offset c \<le> y \<and> y \<le> sl_seg_end c \<longrightarrow> sbyte d' c y = sbyte d1 c y)) \<and>
      (\<forall>b :: ('c, 'd) seglin_slot. db_cap (sl_data b) \<in> live d1 \<longrightarrow> cap_size d' (db_cap (sl_data b)) = cap_size d1 (db_cap (sl_data b))) \<and>
      (st = OP_STATE_SUCCESS \<longrightarrow> length grants = length slots \<and> distinct (map fst grants) \<and>
       (\<forall>i < length slots. fst (grants ! i) \<in> live d' \<and> cap_size d' (fst (grants ! i)) = sl_len (slots ! i) \<and>
          (\<forall>c \<in> ents (isl s). db_cap (sl_data c) \<noteq> fst (grants ! i))))"
    if r: "io_request IO d1 (lin_rsq s) ?reqs ?n = (st, grants, d')" and o1: "\<And>c. c \<in> ents (isl s) \<Longrightarrow> sok d1 c" for d1 st grants d'
  proof -
    note rl = request_law [OF r reqs(3)]
    then have k: "kept UNIV d1 d'" by blast
    have lv: "db_cap (sl_data c) \<in> live d1" if "c \<in> ents (isl s)" for c using o1 [OF that] by (simp add: slot_ok_def)
    have "sok d' c \<and> (\<forall>y. sl_seg_offset c \<le> y \<and> y \<le> sl_seg_end c \<longrightarrow> sbyte d' c y = sbyte d1 c y)"
      if "c \<in> ents (isl s)" for c using slot_ok_keeps [OF k o1 [OF that] UNIV_I] by blast
    moreover have "cap_size d' (db_cap (sl_data b)) = cap_size d1 (db_cap (sl_data b))"
      if "db_cap (sl_data b) \<in> live d1" for b :: "('c, 'd) seglin_slot"
      using keepsD(2) [OF k UNIV_I that] .
    moreover have "fst (grants ! i) \<in> live d' \<and> cap_size d' (fst (grants ! i)) = sl_len (slots ! i) \<and>
          (\<forall>c \<in> ents (isl s). db_cap (sl_data c) \<noteq> fst (grants ! i))"
      if "st = OP_STATE_SUCCESS" "i < length slots" for i
    proof -
      have "fst (grants ! i) \<in> live d' - live d1" "cap_size d' (fst (grants ! i)) = snd (?reqs ! i)"
        using rl that reqs(1) by auto
      with reqs(2) [OF that(2)] lv show ?thesis by force
    qed
    ultimately show ?thesis using rl reqs(1) by simp
  qed
  show ?thesis
  proof (cases bex)
    case None
    obtain st grants d where r: "io_request IO (lin_world s) (lin_rsq s) ?reqs ?n = (st, grants, d)" by (metis prod.exhaust)
    with None sl(2) ask [OF r lf(2)] show ?thesis by (auto simp: sl_grow_exec_def Let_def)
  next
    case (Some p)
    then obtain b dsize where bex: "bex = Some (b, dsize)" by (cases p) auto
    with gf have b: "b \<in> ents (isl s)" "sl_len b < dsize" by (auto simp: grow_from_def)
    have sb: "db_cap (sl_data b) \<in> live (lin_world s)" "0 < sl_len b" using lf(2) [OF b(1)] by (auto simp: slot_ok_def)
    obtain st1 d1 where t: "io_truncate IO (lin_world s) (db_cap (sl_data b)) dsize = (st1, d1)" by (metis prod.exhaust)
    note tl = truncate_law [OF t sb(1)]
    have o1: "sok d1 c \<and> (\<forall>y. sl_seg_offset c \<le> y \<and> y \<le> sl_seg_end c \<longrightarrow> sbyte d1 c y = sbyte (lin_world s) c y)"
      if "c \<in> ents (isl s)" for c
    proof (cases "c = b")
      case True
      then show ?thesis using tl b(2) sb(2) lf(2) [OF b(1)] by (auto simp: slot_ok_def slot_byte_def)
    next
      case False
      then have "db_cap (sl_data c) \<in> - {db_cap (sl_data b)}" using inj_onD [OF lf(4) _ that b(1)] by auto
      with slot_ok_keeps [OF _ lf(2) [OF that]] tl b(2) sb(2) show ?thesis by auto
    qed
    show ?thesis
    proof (cases "slots = []")
      case True
      with bex t tl o1 b(2) sb(2) show ?thesis by (auto simp: sl_grow_exec_def Let_def)
    next
      case False
      obtain st2 grants d2 where r: "io_request IO d1 (lin_rsq s) ?reqs ?n = (st2, grants, d2)" by (metis prod.exhaust)
      have "sok d2 c \<and> (\<forall>y. sl_seg_offset c \<le> y \<and> y \<le> sl_seg_end c \<longrightarrow> sbyte d2 c y = sbyte (lin_world s) c y)"
        if "c \<in> ents (isl s)" for c using ask [OF r] o1 that by auto
      moreover have "st1 = OP_STATE_SUCCESS \<Longrightarrow> cap_size d2 (db_cap (sl_data b)) = dsize"
        using tl b(2) sb(2) ask [OF r] o1 by auto
      ultimately show ?thesis using False bex t r ask [OF r] o1 by (simp add: sl_grow_exec_def Let_def)
    qed
  qed
qed

end


text \<open>The fields no resizing touches.\<close>

definition same_params :: "('m, 'c, 'd) seglin_priv \<Rightarrow> ('m, 'c, 'd) seglin_priv \<Rightarrow> bool" where
  "same_params s s' \<longleftrightarrow> max_block_size s' = max_block_size s \<and> excess_block_size s' = excess_block_size s \<and>
     n_rid_default s' = n_rid_default s \<and> lin_hard_errors s' = lin_hard_errors s"

context lin_store
begin

text \<open>A new table of slots that holds every old slot, possibly made longer, serves the old bytes.\<close>

lemma lin_byte_table:
  assumes "lok s" "wf (isl s')"
    and "\<And>c. c \<in> ents (isl s) \<Longrightarrow> \<exists>c' \<in> ents (isl s'). sl_seg_offset c' = sl_seg_offset c \<and> sl_seg_end c \<le> sl_seg_end c' \<and>
      (\<forall>y. sl_seg_offset c \<le> y \<and> y \<le> sl_seg_end c \<longrightarrow> sbyte (lin_world s') c' y = sbyte (lin_world s) c y)"
    and "0 \<le> x" "x < total_size s"
  shows "lin_byte I bytes s' x = lin_byte I bytes s x"
proof -
  obtain c where c: "c \<in> ents (isl s)" "sl_seg_offset c \<le> x" "x \<le> sl_seg_end c"
    using lok_facts(5) [OF assms(1,4,5)] by blast
  obtain c' where c': "c' \<in> ents (isl s')" "sl_seg_offset c' = sl_seg_offset c" "sl_seg_end c \<le> sl_seg_end c'"
    "sbyte (lin_world s') c' x = sbyte (lin_world s) c x"
    using assms(3) [OF c(1)] c(2,3) by blast
  have "lin_byte I bytes s' x = sbyte (lin_world s') c' x"
    by (rule lin_byte_slot [OF assms(2) c'(1)]) (use c c' in auto)
  moreover have "lin_byte I bytes s x = sbyte (lin_world s) c x"
    by (rule lin_byte_slot [OF lok_facts(1) [OF assms(1)] c(1)]) (use c in auto)
  ultimately show ?thesis using c'(4) by simp
qed

lemma expand_table:
  assumes ok: "lok s" and gf: "grow_from (ents (isl s)) (total_size s) new_size bex lo"
  defines "m1 \<equiv> (case bex of None \<Rightarrow> isl s | Some (b, dsize) \<Rightarrow> sl_insert I (sl_delete I (isl s) b) (sl_expand b dsize))"
  defines "E1 \<equiv> (case bex of None \<Rightarrow> ents (isl s) | Some (b, dsize) \<Rightarrow> insert (sl_expand b dsize) (ents (isl s) - {b}))"
  shows "wf m1" "ents m1 = E1" "\<And>c. c \<in> E1 \<Longrightarrow> sl_seg_end c < lo" "inj_on (\<lambda>b. db_cap (sl_data b)) E1"
    "\<And>x. 0 \<le> x \<Longrightarrow> x < lo \<Longrightarrow> \<exists>c \<in> E1. sl_seg_offset c \<le> x \<and> x \<le> sl_seg_end c"
    "(\<lambda>b. db_cap (sl_data b)) ` E1 = (\<lambda>b. db_cap (sl_data b)) ` ents (isl s)"
proof -
  note lf = lok_facts [OF ok]
  have "wf m1 \<and> ents m1 = E1 \<and> (\<forall>c \<in> E1. sl_seg_end c < lo) \<and> inj_on (\<lambda>b. db_cap (sl_data b)) E1 \<and>
      (\<forall>x. 0 \<le> x \<and> x < lo \<longrightarrow> (\<exists>c \<in> E1. sl_seg_offset c \<le> x \<and> x \<le> sl_seg_end c)) \<and>
      (\<lambda>b. db_cap (sl_data b)) ` E1 = (\<lambda>b. db_cap (sl_data b)) ` ents (isl s)"
  proof (cases bex)
    case None
    then show ?thesis using lf gf by (auto simp: m1_def E1_def grow_from_def)
  next
    case (Some p)
    then obtain b n where bex: "bex = Some (b, n)" by (cases p) auto
    with gf have b: "b \<in> ents (isl s)" "sl_seg_end b = total_size s - 1" "sl_len b < n" "lo = sl_seg_offset b + n"
      by (auto simp: grow_from_def)
    have sb: "sl_seg_end b = sl_seg_offset b + sl_len b - 1" "0 < sl_len b" "0 \<le> sl_seg_offset b"
      using lf(2) [OF b(1)] by (auto simp: slot_ok_def)
    have del: "wf (sl_delete I (isl s) b)" "ents (sl_delete I (isl s) b) = ents (isl s) - {b}"
      unfolding sl_delete_def by (rule remove_entry [OF lf(1) b(1)])+
    have before: "sl_seg_end c < sl_seg_offset b" if "c \<in> ents (isl s)" "c \<noteq> b" for c
      using entries_disjoint [OF lf(1) that(1) b(1) that(2)] lf(2) [OF that(1)] lf(3) [OF that(1)] b(2)
      by (auto simp: slot_ok_def)
    have ins: "wf (sl_insert I (sl_delete I (isl s) b) (sl_expand b n))"
      "ents (sl_insert I (sl_delete I (isl s) b) (sl_expand b n)) = insert (sl_expand b n) (ents (isl s) - {b})"
      unfolding sl_insert_def del(2) [symmetric] by (rule insert_entry [OF del(1)]; use before b sb del(2) in fastforce)+
    have ends: "sl_seg_end c < lo" if "c \<in> E1" for c
      using that lf(3) b sb by (auto simp: E1_def bex dest: before)
    have inj: "inj_on (\<lambda>b. db_cap (sl_data b)) E1"
      using lf(4) b(1) unfolding E1_def bex by (auto simp: inj_on_def)
    have cov: "\<exists>c \<in> E1. sl_seg_offset c \<le> x \<and> x \<le> sl_seg_end c" if x: "0 \<le> x" "x < lo" for x
    proof (cases "x < sl_seg_offset b")
      case True
      then obtain c where "c \<in> ents (isl s)" "sl_seg_offset c \<le> x" "x \<le> sl_seg_end c"
        using lf(5) [OF x(1)] b sb by fastforce
      with True show ?thesis by (auto simp: E1_def bex)
    qed (use that b in \<open>auto simp: E1_def bex\<close>)
    have "(\<lambda>b. db_cap (sl_data b)) ` E1 = (\<lambda>b. db_cap (sl_data b)) ` ents (isl s)"
      using b(1) by (auto simp: E1_def bex)
    then show ?thesis using ins ends inj cov by (simp add: m1_def E1_def bex)
  qed
  then show "wf m1" "ents m1 = E1" "\<And>c. c \<in> E1 \<Longrightarrow> sl_seg_end c < lo" "inj_on (\<lambda>b. db_cap (sl_data b)) E1"
    "\<And>x. 0 \<le> x \<Longrightarrow> x < lo \<Longrightarrow> \<exists>c \<in> E1. sl_seg_offset c \<le> x \<and> x \<le> sl_seg_end c"
    "(\<lambda>b. db_cap (sl_data b)) ` E1 = (\<lambda>b. db_cap (sl_data b)) ` ents (isl s)" by auto
qed

end


context lin_store
begin

lemma granted_slots:
  assumes "length grants = length slots" "\<forall>b \<in> set slots. slot_blank b \<and> 0 \<le> sl_seg_offset b"
    and "\<forall>i < length slots. fst (grants ! i) \<in> live d \<and> cap_size d (fst (grants ! i)) = sl_len (slots ! i)"
    and "sorted_wrt (\<lambda>d e. sl_seg_end d < sl_seg_offset e) slots" "distinct (map fst grants)"
  defines "gs \<equiv> map2 sl_grant slots grants"
  shows "\<And>g. g \<in> set gs \<Longrightarrow> sok d g \<and> db_max_size (sl_data g) = sl_len g"
    and "sorted_wrt (\<lambda>d e. sl_seg_end d < sl_seg_offset e) gs" "inj_on (\<lambda>b. db_cap (sl_data b)) (set gs)"
    and "\<And>g. g \<in> set gs \<Longrightarrow> \<exists>b \<in> set slots. sl_seg_offset g = sl_seg_offset b \<and> sl_seg_end g = sl_seg_end b"
    and "\<And>b. b \<in> set slots \<Longrightarrow> \<exists>g \<in> set gs. sl_seg_offset g = sl_seg_offset b \<and> sl_seg_end g = sl_seg_end b"
    and "\<And>g. g \<in> set gs \<Longrightarrow> \<exists>i < length slots. db_cap (sl_data g) = fst (grants ! i)"
proof -
  have len: "length gs = length slots" by (simp add: gs_def assms(1))
  have nth: "gs ! i = sl_grant (slots ! i) (grants ! i)" if "i < length slots" for i
    using that assms(1) by (simp add: gs_def)
  show "sok d g \<and> db_max_size (sl_data g) = sl_len g" if "g \<in> set gs" for g
  proof -
    obtain i where i: "i < length slots" "g = gs ! i" using \<open>g \<in> set gs\<close> len by (auto simp: in_set_conv_nth)
    then have "slot_blank (slots ! i) \<and> 0 \<le> sl_seg_offset (slots ! i)" using assms(2) by simp
    with assms(3) i(1) show ?thesis by (simp add: i(2) nth [OF i(1)] slot_ok_def slot_blank_def)
  qed
  show "sorted_wrt (\<lambda>d e. sl_seg_end d < sl_seg_offset e) gs"
    using assms(4) by (simp add: sorted_wrt_iff_nth_less len nth)
  show "inj_on (\<lambda>b. db_cap (sl_data b)) (set gs)"
  proof -
    have "map (\<lambda>b. db_cap (sl_data b)) gs = map fst grants"
      by (rule nth_equalityI) (simp_all add: len assms(1) nth)
    with assms(5) show ?thesis by (metis distinct_map)
  qed
  show "\<exists>b \<in> set slots. sl_seg_offset g = sl_seg_offset b \<and> sl_seg_end g = sl_seg_end b" if "g \<in> set gs" for g
  proof -
    obtain i where "i < length slots" "g = gs ! i" using \<open>g \<in> set gs\<close> len by (auto simp: in_set_conv_nth)
    then show ?thesis using nth by (intro bexI [of _ "slots ! i"]) auto
  qed
  show "\<exists>g \<in> set gs. sl_seg_offset g = sl_seg_offset b \<and> sl_seg_end g = sl_seg_end b" if "b \<in> set slots" for b
  proof -
    obtain i where "i < length slots" "b = slots ! i" using \<open>b \<in> set slots\<close> by (auto simp: in_set_conv_nth)
    then show ?thesis using nth len nth_mem [of i gs] by (metis sl_grant_sel(1,2))
  qed
  show "\<exists>i < length slots. db_cap (sl_data g) = fst (grants ! i)" if "g \<in> set gs" for g
    using that len nth by (auto simp: in_set_conv_nth)
qed

lemma grow_correct:
  assumes ok: "lok s" and new: "total_size s < new_size" and arg: "a = new_size \<or> a = - new_size"
  shows "\<exists>st s'. sl_grow I IO rnd s a = Ret (st, s') \<and> lok s' \<and> used_size s' = used_size s \<and> same_params s s' \<and>
    (\<forall>x. 0 \<le> x \<and> x < total_size s \<longrightarrow> lin_byte I bytes s' x = lin_byte I bytes s x) \<and>
    (total_size s' = new_size \<or> total_size s' = total_size s \<and> op_state st = OP_STATE_FAILURE)"
proof -
  note lf = lok_facts [OF ok]
  have pos: "0 \<le> total_size s" "0 < max_block_size s" "0 < n_rid_default s" using ok by (auto simp: lin_ok_def)
  obtain bex lo where gl: "sl_grow_last I s new_size = Ret (bex, lo)"
    and gf: "grow_from (ents (isl s)) (total_size s) new_size bex lo" using grow_last_found [OF ok new] by blast
  let ?slots = "sl_new_slots (lin_ds s) rnd 0 lo new_size (max_block_size s)"
  note tile = new_slots_tile [OF pos(2), of "lin_ds s" rnd 0 lo new_size]
  have lo: "total_size s \<le> lo" "lo \<le> new_size"
    using gf new lf(2) by (auto simp: grow_from_def slot_ok_def split: option.splits)
  have ne: "bex = None \<Longrightarrow> ?slots \<noteq> []" using new_slots_ne [OF pos(2)] gf new by (simp add: grow_from_def)
  have bl: "slot_blank b" if "b \<in> set ?slots" for b using tile that by blast
  obtain err grants d where ge: "sl_grow_exec IO s bex ?slots = Ret (err, grants, d) \<and>
    (\<forall>c \<in> ents (isl s). sok d c \<and> (\<forall>y. sl_seg_offset c \<le> y \<and> y \<le> sl_seg_end c \<longrightarrow> sbyte d c y = sbyte (lin_world s) c y)) \<and>
    (err = OP_STATE_SUCCESS \<longrightarrow>
       (\<forall>b n. bex = Some (b, n) \<longrightarrow> cap_size d (db_cap (sl_data b)) = n) \<and>
       length grants = length ?slots \<and> distinct (map fst grants) \<and>
       (\<forall>i < length ?slots. fst (grants ! i) \<in> live d \<and> cap_size d (fst (grants ! i)) = sl_len (?slots ! i) \<and>
          (\<forall>c \<in> ents (isl s). db_cap (sl_data c) \<noteq> fst (grants ! i))))"
    using grow_exec_found [OF ok gf bl ne] by metis
  have ex: "sl_grow_exec IO s bex ?slots = Ret (err, grants, d)" using ge by blast
  have old: "\<And>c. c \<in> ents (isl s) \<Longrightarrow> sok d c"
    "\<And>c y. c \<in> ents (isl s) \<Longrightarrow> sl_seg_offset c \<le> y \<Longrightarrow> y \<le> sl_seg_end c \<Longrightarrow> sbyte d c y = sbyte (lin_world s) c y"
    using ge by blast+
  have bigger: "\<And>b n. err = OP_STATE_SUCCESS \<Longrightarrow> bex = Some (b, n) \<Longrightarrow> cap_size d (db_cap (sl_data b)) = n"
    using ge by blast
  have gr: "err = OP_STATE_SUCCESS \<Longrightarrow> length grants = length ?slots \<and> distinct (map fst grants)"
    "\<And>i. err = OP_STATE_SUCCESS \<Longrightarrow> i < length ?slots \<Longrightarrow> fst (grants ! i) \<in> live d \<and>
       cap_size d (fst (grants ! i)) = sl_len (?slots ! i) \<and> (\<forall>c \<in> ents (isl s). db_cap (sl_data c) \<noteq> fst (grants ! i))"
    using ge by blast+
  let ?arg = "if a < 0 then - a else a"
  have a: "?arg = new_size" "\<not> (a < 0 \<and> new_size < total_size s)" using arg new pos(1) by auto
  show ?thesis
  proof (cases "err = OP_STATE_SUCCESS")
    case False
    have cold: "sl_release_all d ?slots = Ret d" by (rule release_all_cold) (use tile in \<open>auto simp: slot_blank_def\<close>)
    define s' where "s' = s\<lparr>lin_world := d\<rparr>"
    have "sl_grow I IO rnd s a = Ret (op_failure_status, s')"
      using False pos by (simp add: sl_grow_def a gl ex cold Let_def s'_def del: op_state_neq)
    moreover have "lok s'" using ok old(1) by (auto simp: lin_ok_def s'_def)
    moreover have "lin_byte I bytes s' x = lin_byte I bytes s x" if "0 \<le> x" "x < total_size s" for x
      by (rule lin_byte_table [OF ok _ _ that]) (use lf(1) old(2) in \<open>auto simp: s'_def\<close>)
    ultimately show ?thesis by (auto simp: s'_def same_params_def op_failure_status_def)
  next
    case True
    let ?gs = "map2 sl_grant ?slots grants"
    let ?ex = "case bex of None \<Rightarrow> [] | Some (b, dsize) \<Rightarrow> [sl_expand b dsize]"
    let ?m1 = "case bex of None \<Rightarrow> isl s | Some (b, dsize) \<Rightarrow> sl_insert I (sl_delete I (isl s) b) (sl_expand b dsize)"
    let ?E1 = "case bex of None \<Rightarrow> ents (isl s) | Some (b, dsize) \<Rightarrow> insert (sl_expand b dsize) (ents (isl s) - {b})"
    let ?m2 = "foldl (sl_insert I) ?m1 ?gs"
    let ?E2 = "?E1 \<union> set ?gs"
    note et = expand_table [OF ok gf]
    have gp: "length grants = length ?slots" "distinct (map fst grants)" using gr(1) True by auto
    have blank: "\<forall>b \<in> set ?slots. slot_blank b \<and> 0 \<le> sl_seg_offset b" using tile lo pos(1) by force
    have cap: "\<forall>i < length ?slots. fst (grants ! i) \<in> live d \<and> cap_size d (fst (grants ! i)) = sl_len (?slots ! i)"
      using gr(2) [OF True] by blast
    note gs = granted_slots [OF gp(1) blank cap conjunct1 [OF tile] gp(2)]
    have gs_rng: "lo \<le> sl_seg_offset g \<and> sl_seg_end g < new_size \<and> sl_seg_offset g \<le> sl_seg_end g" if "g \<in> set ?gs" for g
      using gs(4) [OF that] gs(1) [OF that] tile by (force simp: slot_ok_def)
    obtain err2 d2 where z: "sl_zero_ends IO d (?ex @ ?gs) = (err2, d2)" by (metis prod.exhaust)
    have m2: "wf ?m2 \<and> ents ?m2 = ents ?m1 \<union> set ?gs"
      by (rule foldl_insert [OF et(1) gs(2)]) (use gs_rng et(2,3) in force)+
    have ok1: "sok d c" if "c \<in> ?E1" for c
    proof (cases bex)
      case (Some p)
      then obtain b n where bex: "bex = Some (b, n)" by (cases p) auto
      with gf have b: "b \<in> ents (isl s)" "sl_len b < n" by (auto simp: grow_from_def)
      with bex that old(1) bigger [OF True bex] show ?thesis by (force simp: slot_ok_def)
    qed (use that old(1) in auto)
    have ok2: "sok d c" if "c \<in> ?E2" for c using that ok1 gs(1) by blast
    have inj: "inj_on (\<lambda>b. db_cap (sl_data b)) ?E2"
    proof (rule inj_on_Un [THEN iffD2], intro conjI)
      have "db_cap (sl_data c) \<noteq> db_cap (sl_data g)" if "c \<in> ?E1" "g \<in> set ?gs" for c g
      proof -
        obtain i where i: "i < length ?slots" "db_cap (sl_data g) = fst (grants ! i)" using gs(6) [OF \<open>g \<in> set ?gs\<close>] by blast
        obtain e where "e \<in> ents (isl s)" "db_cap (sl_data c) = db_cap (sl_data e)" using et(6) \<open>c \<in> ?E1\<close> by blast
        then show ?thesis using gr(2) [OF True i(1)] i(2) by metis
      qed
      then show "(\<lambda>b. db_cap (sl_data b)) ` (?E1 - set ?gs) \<inter> (\<lambda>b. db_cap (sl_data b)) ` (set ?gs - ?E1) = {}" by blast
    qed (rule et(4), rule gs(3))
    have zs: "z \<in> ?E2 \<and> db_max_size (sl_data z) = sl_len z" if "z \<in> set (?ex @ ?gs)" for z
      using that gs(1) by (cases bex) auto
    note zk = zero_ends_keep [OF ok2 inj zs z]
    define s' where "s' = s\<lparr>isl := ?m2, total_size := new_size, lin_world := d2\<rparr>"
    have run: "sl_grow I IO rnd s a = Ret (if err2 = OP_STATE_SUCCESS then op_success_status else op_failure_status, s')"
      using True pos by (simp add: sl_grow_def a gl ex z Let_def s'_def)
    have E2: "ents (isl s') = ?E2" "wf (isl s')" using m2 et(2) by (auto simp: s'_def)
    have lok': "lok s'"
    proof -
      have "sok d2 c \<and> sl_seg_end c < new_size" if "c \<in> ?E2" for c
        using zk that et(3) lo(2) gs_rng by fastforce
      moreover have "\<exists>c \<in> ?E2. sl_seg_offset c \<le> x \<and> x \<le> sl_seg_end c" if "0 \<le> x" "x < new_size" for x
      proof (cases "x < lo")
        case True
        with et(5) that show ?thesis by blast
      next
        case False
        then obtain b where "b \<in> set ?slots" "sl_seg_offset b \<le> x" "x \<le> sl_seg_end b" 
          using conjunct2 [OF conjunct2 [OF tile]] \<open>x < new_size\<close> not_le by blast
        moreover obtain g where "g \<in> set ?gs" "sl_seg_offset g = sl_seg_offset b" "sl_seg_end g = sl_seg_end b"
          using gs(5) [OF calculation(1)] by blast
        ultimately show ?thesis by (intro bexI [of _ g]) auto
      qed
      ultimately show ?thesis using E2 inj pos new by (simp add: lin_ok_def s'_def)
    qed
    have stretch: "\<exists>c' \<in> ?E1. sl_seg_offset c' = sl_seg_offset c \<and> sl_seg_end c \<le> sl_seg_end c' \<and>
        (\<forall>y. sbyte d c' y = sbyte d c y) \<and> (c' \<in> set (?ex @ ?gs) \<longrightarrow> sl_seg_end c < sl_seg_end c')"
      if c: "c \<in> ents (isl s)" for c
    proof -
      have rng: "sl_seg_offset c \<le> sl_seg_end c" "sl_seg_end c < total_size s" using lf(2,3) [OF c] by (auto simp: slot_ok_def)
      then have new_gs: "c \<notin> set ?gs" using gs_rng [of c] lo(1) by linarith
      show ?thesis
      proof (cases bex)
        case None
        with c new_gs show ?thesis by (auto intro: bexI [of _ c])
      next
        case (Some p)
        then obtain b n where bex: "bex = Some (b, n)" by (cases p) auto
        with gf have b: "sl_len b < n" "b \<in> ents (isl s)" "sl_seg_end b = total_size s - 1" by (auto simp: grow_from_def)
        have eb: "sl_seg_end b = sl_seg_offset b + sl_len b - 1" using lf(2) [OF b(2)] by (simp add: slot_ok_def)
        have "c \<noteq> sl_expand b n" using rng(2) b(1,3) eb by auto
        then show ?thesis using c new_gs b eb bex
          by (cases "c = b") (auto simp: slot_byte_def intro: bexI [of _ c] bexI [of _ "sl_expand b n"])
      qed
    qed
    have "lin_byte I bytes s' x = lin_byte I bytes s x" if "0 \<le> x" "x < total_size s" for x
    proof (rule lin_byte_table [OF ok E2(2) _ that])
      fix c assume c: "c \<in> ents (isl s)"
      obtain c' where c': "c' \<in> ?E1" "sl_seg_offset c' = sl_seg_offset c" "sl_seg_end c \<le> sl_seg_end c'"
        "\<And>y. sbyte d c' y = sbyte d c y" "c' \<in> set (?ex @ ?gs) \<Longrightarrow> sl_seg_end c < sl_seg_end c'"
        using stretch [OF c] by blast
      show "\<exists>c' \<in> ents (isl s'). sl_seg_offset c' = sl_seg_offset c \<and> sl_seg_end c \<le> sl_seg_end c' \<and>
          (\<forall>y. sl_seg_offset c \<le> y \<and> y \<le> sl_seg_end c \<longrightarrow> sbyte (lin_world s') c' y = sbyte (lin_world s) c y)"
      proof (intro bexI [of _ c'] conjI allI impI)
        fix y assume y: "sl_seg_offset c \<le> y \<and> y \<le> sl_seg_end c"
        have "sbyte d2 c' y = sbyte d c' y" using zk c' y by (force simp del: set_append)
        then show "sbyte (lin_world s') c' y = sbyte (lin_world s) c y" using c'(4) old(2) [OF c] y by (simp add: s'_def)
      qed (use c' E2 in auto)
    qed
    with run lok' show ?thesis by (auto simp: s'_def same_params_def op_success_status_def op_failure_status_def)
  qed
qed

end


section \<open>Writing\<close>

text \<open>Extents that reach past the reserved space are cut there by the plan.\<close>

lemma tasks_cut:
  "\<forall>b \<in> set bs. sl_seg_end b < tot \<Longrightarrow> sl_tasks lo hi bs bpos = sl_tasks lo (min hi (tot - 1)) bs bpos"
proof (induction bs arbitrary: bpos)
  case (Cons b bs)
  then have "sl_seg_end b \<le> hi \<longleftrightarrow> sl_seg_end b \<le> min hi (tot - 1)" "\<not> sl_seg_end b \<le> hi \<Longrightarrow> min hi (tot - 1) = hi"
    by auto
  then have "(if hi \<ge> sl_seg_end b then sl_len b - 1 else hi - sl_seg_offset b) =
      (if min hi (tot - 1) \<ge> sl_seg_end b then sl_len b - 1 else min hi (tot - 1) - sl_seg_offset b)" by metis
  with Cons show ?case by (simp only: sl_tasks.simps Let_def) auto
qed simp

context lin_store
begin

lemma seglin_write_op_correct:
  assumes ok: "lok s" and rng: "0 \<le> off" "0 < n"
    and w: "seglin_write_op I IO s [ex_iovec_single off n] buf boff = (st, s')"
  shows "lok s' \<and> s' = s\<lparr>lin_world := lin_world s'\<rparr> \<and>
    (\<forall>x. 0 \<le> x \<and> x < total_size s \<and> \<not> (off \<le> x \<and> x < off + n) \<longrightarrow> lin_byte I bytes s' x = lin_byte I bytes s x) \<and>
    (st = OP_STATE_SUCCESS \<longrightarrow> off < total_size s \<and>
       (\<forall>x. off \<le> x \<and> x < off + n \<and> x < total_size s \<longrightarrow> lin_byte I bytes s' x = buf (boff + (x - off))))"
proof (cases "off < total_size s")
  case False
  have "set (isl_search I (isl s) off (off + n - 1)) = {}"
    unfolding search_entries(1) [OF lok_facts(1) [OF ok], of off "off + n - 1"] using lok_facts(3) [OF ok] False by force
  then have "isl_search I (isl s) off (off + n - 1) = []" by simp
  then have "st = OP_STATE_FAILURE" "s' = s" using w by (auto simp: seglin_write_op_def plan_tasks_single)
  then show ?thesis using ok by simp
next
  case True
  let ?hi = "off + n - 1"
  let ?bs = "isl_search I (isl s) off ?hi"
  let ?cut = "min ?hi (total_size s - 1)"
  note lf = lok_facts [OF ok]
  have ne: "?bs \<noteq> []" by (rule search_nonempty [OF ok]) (use rng True in auto)
  have ch: "slot_chain off ?cut off ?bs" by (rule search_chain [OF ok]) (use rng True in auto)
  have mem: "b \<in> set ?bs \<longleftrightarrow> b \<in> ents (isl s) \<and> sl_seg_offset b \<le> ?hi \<and> off \<le> sl_seg_end b" for b
    using search_entries(1) [OF lf(1), of off ?hi] by auto
  have sub: "set ?bs \<subseteq> ents (isl s)" "distinct ?bs" using mem search_distinct [OF lf(1)] by auto
  obtain d' where r: "sl_run_writes IO (lin_world s) buf (sl_tasks off ?cut ?bs boff) = (st, d')" and s': "s' = s\<lparr>lin_world := d'\<rparr>"
    using w ne tasks_cut [of ?bs "total_size s" off ?hi boff] mem lf(3)
    by (auto simp: seglin_write_op_def plan_tasks_single split: prod.splits)
  note rw = run_writes_chain [OF ch sub lf(2,4) r]
  have same: "lin_byte I bytes s' x = sbyte d' b x \<and> lin_byte I bytes s x = sbyte (lin_world s) b x"
    if "b \<in> ents (isl s)" "sl_seg_offset b \<le> x" "x \<le> sl_seg_end b" for b x
    using lin_byte_slot [of s' b x] lin_byte_slot [of s b x] lf(1) that by (simp add: s')
  have "lok s'" using ok rw by (auto simp: lin_ok_def s')
  moreover have "lin_byte I bytes s' x = lin_byte I bytes s x"
    if x: "0 \<le> x" "x < total_size s" "\<not> (off \<le> x \<and> x < off + n)" for x
  proof -
    obtain b where b: "b \<in> ents (isl s)" "sl_seg_offset b \<le> x" "x \<le> sl_seg_end b" using lf(5) [OF x(1,2)] by blast
    then show ?thesis using same [OF b] rw x by auto
  qed
  moreover have "lin_byte I bytes s' x = buf (boff + (x - off))"
    if x: "st = OP_STATE_SUCCESS" "off \<le> x" "x < off + n" "x < total_size s" for x
  proof -
    obtain b where b: "b \<in> ents (isl s)" "sl_seg_offset b \<le> x" "x \<le> sl_seg_end b" using lf(5) [of x] rng x by auto
    then have "b \<in> set ?bs" using mem x by auto
    then show ?thesis using same [OF b] rw x b by auto
  qed
  ultimately show ?thesis using True by (simp add: s')
qed

lemma write_func_correct:
  assumes ok: "lok s" and rng: "0 \<le> off" "0 < n" and ex: "0 < excess_block_size s"
  shows "\<exists>st s'. seglin_write_func I IO rnd s [ex_iovec_single off n] buf boff = Ret (st, s') \<and> lok s' \<and>
    total_size s \<le> total_size s' \<and> used_size s' = max (used_size s) (off + n) \<and>
    (\<forall>x. 0 \<le> x \<and> x < total_size s \<and> \<not> (off \<le> x \<and> x < off + n) \<longrightarrow> lin_byte I bytes s' x = lin_byte I bytes s x) \<and>
    (op_state st = OP_STATE_SUCCESS \<longrightarrow> off < total_size s' \<and>
       (\<forall>x. off \<le> x \<and> x < off + n \<and> x < total_size s' \<longrightarrow> lin_byte I bytes s' x = buf (boff + (x - off)))) \<and>
    (off + n \<le> total_size s \<longrightarrow> total_size s' = total_size s) \<and>
    (total_size s < off + n \<longrightarrow> total_size s' \<in> {total_size s, off + n - 1 + excess_block_size s})"
proof -
  let ?mp = "off + n - 1"
  have mp: "sl_maxpos [ex_iovec_single off n] = ?mp" using rng by (auto simp: sl_maxpos_def Let_def)
  have "\<exists>st1 s1. seglin_write_grow I IO rnd s ?mp = Ret (st1, s1) \<and> lok s1 \<and> used_size s1 = used_size s \<and>
      (\<forall>x. 0 \<le> x \<and> x < total_size s \<longrightarrow> lin_byte I bytes s1 x = lin_byte I bytes s x) \<and>
      total_size s1 \<in> {total_size s, ?mp + excess_block_size s} \<and> total_size s \<le> total_size s1 \<and>
      (off + n \<le> total_size s \<longrightarrow> s1 = s)"
  proof (cases "?mp \<ge> total_size s")
    case True
    with ex have "total_size s < ?mp + excess_block_size s" by simp
    with True rng ex show ?thesis
      using grow_correct [OF ok, of "?mp + excess_block_size s" "?mp + excess_block_size s" rnd]
      by (auto simp: seglin_write_grow_def sl_truncate_def)
  qed (use ok in \<open>simp add: seglin_write_grow_def\<close>)
  then obtain st1 s1 where g: "seglin_write_grow I IO rnd s ?mp = Ret (st1, s1)" "lok s1" "used_size s1 = used_size s"
    "\<And>x. 0 \<le> x \<Longrightarrow> x < total_size s \<Longrightarrow> lin_byte I bytes s1 x = lin_byte I bytes s x"
    "total_size s1 \<in> {total_size s, ?mp + excess_block_size s}" "total_size s \<le> total_size s1"
    "off + n \<le> total_size s \<Longrightarrow> s1 = s" by blast
  obtain err s2 where w: "seglin_write_op I IO s1 [ex_iovec_single off n] buf boff = (err, s2)" by (metis prod.exhaust)
  note wo = seglin_write_op_correct [OF g(2) rng w]
  let ?s3 = "s2\<lparr>used_size := (if used_size s2 \<le> ?mp then ?mp + 1 else used_size s2)\<rparr>"
  let ?st = "if err = OP_STATE_SUCCESS then op_success_status else op_failure_status"
  let ?s4 = "if err = OP_STATE_SUCCESS then ?s3 else ?s3\<lparr>lin_hard_errors := lin_hard_errors s2 + 1\<rparr>"
  have s2: "total_size s2 = total_size s1" "used_size s2 = used_size s1"
    using arg_cong [OF conjunct1 [OF conjunct2 [OF wo]], of total_size] arg_cong [OF conjunct1 [OF conjunct2 [OF wo]], of used_size]
    by simp_all
  have run: "seglin_write_func I IO rnd s [ex_iovec_single off n] buf boff = Ret (?st, ?s4)"
    using g(1) w by (simp add: seglin_write_func_def mp Let_def)
  have l4: "lok ?s4 \<longleftrightarrow> lok s2" "total_size ?s4 = total_size s1" "used_size ?s4 = max (used_size s) (off + n)"
    using s2 g(3) by (auto simp: lin_ok_def)
  have b4: "lin_byte I bytes ?s4 = lin_byte I bytes s2" by simp
  have st: "op_state ?st = OP_STATE_SUCCESS \<longleftrightarrow> err = OP_STATE_SUCCESS"
    by (simp add: op_success_status_def op_failure_status_def)
  have old: "lin_byte I bytes ?s4 x = lin_byte I bytes s x"
    if "0 \<le> x" "x < total_size s" "\<not> (off \<le> x \<and> x < off + n)" for x
    using wo that g(4) [OF that(1,2)] g(6) unfolding b4 by auto
  have new: "off < total_size s1 \<and> (\<forall>x. off \<le> x \<and> x < off + n \<and> x < total_size s1 \<longrightarrow> lin_byte I bytes ?s4 x = buf (boff + (x - off)))"
    if "op_state ?st = OP_STATE_SUCCESS" using wo that unfolding b4 st by blast
  have "lok ?s4" using wo l4(1) by blast
  moreover have "off + n \<le> total_size s \<longrightarrow> total_size ?s4 = total_size s" using g(7) l4(2) by simp
  ultimately show ?thesis using run old new g(5,6) l4(2,3)
    by (intro exI [of _ ?st] exI [of _ ?s4]) (simp only:, blast)
qed

end


section \<open>Shrinking\<close>

text \<open>The slot of the new end, cut there; with nothing left of it, it goes.\<close>

definition slot_cut :: "('c, 'd) seglin_slot \<Rightarrow> ex_off \<Rightarrow> ('c, 'd) seglin_slot" where
  "slot_cut b n = b\<lparr>sl_seg_end := sl_seg_offset b + n - 1, sl_len := n\<rparr>"

lemma slot_cut_sel [simp]:
  "sl_seg_offset (slot_cut b n) = sl_seg_offset b" "sl_seg_end (slot_cut b n) = sl_seg_offset b + n - 1"
  "sl_len (slot_cut b n) = n" "sl_cap_offset (slot_cut b n) = sl_cap_offset b" "sl_data (slot_cut b n) = sl_data b"
  by (simp_all add: slot_cut_def)

context lin_store
begin

lemma remove_blocks_keep:
  assumes "sl_remove_blocks IO d bs = (st, d')" "\<And>c. c \<in> B \<Longrightarrow> sok d c" "inj_on (\<lambda>b. db_cap (sl_data b)) B"
    and "set bs \<subseteq> B" "distinct bs"
  shows "kept ((\<lambda>b. db_cap (sl_data b)) ` (B - set bs)) d d'"
  using assms
proof (induction bs arbitrary: d B st)
  case (Cons b bs)
  let ?cap = "\<lambda>b :: ('c, 'd) seglin_slot. db_cap (sl_data b)"
  obtain st1 d1 where r: "io_remove IO d (?cap b) = (st1, d1)" by (metis prod.exhaust)
  have b: "b \<in> B" "b \<notin> set bs" "set bs \<subseteq> B - {b}" "distinct bs" using Cons.prems(4,5) by auto
  have "?cap b \<in> live d" using Cons.prems(2) [OF b(1)] by (simp add: slot_ok_def)
  note k = remove_law [OF r this]
  have oth: "?cap c \<in> - {?cap b}" if "c \<in> B - {b}" for c
    using inj_onD [OF Cons.prems(3) _ _ b(1)] that by auto
  have ok1: "\<And>c. c \<in> B - {b} \<Longrightarrow> sok d1 c" using slot_ok_keeps(1) [OF k Cons.prems(2) oth] by auto
  have inj: "inj_on ?cap (B - {b})" using Cons.prems(3) by (rule inj_on_subset) auto
  obtain st2 where "sl_remove_blocks IO d1 bs = (st2, d')"
    using Cons.prems(1) r by (auto split: prod.splits)
  note IH = Cons.IH [OF this ok1 inj b(3,4)]
  have "?cap ` (B - set (b # bs)) \<subseteq> - {?cap b}"
  proof
    fix x assume "x \<in> ?cap ` (B - set (b # bs))"
    then obtain c where "c \<in> B - {b}" "x = ?cap c" by auto
    then show "x \<in> - {?cap b}" using oth [of c] by simp
  qed
  with k have "kept (?cap ` (B - set (b # bs))) d d1" by (rule keeps_mono)
  moreover have "B - {b} - set bs = B - set (b # bs)" by auto
  with IH have "kept (?cap ` (B - set (b # bs))) d1 d'" by (simp only:)
  ultimately show ?case by (rule keeps_trans)
qed simp

text \<open>The slots a shrink meets: the one that holds the new end, and those behind it.\<close>

lemma shrink_slots:
  assumes ok: "lok s" and new: "0 \<le> new_size" "new_size < total_size s"
  shows "\<exists>b bs. isl_search I (isl s) new_size (total_size s) = b # bs \<and> b \<in> ents (isl s) \<and> distinct (b # bs) \<and>
    set bs \<subseteq> ents (isl s) \<and> sl_seg_offset b \<le> new_size \<and> new_size \<le> sl_seg_end b \<and>
    (\<forall>c \<in> set bs. sl_seg_end b < sl_seg_offset c) \<and> (\<forall>c \<in> ents (isl s) - set (b # bs). sl_seg_end c < new_size)"
proof -
  note lf = lok_facts [OF ok]
  let ?hs = "isl_search I (isl s) new_size (total_size s)"
  obtain b bs where hs: "?hs = b # bs"
    using search_nonempty [OF ok new(1) _ new(2), of "total_size s"] new(2) by (cases ?hs) auto
  have se: "c \<in> set (b # bs) \<longleftrightarrow> c \<in> ents (isl s) \<and> sl_seg_offset c \<le> total_size s \<and> new_size \<le> sl_seg_end c" for c
    unfolding hs [symmetric] search_entries(1) [OF lf(1)] by simp
  have srt: "sl_seg_end b < sl_seg_offset c" if "c \<in> set bs" for c
    using search_sorted [OF lf(1), of new_size "total_size s"] that unfolding hs by simp
  obtain e where e: "e \<in> ents (isl s)" "sl_seg_offset e \<le> new_size" "new_size \<le> sl_seg_end e" using lf(5) [OF new] by blast
  then have "e \<in> set (b # bs)" using se [of e] new by simp
  moreover have "sl_seg_offset b \<le> sl_seg_end b" using se [of b] entriesD(2) [OF lf(1)] by simp
  ultimately have "sl_seg_offset b \<le> new_size" using e(2) srt [of e] by fastforce
  moreover have "sl_seg_end c < new_size" if "c \<in> ents (isl s) - set (b # bs)" for c
    using that lf(3) [of c] entriesD(2) [OF lf(1), of c] se [of c] by auto
  moreover have "b \<in> ents (isl s)" "new_size \<le> sl_seg_end b" "set bs \<subseteq> ents (isl s)" using se by auto
  moreover have "distinct (b # bs)" using search_distinct [OF lf(1), of new_size "total_size s"] unfolding hs .
  ultimately show ?thesis using hs srt by blast
qed


lemma shrink_first:
  assumes B: "\<And>c. c \<in> E \<Longrightarrow> sok d c" "inj_on (\<lambda>b. db_cap (sl_data b)) E" "b \<in> E"
    and n: "0 \<le> n" "n < sl_len b"
    and r: "(if n = 0 then io_remove IO d (db_cap (sl_data b)) else io_truncate IO d (db_cap (sl_data b)) n) = (st, d')"
  defines "E' \<equiv> (if n = 0 then E - {b} else insert (slot_cut b n) (E - {b}))"
  shows "\<And>c. c \<in> E' \<Longrightarrow> sok d' c" "inj_on (\<lambda>b. db_cap (sl_data b)) E'"
    "\<And>c y. c \<in> E - {b} \<Longrightarrow> sl_seg_offset c \<le> y \<Longrightarrow> y \<le> sl_seg_end c \<Longrightarrow> sbyte d' c y = sbyte d c y"
    "\<And>y. sl_seg_offset b \<le> y \<Longrightarrow> y < sl_seg_offset b + n \<Longrightarrow> sbyte d' (slot_cut b n) y = sbyte d b y"
proof -
  let ?c = "db_cap (sl_data b)"
  have lb: "?c \<in> live d" "sl_cap_offset b = 0" "sl_len b \<le> cap_size d ?c" "0 \<le> sl_seg_offset b" "db_warm (sl_data b) = None"
    using B(1) [OF B(3)] by (auto simp: slot_ok_def)
  have k: "kept (- {?c}) d d'"
    using r remove_law [OF _ lb(1)] truncate_law [OF _ lb(1)] n by (auto split: if_splits)
  have cut: "?c \<in> live d' \<and> n \<le> cap_size d' ?c \<and> (\<forall>x. 0 \<le> x \<and> x < n \<longrightarrow> bytes d' ?c x = bytes d ?c x)" if "n \<noteq> 0"
    using truncate_law [of d ?c n st d'] r that n lb(1,3) by auto
  have oth: "db_cap (sl_data c) \<in> - {?c}" if "c \<in> E - {b}" for c
    using inj_onD [OF B(2) _ _ B(3)] that by auto
  show "sok d' c" if "c \<in> E'" for c
  proof (cases "c \<in> E - {b}")
    case True
    with slot_ok_keeps(1) [OF k B(1) oth] show ?thesis by auto
  next
    case False
    then have "c = slot_cut b n" "n \<noteq> 0" using that by (auto simp: E'_def split: if_splits)
    then show ?thesis using cut lb n by (simp add: slot_ok_def)
  qed
  show "inj_on (\<lambda>b. db_cap (sl_data b)) E'"
    using B(2,3) oth unfolding E'_def by (auto simp: inj_on_def)
  show "sbyte d' c y = sbyte d c y" if "c \<in> E - {b}" "sl_seg_offset c \<le> y" "y \<le> sl_seg_end c" for c y
    using slot_ok_keeps(2) [OF k B(1) oth] that by auto
  show "sbyte d' (slot_cut b n) y = sbyte d b y" if "sl_seg_offset b \<le> y" "y < sl_seg_offset b + n" for y
    using cut that lb(2) by (auto simp: slot_byte_def)
qed

lemma shrink_correct:
  assumes ok: "lok s" and new: "0 \<le> new_size" "new_size < total_size s"
  shows "\<exists>st s'. sl_shrink I IO s new_size = Ret (st, s') \<and> lok s' \<and> total_size s' = new_size \<and> used_size s' = new_size \<and>
    same_params s s' \<and> (\<forall>x. 0 \<le> x \<and> x < new_size \<longrightarrow> lin_byte I bytes s' x = lin_byte I bytes s x)"
proof -
  note lf = lok_facts [OF ok]
  obtain b bs where hs: "isl_search I (isl s) new_size (total_size s) = b # bs" and bE: "b \<in> ents (isl s)"
    and dist: "distinct (b # bs)" and sub: "set bs \<subseteq> ents (isl s)" and bo: "sl_seg_offset b \<le> new_size" "new_size \<le> sl_seg_end b"
    and after: "\<And>c. c \<in> set bs \<Longrightarrow> sl_seg_end b < sl_seg_offset c"
    and low: "\<And>c. c \<in> ents (isl s) \<Longrightarrow> c \<notin> set (b # bs) \<Longrightarrow> sl_seg_end c < new_size"
    using shrink_slots [OF ok new] by blast
  let ?n = "new_size - sl_seg_offset b"
  let ?E = "if ?n = 0 then ents (isl s) - {b} else insert (slot_cut b ?n) (ents (isl s) - {b})"
  obtain st1 d1 where c1: "(if ?n = 0 then io_remove IO (lin_world s) (db_cap (sl_data b))
      else io_truncate IO (lin_world s) (db_cap (sl_data b)) ?n) = (st1, d1)" by (metis prod.exhaust)
  obtain st2 d2 where c2: "sl_remove_blocks IO d1 bs = (st2, d2)" by (metis prod.exhaust)
  have lb: "sl_seg_end b = sl_seg_offset b + sl_len b - 1" using lf(2) [OF bE] by (auto simp: slot_ok_def)
  have n: "0 \<le> ?n" "?n < sl_len b" using bo lb by auto
  note sf = shrink_first [OF lf(2,4) bE n c1]
  have "set bs \<subseteq> ?E" "distinct bs" using sub dist by auto
  note k2 = remove_blocks_keep [OF c2 sf(1,2) this]
  define gone where "gone = (if ?n = 0 then b # bs else bs)"
  define m1 where "m1 = foldl (sl_delete I) (isl s) (rev gone)"
  define m2 where "m2 = (if ?n = 0 then m1 else sl_insert I (sl_delete I m1 b) (slot_cut b ?n))"
  define s' where "s' = s\<lparr>isl := m2, total_size := new_size, used_size := new_size, lin_world := d2\<rparr>"
  have m1: "wf m1" "ents m1 = ents (isl s) - set gone"
    using foldl_delete [OF lf(1), of "rev gone"] dist bE sub by (auto simp: gone_def m1_def)
  have cold: "sl_release_all d2 (rev gone) = Ret d2"
    by (rule release_all_cold) (use lf(2) bE sub in \<open>auto simp: gone_def slot_ok_def split: if_splits\<close>)
  have run: "sl_shrink I IO s new_size = Ret (if both st1 st2 = OP_STATE_SUCCESS then op_success_status else op_failure_status, s')"
    using c1 c2 cold by (simp add: sl_shrink_def hs Let_def gone_def m1_def m2_def slot_cut_def s'_def)
  have m2: "wf m2 \<and> ents m2 = ?E - set bs"
  proof (cases "?n = 0")
    case True
    with m1 show ?thesis by (auto simp: m2_def gone_def)
  next
    case False
    have bm: "b \<in> ents m1" using False m1(2) bE dist by (auto simp: gone_def)
    have del: "wf (sl_delete I m1 b)" "ents (sl_delete I m1 b) = ents m1 - {b}"
      unfolding sl_delete_def by (rule remove_entry [OF m1(1) bm])+
    have "sl_seg_end e < sl_seg_offset b" if "e \<in> ents m1 - {b}" for e
    proof -
      have "e \<in> ents (isl s)" "e \<notin> set (b # bs)" using that m1(2) False by (auto simp: gone_def)
      with low [of e] entries_disjoint [OF lf(1) _ bE, of e] entriesD(2) [OF lf(1), of e] bo show ?thesis by auto
    qed
    then have "wf m2" "ents m2 = insert (slot_cut b ?n) (ents m1 - {b})"
      using insert_entry [OF del(1), of "slot_cut b ?n"] del(2) n False by (auto simp: m2_def sl_insert_def)
    moreover have "slot_cut b ?n \<notin> set bs" using after [of "slot_cut b ?n"] bo by auto
    ultimately show ?thesis using m1(2) dist False by (auto simp: gone_def)
  qed
  have slots: "sok d2 c \<and> (\<forall>y. sl_seg_offset c \<le> y \<and> y \<le> sl_seg_end c \<longrightarrow> sbyte d2 c y = sbyte d1 c y)" if "c \<in> ?E - set bs" for c
    using slot_ok_keeps [OF k2 sf(1)] that by blast
  have serve: "\<exists>c' \<in> ?E - set bs. sl_seg_offset c' \<le> x \<and> x \<le> sl_seg_end c' \<and> sbyte d2 c' x = lin_byte I bytes s x"
    if x: "0 \<le> x" "x < new_size" for x
  proof -
    obtain c where c: "c \<in> ents (isl s)" "sl_seg_offset c \<le> x" "x \<le> sl_seg_end c" using lf(5) [of x] x new by auto
    note lc = lin_byte_slot [OF lf(1) c]
    show ?thesis
    proof (cases "c = b")
      case True
      then have m: "slot_cut b ?n \<in> ?E - set bs" using after [of "slot_cut b ?n"] bo c x by auto
      show ?thesis using slots [OF m] sf(4) [of x] c x lc True by (intro bexI [OF _ m]) auto
    next
      case False
      then have "c \<notin> set bs" using after [of c] bo c x by auto
      then show ?thesis using slots [of c] sf(3) [of c x] c lc False by (intro bexI [of _ c]) auto
    qed
  qed
  have ends: "sl_seg_end c < new_size" if "c \<in> ?E - set bs" for c using that low by (auto split: if_splits)
  have E': "ents (isl s') = ?E - set bs" "wf (isl s')" using m2 by (auto simp: s'_def)
  have "inj_on (\<lambda>b. db_cap (sl_data b)) (?E - set bs)" by (rule inj_on_subset [OF sf(2) Diff_subset])
  moreover have "\<forall>c \<in> ?E - set bs. sok d2 c \<and> sl_seg_end c < new_size" using slots ends by blast
  moreover have "\<forall>x. 0 \<le> x \<and> x < new_size \<longrightarrow> (\<exists>c \<in> ?E - set bs. sl_seg_offset c \<le> x \<and> x \<le> sl_seg_end c)"
    using serve by blast
  moreover have "lin_world s' = d2" "total_size s' = new_size" "0 < max_block_size s'" "0 < n_rid_default s'"
    using ok by (auto simp: s'_def lin_ok_def)
  ultimately have "lok s'" using E' new(1) unfolding lin_ok_def by presburger
  moreover have "lin_byte I bytes s' x = lin_byte I bytes s x" if "0 \<le> x" "x < new_size" for x
    using serve [OF that] lin_byte_slot [OF E'(2), of _ x] unfolding E'(1) by (auto simp: s'_def)
  ultimately show ?thesis using run by (auto simp: s'_def same_params_def)
qed

end

section \<open>Truncating\<close>

context lin_store
begin

lemma truncate_correct:
  assumes ok: "lok s" and n: "n < 0 \<Longrightarrow> - n \<noteq> total_size s"
  shows "\<exists>st s'. sl_truncate I IO rnd s n = Ret (st, s') \<and> lok s' \<and> same_params s s' \<and>
    (\<forall>x. 0 \<le> x \<and> x < total_size s \<and> x < total_size s' \<longrightarrow> lin_byte I bytes s' x = lin_byte I bytes s x) \<and>
    (total_size s' = (if n < 0 \<and> - n < total_size s then total_size s else \<bar>n\<bar>) \<or>
     total_size s' = total_size s \<and> total_size s < \<bar>n\<bar> \<and> op_state st = OP_STATE_FAILURE)"
proof -
  have same: "sl_truncate I IO rnd s n = Ret (op_success_status, s)" if "n = total_size s \<or> n < 0 \<and> - n < total_size s"
    using that ok by (auto simp: sl_truncate_def sl_grow_def lin_ok_def)
  consider "n = total_size s \<or> n < 0 \<and> - n < total_size s" | "0 \<le> n" "n < total_size s" | "total_size s < \<bar>n\<bar>"
    using n by linarith
  then show ?thesis
  proof cases
    case 1
    moreover have "0 \<le> total_size s" using ok by (simp add: lin_ok_def)
    ultimately show ?thesis using same ok by (auto simp: same_params_def)
  next
    case 2
    then show ?thesis using shrink_correct [OF ok 2] by (auto simp: sl_truncate_def)
  next
    case 3
    have "0 \<le> total_size s" using ok by (simp add: lin_ok_def)
    with 3 have "sl_truncate I IO rnd s n = sl_grow I IO rnd s n" by (auto simp: sl_truncate_def)
    moreover have "n = \<bar>n\<bar> \<or> n = - \<bar>n\<bar>" by auto
    ultimately show ?thesis using grow_correct [OF ok 3, of n rnd] 3 by auto
  qed
qed

end

lemma lin_storeI:
  "interval_skiplist I items \<Longrightarrow> depot IO live cap_size bytes \<Longrightarrow> lin_store I items IO live cap_size bytes"
  by (intro lin_store.intro keyed_intervals.intro)

interpretation list_lin: lin_store list_isl mset "mem_depot cap" "\<lambda>d. {..<length d}" mem_size mem_bytes
  by (rule lin_storeI [OF list_isl.interval_skiplist_axioms mem_depot.depot_axioms])

section \<open>Properties\<close>

text \<open>A segment of two blocks, of four and of two bytes, on a depot in memory.\<close>

definition mem_ds :: "(nat, byte list list) ds_fn" where
  "mem_ds = \<lparr>ds_type = ''mem'', new_cap_set = 0, get_cap = (\<lambda>c k. None), set_cap = (\<lambda>c k v. (0, c)),
     cap_auto_warm = (\<lambda>w c. Ret (w, c)), cap_stop_warm = (\<lambda>w c. Ret w)\<rparr>"

definition demo_slot :: "nat \<Rightarrow> ex_off \<Rightarrow> ex_off \<Rightarrow> (nat, byte list list) seglin_slot" where
  "demo_slot c off len = sl_grant (sl_new_slot mem_ds 0 off len) (c, ''rid'')"

definition demo_lin :: "((nat, byte list list) seglin_slot interval_entry list, nat, byte list list) seglin_priv" where
  "demo_lin = (segment_linear_create list_isl mem_ds [[1, 2, 3, 4], [5, 6]] 7)
     \<lparr>isl := [(0, 3, demo_slot 0 0 4), (4, 5, demo_slot 1 4 2)], total_size := 6, used_size := 6,
      max_block_size := 4, excess_block_size := 2\<rparr>"

lemma demo_slot_sel [simp]:
  "sl_seg_offset (demo_slot c off len) = off" "sl_seg_end (demo_slot c off len) = off + len - 1"
  "sl_len (demo_slot c off len) = len" "sl_cap_offset (demo_slot c off len) = 0"
  "db_cap (sl_data (demo_slot c off len)) = c" "db_warm (sl_data (demo_slot c off len)) = None"
  "db_max_size (sl_data (demo_slot c off len)) = len"
  by (simp_all add: demo_slot_def sl_new_slot_def data_block_create_def)

lemma demo_lin_sel [simp]:
  "isl demo_lin = [(0, 3, demo_slot 0 0 4), (4, 5, demo_slot 1 4 2)]" "total_size demo_lin = 6" "used_size demo_lin = 6"
  "max_block_size demo_lin = 4" "excess_block_size demo_lin = 2" "lin_world demo_lin = [[1, 2, 3, 4], [5, 6]]"
  "n_rid_default demo_lin = 1" "lin_ds demo_lin = mem_ds"
  by (simp_all add: demo_lin_def segment_linear_create_def)

lemma demo_lin_ok: "lin_ok mset (\<lambda>d. {..<length d}) mem_size demo_lin"
proof -
  have "keyed_disjoint sl_seg_offset sl_seg_end (mset (isl demo_lin))"
    by (auto simp: keyed_disjoint_def)
  moreover have "\<exists>b \<in> entries (mset (isl demo_lin)). sl_seg_offset b \<le> x \<and> x \<le> sl_seg_end b" if "0 \<le> x" "x < 6" for x
    using that by (cases "x \<le> 3") (auto simp: entries_def)
  ultimately show ?thesis unfolding lin_ok_def
    by (auto simp: entries_def slot_ok_def mem_size_def)
qed






text \<open>
  C8: truncating, and reserving space, keeps the segment in order and every byte below both the
  old and the new end. The reserved space has the requested length afterwards, is left as it was
  if a reservation asks for less, or if it could not grow, which the status reports. A
  reservation of exactly the present length is excluded.
\<close>

theorem sl_truncate_correct:
  assumes "interval_skiplist I items" "depot IO live cap_size bytes" "lin_ok items live cap_size s"
    and "n < 0 \<Longrightarrow> - n \<noteq> total_size s"
  shows "\<exists>st s'. sl_truncate I IO rnd s n = Ret (st, s') \<and> lin_ok items live cap_size s' \<and> same_params s s' \<and>
    (\<forall>x. 0 \<le> x \<and> x < total_size s \<and> x < total_size s' \<longrightarrow> lin_byte I bytes s' x = lin_byte I bytes s x) \<and>
    (total_size s' = (if n < 0 \<and> - n < total_size s then total_size s else \<bar>n\<bar>) \<or>
     total_size s' = total_size s \<and> total_size s < \<bar>n\<bar> \<and> op_state st = OP_STATE_FAILURE)"
  by (rule lin_store.truncate_correct [OF lin_storeI [OF assms(1,2)] assms(3,4)])

theorem sl_truncate_correct_witness:
  "\<exists>st s'. sl_truncate list_isl (mem_depot 4) (\<lambda>_. 0) demo_lin 5 = Ret (st, s') \<and> total_size s' = 5 \<and>
     lin_byte list_isl mem_bytes s' 4 = 5"
proof -
  have b: "lin_byte list_isl mem_bytes demo_lin 4 = 5"
    by (simp add: lin_byte_def overlaps_def slot_byte_def mem_bytes_def mem_of_def)
  show ?thesis
    using sl_truncate_correct [OF list_isl.interval_skiplist_axioms mem_depot.depot_axioms [where cap = 4] demo_lin_ok, where
        n = 5 and rnd = "\<lambda>_. 0"] b by auto
qed

text \<open>
  A write that cannot get the space it needs reports success all the same when it begins inside
  the reserved space: here three bytes are written at offset 5 of a segment of 6 bytes on a full
  depot; one is stored, and the segment claims a size of 8.
\<close>

theorem seglin_write_ignores_failed_growth:
  "\<exists>s'. seglin_write_func list_isl (mem_depot 2) (\<lambda>_. 0) demo_lin [ex_iovec_single 5 3] (\<lambda>_. 9) 0 = Ret (op_success_status, s') \<and>
     total_size s' = 6 \<and> seglin_size s' = 8"
  by (simp add: seglin_write_func_def sl_maxpos_def Let_def seglin_write_grow_def sl_truncate_def sl_grow_def sl_grow_last_def
      sl_new_slots.simps sl_grow_exec_def seglin_write_op_def plan_tasks_single overlaps_def seglin_size_def
      mem_depot_def sl_requests_def sl_new_slot_def sl_release_def data_block_destroy_def data_block_create_def)

text \<open>
  Reserving exactly the space a segment has overwrites its last byte with zero when the last
  block is not full.
\<close>

theorem sl_reserve_present_size_zeroes:
  "\<exists>s'. sl_truncate list_isl (mem_depot 4) (\<lambda>_. 0) demo_lin (-6) = Ret (op_success_status, s') \<and>
     lin_byte list_isl mem_bytes demo_lin 5 = 6 \<and> lin_byte list_isl mem_bytes s' 5 = 0"
  by (simp add: Let_def sl_truncate_def sl_grow_def sl_grow_last_def sl_insert_def sl_delete_def
      sl_new_slots.simps sl_grow_exec_def overlaps_def lin_byte_def slot_byte_def mem_bytes_def mem_of_def
      mem_depot_def mem_patch_def mem_put_def mem_get_def upt_rec)

end
