(* ===== verification/Segment_Lun.thy ===== *)
theory Segment_Lun
  imports Interval_Skiplist Data_Block Depot
begin

text \<open>
  The striped segment, \<open>src/segment_lun.c\<close>: rows of blocks, one block per device. A row is cut into
  stripes and a stripe into chunks; from stripe to stripe the chunks are rotated over the devices.
  The model covers the repair of a row, growing, shrinking, the decomposition of a transfer into
  one operation per device, reading and writing with the black list, cloning, removal, creation
  and destruction. One operation runs at a time, so the counter of operations in progress, which
  only delays a remap, is left out.
\<close>

section \<open>Data\<close>

record ('c, 'd) seglun_block =
  lb_data :: "('c, 'd) data_block"
  lb_cap_offset :: ex_off
  read_err_count :: int
  write_err_count :: int

abbreviation block_cap :: "('c, 'd) seglun_block \<Rightarrow> 'c" where
  "block_cap k \<equiv> db_cap (lb_data k)"

record ('c, 'd) seglun_row =
  lr_block :: "('c, 'd) seglun_block list"
  lr_seg_offset :: ex_off
  lr_seg_end :: ex_off
  lr_block_len :: ex_off
  lr_row_len :: ex_off

text \<open>The black list: resources that were slow, with the time at which they are tried again.\<close>

record blacklist =
  bl_table :: "(string \<times> int) list"
  bl_min_bandwidth :: ex_off
  bl_min_io_time :: int
  bl_timeout :: int

record ('m, 'c, 'd) seglun_priv =
  lun_id :: ex_id
  lun_name :: "string option"
  lun_ref_count :: int
  lun_used_size :: ex_off
  lun_total_size :: ex_off
  lun_max_block_size :: ex_off
  lun_excess_block_size :: ex_off
  max_row_size :: ex_off
  chunk_size :: ex_off
  stripe_size :: ex_off
  lun_rsq :: "rsq_base option"
  grow_count :: int
  n_devices :: int
  n_shift :: int
  lun_hard_errors :: int
  grow_break :: int
  map_version :: int
  notify_version :: int
  lun_isl :: 'm
  lun_ds :: "('c, 'd) ds_fn"
  db_cleanup :: "('c, 'd) data_block list"
  lun_bl :: "blacklist option"
  lun_world :: 'd

text \<open>
  The resource service as the driver uses it: the placement of the blocks of a row, given the
  requests and the resources that are taken already, and the translation of a capability to
  where its resource is now. For every request the placement returns the resource it chose and
  the capabilities it got, if it got them. A hint is the resource of a good block, if the block is
  good, and the text of the block's own query, if it has one.
\<close>

record rs_hint =
  fixed_rid_key :: "string option"
  local_query :: attr_value

record ('d, 'c) lun_rs =
  rs_place :: "'d \<Rightarrow> rsq_base option \<Rightarrow> (int \<times> ex_off) list \<Rightarrow> rs_hint list \<Rightarrow> int \<Rightarrow> int \<Rightarrow>
    op_state \<times> int \<times> (string option \<times> 'c option) list \<times> 'd"
  rs_translate :: "string option \<Rightarrow> 'c \<Rightarrow> 'c"

section \<open>Repairing a row\<close>

definition slun_perform_remap ::
  "('m, ('c, 'd) seglun_row) isl_ops \<Rightarrow> ('d, 'c) lun_rs \<Rightarrow> ('m, 'c, 'd) seglun_priv \<Rightarrow> ('m, 'c, 'd) seglun_priv" where
  "slun_perform_remap I RS s =
     s\<lparr>lun_isl := foldl (\<lambda>m b. isl_insert I (isl_remove I m (lr_seg_offset b) (lr_seg_end b) b)
          (lr_seg_offset b) (lr_seg_end b)
          (b\<lparr>lr_block := map (\<lambda>k. k\<lparr>lb_data := (lb_data k)\<lparr>db_cap := rs_translate RS (db_rid_key (lb_data k)) (db_cap (lb_data k))\<rparr>\<rparr>)
               (lr_block b)\<rparr>))
        (lun_isl s) (isl_all I (lun_isl s))\<rparr>"

text \<open>
  The size check probes every block. A block that is too short is truncated up to the length of
  the row's blocks; a block of size 0 counts as missing. The status of a block is 1 if it is missing, 2
  if it was lengthened, and -2 if that failed.
\<close>

fun lun_probe_blocks :: "('d, 'c) ds_io \<Rightarrow> 'd \<Rightarrow> ('c, 'd) seglun_block list \<Rightarrow> ex_off list \<times> 'd" where
  "lun_probe_blocks IO d [] = ([], d)"
| "lun_probe_blocks IO d (k # ks) =
     (case io_probe IO d (db_cap (lb_data k)) of
        (_, n, d1) \<Rightarrow> (case lun_probe_blocks IO d1 ks of (ns, d2) \<Rightarrow> (n # ns, d2)))"

fun lun_size_blocks ::
  "('d, 'c) ds_io \<Rightarrow> 'd \<Rightarrow> ex_off \<Rightarrow> ('c, 'd) seglun_block list \<Rightarrow> int list \<Rightarrow> ex_off list \<Rightarrow>
   ('c, 'd) seglun_block list \<times> int list \<times> int \<times> 'd" where
  "lun_size_blocks IO d len (k # ks) (b # bs) (psize # ps) =
     (let (k', b', n, d1) =
        (if psize < lb_cap_offset k + len then
           (if psize = 0 then (k, 1, 1, d)
            else (case io_truncate IO d (db_cap (lb_data k)) (lb_cap_offset k + len) of
                    (OP_STATE_SUCCESS, d1) \<Rightarrow> (k\<lparr>lb_data := (lb_data k)\<lparr>db_max_size := len\<rparr>\<rparr>, 2, 0, d1)
                  | (OP_STATE_FAILURE, d1) \<Rightarrow> (k, -2, 1, d1)))
         else (k, b, 0, d));
          (ks', bs', n2, d2) = lun_size_blocks IO d1 len ks bs ps
      in (k' # ks', b' # bs', n + n2, d2))"
| "lun_size_blocks IO d len ks bs ps = (ks, bs, 0, d)"

definition slun_row_size_check ::
  "('d, 'c) ds_io \<Rightarrow> 'd \<Rightarrow> ('c, 'd) seglun_row \<Rightarrow> int list \<Rightarrow> ('c, 'd) seglun_row \<times> int list \<times> int \<times> 'd" where
  "slun_row_size_check IO d b status =
     (let (ps, d1) = lun_probe_blocks IO d (lr_block b);
          (ks, status', n, d2) = lun_size_blocks IO d1 (lr_block_len b) (lr_block b) status ps
      in (b\<lparr>lr_block := ks\<rparr>, status', n, d2))"

text \<open>Padding: a zero is written to the last byte of every block that was lengthened or is new.\<close>

fun lun_pad_blocks ::
  "('d, 'c) ds_io \<Rightarrow> 'd \<Rightarrow> ('c, 'd) seglun_block list \<Rightarrow> int list \<Rightarrow> ('c, 'd) seglun_block list \<times> int list \<times> int \<times> 'd" where
  "lun_pad_blocks IO d (k # ks) (b # bs) =
     (let (k', b', n, d1) =
        (if b = 2 then
           (case io_write IO d (db_cap (lb_data k)) (lb_cap_offset k + db_max_size (lb_data k) - 1) (\<lambda>_. 0) 0 1 of
              (OP_STATE_SUCCESS, d1) \<Rightarrow> (k\<lparr>lb_data := (lb_data k)\<lparr>db_size := db_max_size (lb_data k)\<rparr>\<rparr>, 0, 0, d1)
            | (OP_STATE_FAILURE, d1) \<Rightarrow> (k, 3, 1, d1))
         else if b = -2 then (k, 3, 1, d)
         else (k, b, 0, d));
          (ks', bs', n2, d2) = lun_pad_blocks IO d1 ks bs
      in (k' # ks', b' # bs', n + n2, d2))"
| "lun_pad_blocks IO d ks bs = (ks, bs, 0, d)"

definition slun_row_pad_fix ::
  "('d, 'c) ds_io \<Rightarrow> 'd \<Rightarrow> ('c, 'd) seglun_row \<Rightarrow> int list \<Rightarrow> ('c, 'd) seglun_row \<times> int list \<times> int \<times> 'd" where
  "slun_row_pad_fix IO d b status =
     (case lun_pad_blocks IO d (lr_block b) status of (ks, status', n, d') \<Rightarrow> (b\<lparr>lr_block := ks\<rparr>, status', n, d'))"

subsection \<open>Replacing blocks\<close>

text \<open>
  One pass of the replacement. Good blocks take the hints from the front, blocks to be replaced
  from the back. A block to be replaced gets a new descriptor, which takes over the attributes of
  the old one; the old one is kept for the end, and its removal is queued if there is a queue.
  \<open>None\<close> stands for a block whose descriptor is NULL.
\<close>

record ('c, 'd) lun_fix =
  fx_blocks :: "('c, 'd) seglun_block option list"
  fx_status :: "int list"
  fx_hints :: "rs_hint list"
  fx_good :: nat
  fx_bad :: nat
  fx_reqs :: "(int \<times> ex_off) list"
  fx_missing :: "nat list"
  fx_cleanup :: "('c, 'd) data_block list"
  fx_qs :: "'c list option"

definition lun_new_block ::
  "('c, 'd) ds_fn \<Rightarrow> ex_id \<Rightarrow> ex_off \<Rightarrow> ('c, 'd) seglun_block option \<Rightarrow> ('c, 'd) seglun_block" where
  "lun_new_block ds rnd len old =
     \<lparr>lb_data = (data_block_create ds rnd)
        \<lparr>db_rid_key := None,
         db_attr_stack := (case old of None \<Rightarrow> None | Some k \<Rightarrow> db_attr_stack (lb_data k)),
         db_attrs := (case old of None \<Rightarrow> [] | Some k \<Rightarrow> db_attrs (lb_data k)),
         db_max_size := len, db_size := len\<rparr>,
      lb_cap_offset = (case old of None \<Rightarrow> 0 | Some k \<Rightarrow> lb_cap_offset k), read_err_count = 0, write_err_count = 0\<rparr>"

definition lun_fix_device ::
  "('c, 'd) ds_fn \<Rightarrow> ex_id \<Rightarrow> ex_off \<Rightarrow> nat \<Rightarrow> ('c, 'd) lun_fix \<Rightarrow> ('c, 'd) lun_fix outcome" where
  "lun_fix_device ds rnd len i f =
     (if fx_status f ! i = 0 then
        (case fx_blocks f ! i of
           None \<Rightarrow> Crash
         | Some k \<Rightarrow>
             Ret (f\<lparr>fx_hints := (fx_hints f)[fx_good f := \<lparr>fixed_rid_key = db_rid_key (lb_data k),
                        local_query = data_block_get_attr (lb_data k) ''migrate''\<rparr>],
                    fx_good := fx_good f + 1\<rparr>))
      else
        (let old = fx_blocks f ! i; k = lun_new_block ds rnd len old
         in Ret (f\<lparr>fx_blocks := (fx_blocks f)[i := Some k],
                   fx_hints := (fx_hints f)[fx_bad f := \<lparr>fixed_rid_key = None,
                      local_query = data_block_get_attr (lb_data k) ''migrate''\<rparr>],
                   fx_reqs := fx_reqs f @ [(int (fx_bad f), len)], fx_missing := fx_missing f @ [i],
                   fx_bad := fx_bad f - 1,
                   fx_cleanup := (case old of None \<Rightarrow> fx_cleanup f
                                  | Some b \<Rightarrow> (lb_data b)\<lparr>db_attr_stack := None\<rparr> # fx_cleanup f),
                   fx_qs := (case old of None \<Rightarrow> fx_qs f
                             | Some b \<Rightarrow> map_option (\<lambda>q. q @ [db_cap (lb_data b)]) (fx_qs f))\<rparr>)))"

fun lun_fix_pass ::
  "('c, 'd) ds_fn \<Rightarrow> (nat \<Rightarrow> ex_id) \<Rightarrow> ex_off \<Rightarrow> nat list \<Rightarrow> ('c, 'd) lun_fix \<Rightarrow> ('c, 'd) lun_fix outcome" where
  "lun_fix_pass ds rnd len [] f = Ret f"
| "lun_fix_pass ds rnd len (i # is) f =
     (case lun_fix_device ds (rnd i) len i f of Crash \<Rightarrow> Crash | Ret f' \<Rightarrow> lun_fix_pass ds rnd len is f')"

text \<open>
  The answers to the requests: a block that got capabilities is warmed and marked for padding; a
  resource that failed is excluded from the query of the next pass.
\<close>

definition lun_exclude :: "rsq_base option \<Rightarrow> string \<Rightarrow> rsq_base option outcome" where
  "lun_exclude rsq key =
     (case rs_query_base_add rsq RSQ_BASE_OP_KV (Some ''rid_key'') RSQ_BASE_KV_EXACT (Some key) RSQ_BASE_KV_EXACT of
        Crash \<Rightarrow> Crash
      | Ret (_, r1) \<Rightarrow>
          (case rs_query_base_add r1 RSQ_BASE_OP_NOT None 0 None 0 of
             Crash \<Rightarrow> Crash
           | Ret (_, r2) \<Rightarrow>
               (case rs_query_base_add r2 RSQ_BASE_OP_AND None 0 None 0 of
                  Crash \<Rightarrow> Crash
                | Ret (_, r3) \<Rightarrow> Ret r3)))"

fun lun_fix_results ::
  "(nat \<times> string option \<times> 'c option) list \<Rightarrow> rsq_base option \<Rightarrow> 'd \<Rightarrow> ('c, 'd) lun_fix \<Rightarrow>
   (int \<times> rsq_base option \<times> 'd \<times> ('c, 'd) lun_fix) outcome" where
  "lun_fix_results [] rsq d f = Ret (0, rsq, d, f)"
| "lun_fix_results ((i, rid, cap) # rs) rsq d f =
     (case cap of
        Some c \<Rightarrow>
          (case fx_blocks f ! i of
             None \<Rightarrow> Crash
           | Some k \<Rightarrow>
               (case data_block_auto_warm d ((lb_data k)\<lparr>db_cap := c\<rparr>) of
                  Crash \<Rightarrow> Crash
                | Ret (d1, db) \<Rightarrow>
                    (case lun_fix_results rs rsq d1
                            (f\<lparr>fx_blocks := (fx_blocks f)[i := Some (k\<lparr>lb_data := db\<lparr>db_rid_key := rid,
                                  db_ref_count := db_ref_count db + 1\<rparr>\<rparr>)],
                               fx_status := (fx_status f)[i := 2]\<rparr>) of
                       Crash \<Rightarrow> Crash
                     | Ret (n, r, d2, f2) \<Rightarrow> Ret (n + 1, r, d2, f2))))
      | None \<Rightarrow>
          (case (case rid of None \<Rightarrow> Ret rsq | Some key \<Rightarrow> lun_exclude rsq key) of
             Crash \<Rightarrow> Crash
           | Ret r1 \<Rightarrow> lun_fix_results rs r1 d f))"

definition lun_all_blocks :: "('c, 'd) seglun_block option list \<Rightarrow> ('c, 'd) seglun_block list outcome" where
  "lun_all_blocks ks = (if None \<in> set ks then Crash else Ret (map the ks))"

text \<open>The loop, with at most \<open>Suc n\<close> passes to go. The first component of the result counts the blocks in error.\<close>

fun lun_replace_loop ::
  "nat \<Rightarrow> ('d, 'c) ds_io \<Rightarrow> ('d, 'c) lun_rs \<Rightarrow> ('c, 'd) ds_fn \<Rightarrow> (nat \<Rightarrow> nat \<Rightarrow> ex_id) \<Rightarrow> ('c, 'd) seglun_row \<Rightarrow>
   rsq_base option \<Rightarrow> 'd \<Rightarrow> ('c, 'd) lun_fix \<Rightarrow> (int \<times> 'd \<times> ('c, 'd) lun_fix) outcome" where
  "lun_replace_loop n IO RS ds rnd b rsq d f0 =
     (let nd = length (fx_blocks f0);
          f = f0\<lparr>fx_good := 0, fx_bad := nd - 1, fx_reqs := [], fx_missing := []\<rparr>
      in case lun_fix_pass ds (rnd n) (lr_block_len b) [0..<nd] f of
           Crash \<Rightarrow> Crash
         | Ret f1 \<Rightarrow>
             (case rs_place RS d rsq (fx_reqs f1) (fx_hints f1) (int (fx_good f1)) (int nd) of
                (st, code, res, d1) \<Rightarrow>
                  if st \<noteq> OP_STATE_SUCCESS \<and> (code = RS_ERROR_NOT_ENOUGH_RIDS \<or> code = RS_ERROR_EMPTY_STACK) then
                    Ret (int (length (fx_missing f1)), d1, f1)
                  else
                    (case lun_fix_results (zip (fx_missing f1) res) rsq d1 f1 of
                       Crash \<Rightarrow> Crash
                     | Ret (got, rsq', d2, f2) \<Rightarrow>
                         (case lun_all_blocks (fx_blocks f2) of
                            Crash \<Rightarrow> Crash
                          | Ret ks \<Rightarrow>
                              (case slun_row_pad_fix IO d2 (b\<lparr>lr_block := ks\<rparr>) (fx_status f2) of
                                 (b', status', perr, d3) \<Rightarrow>
                                   (let err = int (length (fx_missing f1)) - got + perr;
                                        f3 = f2\<lparr>fx_blocks := map Some (lr_block b'), fx_status := status'\<rparr>
                                    in case n of
                                         0 \<Rightarrow> Ret (err, d3, f3)
                                       | Suc n' \<Rightarrow> if err > 0 then lun_replace_loop n' IO RS ds rnd b rsq' d3 f3
                                                  else Ret (err, d3, f3)))))))"

definition slun_row_replace_fix ::
  "('d, 'c) ds_io \<Rightarrow> ('d, 'c) lun_rs \<Rightarrow> ('c, 'd) ds_fn \<Rightarrow> (nat \<Rightarrow> nat \<Rightarrow> ex_id) \<Rightarrow> rsq_base option \<Rightarrow> ('c, 'd) seglun_row \<Rightarrow>
   'd \<Rightarrow> ('c, 'd) lun_fix \<Rightarrow> (int \<times> 'd \<times> ('c, 'd) lun_fix) outcome" where
  "slun_row_replace_fix IO RS ds rnd query b d f =
     (case rs_query_base_dup query of
        Crash \<Rightarrow> Crash
      | Ret rsq \<Rightarrow> lun_replace_loop 9999 IO RS ds rnd b (Some rsq) d f)"


declare lun_replace_loop.simps [simp del]

section \<open>Growing\<close>

definition lun_insert :: "('m, ('c, 'd) seglun_row) isl_ops \<Rightarrow> 'm \<Rightarrow> ('c, 'd) seglun_row \<Rightarrow> 'm" where
  "lun_insert I m b = isl_insert I m (lr_seg_offset b) (lr_seg_end b) b"

definition lun_delete :: "('m, ('c, 'd) seglun_row) isl_ops \<Rightarrow> 'm \<Rightarrow> ('c, 'd) seglun_row \<Rightarrow> 'm" where
  "lun_delete I m b = isl_remove I m (lr_seg_offset b) (lr_seg_end b) b"

text \<open>Sizes are rounded up to whole stripes.\<close>

definition lun_round :: "('m, 'c, 'd) seglun_priv \<Rightarrow> ex_off \<Rightarrow> ex_off" where
  "lun_round s n =
     (let dsize = n div stripe_size s * stripe_size s
      in if n mod stripe_size s > 0 then dsize + stripe_size s else dsize)"

definition lun_row_set_len :: "('m, 'c, 'd) seglun_priv \<Rightarrow> ('c, 'd) seglun_row \<Rightarrow> ex_off \<Rightarrow> ('c, 'd) seglun_row" where
  "lun_row_set_len s b len =
     b\<lparr>lr_block_len := len, lr_row_len := len * n_devices s, lr_seg_end := lr_seg_offset b + len * n_devices s - 1\<rparr>"

text \<open>
  The last row is enlarged when it is not full. The padding, and with it the test for errors, only
  takes place when some block was lengthened. The result is the segment and the offset where new
  rows begin.
\<close>

definition lun_grow_last ::
  "('m, ('c, 'd) seglun_row) isl_ops \<Rightarrow> ('d, 'c) ds_io \<Rightarrow> ('m, 'c, 'd) seglun_priv \<Rightarrow> ex_off \<Rightarrow>
   (('m, 'c, 'd) seglun_priv \<times> ex_off) outcome" where
  "lun_grow_last I IO s new_size =
     (if lun_total_size s > 0 \<and> grow_break s = 0 then
        (case isl_search I (lun_isl s) (lun_total_size s - 1) (lun_total_size s) of
           [] \<Rightarrow> Crash
         | b # _ \<Rightarrow>
             if lr_row_len b < max_row_size s then
               (let d0 = c_div (new_size - lr_seg_offset b) (n_devices s);
                    d1 = d0 + d0 mod chunk_size s;
                    dsize = (if d1 > lun_max_block_size s then lun_max_block_size s else d1);
                    (b1, status, _, w1) = slun_row_size_check IO (lun_world s) (lun_row_set_len s b dsize)
                                            (replicate (nat (n_devices s)) 0);
                    (b2, _, berr, w2) = (if 2 \<in> set status then slun_row_pad_fix IO w1 b1 status else (b1, status, 0, w1));
                    b3 = (if berr > 0 then
                            (lun_row_set_len s b2 (lr_block_len b))
                              \<lparr>lr_block := map (\<lambda>k. k\<lparr>lb_data := (lb_data k)\<lparr>db_max_size := lr_block_len b,
                                 db_size := lr_block_len b\<rparr>\<rparr>) (lr_block b2)\<rparr>
                          else b2)
                in Ret (s\<lparr>lun_isl := lun_insert I (lun_delete I (lun_isl s) b) b3, lun_world := w2\<rparr>, lr_seg_end b3 + 1))
             else Ret (s, lr_seg_end b + 1))
      else Ret (s, lun_total_size s))"

definition lun_new_row :: "('m, 'c, 'd) seglun_priv \<Rightarrow> ex_off \<Rightarrow> ex_off \<Rightarrow> ('c, 'd) seglun_row" where
  "lun_new_row s off new_size =
     (let dsize = (if off + max_row_size s > new_size then new_size - off else max_row_size s);
          len = c_div dsize (n_devices s)
      in \<lparr>lr_block = [], lr_seg_offset = off, lr_seg_end = off + len * n_devices s - 1, lr_block_len = len,
          lr_row_len = len * n_devices s\<rparr>)"

definition lun_fix_start :: "('m, 'c, 'd) seglun_priv \<Rightarrow> ('c, 'd) lun_fix" where
  "lun_fix_start s =
     (let n = nat (n_devices s)
      in \<lparr>fx_blocks = replicate n None, fx_status = replicate n 1,
          fx_hints = replicate n \<lparr>fixed_rid_key = None, local_query = NullValue\<rparr>, fx_good = 0, fx_bad = 0, fx_reqs = [],
          fx_missing = [], fx_cleanup = db_cleanup s, fx_qs = None\<rparr>)"

text \<open>Blocks of a row that could not be completed lose the reference they have.\<close>

fun lun_release_blocks :: "'d \<Rightarrow> ('c, 'd) seglun_block option list \<Rightarrow> 'd outcome" where
  "lun_release_blocks w [] = Ret w"
| "lun_release_blocks w (None # ks) = lun_release_blocks w ks"
| "lun_release_blocks w (Some k # ks) =
     (let db = lb_data k
      in case data_block_destroy w (Some (if db_ref_count db > 0 then db\<lparr>db_ref_count := db_ref_count db - 1\<rparr> else db)) of
           Crash \<Rightarrow> Crash
         | Ret (w', _) \<Rightarrow> lun_release_blocks w' ks)"

function lun_grow_rows ::
  "('m, ('c, 'd) seglun_row) isl_ops \<Rightarrow> ('d, 'c) ds_io \<Rightarrow> ('d, 'c) lun_rs \<Rightarrow> (nat \<Rightarrow> nat \<Rightarrow> nat \<Rightarrow> ex_id) \<Rightarrow> nat \<Rightarrow>
   ex_off \<Rightarrow> ex_off \<Rightarrow> ('m, 'c, 'd) seglun_priv \<Rightarrow> (int \<times> ('m, 'c, 'd) seglun_priv) outcome" where
  "lun_grow_rows I IO RS rnd j off new_size s =
     (if off < new_size \<and> 0 < max_row_size s then
        (let b = lun_new_row s off new_size
         in case slun_row_replace_fix IO RS (lun_ds s) (rnd j) (lun_rsq s) b (lun_world s) (lun_fix_start s) of
              Crash \<Rightarrow> Crash
            | Ret (err, d, f) \<Rightarrow>
                if err = 0 then
                  (case lun_all_blocks (fx_blocks f) of
                     Crash \<Rightarrow> Crash
                   | Ret ks \<Rightarrow>
                       lun_grow_rows I IO RS rnd (j + 1) (off + max_row_size s) new_size
                         (s\<lparr>lun_isl := lun_insert I (lun_isl s) (b\<lparr>lr_block := ks\<rparr>), lun_world := d, db_cleanup := fx_cleanup f\<rparr>))
                else
                  (case lun_release_blocks d (fx_blocks f) of
                     Crash \<Rightarrow> Crash
                   | Ret d' \<Rightarrow> Ret (err, s\<lparr>lun_world := d', db_cleanup := fx_cleanup f\<rparr>)))
      else Ret (0, s))"
  by pat_completeness auto
termination
  by (relation "measure (\<lambda>(I, IO, RS, rnd, j, off, new_size, s). nat (new_size - off))") (auto split: if_splits)

declare lun_grow_rows.simps [simp del]

definition seglun_grow ::
  "('m, ('c, 'd) seglun_row) isl_ops \<Rightarrow> ('d, 'c) ds_io \<Rightarrow> ('d, 'c) lun_rs \<Rightarrow> (nat \<Rightarrow> nat \<Rightarrow> nat \<Rightarrow> ex_id) \<Rightarrow>
   ('m, 'c, 'd) seglun_priv \<Rightarrow> ex_off \<Rightarrow> (op_status \<times> ('m, 'c, 'd) seglun_priv) outcome" where
  "seglun_grow I IO RS rnd s new_size_arg =
     (let asked = (if new_size_arg < 0 then - new_size_arg else new_size_arg)
      in if new_size_arg < 0 \<and> asked < lun_total_size s then Ret (op_success_status, s)
         else if stripe_size s \<le> 0 \<or> n_devices s \<le> 0 \<or> chunk_size s \<le> 0 \<or> max_row_size s \<le> 0 then Crash
         else
           (let new_size = lun_round s asked
            in case lun_grow_last I IO s new_size of
                 Crash \<Rightarrow> Crash
               | Ret (s1, lo) \<Rightarrow>
                   (case lun_grow_rows I IO RS rnd 0 lo new_size s1 of
                      Crash \<Rightarrow> Crash
                    | Ret (err, s2) \<Rightarrow>
                        (let s3 = s2\<lparr>grow_count := grow_count s2 + 1\<rparr>
                         in if err = 0 then
                              Ret (op_success_status,
                                   s3\<lparr>lun_total_size := new_size,
                                      lun_used_size := (if new_size_arg > -1 then new_size else lun_used_size s3)\<rparr>)
                            else Ret (op_failure_status, s3)))))"

section \<open>Shrinking and truncating\<close>

fun lun_remove_blocks :: "('d, 'c) ds_io \<Rightarrow> 'd \<Rightarrow> ('c, 'd) seglun_block list \<Rightarrow> op_state \<times> 'd" where
  "lun_remove_blocks IO d [] = (OP_STATE_SUCCESS, d)"
| "lun_remove_blocks IO d (k # ks) =
     (case io_remove IO d (db_cap (lb_data k)) of
        (st, d1) \<Rightarrow> (case lun_remove_blocks IO d1 ks of (st2, d2) \<Rightarrow> (both st st2, d2)))"

fun lun_cut_blocks :: "('d, 'c) ds_io \<Rightarrow> 'd \<Rightarrow> ex_off \<Rightarrow> ('c, 'd) seglun_block list \<Rightarrow> op_state \<times> 'd" where
  "lun_cut_blocks IO d n [] = (OP_STATE_SUCCESS, d)"
| "lun_cut_blocks IO d n (k # ks) =
     (case io_truncate IO d (db_cap (lb_data k)) n of
        (st, d1) \<Rightarrow> (case lun_cut_blocks IO d1 n ks of (st2, d2) \<Rightarrow> (both st st2, d2)))"

fun lun_release_all :: "'d \<Rightarrow> ('c, 'd) seglun_block list \<Rightarrow> 'd outcome" where
  "lun_release_all w [] = Ret w"
| "lun_release_all w (k # ks) =
     (case data_block_destroy w (Some ((lb_data k)\<lparr>db_ref_count := db_ref_count (lb_data k) - 1\<rparr>)) of
        Crash \<Rightarrow> Crash
      | Ret (w', _) \<Rightarrow> lun_release_all w' ks)"

definition seglun_shrink ::
  "('m, ('c, 'd) seglun_row) isl_ops \<Rightarrow> ('d, 'c) ds_io \<Rightarrow> ('m, 'c, 'd) seglun_priv \<Rightarrow> ex_off \<Rightarrow>
   (op_status \<times> ('m, 'c, 'd) seglun_priv) outcome" where
  "seglun_shrink I IO s asked =
     (if stripe_size s \<le> 0 \<or> n_devices s \<le> 0 then Crash
      else
        (let new_size = lun_round s asked
         in case isl_search I (lun_isl s) new_size (lun_total_size s) of
              [] \<Rightarrow> Ret (op_success_status, s\<lparr>lun_total_size := new_size, lun_used_size := new_size\<rparr>)
            | b # bs \<Rightarrow>
                (let dsize = new_size - lr_seg_offset b;
                     blen = c_div dsize (n_devices s);
                     gone = (if dsize = 0 then b # bs else bs);
                     (st1, d1) = (if dsize = 0 then lun_remove_blocks IO (lun_world s) (lr_block b)
                                  else lun_cut_blocks IO (lun_world s) blen (lr_block b));
                     (st2, d2) = lun_remove_blocks IO d1 (concat (map lr_block bs))
                 in case lun_release_all d2 (concat (map lr_block (rev gone))) of
                      Crash \<Rightarrow> Crash
                    | Ret d3 \<Rightarrow>
                        (let m1 = foldl (lun_delete I) (lun_isl s) (rev gone);
                             m2 = (if dsize = 0 then m1
                                   else lun_insert I (lun_delete I m1 b)
                                     (b\<lparr>lr_seg_end := lr_seg_offset b + dsize - 1, lr_block_len := blen, lr_row_len := dsize,
                                        lr_block := map (\<lambda>k. k\<lparr>lb_data := (lb_data k)\<lparr>db_max_size := blen, db_size := blen\<rparr>\<rparr>)
                                          (lr_block b)\<rparr>))
                         in Ret (if both st1 st2 = OP_STATE_SUCCESS then op_success_status else op_failure_status,
                                 s\<lparr>lun_isl := m2, lun_total_size := new_size, lun_used_size := new_size, lun_world := d3\<rparr>)))))"

definition slun_truncate ::
  "('m, ('c, 'd) seglun_row) isl_ops \<Rightarrow> ('d, 'c) ds_io \<Rightarrow> ('d, 'c) lun_rs \<Rightarrow> (nat \<Rightarrow> nat \<Rightarrow> nat \<Rightarrow> ex_id) \<Rightarrow>
   ('m, 'c, 'd) seglun_priv \<Rightarrow> ex_off \<Rightarrow> (op_status \<times> ('m, 'c, 'd) seglun_priv) outcome" where
  "slun_truncate I IO RS rnd s new_size =
     (if new_size < 0 then seglun_grow I IO RS rnd s new_size
      else if lun_total_size s > new_size then seglun_shrink I IO s new_size
      else if lun_total_size s < new_size then seglun_grow I IO RS rnd s new_size
      else Ret (op_success_status, s))"


section \<open>Decomposing a transfer\<close>

text \<open>
  What one device has to do: extents of its allocation, the pieces of the buffer they correspond
  to, and their length. While a transfer on a row is decomposed, the device has one extent in
  the making, at offset -1 until it is used.
\<close>

record lun_rw =
  lw_ex :: "ex_iovec list"
  lw_iov :: "(ex_off \<times> ex_off) list"
  lw_len :: ex_off

definition lun_rw_empty :: lun_rw where
  "lun_rw_empty = \<lparr>lw_ex = [], lw_iov = [], lw_len = 0\<rparr>"

definition lun_chunk ::
  "('m, 'c, 'd) seglun_priv \<Rightarrow> ex_off \<Rightarrow> ex_off \<Rightarrow> ex_off \<Rightarrow> int \<Rightarrow> nat \<Rightarrow> ex_off \<times> ex_off \<times> (ex_off \<times> ex_off) list \<Rightarrow>
   ex_off \<times> ex_off \<times> (ex_off \<times> ex_off) list" where
  "lun_chunk s lo hi bpos ss i t =
     (let (off, len, iov) = t;
          dev = (int i + ss * n_shift s) mod n_devices s;
          chunk_off = ss * stripe_size s + dev * chunk_size s;
          chunk_end = chunk_off + chunk_size s - 1
      in if chunk_end \<ge> lo \<and> chunk_off \<le> hi then
           (let bg = (if chunk_off < lo then lo - chunk_off else 0);
                cend = (if chunk_end > hi then hi - chunk_off else chunk_size s - 1);
                nbytes = cend - bg + 1
            in (if off = -1 then ss * chunk_size s + bg else off, len + nbytes,
                iov @ [(bpos + chunk_off + bg - lo, nbytes)]))
         else (off, len, iov))"

function lun_stripes ::
  "('m, 'c, 'd) seglun_priv \<Rightarrow> ex_off \<Rightarrow> ex_off \<Rightarrow> ex_off \<Rightarrow> int \<Rightarrow> (ex_off \<times> ex_off \<times> (ex_off \<times> ex_off) list) list \<Rightarrow>
   (ex_off \<times> ex_off \<times> (ex_off \<times> ex_off) list) list" where
  "lun_stripes s lo hi bpos ss ts =
     (if ss * stripe_size s \<le> hi \<and> 0 < stripe_size s then
        lun_stripes s lo hi bpos (ss + 1) (map (\<lambda>(i, t). lun_chunk s lo hi bpos ss i t) (enumerate 0 ts))
      else ts)"
  by pat_completeness auto
termination
proof (relation "measure (\<lambda>(s, lo, hi, bpos, ss, ts). nat (hi + 1 - ss * stripe_size s))", goal_cases)
  case (2 s lo hi bpos ss ts)
  then have "(ss + 1) * stripe_size s > ss * stripe_size s" by (simp add: algebra_simps)
  with 2 show ?case by simp
qed simp

declare lun_stripes.simps [simp del]

definition lun_row_decompose ::
  "('m, 'c, 'd) seglun_priv \<Rightarrow> lun_rw list \<Rightarrow> ex_off \<Rightarrow> ex_off \<Rightarrow> ex_off \<Rightarrow> lun_rw list" where
  "lun_row_decompose s rw_buf start bpos rwlen =
     (let lo = start; hi = lo + rwlen - 1;
          ts = lun_stripes s lo hi bpos (lo div stripe_size s) (replicate (length rw_buf) (-1, 0, []))
      in map2 (\<lambda>w (off, len, iov).
           (let w1 = w\<lparr>lw_iov := lw_iov w @ iov\<rparr>
            in if off \<ge> 0 then w1\<lparr>lw_ex := lw_ex w @ [ex_iovec_single off len], lw_len := lw_len w + len\<rparr> else w1)) rw_buf ts)"

section \<open>Reading and writing\<close>

text \<open>
  The rows a transfer meets, in the order in which they are met first, each with what its devices
  have to do. A row that is met again adds to its entry.
\<close>

type_synonym ('c, 'd) lun_table = "(('c, 'd) seglun_row \<times> lun_rw list) list"

definition lun_table_add ::
  "nat \<Rightarrow> ('c, 'd) seglun_row \<Rightarrow> (lun_rw list \<Rightarrow> lun_rw list) \<Rightarrow> ('c, 'd) lun_table \<Rightarrow> ('c, 'd) lun_table" where
  "lun_table_add n b f tab =
     (if b \<in> fst ` set tab then map (\<lambda>(r, ws). if r = b then (r, f ws) else (r, ws)) tab
      else tab @ [(b, f (replicate n lun_rw_empty))])"

fun lun_plan_rows ::
  "('m, 'c, 'd) seglun_priv \<Rightarrow> ex_off \<Rightarrow> ex_off \<Rightarrow> ('c, 'd) seglun_row list \<Rightarrow> ex_off \<Rightarrow> ('c, 'd) lun_table \<Rightarrow>
   ex_off \<times> ('c, 'd) lun_table" where
  "lun_plan_rows s lo hi [] bpos tab = (bpos, tab)"
| "lun_plan_rows s lo hi (b # bs) bpos tab =
     (let start = (if lo \<le> lr_seg_offset b then 0 else lo - lr_seg_offset b);
          bend = (if hi \<ge> lr_seg_end b then lr_row_len b - 1 else hi - lr_seg_offset b);
          blen = bend - start + 1
      in lun_plan_rows s lo hi bs (bpos + blen)
           (lun_table_add (nat (n_devices s)) b (\<lambda>ws. lun_row_decompose s ws start bpos blen) tab))"

fun lun_plan_iov ::
  "('m, ('c, 'd) seglun_row) isl_ops \<Rightarrow> ('m, 'c, 'd) seglun_priv \<Rightarrow> ex_iovec list \<Rightarrow> ex_off \<Rightarrow> ('c, 'd) lun_table \<Rightarrow>
   ('c, 'd) lun_table" where
  "lun_plan_iov I s [] bpos tab = tab"
| "lun_plan_iov I s (v # vs) bpos tab =
     (let lo = iov_offset v; hi = lo + iov_len v - 1;
          (bpos', tab') = lun_plan_rows s lo hi (isl_search I (lun_isl s) lo hi) bpos tab
      in lun_plan_iov I s vs bpos' tab')"

text \<open>
  The black list decides which devices are skipped: those that are listed and not expired, at most
  \<open>mx\<close> of them in a row.
\<close>

definition lun_skip :: "blacklist option \<Rightarrow> int \<Rightarrow> int \<Rightarrow> string \<Rightarrow> int \<Rightarrow> bool \<times> blacklist option \<times> int" where
  "lun_skip bl mx now rid cnt =
     (case bl of
        None \<Rightarrow> (False, None, cnt)
      | Some B \<Rightarrow>
          (case map_of (bl_table B) rid of
             None \<Rightarrow> (False, bl, cnt)
           | Some t \<Rightarrow>
               if t < now then (False, Some (B\<lparr>bl_table := filter (\<lambda>e. fst e \<noteq> rid) (bl_table B)\<rparr>), cnt)
               else if cnt \<ge> mx then (False, bl, cnt)
               else (True, bl, cnt + 1)))"

text \<open>A task: the row and the device, what to do, and whether it is skipped.\<close>

record ('c, 'd) lun_task =
  lk_row :: "('c, 'd) seglun_row"
  lk_dev :: nat
  lk_block :: "('c, 'd) seglun_block"
  lk_rw :: lun_rw
  lk_skip :: bool

fun lun_row_tasks ::
  "int \<Rightarrow> int \<Rightarrow> ('c, 'd) seglun_row \<Rightarrow> (nat \<times> ('c, 'd) seglun_block \<times> lun_rw) list \<Rightarrow> blacklist option \<Rightarrow> int \<Rightarrow>
   ('c, 'd) lun_task list \<times> blacklist option" where
  "lun_row_tasks mx now b [] bl cnt = ([], bl)"
| "lun_row_tasks mx now b ((i, k, w) # ks) bl cnt =
     (if lw_ex w = [] then lun_row_tasks mx now b ks bl cnt
      else
        (let (skip, bl1, cnt1) = lun_skip bl mx now (case db_rid_key (lb_data k) of None \<Rightarrow> '''' | Some r \<Rightarrow> r) cnt;
             (ts, bl2) = lun_row_tasks mx now b ks bl1 cnt1
         in (\<lparr>lk_row = b, lk_dev = i, lk_block = k, lk_rw = w, lk_skip = skip\<rparr> # ts, bl2)))"

fun lun_tasks :: "int \<Rightarrow> int \<Rightarrow> ('c, 'd) lun_table \<Rightarrow> blacklist option \<Rightarrow> ('c, 'd) lun_task list \<times> blacklist option" where
  "lun_tasks mx now [] bl = ([], bl)"
| "lun_tasks mx now ((b, ws) # tab) bl =
     (let (ts, bl1) = lun_row_tasks mx now b (zip [0..<length ws] (zip (lr_block b) ws)) bl 0;
          (ts2, bl2) = lun_tasks mx now tab bl1
      in (ts @ ts2, bl2))"

text \<open>One operation; \<open>rw_mode\<close> is 0 for reading. A single piece uses the plain operations, several the vector ones.\<close>

definition lun_exec :: "('d, 'c) ds_io \<Rightarrow> int \<Rightarrow> 'd \<Rightarrow> mem \<Rightarrow> ('c, 'd) lun_task \<Rightarrow> op_state \<times> mem \<times> 'd" where
  "lun_exec IO rw_mode d buf t =
     (let cap = db_cap (lb_data (lk_block t)); w = lk_rw t
      in if lk_skip t then (OP_STATE_FAILURE, buf, d)
         else if rw_mode = 0 then
           (if length (lw_iov w) = 1
            then io_read IO d cap (iov_offset (hd (lw_ex w))) buf (fst (hd (lw_iov w))) (lw_len w)
            else io_readv IO d cap (lw_ex w) buf (lw_iov w))
         else
           (case (if length (lw_iov w) = 1
                  then io_write IO d cap (iov_offset (hd (lw_ex w))) buf (fst (hd (lw_iov w))) (lw_len w)
                  else io_writev IO d cap (lw_ex w) buf (lw_iov w)) of
              (st, d') \<Rightarrow> (st, buf, d')))"

fun lun_run :: "('d, 'c) ds_io \<Rightarrow> int \<Rightarrow> 'd \<Rightarrow> mem \<Rightarrow> ('c, 'd) lun_task list \<Rightarrow> op_state list \<times> mem \<times> 'd" where
  "lun_run IO rw_mode d buf [] = ([], buf, d)"
| "lun_run IO rw_mode d buf (t # ts) =
     (case lun_exec IO rw_mode d buf t of
        (st, buf1, d1) \<Rightarrow> (case lun_run IO rw_mode d1 buf1 ts of (sts, buf2, d2) \<Rightarrow> (st # sts, buf2, d2)))"

text \<open>
  As the operations finish, slow ones put their resource on the black list. \<open>clock j\<close> gives the
  execution time of operation \<open>j\<close> and the time at which it is looked at.
\<close>

fun lun_blacklist ::
  "(nat \<Rightarrow> int \<times> int) \<Rightarrow> nat \<Rightarrow> ('c, 'd) lun_task list \<Rightarrow> blacklist option \<Rightarrow> blacklist option" where
  "lun_blacklist clock j [] bl = bl"
| "lun_blacklist clock j (t # ts) bl =
     lun_blacklist clock (j + 1) ts
       (case bl of
          None \<Rightarrow> None
        | Some B \<Rightarrow>
            (let (exec_time, now) = clock j;
                 rid = (case db_rid_key (lb_data (lk_block t)) of None \<Rightarrow> '''' | Some r \<Rightarrow> r)
             in if \<not> lk_skip t \<and> exec_time > bl_min_io_time B \<and> lw_len (lk_rw t) < bl_min_bandwidth B * exec_time \<and>
                   map_of (bl_table B) rid = None
                then Some (B\<lparr>bl_table := (rid, now + bl_timeout B) # bl_table B\<rparr>)
                else bl))"

text \<open>The errors of one row, the blanked buffer, and the row with its error counts.\<close>

fun lun_row_errors ::
  "int \<Rightarrow> (('c, 'd) lun_task \<times> op_state) list \<Rightarrow> mem \<Rightarrow> ('c, 'd) seglun_row \<Rightarrow> int \<times> mem \<times> ('c, 'd) seglun_row" where
  "lun_row_errors rw_mode [] buf b = (0, buf, b)"
| "lun_row_errors rw_mode ((t, st) # ts) buf b =
     (if st = OP_STATE_SUCCESS then lun_row_errors rw_mode ts buf b
      else
        (let w = lk_rw t;
             buf1 = (if rw_mode = 0 then put_pieces buf (lw_iov w) (replicate (nat (lw_len w)) 0) else buf);
             b1 = b\<lparr>lr_block := (lr_block b)[lk_dev t := (let k = lr_block b ! lk_dev t in
                    if rw_mode = 0 then k\<lparr>read_err_count := read_err_count k + 1\<rparr>
                    else k\<lparr>write_err_count := write_err_count k + 1\<rparr>)]\<rparr>;
             (n, buf2, b2) = lun_row_errors rw_mode ts buf1 b1
         in (n + 1, buf2, b2)))"

fun lun_errors ::
  "('m, ('c, 'd) seglun_row) isl_ops \<Rightarrow> int \<Rightarrow> ('c, 'd) lun_table \<Rightarrow> (('c, 'd) lun_task \<times> op_state) list \<Rightarrow> mem \<Rightarrow> 'm \<Rightarrow>
   int \<times> mem \<times> 'm" where
  "lun_errors I rw_mode [] res buf m = (0, buf, m)"
| "lun_errors I rw_mode ((b, ws) # tab) res buf m =
     (let (n, buf1, b') = lun_row_errors rw_mode (filter (\<lambda>r. lk_row (fst r) = b) res) buf b;
          (n2, buf2, m2) = lun_errors I rw_mode tab res buf1 (if n = 0 then m else lun_insert I (lun_delete I m b) b')
      in (if n > n2 then n else n2, buf2, m2))"

text \<open>
  \<open>hints\<close> is the limit on skipped devices, if there are hints; without a positive limit the black
  list is not used. A block without a resource key makes the look-up crash.
\<close>

definition seglun_rw_op ::
  "('m, ('c, 'd) seglun_row) isl_ops \<Rightarrow> ('d, 'c) ds_io \<Rightarrow> ('d, 'c) lun_rs \<Rightarrow> int \<times> (nat \<Rightarrow> int \<times> int) \<Rightarrow> int option \<Rightarrow>
   ('m, 'c, 'd) seglun_priv \<Rightarrow> ex_iovec list \<Rightarrow> mem \<Rightarrow> ex_off \<Rightarrow> int \<Rightarrow>
   (op_status \<times> mem \<times> ('m, 'c, 'd) seglun_priv) outcome" where
  "seglun_rw_op I IO RS time hints s0 iov buffer boff rw_mode =
     (let (now, clock) = time;
          use_bl = (case hints of None \<Rightarrow> False | Some mx \<Rightarrow> mx > 0);
          mx = (case hints of None \<Rightarrow> 0 | Some mx \<Rightarrow> mx);
          s = (if map_version s0 \<noteq> notify_version s0
               then slun_perform_remap I RS (s0\<lparr>map_version := notify_version s0\<rparr>) else s0);
          tab = lun_plan_iov I s iov boff [];
          (ts, bl1) = lun_tasks mx now tab (if use_bl then lun_bl s else None)
      in if stripe_size s \<le> 0 \<or> n_devices s \<le> 0 then Crash
         else if use_bl \<and> lun_bl s \<noteq> None \<and> (\<exists>t \<in> set ts. db_rid_key (lb_data (lk_block t)) = None) then Crash
         else if ts = [] then Ret (op_failure_status, buffer, s)
         else
           (let (sts, buf1, d1) = lun_run IO rw_mode (lun_world s) buffer ts;
                bl2 = lun_blacklist clock 0 ts bl1;
                (maxerr, buf2, m2) = lun_errors I rw_mode tab (zip ts sts) buf1 (lun_isl s);
                s2 = s\<lparr>lun_isl := m2, lun_world := d1, lun_bl := (if use_bl then bl2 else lun_bl s)\<rparr>
            in Ret (if maxerr = 0 then op_success_status else \<lparr>op_state = OP_STATE_FAILURE, error_code = maxerr\<rparr>, buf2, s2)))"

definition lun_maxpos :: "ex_iovec list \<Rightarrow> ex_off" where
  "lun_maxpos iov = foldl (\<lambda>mx v. let pos = iov_offset v + iov_len v - 1 in if pos > mx then pos else mx) 0 iov"

definition seglun_rw_func ::
  "('m, ('c, 'd) seglun_row) isl_ops \<Rightarrow> ('d, 'c) ds_io \<Rightarrow> ('d, 'c) lun_rs \<Rightarrow> int \<times> (nat \<Rightarrow> int \<times> int) \<Rightarrow>
   (nat \<Rightarrow> nat \<Rightarrow> nat \<Rightarrow> ex_id) \<Rightarrow> int option \<Rightarrow> ('m, 'c, 'd) seglun_priv \<Rightarrow> ex_iovec list \<Rightarrow> mem \<Rightarrow> ex_off \<Rightarrow> int \<Rightarrow>
   (op_status \<times> mem \<times> ('m, 'c, 'd) seglun_priv) outcome" where
  "seglun_rw_func I IO RS time rnd hints s iov buffer boff rw_mode =
     (let maxpos = lun_maxpos iov;
          bad = \<lparr>op_state = OP_STATE_FAILURE, error_code = n_devices s\<rparr>;
          new_size = maxpos + n_devices s * lun_excess_block_size s
      in case (if maxpos \<ge> lun_total_size s then
                 (if rw_mode = 1 then
                    (if lun_total_size s < new_size then
                       (case slun_truncate I IO RS rnd s new_size of
                          Crash \<Rightarrow> Crash
                        | Ret (st, s1) \<Rightarrow> Ret (op_state st = OP_STATE_SUCCESS, s1))
                     else Ret (True, s))
                  else Ret (False, s))
               else Ret (True, s)) of
           Crash \<Rightarrow> Crash
         | Ret (go, s1) \<Rightarrow>
             if \<not> go then Ret (bad, buffer, s1)
             else
               (case seglun_rw_op I IO RS time hints s1 iov buffer boff rw_mode of
                  Crash \<Rightarrow> Crash
                | Ret (st, buf, s2) \<Rightarrow>
                    (let s3 = (if rw_mode = 1 \<and> lun_used_size s2 \<le> maxpos then s2\<lparr>lun_used_size := maxpos + 1\<rparr> else s2)
                     in Ret (st, buf,
                             if op_state st \<noteq> OP_STATE_SUCCESS then s3\<lparr>lun_hard_errors := lun_hard_errors s3 + 1\<rparr> else s3))))"


section \<open>Removal, sizes, creation and destruction\<close>

definition seglun_remove ::
  "('m, ('c, 'd) seglun_row) isl_ops \<Rightarrow> ('d, 'c) ds_io \<Rightarrow> ('m, 'c, 'd) seglun_priv \<Rightarrow> op_state \<times> ('m, 'c, 'd) seglun_priv" where
  "seglun_remove I IO s =
     (case lun_remove_blocks IO (lun_world s) (concat (map lr_block (isl_all I (lun_isl s)))) of
        (st, d) \<Rightarrow> (st, s\<lparr>lun_world := d\<rparr>))"

definition seglun_flush :: "('m, 'c, 'd) seglun_priv \<Rightarrow> ex_off \<Rightarrow> ex_off \<Rightarrow> op_state \<times> ('m, 'c, 'd) seglun_priv" where
  "seglun_flush s lo hi = (OP_STATE_SUCCESS, s)"

definition seglun_size :: "('m, 'c, 'd) seglun_priv \<Rightarrow> ex_off" where
  "seglun_size s = lun_used_size s"

definition seglun_block_size :: "('m, 'c, 'd) seglun_priv \<Rightarrow> ex_off" where
  "seglun_block_size s = stripe_size s"

definition seglun_signature :: "('m, 'c, 'd) seglun_priv \<Rightarrow> string" where
  "seglun_signature s =
     ''lun('' @ newline @ ''    n_devices='' @ print_int (n_devices s) @ newline @
     ''    n_shift='' @ print_int (n_shift s) @ newline @
     ''    chunk_size='' @ print_int (chunk_size s) @ newline @ '')'' @ newline"

text \<open>A new segment differs from the announced map version, so that the first transfer remaps.\<close>

definition segment_lun_create ::
  "('m, ('c, 'd) seglun_row) isl_ops \<Rightarrow> ('c, 'd) ds_fn \<Rightarrow> blacklist option \<Rightarrow> 'd \<Rightarrow> ex_id \<Rightarrow> ('m, 'c, 'd) seglun_priv" where
  "segment_lun_create I ds bl w rnd =
     \<lparr>lun_id = generate_ex_id rnd, lun_name = None, lun_ref_count = 0, lun_used_size = 0, lun_total_size = 0,
      lun_max_block_size = 10 * 1024 * 1024, lun_excess_block_size = 1 * 1024 * 1024, max_row_size = 10 * 1024 * 1024,
      chunk_size = 16 * 1024, stripe_size = 1 * (16 * 1024), lun_rsq = None, grow_count = 0, n_devices = 1, n_shift = 1,
      lun_hard_errors = 0, grow_break = 0, map_version = 0, notify_version = -1, lun_isl = isl_empty I, lun_ds = ds,
      db_cleanup = [], lun_bl = bl, lun_world = w\<rparr>"

fun lun_release_dbs :: "'d \<Rightarrow> ('c, 'd) data_block list \<Rightarrow> 'd outcome" where
  "lun_release_dbs w [] = Ret w"
| "lun_release_dbs w (db # dbs) =
     (case data_block_destroy w (Some (db\<lparr>db_ref_count := db_ref_count db - 1\<rparr>)) of
        Crash \<Rightarrow> Crash
      | Ret (w', _) \<Rightarrow> lun_release_dbs w' dbs)"

definition seglun_destroy ::
  "('m, ('c, 'd) seglun_row) isl_ops \<Rightarrow> ('m, 'c, 'd) seglun_priv \<Rightarrow> ('d \<times> ('m, 'c, 'd) seglun_priv option) outcome" where
  "seglun_destroy I s =
     (if lun_ref_count s > 0 then Ret (lun_world s, Some s)
      else case lun_release_all (lun_world s) (concat (map lr_block (isl_all I (lun_isl s)))) of
             Crash \<Rightarrow> Crash
           | Ret d \<Rightarrow>
               (case lun_release_dbs d (db_cleanup s) of
                  Crash \<Rightarrow> Crash
                | Ret d' \<Rightarrow> Ret (d', None)))"

section \<open>Cloning\<close>

text \<open>
  The destination is grown row by row so that it gets the rows of the source; a row of full size
  is left to the next growth. When the last row is a full one, the code reads its end through the
  pointer that ended the loop.
\<close>

fun lun_clone_grow ::
  "('m, ('c, 'd) seglun_row) isl_ops \<Rightarrow> ('d, 'c) ds_io \<Rightarrow> ('d, 'c) lun_rs \<Rightarrow> (nat \<Rightarrow> nat \<Rightarrow> nat \<Rightarrow> nat \<Rightarrow> ex_id) \<Rightarrow> nat \<Rightarrow>
   ('m, 'c, 'd) seglun_priv \<Rightarrow> ('c, 'd) seglun_row list \<Rightarrow> bool \<Rightarrow> ('m, 'c, 'd) seglun_priv \<Rightarrow>
   (bool \<times> ('m, 'c, 'd) seglun_priv) outcome" where
  "lun_clone_grow I IO RS rnd j ss [] pending sd =
     (if pending then Crash else Ret (True, sd\<lparr>grow_break := 0\<rparr>))"
| "lun_clone_grow I IO RS rnd j ss (b # bs) pending sd =
     (if lr_row_len b \<noteq> max_row_size ss then
        (case slun_truncate I IO RS (rnd j) sd (lr_seg_end b + 1) of
           Crash \<Rightarrow> Crash
         | Ret (st, sd1) \<Rightarrow>
             if op_state st \<noteq> OP_STATE_SUCCESS then Ret (False, sd1\<lparr>grow_break := 0\<rparr>)
             else lun_clone_grow I IO RS rnd (j + 1) ss bs False (sd1\<lparr>lun_used_size := lun_used_size ss, grow_break := 1\<rparr>))
      else lun_clone_grow I IO RS rnd (j + 1) ss bs True sd)"

text \<open>One block is copied in runs of at most \<open>mt\<close> bytes.\<close>

function lun_copy_block ::
  "('d, 'c) ds_io \<Rightarrow> ex_off \<Rightarrow> 'c \<Rightarrow> 'c \<Rightarrow> ex_off \<Rightarrow> ex_off \<Rightarrow> ex_off \<Rightarrow> 'd \<Rightarrow> op_state \<times> 'd" where
  "lun_copy_block IO mt cs cd offset d_offset bend d =
     (if offset + mt \<ge> bend \<or> mt \<le> 0 then io_copy IO d cs offset cd d_offset (bend - offset)
      else (case io_copy IO d cs offset cd d_offset mt of
              (st, d1) \<Rightarrow> (case lun_copy_block IO mt cs cd (offset + mt) (d_offset + mt) bend d1 of
                 (st2, d2) \<Rightarrow> (both st st2, d2))))"
  by pat_completeness auto
termination by (relation "measure (\<lambda>(IO, mt, cs, cd, offset, d_offset, bend, d). nat (bend - offset))") auto

declare lun_copy_block.simps [simp del]

fun lun_copy_blocks ::
  "('d, 'c) ds_io \<Rightarrow> ex_off \<Rightarrow> ex_off \<Rightarrow> (('c, 'd) seglun_block \<times> ('c, 'd) seglun_block) list \<Rightarrow> 'd \<Rightarrow> op_state \<times> 'd" where
  "lun_copy_blocks IO mt len [] d = (OP_STATE_SUCCESS, d)"
| "lun_copy_blocks IO mt len ((ks, kd) # ps) d =
     (case lun_copy_block IO mt (db_cap (lb_data ks)) (db_cap (lb_data kd)) (lb_cap_offset ks) (lb_cap_offset kd)
             (lb_cap_offset ks + len) d of
        (st, d1) \<Rightarrow> (case lun_copy_blocks IO mt len ps d1 of (st2, d2) \<Rightarrow> (both st st2, d2)))"

text \<open>A source row without a destination row is a NULL pointer.\<close>

fun lun_copy_rows ::
  "('d, 'c) ds_io \<Rightarrow> ex_off \<Rightarrow> ('c, 'd) seglun_row list \<Rightarrow> ('c, 'd) seglun_row list \<Rightarrow> 'd \<Rightarrow> (op_state \<times> 'd) outcome" where
  "lun_copy_rows IO mt [] bds d = Ret (OP_STATE_SUCCESS, d)"
| "lun_copy_rows IO mt (bs # bss) [] d = Crash"
| "lun_copy_rows IO mt (bs # bss) (bd # bds) d =
     (case lun_copy_blocks IO mt (lr_block_len bs) (zip (lr_block bs) (lr_block bd)) d of
        (st, d1) \<Rightarrow> (case lun_copy_rows IO mt bss bds d1 of
           Crash \<Rightarrow> Crash
         | Ret (st2, d2) \<Rightarrow> Ret (both st st2, d2)))"

definition seglun_clone_func ::
  "('m, ('c, 'd) seglun_row) isl_ops \<Rightarrow> ('d, 'c) ds_io \<Rightarrow> ('d, 'c) lun_rs \<Rightarrow> (nat \<Rightarrow> nat \<Rightarrow> nat \<Rightarrow> nat \<Rightarrow> ex_id) \<Rightarrow> int \<Rightarrow> ex_off \<Rightarrow>
   ('m, 'c, 'd) seglun_priv \<Rightarrow> ('m, 'c, 'd) seglun_priv \<Rightarrow> (op_status \<times> ('m, 'c, 'd) seglun_priv) outcome" where
  "seglun_clone_func I IO RS rnd trunc mt ss sd =
     (case (if trunc = 1 then slun_truncate I IO RS (rnd 0) sd 0 else Ret (op_success_status, sd)) of
        Crash \<Rightarrow> Crash
      | Ret (_, sd1) \<Rightarrow>
          if lun_total_size ss = 0 then Ret (op_success_status, sd1)
          else
            (case lun_clone_grow I IO RS rnd 1 ss (isl_all I (lun_isl ss)) False sd1 of
               Crash \<Rightarrow> Crash
             | Ret (go, sd2) \<Rightarrow>
                 if \<not> go then Ret (op_failure_status, sd2)
                 else
                   (case lun_copy_rows IO mt (isl_all I (lun_isl ss)) (isl_all I (lun_isl sd2)) (lun_world sd2) of
                      Crash \<Rightarrow> Crash
                    | Ret (st, d) \<Rightarrow>
                        Ret (if st = OP_STATE_SUCCESS then op_success_status else op_failure_status, sd2\<lparr>lun_world := d\<rparr>))))"

definition seglun_clone ::
  "('m, ('c, 'd) seglun_row) isl_ops \<Rightarrow> ('d, 'c) ds_io \<Rightarrow> ('d, 'c) lun_rs \<Rightarrow> text_ops \<Rightarrow> (nat \<Rightarrow> nat \<Rightarrow> nat \<Rightarrow> nat \<Rightarrow> ex_id) \<Rightarrow>
   ex_id \<Rightarrow> ('m, 'c, 'd) seglun_priv \<Rightarrow> ('m, 'c, 'd) seglun_priv option \<Rightarrow> int \<Rightarrow> string option \<Rightarrow>
   (op_status \<times> ('m, 'c, 'd) seglun_priv) outcome" where
  "seglun_clone I IO RS T rnd i ss clone_seg mode attr =
     (let base =
        (case clone_seg of
           Some sd \<Rightarrow> Ret sd
         | None \<Rightarrow>
             (case (case attr of None \<Rightarrow> rs_query_base_dup (lun_rsq ss)
                    | Some q \<Rightarrow> (case rs_query_base_parse T q of None \<Rightarrow> Crash | Some r \<Rightarrow> Ret r)) of
                Crash \<Rightarrow> Crash
              | Ret r \<Rightarrow>
                  Ret ((segment_lun_create I (lun_ds ss) (lun_bl ss) (lun_world ss) i)
                         \<lparr>lun_name := lun_name ss, lun_rsq := Some r\<rparr>)))
      in case base of
           Crash \<Rightarrow> Crash
         | Ret sd \<Rightarrow>
             (let sd1 = sd\<lparr>lun_max_block_size := lun_max_block_size ss, lun_excess_block_size := lun_excess_block_size ss,
                          max_row_size := max_row_size ss, chunk_size := chunk_size ss, stripe_size := stripe_size ss,
                          n_devices := n_devices ss, n_shift := n_shift ss\<rparr>
              in if mode = 0 then
                   (if clone_seg \<noteq> None then slun_truncate I IO RS (rnd 0) sd1 0 else Ret (op_success_status, sd1))
                 else seglun_clone_func I IO RS rnd (if clone_seg \<noteq> None then 1 else 0) (20 * 1024 * 1024) ss sd1))"


end
