(* ===== verification/Lun_Layout.thy ===== *)
theory Lun_Layout
  imports Segment_Lun
begin

text \<open>
  The layout of the striped segment: an offset of a row is mapped to a device and a position in
  its block, one to one, and the decomposition of a transfer follows that map, each device getting one
  extent that covers exactly its share.
\<close>

section \<open>The layout of a row\<close>

definition row_dev :: "('m, 'c, 'd) seglun_priv \<Rightarrow> ex_off \<Rightarrow> nat" where
  "row_dev s r = nat ((r mod stripe_size s div chunk_size s - r div stripe_size s * n_shift s) mod n_devices s)"

definition row_pos :: "('m, 'c, 'd) seglun_priv \<Rightarrow> ex_off \<Rightarrow> ex_off" where
  "row_pos s r = r div stripe_size s * chunk_size s + r mod chunk_size s"

definition lun_geom :: "('m, 'c, 'd) seglun_priv \<Rightarrow> bool" where
  "lun_geom s \<longleftrightarrow> 0 < chunk_size s \<and> 0 < n_devices s \<and> stripe_size s = n_devices s * chunk_size s"

lemma lun_geomD:
  assumes "lun_geom s"
  shows "0 < chunk_size s" "0 < n_devices s" "stripe_size s = n_devices s * chunk_size s" "0 < stripe_size s"
    "chunk_size s dvd stripe_size s"
  using assms by (auto simp: lun_geom_def)

lemma row_dev_less: "lun_geom s \<Longrightarrow> row_dev s r < nat (n_devices s)"
  by (simp add: row_dev_def lun_geom_def nat_less_iff)

lemma div_less_mult: "0 < c \<Longrightarrow> a < c * m \<Longrightarrow> a div c < (m :: int)"
proof (rule ccontr)
  assume "0 < c" "a < c * m" "\<not> a div c < m"
  then have "c * m \<le> c * (a div c)" by (intro mult_left_mono) auto
  moreover have "c * (a div c) \<le> a" using \<open>0 < c\<close> by (simp add: minus_mod_eq_mult_div [symmetric])
  ultimately show False using \<open>a < c * m\<close> by simp
qed

lemma chunk_index:
  assumes "lun_geom s"
  shows "0 \<le> r mod stripe_size s div chunk_size s" "r mod stripe_size s div chunk_size s < n_devices s"
proof -
  note g = lun_geomD [OF assms]
  show "0 \<le> r mod stripe_size s div chunk_size s" using g by (simp add: pos_imp_zdiv_nonneg_iff)
  have "r mod stripe_size s < chunk_size s * n_devices s"
    using pos_mod_bound [OF g(4), of r] g(3) by (simp only: mult.commute)
  with g(1) show "r mod stripe_size s div chunk_size s < n_devices s" by (rule div_less_mult)
qed

text \<open>The offset of the row is determined by the device and the position.\<close>

lemma row_inverse:
  assumes "lun_geom s"
  shows "r = row_pos s r div chunk_size s * stripe_size s +
    (int (row_dev s r) + row_pos s r div chunk_size s * n_shift s) mod n_devices s * chunk_size s + row_pos s r mod chunk_size s"
proof -
  note g = lun_geomD [OF assms]
  let ?ss = "r div stripe_size s" and ?k = "r mod stripe_size s div chunk_size s"
  have p: "row_pos s r div chunk_size s = ?ss" "row_pos s r mod chunk_size s = r mod chunk_size s"
    using g(1) by (simp_all add: row_pos_def)
  have "int (row_dev s r) = (?k - ?ss * n_shift s) mod n_devices s" using g(2) by (simp add: row_dev_def)
  then have "(int (row_dev s r) + ?ss * n_shift s) mod n_devices s = ?k mod n_devices s" by (simp add: mod_simps)
  also have "\<dots> = ?k" using chunk_index [OF assms, of r] by simp
  finally have k: "(int (row_dev s r) + ?ss * n_shift s) mod n_devices s = ?k" .
  have "r mod stripe_size s = ?k * chunk_size s + r mod stripe_size s mod chunk_size s" by simp
  also have "r mod stripe_size s mod chunk_size s = r mod chunk_size s" using g(5) by (rule mod_mod_cancel)
  finally show ?thesis unfolding p k using div_mult_mod_eq [of r "stripe_size s"] by linarith
qed

lemma row_inj: "lun_geom s \<Longrightarrow> row_dev s r = row_dev s r' \<Longrightarrow> row_pos s r = row_pos s r' \<Longrightarrow> r = r'"
  using row_inverse [of s r] row_inverse [of s r'] by simp

lemma chunk_layout:
  fixes ss :: int
  assumes "lun_geom s" "i < nat (n_devices s)" "0 \<le> k" "k < chunk_size s"
  defines "r \<equiv> ss * stripe_size s + (int i + ss * n_shift s) mod n_devices s * chunk_size s + k"
  shows "r div stripe_size s = ss" "row_dev s r = i" "row_pos s r = ss * chunk_size s + k"
proof -
  note g = lun_geomD [OF assms(1)]
  let ?dev = "(int i + ss * n_shift s) mod n_devices s"
  have dev: "0 \<le> ?dev" "?dev < n_devices s" using g(2) by simp_all
  have "?dev * chunk_size s + k < (?dev + 1) * chunk_size s" using assms(4) by (simp add: algebra_simps)
  also have "\<dots> \<le> stripe_size s" unfolding g(3) using dev g(1) by (intro mult_right_mono) auto
  finally have in_stripe: "0 \<le> ?dev * chunk_size s + k" "?dev * chunk_size s + k < stripe_size s" using dev g(1) assms(3) by auto
  have r: "r = (?dev * chunk_size s + k) + ss * stripe_size s" by (simp add: r_def)
  show ss: "r div stripe_size s = ss" unfolding r using in_stripe by simp
  have m: "r mod stripe_size s = ?dev * chunk_size s + k" unfolding r using in_stripe by simp
  have "r mod stripe_size s div chunk_size s = ?dev" unfolding m using assms(3,4) g(1) by simp
  then have "(r mod stripe_size s div chunk_size s - r div stripe_size s * n_shift s) mod n_devices s = int i mod n_devices s"
    by (simp add: ss mod_simps)
  then show "row_dev s r = i" using assms(2) g(2) by (simp add: row_dev_def)
  have "r mod chunk_size s = k"
    using mod_mod_cancel [OF g(5), of r] assms(3,4) unfolding m by simp
  then show "row_pos s r = ss * chunk_size s + k" by (simp add: row_pos_def ss)
qed

lemma row_pos_less:
  assumes "lun_geom s" "chunk_size s dvd len" "0 \<le> r" "r < len * n_devices s"
  shows "0 \<le> row_pos s r" "row_pos s r < len"
proof -
  note g = lun_geomD [OF assms(1)]
  obtain m where m: "len = chunk_size s * m" using assms(2) by blast
  have "r < stripe_size s * m" using assms(4) by (simp add: m g(3) algebra_simps)
  with g(4) have "r div stripe_size s < m" by (rule div_less_mult)
  then have "(r div stripe_size s + 1) * chunk_size s \<le> m * chunk_size s" using g(1) by (intro mult_right_mono) auto
  moreover have "r mod chunk_size s < chunk_size s" "0 \<le> r mod chunk_size s" using g(1) by auto
  ultimately show "row_pos s r < len" by (simp add: row_pos_def m algebra_simps)
  show "0 \<le> row_pos s r" using assms(3) g by (simp add: row_pos_def pos_imp_zdiv_nonneg_iff)
qed

section \<open>Pieces\<close>

text \<open>
  The pieces of device \<open>i\<close>, for a transfer of the offsets \<open>lo\<close> to \<open>hi\<close> of a row that starts at \<open>bpos\<close> of the
  buffer: they follow each other in the block of the device from position \<open>q\<close> on.
\<close>

fun pieces_map ::
  "('m, 'c, 'd) seglun_priv \<Rightarrow> ex_off \<Rightarrow> ex_off \<Rightarrow> ex_off \<Rightarrow> nat \<Rightarrow> ex_off \<Rightarrow> (ex_off \<times> ex_off) list \<Rightarrow> bool" where
  "pieces_map s lo hi bpos i q [] \<longleftrightarrow> True"
| "pieces_map s lo hi bpos i q ((p, n) # ps) \<longleftrightarrow> 0 < n \<and>
     (\<forall>k. 0 \<le> k \<and> k < n \<longrightarrow> lo \<le> p - bpos + lo + k \<and> p - bpos + lo + k \<le> hi \<and>
        row_dev s (p - bpos + lo + k) = i \<and> row_pos s (p - bpos + lo + k) = q + k) \<and>
     pieces_map s lo hi bpos i (q + n) ps"

lemma pieces_len_simps [simp]: "pieces_len [] = 0" "pieces_len (x # ps) = snd x + pieces_len ps" "pieces_len (ps @ qs) = pieces_len ps + pieces_len qs"
  by (simp_all add: pieces_len_def)

lemma pieces_map_append:
  "pieces_map s lo hi bpos i q (ps @ qs) \<longleftrightarrow> pieces_map s lo hi bpos i q ps \<and> pieces_map s lo hi bpos i (q + pieces_len ps) qs"
  by (induction s lo hi bpos i q ps rule: pieces_map.induct) (auto simp: algebra_simps)

lemma pieces_map_len: "pieces_map s lo hi bpos i q ps \<Longrightarrow> 0 \<le> pieces_len ps"
  by (induction s lo hi bpos i q ps rule: pieces_map.induct) auto

lemma pieces_map_pos: "pieces_map s lo hi bpos i q ps \<Longrightarrow> ps \<noteq> [] \<Longrightarrow> 0 < pieces_len ps"
  by (cases ps) (use pieces_map_len in \<open>fastforce+\<close>)

lemma length_get_pieces: "pieces_map s lo hi bpos i q ps \<Longrightarrow> int (length (get_pieces m ps)) = pieces_len ps"
  by (induction s lo hi bpos i q ps rule: pieces_map.induct) (auto simp: get_pieces_def)

text \<open>Every position of the pieces belongs to one offset of the row.\<close>

lemma pieces_map_get:
  assumes "pieces_map s lo hi bpos i q ps" "q \<le> x" "x < q + pieces_len ps"
  shows "\<exists>r. lo \<le> r \<and> r \<le> hi \<and> row_dev s r = i \<and> row_pos s r = x \<and> get_pieces buf ps ! nat (x - q) = buf (bpos + (r - lo))"
  using assms
proof (induction s lo hi bpos i q ps rule: pieces_map.induct)
  case (2 s lo hi bpos i q p n ps)
  show ?case
  proof (cases "x < q + n")
    case True
    let ?k = "x - q"
    have "lo \<le> p - bpos + lo + ?k \<and> p - bpos + lo + ?k \<le> hi \<and> row_dev s (p - bpos + lo + ?k) = i \<and> row_pos s (p - bpos + lo + ?k) = q + ?k"
      using 2(2,3) True by auto
    moreover have "get_pieces buf ((p, n) # ps) ! nat (x - q) = buf (p + ?k)"
      using True 2(3) by (simp add: get_pieces_def nth_append nat_less_iff)
    ultimately show ?thesis by (intro exI [of _ "p - bpos + lo + ?k"]) simp
  next
    case False
    then obtain r where "lo \<le> r" "r \<le> hi" "row_dev s r = i" "row_pos s r = x"
      "get_pieces buf ps ! nat (x - (q + n)) = buf (bpos + (r - lo))"
      using 2(1) [of] 2(2,4) by auto
    moreover have "get_pieces buf ((p, n) # ps) ! nat (x - q) = get_pieces buf ps ! nat (x - (q + n))"
    proof -
      have "nat (x - q) - nat n = nat (x - (q + n))" "\<not> nat (x - q) < nat n" using False 2(2) by auto
      then show ?thesis by (simp add: get_pieces_def nth_append del: nat_less_iff zless_nat_conj)
    qed
    ultimately show ?thesis by auto
  qed
qed simp

lemma put_pieces_map:
  assumes "lun_geom s" "pieces_map s lo hi bpos i q ps" "int (length bs) = pieces_len ps"
  shows "put_pieces buf ps bs y =
    (let r = y - bpos + lo in if lo \<le> r \<and> r \<le> hi \<and> row_dev s r = i \<and> q \<le> row_pos s r \<and> row_pos s r < q + pieces_len ps
     then bs ! nat (row_pos s r - q) else buf y)"
  using assms
proof (induction s lo hi bpos i q ps arbitrary: buf bs rule: pieces_map.induct)
  case (2 s lo hi bpos i q p n ps)
  let ?r = "y - bpos + lo"
  have n: "0 < n" "0 \<le> pieces_len ps" using 2(3) pieces_map_len by auto
  have len: "int (length (take (nat n) bs)) = n" "int (length (drop (nat n) bs)) = pieces_len ps" using 2(4) n by auto
  have IH: "put_pieces (mem_put buf p (take (nat n) bs)) ps (drop (nat n) bs) y =
      (if lo \<le> ?r \<and> ?r \<le> hi \<and> row_dev s ?r = i \<and> q + n \<le> row_pos s ?r \<and> row_pos s ?r < q + n + pieces_len ps
       then drop (nat n) bs ! nat (row_pos s ?r - (q + n)) else mem_put buf p (take (nat n) bs) y)"
    using 2(1) [OF 2(2) _ len(2)] 2(3) by (simp add: Let_def)
  have here: "p \<le> y \<and> y < p + n \<longleftrightarrow> lo \<le> ?r \<and> ?r \<le> hi \<and> row_dev s ?r = i \<and> q \<le> row_pos s ?r \<and> row_pos s ?r < q + n"
  proof
    assume "p \<le> y \<and> y < p + n"
    then show "lo \<le> ?r \<and> ?r \<le> hi \<and> row_dev s ?r = i \<and> q \<le> row_pos s ?r \<and> row_pos s ?r < q + n"
      using 2(3) by (auto dest!: spec [of _ "y - p"] simp: algebra_simps)
  next
    assume a: "lo \<le> ?r \<and> ?r \<le> hi \<and> row_dev s ?r = i \<and> q \<le> row_pos s ?r \<and> row_pos s ?r < q + n"
    let ?k = "row_pos s ?r - q"
    have "row_dev s (p - bpos + lo + ?k) = i \<and> row_pos s (p - bpos + lo + ?k) = q + ?k" using 2(3) a by auto
    with a row_inj [OF 2(2), of ?r "p - bpos + lo + ?k"] have "?r = p - bpos + lo + ?k" by simp
    then show "p \<le> y \<and> y < p + n" using a by linarith
  qed
  show ?case
  proof (cases "p \<le> y \<and> y < p + n")
    case True
    have "row_pos s ?r = q + (y - p)" using 2(3) True by (auto dest!: spec [of _ "y - p"] simp: algebra_simps)
    with True here len(1) IH n show ?thesis by (simp add: Let_def mem_put_def nat_less_iff)
  next
    case False
    then have "mem_put buf p (take (nat n) bs) y = buf y" using len(1) by (intro mem_put_out) auto
    moreover have "drop (nat n) bs ! nat (row_pos s ?r - (q + n)) = bs ! nat (row_pos s ?r - q)"
      if "q + n \<le> row_pos s ?r" "row_pos s ?r < q + n + pieces_len ps"
    proof -
      have "nat n + nat (row_pos s ?r - (q + n)) = nat (row_pos s ?r - q)" using that n by linarith
      then show ?thesis using that len(2) 2(4) n by (subst nth_drop) auto
    qed
    moreover have "lo \<le> ?r \<and> ?r \<le> hi \<and> row_dev s ?r = i \<and> q \<le> row_pos s ?r \<and> row_pos s ?r < q + pieces_len ((p, n) # ps) \<longleftrightarrow>
        lo \<le> ?r \<and> ?r \<le> hi \<and> row_dev s ?r = i \<and> q + n \<le> row_pos s ?r \<and> row_pos s ?r < q + n + pieces_len ps"
      using False here n by auto
    ultimately show ?thesis unfolding put_pieces.simps IH Let_def by presburger
  qed
qed (auto simp: Let_def)

section \<open>The decomposition\<close>

text \<open>
  The invariant of the stripe loop for device \<open>i\<close>, before stripe \<open>ss\<close>: the extent covers all offsets of
  the device in earlier stripes, and as long as there is more to come it ends with its stripe.
\<close>

definition stripe_inv ::
  "('m, 'c, 'd) seglun_priv \<Rightarrow> ex_off \<Rightarrow> ex_off \<Rightarrow> ex_off \<Rightarrow> int \<Rightarrow> nat \<Rightarrow> ex_off \<times> ex_off \<times> (ex_off \<times> ex_off) list \<Rightarrow> bool" where
  "stripe_inv s lo hi bpos ss i t \<longleftrightarrow>
     (case t of (off, len, iov) \<Rightarrow>
        len = pieces_len iov \<and> pieces_map s lo hi bpos i off iov \<and>
        (if iov = [] then off = -1 else 0 \<le> off \<and> lo < ss * stripe_size s \<and> (ss * stripe_size s \<le> hi \<longrightarrow> off + len = ss * chunk_size s)) \<and>
        (\<forall>r. lo \<le> r \<and> r \<le> hi \<and> row_dev s r = i \<and> r div stripe_size s < ss \<longrightarrow>
           iov \<noteq> [] \<and> off \<le> row_pos s r \<and> row_pos s r < off + len))"

lemma stripe_inv_step:
  assumes g: "lun_geom s" and i: "i < nat (n_devices s)" and inv: "stripe_inv s lo hi bpos ss i t"
    and ss: "0 \<le> ss" "ss * stripe_size s \<le> hi" "lo < (ss + 1) * stripe_size s" "lo \<le> hi"
  shows "stripe_inv s lo hi bpos (ss + 1) i (lun_chunk s lo hi bpos ss i t)"
proof -
  note geo = lun_geomD [OF g]
  obtain off len iov where t: "t = (off, len, iov)" by (cases t) auto
  let ?dev = "(int i + ss * n_shift s) mod n_devices s"
  let ?co = "ss * stripe_size s + ?dev * chunk_size s"
  let ?ce = "?co + chunk_size s - 1"
  note lay = chunk_layout [OF g i, of _ ss]
  have co: "ss * stripe_size s \<le> ?co" "?ce < (ss + 1) * stripe_size s"
  proof -
    have "0 \<le> ?dev" "?dev + 1 \<le> n_devices s" using pos_mod_bound [OF geo(2), of "int i + ss * n_shift s"] geo(2) by (simp, linarith)
    then show "ss * stripe_size s \<le> ?co" using geo(1) by simp
    have "(?dev + 1) * chunk_size s \<le> stripe_size s"
      unfolding geo(3) using \<open>?dev + 1 \<le> n_devices s\<close> geo(1) by (intro mult_right_mono) auto
    then show "?ce < (ss + 1) * stripe_size s" by (simp add: algebra_simps)
  qed
  have chunk: "?co \<le> r \<and> r \<le> ?ce" if "row_dev s r = i" "r div stripe_size s = ss" for r
  proof -
    have "row_pos s r div chunk_size s = ss" "row_pos s r mod chunk_size s < chunk_size s" "0 \<le> row_pos s r mod chunk_size s"
      using that(2) geo(1) by (auto simp: row_pos_def)
    then show ?thesis using row_inverse [OF g, of r] that(1) by simp
  qed
  have cov: "iov \<noteq> [] \<and> off \<le> row_pos s r \<and> row_pos s r < off + len"
    if "lo \<le> r" "r \<le> hi" "row_dev s r = i" "r div stripe_size s < ss" for r
    using inv that by (auto simp: stripe_inv_def t)
  have I: "len = pieces_len iov" "pieces_map s lo hi bpos i off iov" "iov = [] \<Longrightarrow> off = -1"
    "iov \<noteq> [] \<Longrightarrow> 0 \<le> off \<and> lo < ss * stripe_size s \<and> off + len = ss * chunk_size s"
    using inv ss(2) by (auto simp: stripe_inv_def t)
  show ?thesis
  proof (cases "?ce \<ge> lo \<and> ?co \<le> hi")
    case False
    have new: "r div stripe_size s \<noteq> ss" if "lo \<le> r" "r \<le> hi" "row_dev s r = i" for r
      using chunk [OF that(3)] that False by auto
    have past: "\<not> (ss + 1) * stripe_size s \<le> hi \<and> lo < (ss + 1) * stripe_size s" if "iov \<noteq> []"
      using I(4) [OF that] False co ss(3) geo(1) by auto
    have "iov \<noteq> [] \<and> off \<le> row_pos s r \<and> row_pos s r < off + len"
      if "lo \<le> r" "r \<le> hi" "row_dev s r = i" "r div stripe_size s < ss + 1" for r
      by (rule cov) (use that new [OF that(1-3)] in auto)
    moreover have "lun_chunk s lo hi bpos ss i t = (off, len, iov)" using False by (auto simp: lun_chunk_def Let_def t)
    ultimately show ?thesis using I past unfolding stripe_inv_def by fastforce
  next
    case True
    let ?bg = "if ?co < lo then lo - ?co else 0"
    let ?cend = "if ?ce > hi then hi - ?co else chunk_size s - 1"
    let ?n = "?cend - ?bg + 1"
    let ?off = "if off = -1 then ss * chunk_size s + ?bg else off"
    let ?p = "bpos + ?co + ?bg - lo"
    have eq: "lun_chunk s lo hi bpos ss i t = (?off, len + ?n, iov @ [(?p, ?n)])"
      using True by (simp add: lun_chunk_def Let_def t)
    have rng: "0 \<le> ?bg" "?bg \<le> ?cend" "?cend < chunk_size s" using True geo(1) ss(4) by auto
    have at: "?off + len = ss * chunk_size s + ?bg"
    proof (cases "iov = []")
      case False
      with I(4) co(1) show ?thesis by auto
    qed (use I in simp)
    have "0 \<le> ss * chunk_size s" using ss(1) geo(1) by simp
    then have off0: "0 \<le> ?off" using rng(1) I(3,4) by auto
    have pm: "pieces_map s lo hi bpos i (?off + pieces_len iov) [(?p, ?n)]"
    proof -
      have "lo \<le> ?p - bpos + lo + k \<and> ?p - bpos + lo + k \<le> hi \<and> row_dev s (?p - bpos + lo + k) = i \<and>
          row_pos s (?p - bpos + lo + k) = ss * chunk_size s + ?bg + k" if "0 \<le> k" "k < ?n" for k
      proof -
        have "0 \<le> ?bg + k" "?bg + k < chunk_size s" using that rng by auto
        note l = lay [OF this]
        have "lo \<le> ?co + ?bg" "?co + ?cend \<le> hi" by auto
        then have "lo \<le> ?co + (?bg + k)" "?co + (?bg + k) \<le> hi" using that by linarith+
        moreover have "?p - bpos + lo + k = ?co + (?bg + k)" by linarith
        ultimately show ?thesis using l(2,3) by (simp only: add.assoc simp_thms)
      qed
      then show ?thesis using rng at I(1) by auto
    qed
    have "pieces_map s lo hi bpos i ?off iov" using I by (cases "iov = []") auto
    then have pm2: "pieces_map s lo hi bpos i ?off (iov @ [(?p, ?n)])" using pm by (simp add: pieces_map_append)
    have fin: "?off + (len + ?n) = (ss + 1) * chunk_size s" if "(ss + 1) * stripe_size s \<le> hi"
      using at that co(2) by (simp add: algebra_simps)
    have cov2: "?off \<le> row_pos s r \<and> row_pos s r < ?off + (len + ?n)"
      if r: "lo \<le> r" "r \<le> hi" "row_dev s r = i" "r div stripe_size s < ss + 1" for r
    proof (cases "r div stripe_size s = ss")
      case True
      have c: "?co \<le> r" "r \<le> ?ce" using chunk [OF r(3) True] by auto
      have "row_pos s r = ss * chunk_size s + (r - ?co)" using lay(3) [of "r - ?co"] c by simp
      moreover have "?bg \<le> r - ?co" "r - ?co \<le> ?cend" using r c by auto
      moreover have "0 \<le> len" using pieces_map_len [OF I(2)] I(1) by simp
      ultimately show ?thesis using at by linarith
    next
      case False
      with r have "r div stripe_size s < ss" by simp
      then have "iov \<noteq> []" "off \<le> row_pos s r" "row_pos s r < off + len" using cov r by auto
      moreover have "?off = off" using I(4) [OF calculation(1)] by auto
      ultimately show ?thesis using rng by auto
    qed
    show ?thesis unfolding eq stripe_inv_def
      using pm2 off0 fin cov2 ss(3) I(1) by (auto simp del: pieces_map.simps)
  qed
qed

lemma lun_stripes_inv:
  assumes "lun_geom s" "length ts = nat (n_devices s)" "\<forall>i < length ts. stripe_inv s lo hi bpos ss i (ts ! i)"
    and "0 \<le> ss" "lo div stripe_size s \<le> ss" "lo \<le> hi"
  shows "length (lun_stripes s lo hi bpos ss ts) = nat (n_devices s) \<and>
    (\<exists>ss'. hi < ss' * stripe_size s \<and> (\<forall>i < nat (n_devices s). stripe_inv s lo hi bpos ss' i (lun_stripes s lo hi bpos ss ts ! i)))"
  using assms
proof (induction s lo hi bpos ss ts rule: lun_stripes.induct)
  case (1 s lo hi bpos ss ts)
  note g = lun_geomD [OF 1(2)]
  show ?case
  proof (cases "ss * stripe_size s \<le> hi")
    case True
    let ?ts = "map (\<lambda>(i, t). lun_chunk s lo hi bpos ss i t) (enumerate 0 ts)"
    have "(lo div stripe_size s + 1) * stripe_size s \<le> (ss + 1) * stripe_size s" using 1(6) g(4) by (intro mult_right_mono) auto
    moreover have "lo < (lo div stripe_size s + 1) * stripe_size s"
      using div_mult_mod_eq [of lo "stripe_size s"] pos_mod_bound [OF g(4), of lo] by (simp only: distrib_right)
    ultimately have lo: "lo < (ss + 1) * stripe_size s" by simp
    have "stripe_inv s lo hi bpos (ss + 1) i (?ts ! i)" if "i < length ?ts" for i
      using stripe_inv_step [OF 1(2) _ _ 1(5) True lo 1(7), of i bpos "ts ! i"] that 1(3,4) by (simp add: nth_enumerate_eq)
    then have "length (lun_stripes s lo hi bpos (ss + 1) ?ts) = nat (n_devices s) \<and>
      (\<exists>ss'. hi < ss' * stripe_size s \<and> (\<forall>i < nat (n_devices s). stripe_inv s lo hi bpos ss' i (lun_stripes s lo hi bpos (ss + 1) ?ts ! i)))"
      using 1(1) [OF _ 1(2)] True g(4) 1(3,5,6,7) by auto
    moreover have "lun_stripes s lo hi bpos ss ts = lun_stripes s lo hi bpos (ss + 1) ?ts"
      using True g(4) by (subst lun_stripes.simps) simp
    ultimately show ?thesis by simp
  next
    case False
    then have "lun_stripes s lo hi bpos ss ts = ts" by (subst lun_stripes.simps) simp
    with False 1(3,4) show ?thesis by (auto intro!: exI [of _ ss])
  qed
qed

text \<open>
  What a device gets for the offsets \<open>lo\<close> to \<open>hi\<close> of a row: nothing, if none of them is on it, and otherwise
  one extent that covers exactly those that are.
\<close>

definition dev_share ::
  "('m, 'c, 'd) seglun_priv \<Rightarrow> ex_off \<Rightarrow> ex_off \<Rightarrow> ex_off \<Rightarrow> nat \<Rightarrow> lun_rw \<Rightarrow> bool" where
  "dev_share s lo hi bpos i w \<longleftrightarrow>
     (if lw_ex w = [] then (\<forall>r. lo \<le> r \<and> r \<le> hi \<longrightarrow> row_dev s r \<noteq> i)
      else \<exists>off. lw_ex w = [ex_iovec_single off (lw_len w)] \<and> 0 \<le> off \<and> 0 < lw_len w \<and> lw_len w = pieces_len (lw_iov w) \<and>
        pieces_map s lo hi bpos i off (lw_iov w) \<and>
        (\<forall>r. lo \<le> r \<and> r \<le> hi \<and> row_dev s r = i \<longrightarrow> off \<le> row_pos s r \<and> row_pos s r < off + lw_len w))"

lemma lun_row_decompose_share:
  fixes bpos :: ex_off
  assumes g: "lun_geom s" and rng: "0 \<le> lo" "0 < n" and i: "i < nat (n_devices s)"
  defines "ws \<equiv> lun_row_decompose s (replicate (nat (n_devices s)) lun_rw_empty) lo bpos n"
  shows "length ws = nat (n_devices s)" "dev_share s lo (lo + n - 1) bpos i (ws ! i)"
proof -
  note geo = lun_geomD [OF g]
  let ?hi = "lo + n - 1" and ?ss = "lo div stripe_size s" and ?ts = "replicate (nat (n_devices s)) (-1, 0, [])"
  let ?r = "lun_stripes s lo ?hi bpos ?ss ?ts"
  have "stripe_inv s lo ?hi bpos ?ss j (?ts ! j)" if "j < length ?ts" for j
    using that zdiv_mono1 [OF _ geo(4), of lo] by (fastforce simp: stripe_inv_def)
  moreover have "0 \<le> ?ss" using rng(1) geo(4) by (simp add: pos_imp_zdiv_nonneg_iff)
  ultimately have r: "length ?r = nat (n_devices s)"
    "\<exists>ss'. ?hi < ss' * stripe_size s \<and> (\<forall>i < nat (n_devices s). stripe_inv s lo ?hi bpos ss' i (?r ! i))"
    using lun_stripes_inv [OF g, of ?ts lo ?hi bpos ?ss] rng by auto
  then obtain ss' where ss': "?hi < ss' * stripe_size s" "stripe_inv s lo ?hi bpos ss' i (?r ! i)" using i by blast
  obtain off len iov where t: "?r ! i = (off, len, iov)" by (cases "?r ! i") auto
  show "length ws = nat (n_devices s)" using r(1) by (simp add: ws_def lun_row_decompose_def Let_def)
  have w: "ws ! i = (if off \<ge> 0 then \<lparr>lw_ex = [ex_iovec_single off len], lw_iov = iov, lw_len = len\<rparr>
      else \<lparr>lw_ex = [], lw_iov = iov, lw_len = 0\<rparr>)"
    using r(1) i t by (simp add: ws_def lun_row_decompose_def Let_def lun_rw_empty_def)
  have "r div stripe_size s < ss'" if "r \<le> ?hi" for r
    using div_less_mult [OF geo(4), of r ss'] that ss'(1) by (simp add: mult.commute)
  then have inv: "len = pieces_len iov" "pieces_map s lo ?hi bpos i off iov" "iov = [] \<longleftrightarrow> off = -1" "iov \<noteq> [] \<Longrightarrow> 0 \<le> off"
    "\<And>r. lo \<le> r \<Longrightarrow> r \<le> ?hi \<Longrightarrow> row_dev s r = i \<Longrightarrow> iov \<noteq> [] \<and> off \<le> row_pos s r \<and> row_pos s r < off + len"
    using ss'(2) unfolding stripe_inv_def t by (auto split: if_splits)
  show "dev_share s lo ?hi bpos i (ws ! i)"
  proof (cases "iov = []")
    case True
    with inv(3,5) show ?thesis by (auto simp: dev_share_def w)
  next
    case False
    then have "0 < len" using pieces_map_pos [OF inv(2)] inv(1) by simp
    with False inv show ?thesis by (auto simp: dev_share_def w)
  qed
qed

end
