(* ===== verification/Lun_Transfer.thy ===== *)
theory Lun_Transfer
  imports Lun_Layout
begin

text \<open>
  Reading and writing a striped segment: the invariant of the rows and the bytes they hold, the plan of a
  transfer, the run of its operations, and the counting of errors. A transfer inside the segment
  returns, delivers or stores the bytes it names, and keeps all others.
\<close>

section \<open>Invariant and contents\<close>

definition row_ok ::
  "('m, 'c, 'd) seglun_priv \<Rightarrow> ('d \<Rightarrow> 'c set) \<Rightarrow> ('d \<Rightarrow> 'c \<Rightarrow> ex_off) \<Rightarrow> 'd \<Rightarrow> ('c, 'd) seglun_row \<Rightarrow> bool" where
  "row_ok s live cap_size d b \<longleftrightarrow>
     length (lr_block b) = nat (n_devices s) \<and> 0 \<le> lr_seg_offset b \<and> stripe_size s dvd lr_seg_offset b \<and> 0 < lr_row_len b \<and>
     lr_row_len b = lr_block_len b * n_devices s \<and> lr_seg_end b = lr_seg_offset b + lr_row_len b - 1 \<and>
     chunk_size s dvd lr_block_len b \<and>
     (\<forall>k \<in> set (lr_block b). lb_cap_offset k = 0 \<and> db_cap (lb_data k) \<in> live d \<and>
        lr_block_len b \<le> cap_size d (db_cap (lb_data k)))"

definition row_cap :: "('c, 'd) seglun_row \<times> nat \<Rightarrow> 'c" where
  "row_cap p = db_cap (lb_data (lr_block (fst p) ! snd p))"

definition lun_ok ::
  "('m \<Rightarrow> ('c, 'd) seglun_row interval_entry multiset) \<Rightarrow> ('d \<Rightarrow> 'c set) \<Rightarrow> ('d \<Rightarrow> 'c \<Rightarrow> ex_off) \<Rightarrow>
   ('m, 'c, 'd) seglun_priv \<Rightarrow> bool" where
  "lun_ok items live cap_size s \<longleftrightarrow>
     lun_geom s \<and> keyed_disjoint lr_seg_offset lr_seg_end (items (lun_isl s)) \<and>
     (\<forall>b \<in> entries (items (lun_isl s)). row_ok s live cap_size (lun_world s) b \<and> lr_seg_end b < lun_total_size s) \<and>
     inj_on row_cap (entries (items (lun_isl s)) \<times> {..<nat (n_devices s)}) \<and>
     (\<forall>x. 0 \<le> x \<and> x < lun_total_size s \<longrightarrow>
        (\<exists>b \<in> entries (items (lun_isl s)). lr_seg_offset b \<le> x \<and> x \<le> lr_seg_end b))"

text \<open>The byte of the segment at an offset, for the rows of the table \<open>m\<close> on the depots \<open>d\<close>.\<close>

definition row_byte :: "('m, 'c, 'd) seglun_priv \<Rightarrow> ('d \<Rightarrow> 'c \<Rightarrow> mem) \<Rightarrow> 'd \<Rightarrow> ('c, 'd) seglun_row \<Rightarrow> ex_off \<Rightarrow> byte" where
  "row_byte s bytes d b x =
     bytes d (row_cap (b, row_dev s (x - lr_seg_offset b))) (row_pos s (x - lr_seg_offset b))"

definition lun_byte ::
  "('m, ('c, 'd) seglun_row) isl_ops \<Rightarrow> ('d \<Rightarrow> 'c \<Rightarrow> mem) \<Rightarrow> ('m, 'c, 'd) seglun_priv \<Rightarrow> mem" where
  "lun_byte I bytes s x =
     (case isl_search I (lun_isl s) x x of [] \<Rightarrow> 0 | b # _ \<Rightarrow> row_byte s bytes (lun_world s) b x)"

locale lun_store =
  keyed_intervals I items lr_seg_offset lr_seg_end + depot IO live cap_size bytes
  for I :: "('m, ('c, 'd) seglun_row) isl_ops" and items :: "'m \<Rightarrow> ('c, 'd) seglun_row interval_entry multiset"
    and IO :: "('d, 'c) ds_io" and live :: "'d \<Rightarrow> 'c set" and cap_size :: "'d \<Rightarrow> 'c \<Rightarrow> ex_off"
    and bytes :: "'d \<Rightarrow> 'c \<Rightarrow> mem"
begin

abbreviation rok :: "('m, 'c, 'd) seglun_priv \<Rightarrow> 'd \<Rightarrow> ('c, 'd) seglun_row \<Rightarrow> bool" where
  "rok s d b \<equiv> row_ok s live cap_size d b"

abbreviation lunok :: "('m, 'c, 'd) seglun_priv \<Rightarrow> bool" where
  "lunok s \<equiv> lun_ok items live cap_size s"

abbreviation rbyte :: "('m, 'c, 'd) seglun_priv \<Rightarrow> 'd \<Rightarrow> ('c, 'd) seglun_row \<Rightarrow> ex_off \<Rightarrow> byte" where
  "rbyte s d b x \<equiv> row_byte s bytes d b x"

lemma lunok_facts:
  assumes "lunok s"
  shows "lun_geom s" "wf (lun_isl s)" "b \<in> ents (lun_isl s) \<Longrightarrow> rok s (lun_world s) b"
    "b \<in> ents (lun_isl s) \<Longrightarrow> lr_seg_end b < lun_total_size s" "inj_on row_cap (ents (lun_isl s) \<times> {..<nat (n_devices s)})"
    "0 \<le> x \<Longrightarrow> x < lun_total_size s \<Longrightarrow> \<exists>b \<in> ents (lun_isl s). lr_seg_offset b \<le> x \<and> x \<le> lr_seg_end b"
  using assms by (auto simp: lun_ok_def)

lemma rok_block:
  assumes "rok s d b" "i < nat (n_devices s)"
  shows "row_cap (b, i) \<in> live d" "lr_block_len b \<le> cap_size d (row_cap (b, i))"
  using assms by (auto simp: row_ok_def row_cap_def)

lemma rok_keeps:
  assumes "keeps live cap_size bytes C d d'" "rok s d b" "\<And>i. i < nat (n_devices s) \<Longrightarrow> row_cap (b, i) \<in> C"
  shows "rok s d' b"
proof -
  have "db_cap (lb_data k) \<in> C" if "k \<in> set (lr_block b)" for k
    using assms(2,3) that by (auto simp: row_ok_def row_cap_def in_set_conv_nth)
  with assms(1,2) show ?thesis by (auto simp: row_ok_def keeps_def)
qed

lemma row_where:
  assumes "lun_geom s" "rok s d b" "lr_seg_offset b \<le> x" "x \<le> lr_seg_end b"
  shows "row_dev s (x - lr_seg_offset b) < nat (n_devices s)" "0 \<le> row_pos s (x - lr_seg_offset b)"
    "row_pos s (x - lr_seg_offset b) < lr_block_len b"
  using row_dev_less [OF assms(1)] row_pos_less [OF assms(1), of "lr_block_len b" "x - lr_seg_offset b"] assms
  by (auto simp: row_ok_def)

lemma rbyte_keeps:
  assumes "keeps live cap_size bytes C d d'" "lun_geom s" "rok s d b" "lr_seg_offset b \<le> x" "x \<le> lr_seg_end b"
    and "row_cap (b, row_dev s (x - lr_seg_offset b)) \<in> C"
  shows "rbyte s d' b x = rbyte s d b x"
proof -
  note w = row_where [OF assms(2-5)]
  show ?thesis
    using keepsD(3) [OF assms(1,6) rok_block(1) [OF assms(3) w(1)]] w rok_block(2) [OF assms(3) w(1)]
    by (auto simp: row_byte_def)
qed

lemma lun_byte_row:
  assumes "wf (lun_isl s)" "b \<in> ents (lun_isl s)" "lr_seg_offset b \<le> x" "x \<le> lr_seg_end b"
  shows "lun_byte I bytes s x = rbyte s (lun_world s) b x"
proof -
  have b: "b \<in> set (isl_search I (lun_isl s) x x)" using search_entries(1) [OF assms(1)] assms by simp
  then obtain c cs where c: "isl_search I (lun_isl s) x x = c # cs" by (cases "isl_search I (lun_isl s) x x") auto
  have "c = b"
    using search_hd [OF assms(1) c] entries_disjoint [OF assms(1,2), of c] assms(3,4) by fastforce
  with c show ?thesis by (simp add: lun_byte_def)
qed

end

section \<open>The plan of a transfer\<close>

fun row_table :: "('m, 'c, 'd) seglun_priv \<Rightarrow> ex_off \<Rightarrow> ex_off \<Rightarrow> ('c, 'd) seglun_row list \<Rightarrow> ex_off \<Rightarrow> ('c, 'd) lun_table" where
  "row_table s lo hi [] bpos = []"
| "row_table s lo hi (b # bs) bpos =
     (let start = (if lo \<le> lr_seg_offset b then 0 else lo - lr_seg_offset b);
          bend = (if hi \<ge> lr_seg_end b then lr_row_len b - 1 else hi - lr_seg_offset b);
          blen = bend - start + 1
      in (b, lun_row_decompose s (replicate (nat (n_devices s)) lun_rw_empty) start bpos blen) # row_table s lo hi bs (bpos + blen))"

lemma plan_rows_table:
  "distinct (map fst tab @ bs) \<Longrightarrow> snd (lun_plan_rows s lo hi bs bpos tab) = tab @ row_table s lo hi bs bpos"
proof (induction bs arbitrary: bpos tab)
  case (Cons b bs)
  then have "b \<notin> fst ` set tab" by auto
  with Cons show ?case by (simp add: Let_def lun_table_add_def)
qed simp

lemma plan_iov_single:
  "distinct (isl_search I (lun_isl s) lo (lo + n - 1)) \<Longrightarrow>
   lun_plan_iov I s [ex_iovec_single lo n] boff [] = row_table s lo (lo + n - 1) (isl_search I (lun_isl s) lo (lo + n - 1)) boff"
  using plan_rows_table [of "[]" "isl_search I (lun_isl s) lo (lo + n - 1)" s lo "lo + n - 1" boff]
  by (simp add: case_prod_beta Let_def)

lemma fst_row_table [simp]: "map fst (row_table s lo hi bs bpos) = bs"
  by (induction bs arbitrary: bpos) (simp_all add: Let_def)

text \<open>
  In a chain of rows every row is given the part of the extent that lies in it, at the place of
  the buffer that belongs to it.
\<close>

definition row_share :: "('m, 'c, 'd) seglun_priv \<Rightarrow> ex_off \<Rightarrow> ex_off \<Rightarrow> ex_off \<Rightarrow> ('c, 'd) seglun_row \<Rightarrow> lun_rw list" where
  "row_share s lo hi base b =
     lun_row_decompose s (replicate (nat (n_devices s)) lun_rw_empty) (max lo (lr_seg_offset b) - lr_seg_offset b)
       (base + (max lo (lr_seg_offset b) - lo)) (min hi (lr_seg_end b) - max lo (lr_seg_offset b) + 1)"

lemma row_table_share:
  assumes "chain lr_seg_offset lr_seg_end lo hi pos bs" "\<forall>b \<in> set bs. lr_seg_end b = lr_seg_offset b + lr_row_len b - 1"
  shows "row_table s lo hi bs (base + (pos - lo)) = map (\<lambda>b. (b, row_share s lo hi base b)) bs"
  using assms
proof (induction bs arbitrary: pos)
  case (Cons b bs)
  let ?start = "if lo \<le> lr_seg_offset b then 0 else lo - lr_seg_offset b"
  let ?bend = "if hi \<ge> lr_seg_end b then lr_row_len b - 1 else hi - lr_seg_offset b"
  have p: "?start = max lo (lr_seg_offset b) - lr_seg_offset b" "max lo (lr_seg_offset b) = pos"
    "?bend - (pos - lr_seg_offset b) + 1 = min hi (lr_seg_end b) - pos + 1"
    using Cons.prems by (auto simp: max_def min_def)
  have "row_table s lo hi bs (base + (pos - lo) + (min hi (lr_seg_end b) - pos + 1)) = map (\<lambda>b. (b, row_share s lo hi base b)) bs"
  proof (cases bs)
    case Nil
    then show ?thesis by simp
  next
    case (Cons c cs)
    with Cons.prems have "lr_seg_end b < hi" by (auto simp: max_def)
    with Cons.IH [of "lr_seg_end b + 1"] Cons.prems show ?thesis by (simp add: algebra_simps)
  qed
  then show ?case by (simp only: row_table.simps Let_def p list.map row_share_def)
qed simp

lemma row_tasks_mem:
  "t \<in> set (fst (lun_row_tasks mx now b ks bl cnt)) \<Longrightarrow>
     lk_row t = b \<and> (lk_dev t, lk_block t, lk_rw t) \<in> set ks \<and> lw_ex (lk_rw t) \<noteq> []"
proof (induction ks arbitrary: bl cnt)
  case (Cons k ks)
  obtain i k' w where k: "k = (i, k', w)" by (cases k)
  show ?case
  proof (cases "lw_ex w = []")
    case True
    with Cons k show ?thesis by auto
  next
    case False
    then show ?thesis
      using Cons.prems Cons.IH [of "fst (snd (lun_skip bl mx now (case db_rid_key (lb_data k') of None \<Rightarrow> '''' | Some r \<Rightarrow> r) cnt))"
          "snd (snd (lun_skip bl mx now (case db_rid_key (lb_data k') of None \<Rightarrow> '''' | Some r \<Rightarrow> r) cnt))"]
      by (auto simp: k Let_def case_prod_beta)
  qed
qed simp

lemma row_tasks_cover:
  "(i, k, w) \<in> set ks \<Longrightarrow> lw_ex w \<noteq> [] \<Longrightarrow>
     \<exists>t \<in> set (fst (lun_row_tasks mx now b ks bl cnt)). lk_row t = b \<and> lk_dev t = i \<and> lk_block t = k \<and> lk_rw t = w"
proof (induction ks arbitrary: bl cnt)
  case (Cons k ks)
  then show ?case by (cases k) (auto simp: Let_def case_prod_beta)
qed simp

lemma tasks_mem:
  "t \<in> set (fst (lun_tasks mx now tab bl)) \<Longrightarrow>
     \<exists>ws. (lk_row t, ws) \<in> set tab \<and> lk_dev t < length ws \<and> lk_dev t < length (lr_block (lk_row t)) \<and>
       lk_block t = lr_block (lk_row t) ! lk_dev t \<and> lk_rw t = ws ! lk_dev t \<and> lw_ex (lk_rw t) \<noteq> []"
proof (induction mx now tab bl rule: lun_tasks.induct)
  case (2 mx now b ws tab bl)
  let ?r = "lun_row_tasks mx now b (zip [0..<length ws] (zip (lr_block b) ws)) bl 0"
  consider "t \<in> set (fst ?r)" | "t \<in> set (fst (lun_tasks mx now tab (snd ?r)))"
    using 2(2) by (auto simp: Let_def split: prod.splits)
  then show ?case
  proof cases
    case 1
    from row_tasks_mem [OF this] show ?thesis by (auto simp: in_set_zip)
  next
    case 2
    then show ?thesis using "2.IH" by (cases ?r) fastforce
  qed
qed simp

lemma tasks_cover:
  "(b, ws) \<in> set tab \<Longrightarrow> i < length ws \<Longrightarrow> i < length (lr_block b) \<Longrightarrow> lw_ex (ws ! i) \<noteq> [] \<Longrightarrow>
     \<exists>t \<in> set (fst (lun_tasks mx now tab bl)). lk_row t = b \<and> lk_dev t = i"
proof (induction mx now tab bl rule: lun_tasks.induct)
  case (2 mx now b' ws' tab bl)
  let ?r = "lun_row_tasks mx now b' (zip [0..<length ws'] (zip (lr_block b') ws')) bl 0"
  have eq: "fst (lun_tasks mx now ((b', ws') # tab) bl) = fst ?r @ fst (lun_tasks mx now tab (snd ?r))"
    by (simp add: Let_def split: prod.splits)
  show ?case
  proof (cases "(b, ws) = (b', ws')")
    case True
    then have "(i, lr_block b' ! i, ws' ! i) \<in> set (zip [0..<length ws'] (zip (lr_block b') ws'))"
      using 2(3,4) by (auto simp: in_set_zip intro!: exI [of _ i])
    from row_tasks_cover [OF this] 2(5) True eq show ?thesis by (metis Un_iff prod.inject set_append)
  next
    case False
    then have "(b, ws) \<in> set tab" using 2(2) by auto
    then show ?thesis using 2(1) [OF refl, of "fst ?r" "snd ?r"] 2(3-5) unfolding eq by (auto simp: bex_Un)
  qed
qed simp

section \<open>One operation\<close>

text \<open>
  The offsets of the segment that a task is for. A task is well formed when it stands for the
  share of its device in the extent from \<open>lo\<close> to \<open>hi\<close> and the buffer from \<open>base\<close>.
\<close>

definition task_set :: "('m, 'c, 'd) seglun_priv \<Rightarrow> ex_off \<Rightarrow> ex_off \<Rightarrow> ('c, 'd) lun_task \<Rightarrow> ex_off set" where
  "task_set s lo hi t =
     {x. lo \<le> x \<and> x \<le> hi \<and> lr_seg_offset (lk_row t) \<le> x \<and> x \<le> lr_seg_end (lk_row t) \<and>
        row_dev s (x - lr_seg_offset (lk_row t)) = lk_dev t}"

definition task_ok :: "('m, 'c, 'd) seglun_priv \<Rightarrow> ex_off \<Rightarrow> ex_off \<Rightarrow> ex_off \<Rightarrow> ('c, 'd) lun_task \<Rightarrow> bool" where
  "task_ok s lo hi base t \<longleftrightarrow>
     (let b = lk_row t; p = lr_seg_offset b
      in lk_dev t < nat (n_devices s) \<and> lk_block t = lr_block b ! lk_dev t \<and> lw_ex (lk_rw t) \<noteq> [] \<and>
         dev_share s (max lo p - p) (min hi (lr_seg_end b) - p) (base + (max lo p - lo)) (lk_dev t) (lk_rw t))"

lemma get_pieces_single: "get_pieces m (iov_pieces [ex_iovec_single off n]) = mem_get m off n"
  by (simp add: get_pieces_def iov_pieces_def ex_iovec_single_def)

lemma put_pieces_single: "length bs = nat n \<Longrightarrow> put_pieces m [(p, n)] bs = mem_put m p bs"
  by simp

context lun_store
begin

lemma task_extent:
  assumes g: "lun_geom s" and t: "task_ok s lo hi base t" and r: "rok s d (lk_row t)"
  shows "\<exists>off. lw_ex (lk_rw t) = [ex_iovec_single off (lw_len (lk_rw t))] \<and> 0 \<le> off \<and> 0 < lw_len (lk_rw t) \<and>
    off + lw_len (lk_rw t) \<le> lr_block_len (lk_row t) \<and> lw_len (lk_rw t) = pieces_len (lw_iov (lk_rw t)) \<and>
    pieces_map s (max lo (lr_seg_offset (lk_row t)) - lr_seg_offset (lk_row t))
      (min hi (lr_seg_end (lk_row t)) - lr_seg_offset (lk_row t))
      (base + (max lo (lr_seg_offset (lk_row t)) - lo)) (lk_dev t) off (lw_iov (lk_rw t)) \<and>
    (\<forall>x. x \<in> task_set s lo hi t \<longrightarrow> off \<le> row_pos s (x - lr_seg_offset (lk_row t)) \<and>
        row_pos s (x - lr_seg_offset (lk_row t)) < off + lw_len (lk_rw t))"
proof -
  let ?b = "lk_row t" and ?w = "lk_rw t"
  let ?p = "lr_seg_offset ?b"
  let ?lo = "max lo ?p - ?p" and ?hi = "min hi (lr_seg_end ?b) - ?p" and ?bp = "base + (max lo ?p - lo)"
  obtain off where o: "lw_ex ?w = [ex_iovec_single off (lw_len ?w)]" "0 \<le> off" "0 < lw_len ?w"
      "lw_len ?w = pieces_len (lw_iov ?w)" "pieces_map s ?lo ?hi ?bp (lk_dev t) off (lw_iov ?w)"
      "\<forall>r. ?lo \<le> r \<and> r \<le> ?hi \<and> row_dev s r = lk_dev t \<longrightarrow> off \<le> row_pos s r \<and> row_pos s r < off + lw_len ?w"
    using t by (auto simp: task_ok_def dev_share_def Let_def)
  obtain r where "?lo \<le> r" "r \<le> ?hi" "row_pos s r = off + lw_len ?w - 1"
    using pieces_map_get [OF o(5), of "off + lw_len ?w - 1"] o(3,4) by auto
  then have "off + lw_len ?w - 1 < lr_block_len ?b"
    using row_where(3) [OF g r, of "?p + r"] by auto
  moreover have "off \<le> row_pos s (x - ?p) \<and> row_pos s (x - ?p) < off + lw_len ?w" if "x \<in> task_set s lo hi t" for x
    using that o(6) by (auto simp: task_set_def)
  ultimately show ?thesis using o by auto
qed

lemma exec_read:
  assumes g: "lun_geom s" and t: "task_ok s lo hi base t" and r: "rok s d (lk_row t)"
    and e: "lun_exec IO 0 d buf t = (st, buf', d')"
  shows "kept UNIV d d'"
    "st = OP_STATE_SUCCESS \<Longrightarrow>
       buf' y = (if y - base + lo \<in> task_set s lo hi t then rbyte s d (lk_row t) (y - base + lo) else buf y)"
proof -
  let ?b = "lk_row t" and ?w = "lk_rw t"
  let ?p = "lr_seg_offset ?b" and ?c = "row_cap (lk_row t, lk_dev t)"
  let ?lo = "max lo ?p - ?p" and ?hi = "min hi (lr_seg_end ?b) - ?p" and ?bp = "base + (max lo ?p - lo)"
  from task_extent [OF g t r] obtain off where o: "lw_ex ?w = [ex_iovec_single off (lw_len ?w)]" "0 \<le> off" "0 < lw_len ?w"
      "off + lw_len ?w \<le> lr_block_len ?b" "lw_len ?w = pieces_len (lw_iov ?w)"
      "pieces_map s ?lo ?hi ?bp (lk_dev t) off (lw_iov ?w)"
      "\<forall>x. x \<in> task_set s lo hi t \<longrightarrow> off \<le> row_pos s (x - ?p) \<and> row_pos s (x - ?p) < off + lw_len ?w" by blast
  have i: "lk_dev t < nat (n_devices s)" "db_cap (lb_data (lk_block t)) = ?c"
    using t by (auto simp: task_ok_def Let_def row_cap_def)
  note c = rok_block [OF r i(1)]
  have law: "kept UNIV d d' \<and> (st = OP_STATE_SUCCESS \<longrightarrow>
      buf' = put_pieces buf (lw_iov ?w) (mem_get (bytes d ?c) off (lw_len ?w)))" if "\<not> lk_skip t"
  proof (cases "length (lw_iov ?w) = 1")
    case True
    then obtain q where q: "lw_iov ?w = [(q, lw_len ?w)]" using o(5) by (cases "lw_iov ?w") auto
    have "io_read IO d ?c off buf q (lw_len ?w) = (st, buf', d')"
      using e that by (simp add: lun_exec_def Let_def q o(1) i(2) ex_iovec_single_def)
    from read_law [OF this c(1) o(2,3)] o(4) c(2) show ?thesis by (simp add: q)
  next
    case False
    have "io_readv IO d ?c (lw_ex ?w) buf (lw_iov ?w) = (st, buf', d')"
      using e that False by (simp add: lun_exec_def Let_def i(2))
    from readv_law [OF this c(1)] o(1-5) c(2) show ?thesis
      unfolding o(1) get_pieces_single by (simp add: iov_pieces_def ex_iovec_single_def)
  qed
  show "kept UNIV d d'" using law e by (cases "lk_skip t") (auto simp: lun_exec_def Let_def)
  assume st: "st = OP_STATE_SUCCESS"
  then have "\<not> lk_skip t" using e by (auto simp: lun_exec_def Let_def)
  with law st have "buf' = put_pieces buf (lw_iov ?w) (mem_get (bytes d ?c) off (lw_len ?w))" by simp
  then have put: "buf' y = (let r = y - ?bp + ?lo in if ?lo \<le> r \<and> r \<le> ?hi \<and> row_dev s r = lk_dev t \<and> off \<le> row_pos s r \<and>
      row_pos s r < off + pieces_len (lw_iov ?w) then mem_get (bytes d ?c) off (lw_len ?w) ! nat (row_pos s r - off) else buf y)"
    using put_pieces_map [OF g o(6), of "mem_get (bytes d ?c) off (lw_len ?w)" buf y] o(3,5) by simp
  define r where "r = y - base + lo - ?p"
  have r: "y - ?bp + ?lo = r" "y - base + lo = r + ?p" by (simp_all add: r_def)
  have mem: "r + ?p \<in> task_set s lo hi t \<longleftrightarrow> ?lo \<le> r \<and> r \<le> ?hi \<and> row_dev s r = lk_dev t"
    by (auto simp: task_set_def)
  show "buf' y = (if y - base + lo \<in> task_set s lo hi t then rbyte s d (lk_row t) (y - base + lo) else buf y)"
  proof (cases "r + ?p \<in> task_set s lo hi t")
    case True
    then have "off \<le> row_pos s r" "row_pos s r < off + lw_len ?w" using o(7) by fastforce+
    with True mem show ?thesis unfolding put r Let_def by (simp add: row_byte_def o(5) [symmetric])
  next
    case False
    then show ?thesis unfolding put r Let_def using mem by auto
  qed
qed


lemma exec_write_law:
  assumes g: "lun_geom s" and t: "task_ok s lo hi base t" and r: "rok s d (lk_row t)" and skip: "\<not> lk_skip t"
    and e: "lun_exec IO 1 d buf t = (st, buf', d')" and o: "lw_ex (lk_rw t) = [ex_iovec_single off (lw_len (lk_rw t))]"
  shows "kept (- {row_cap (lk_row t, lk_dev t)}) d d' \<and> row_cap (lk_row t, lk_dev t) \<in> live d' \<and>
    cap_size d' (row_cap (lk_row t, lk_dev t)) = cap_size d (row_cap (lk_row t, lk_dev t)) \<and> buf' = buf \<and>
    (\<forall>x. 0 \<le> x \<and> x < cap_size d (row_cap (lk_row t, lk_dev t)) \<and> \<not> (off \<le> x \<and> x < off + lw_len (lk_rw t)) \<longrightarrow>
       bytes d' (row_cap (lk_row t, lk_dev t)) x = bytes d (row_cap (lk_row t, lk_dev t)) x) \<and>
    (st = OP_STATE_SUCCESS \<longrightarrow> (\<forall>x. off \<le> x \<and> x < off + lw_len (lk_rw t) \<longrightarrow>
       bytes d' (row_cap (lk_row t, lk_dev t)) x = get_pieces buf (lw_iov (lk_rw t)) ! nat (x - off)))"
proof -
  let ?b = "lk_row t" and ?w = "lk_rw t"
  let ?c = "row_cap (lk_row t, lk_dev t)"
  from task_extent [OF g t r] o have ex: "0 \<le> off" "0 < lw_len ?w"
      "off + lw_len ?w \<le> lr_block_len ?b" "lw_len ?w = pieces_len (lw_iov ?w)"
    by (auto simp: ex_iovec_single_def)
  from task_extent [OF g t r] have glen: "int (length (get_pieces buf (lw_iov ?w))) = lw_len ?w"
    by (auto dest: length_get_pieces)
  have i: "lk_dev t < nat (n_devices s)" "db_cap (lb_data (lk_block t)) = ?c"
    using t by (auto simp: task_ok_def Let_def row_cap_def)
  note c = rok_block [OF r i(1)]
  show ?thesis
  proof (cases "length (lw_iov ?w) = 1")
    case True
    then obtain q where q: "lw_iov ?w = [(q, lw_len ?w)]" using ex(4) by (cases "lw_iov ?w") auto
    have io: "io_write IO d ?c off buf q (lw_len ?w) = (st, d')" and buf: "buf' = buf"
      using e skip by (auto simp: lun_exec_def Let_def q o i(2) ex_iovec_single_def split: prod.splits)
    have "get_pieces buf (lw_iov ?w) ! nat (x - off) = buf (q + (x - off))" if "off \<le> x" "x < off + lw_len ?w" for x
      using that by (simp add: get_pieces_def q)
    with write_law [OF io c(1) ex(1,2)] ex(3) c(2) buf show ?thesis by auto
  next
    case False
    have io: "io_writev IO d ?c [ex_iovec_single off (lw_len ?w)] buf (lw_iov ?w) = (st, d')" and buf: "buf' = buf"
      using e skip False by (auto simp: lun_exec_def Let_def o i(2) split: prod.splits)
    have "put_pieces (bytes d ?c) (iov_pieces [ex_iovec_single off (lw_len ?w)]) (get_pieces buf (lw_iov ?w)) x =
        get_pieces buf (lw_iov ?w) ! nat (x - off)" if "off \<le> x" "x < off + lw_len ?w" for x
      using that glen by (simp add: iov_pieces_def ex_iovec_single_def mem_put_def)
    moreover have "\<forall>v \<in> set [ex_iovec_single off (lw_len ?w)]. 0 \<le> iov_offset v \<and> 0 < iov_len v \<and> iov_offset v + iov_len v \<le> cap_size d ?c"
      "pieces_len (iov_pieces [ex_iovec_single off (lw_len ?w)]) = pieces_len (lw_iov ?w)"
      using ex c(2) by (auto simp: ex_iovec_single_def iov_pieces_def)
    note law = writev_law [OF io c(1) this]
    ultimately show ?thesis using law buf ex c(2) by (auto simp: ex_iovec_single_def)
  qed
qed

lemma exec_write:
  assumes g: "lun_geom s" and t: "task_ok s lo hi base t" and E: "\<forall>b \<in> E. rok s d b" "inj_on row_cap (E \<times> {..<nat (n_devices s)})"
    and m: "lk_row t \<in> E" and e: "lun_exec IO 1 d buf t = (st, buf', d')"
  shows "buf' = buf" "\<forall>b \<in> E. rok s d' b"
    "b \<in> E \<Longrightarrow> lr_seg_offset b \<le> x \<Longrightarrow> x \<le> lr_seg_end b \<Longrightarrow> \<not> (b = lk_row t \<and> x \<in> task_set s lo hi t) \<Longrightarrow> rbyte s d' b x = rbyte s d b x"
    "st = OP_STATE_SUCCESS \<Longrightarrow> x \<in> task_set s lo hi t \<Longrightarrow> rbyte s d' (lk_row t) x = buf (base + (x - lo))"
proof -
  let ?b = "lk_row t" and ?w = "lk_rw t"
  let ?p = "lr_seg_offset ?b" and ?c = "row_cap (lk_row t, lk_dev t)"
  let ?lo = "max lo ?p - ?p" and ?hi = "min hi (lr_seg_end ?b) - ?p" and ?bp = "base + (max lo ?p - lo)"
  have r: "rok s d ?b" using E m by blast
  from task_extent [OF g t r] obtain off where o: "lw_ex ?w = [ex_iovec_single off (lw_len ?w)]" "0 \<le> off" "0 < lw_len ?w"
      "off + lw_len ?w \<le> lr_block_len ?b" "lw_len ?w = pieces_len (lw_iov ?w)"
      "pieces_map s ?lo ?hi ?bp (lk_dev t) off (lw_iov ?w)"
      "\<forall>x. x \<in> task_set s lo hi t \<longrightarrow> off \<le> row_pos s (x - ?p) \<and> row_pos s (x - ?p) < off + lw_len ?w" by blast
  have i: "lk_dev t < nat (n_devices s)" using t by (auto simp: task_ok_def Let_def)
  have skip: "buf' = buf \<and> d' = d \<and> st = OP_STATE_FAILURE" if "lk_skip t" using e that by (simp add: lun_exec_def Let_def)
  note law = exec_write_law [OF g t r _ e o(1)]
  show "buf' = buf" using law skip by blast
  have kp: "kept (- {?c}) d d'" "?c \<in> live d'" "cap_size d' ?c = cap_size d ?c"
    using law skip rok_block(1) [OF r i] by (cases "lk_skip t"; simp)+
  show "\<forall>b \<in> E. rok s d' b"
  proof
    fix b assume "b \<in> E"
    with E(1) have b: "rok s d b" by blast
    have "db_cap (lb_data k) \<in> live d' \<and> cap_size d' (db_cap (lb_data k)) = cap_size d (db_cap (lb_data k))"
      if "k \<in> set (lr_block b)" for k
      using kp that b by (cases "db_cap (lb_data k) = ?c") (auto simp: keeps_def row_ok_def)
    with b show "rok s d' b" by (auto simp: row_ok_def)
  qed
  have one: "bytes d' ?c (row_pos s (x - ?p)) = get_pieces buf (lw_iov ?w) ! nat (row_pos s (x - ?p) - off)"
    if "st = OP_STATE_SUCCESS" "x \<in> task_set s lo hi t" for x
    using law skip that o(7) by fastforce
  show "rbyte s d' (lk_row t) x = buf (base + (x - lo))" if st: "st = OP_STATE_SUCCESS" and x: "x \<in> task_set s lo hi t"
  proof -
    obtain r where r: "row_dev s r = lk_dev t" "row_pos s r = row_pos s (x - ?p)"
      "get_pieces buf (lw_iov ?w) ! nat (row_pos s (x - ?p) - off) = buf (?bp + (r - ?lo))"
      using pieces_map_get [OF o(6), of "row_pos s (x - ?p)" buf] o(5,7) x by auto
    then have "r = x - ?p" using row_inj [OF g, of r "x - ?p"] x by (auto simp: task_set_def)
    then show ?thesis using one [OF st x] r(3) x by (auto simp: row_byte_def task_set_def)
  qed
  assume b: "b \<in> E" and x: "lr_seg_offset b \<le> x" "x \<le> lr_seg_end b" and out: "\<not> (b = lk_row t \<and> x \<in> task_set s lo hi t)"
  let ?r = "x - lr_seg_offset b"
  have rb: "rok s d b" using E b by blast
  note wh = row_where [OF g rb x]
  show "rbyte s d' b x = rbyte s d b x"
  proof (cases "row_cap (b, row_dev s ?r) = ?c")
    case False
    then show ?thesis by (intro rbyte_keeps [OF kp(1) g rb x]) simp
  next
    case True
    then have same: "b = ?b" "row_dev s ?r = lk_dev t"
      using inj_onD [OF E(2) True] b m wh(1) i by auto
    have "\<not> (off \<le> row_pos s ?r \<and> row_pos s ?r < off + lw_len ?w)"
    proof
      assume "off \<le> row_pos s ?r \<and> row_pos s ?r < off + lw_len ?w"
      then obtain r where r: "?lo \<le> r" "r \<le> ?hi" "row_dev s r = lk_dev t" "row_pos s r = row_pos s ?r"
        using pieces_map_get [OF o(6), of "row_pos s ?r" buf] o(5) by auto
      then have "r = ?r" using row_inj [OF g, of r ?r] same by simp
      with r same x out show False by (auto simp: task_set_def)
    qed
    moreover have "row_pos s ?r < cap_size d ?c" using wh(3) rok_block(2) [OF r i] same(1) by simp
    ultimately show ?thesis using law skip wh(2) True by (cases "lk_skip t") (auto simp: row_byte_def)
  qed
qed

end

section \<open>The run of a plan\<close>

context lun_store
begin

lemma run_read:
  assumes g: "lun_geom s" and r: "lun_run IO 0 d buf ts = (sts, buf', d')"
    and ts: "\<forall>t \<in> set ts. task_ok s lo hi base t \<and> rok s d (lk_row t) \<and> (\<forall>x \<in> task_set s lo hi t. rbyte s d (lk_row t) x = F x)"
  shows "length sts = length ts \<and> kept UNIV d d' \<and>
    (set sts \<subseteq> {OP_STATE_SUCCESS} \<longrightarrow>
       (\<forall>y. buf' y = (if \<exists>t \<in> set ts. y - base + lo \<in> task_set s lo hi t then F (y - base + lo) else buf y)))"
  using r ts
proof (induction ts arbitrary: d buf sts)
  case (Cons t ts)
  obtain st buf1 d1 where e: "lun_exec IO 0 d buf t = (st, buf1, d1)" by (metis prod.exhaust)
  obtain sts2 where r: "lun_run IO 0 d1 buf1 ts = (sts2, buf', d')" "sts = st # sts2"
    using Cons.prems(1) e by (auto split: prod.splits)
  have t: "task_ok s lo hi base t" "rok s d (lk_row t)" "\<And>x. x \<in> task_set s lo hi t \<Longrightarrow> rbyte s d (lk_row t) x = F x"
    using Cons.prems(2) by auto
  note ex = exec_read [OF g t(1,2) e]
  have "\<forall>t \<in> set ts. task_ok s lo hi base t \<and> rok s d1 (lk_row t) \<and> (\<forall>x \<in> task_set s lo hi t. rbyte s d1 (lk_row t) x = F x)"
    using Cons.prems(2) rok_keeps [OF ex(1)] rbyte_keeps [OF ex(1) g] by (auto simp: task_set_def)
  note IH = Cons.IH [OF r(1) this]
  from IH show ?case using keeps_trans [OF ex(1)] ex(2) t(3) by (auto simp: r(2))
qed auto

lemma run_write:
  assumes g: "lun_geom s" and E: "inj_on row_cap (E \<times> {..<nat (n_devices s)})"
    and r: "lun_run IO 1 d buf ts = (sts, buf', d')"
    and ts: "\<forall>t \<in> set ts. task_ok s lo hi base t \<and> lk_row t \<in> E" "\<forall>b \<in> E. rok s d b"
  shows "length sts = length ts \<and> buf' = buf \<and> (\<forall>b \<in> E. rok s d' b) \<and>
    (\<forall>b \<in> E. \<forall>x. lr_seg_offset b \<le> x \<and> x \<le> lr_seg_end b \<longrightarrow>
       ((\<forall>t \<in> set ts. b = lk_row t \<longrightarrow> x \<notin> task_set s lo hi t) \<longrightarrow> rbyte s d' b x = rbyte s d b x) \<and>
       (set sts \<subseteq> {OP_STATE_SUCCESS} \<and> (\<exists>t \<in> set ts. b = lk_row t \<and> x \<in> task_set s lo hi t) \<longrightarrow>
          rbyte s d' b x = buf (base + (x - lo))))"
  using r ts
proof (induction ts arbitrary: d sts)
  case (Cons t ts)
  obtain st buf1 d1 where e: "lun_exec IO 1 d buf t = (st, buf1, d1)" by (metis prod.exhaust)
  have t: "task_ok s lo hi base t" "lk_row t \<in> E" using Cons.prems(2) by auto
  note ex = exec_write [OF g t(1) Cons.prems(3) E t(2) e]
  obtain sts2 where r: "lun_run IO 1 d1 buf ts = (sts2, buf', d')" "sts = st # sts2"
    using Cons.prems(1) e ex(1) by (auto split: prod.splits)
  note IH = Cons.IH [OF r(1) _ ex(2)]
  have IH': "length sts2 = length ts" "buf' = buf" "\<forall>b \<in> E. rok s d' b"
    "\<And>b x. b \<in> E \<Longrightarrow> lr_seg_offset b \<le> x \<Longrightarrow> x \<le> lr_seg_end b \<Longrightarrow>
       \<forall>t \<in> set ts. b = lk_row t \<longrightarrow> x \<notin> task_set s lo hi t \<Longrightarrow> rbyte s d' b x = rbyte s d1 b x"
    "\<And>b x. b \<in> E \<Longrightarrow> lr_seg_offset b \<le> x \<Longrightarrow> x \<le> lr_seg_end b \<Longrightarrow> set sts2 \<subseteq> {OP_STATE_SUCCESS} \<Longrightarrow>
       \<exists>t \<in> set ts. b = lk_row t \<and> x \<in> task_set s lo hi t \<Longrightarrow> rbyte s d' b x = buf (base + (x - lo))"
    using IH Cons.prems(2) by auto
  have "rbyte s d' b x = rbyte s d b x"
    if "b \<in> E" "lr_seg_offset b \<le> x" "x \<le> lr_seg_end b" "\<forall>t \<in> set (t # ts). b = lk_row t \<longrightarrow> x \<notin> task_set s lo hi t" for b x
    using IH'(4) [OF that(1-3)] ex(3) [OF that(1-3)] that(4) by auto
  moreover have "rbyte s d' b x = buf (base + (x - lo))"
    if "b \<in> E" "lr_seg_offset b \<le> x" "x \<le> lr_seg_end b" "set sts \<subseteq> {OP_STATE_SUCCESS}"
      "\<exists>t \<in> set (t # ts). b = lk_row t \<and> x \<in> task_set s lo hi t" for b x
  proof (cases "\<exists>t \<in> set ts. b = lk_row t \<and> x \<in> task_set s lo hi t")
    case True
    then show ?thesis using IH'(5) [OF that(1-3)] that(4) r(2) by auto
  next
    case False
    then show ?thesis using IH'(4) [OF that(1-3)] that(4,5) ex(4) r(2) by auto
  qed
  ultimately show ?case using IH'(1-3) r(2) by auto
qed auto

end

section \<open>Counting the errors\<close>

definition same_row :: "('c, 'd) seglun_row \<Rightarrow> ('c, 'd) seglun_row \<Rightarrow> bool" where
  "same_row b b' \<longleftrightarrow>
     lr_seg_offset b' = lr_seg_offset b \<and> lr_seg_end b' = lr_seg_end b \<and> lr_block_len b' = lr_block_len b \<and>
     lr_row_len b' = lr_row_len b \<and> map lb_data (lr_block b') = map lb_data (lr_block b) \<and>
     map lb_cap_offset (lr_block b') = map lb_cap_offset (lr_block b)"

lemma same_row_refl [simp]: "same_row b b"
  by (simp add: same_row_def)

lemma map_list_update_same: "f y = f (xs ! i) \<Longrightarrow> map f (xs[i := y]) = map f xs"
  by (cases "i < length xs") (simp_all add: map_update list_update_same_conv list_update_beyond)

lemma row_errors:
  assumes "lun_row_errors rw_mode res buf b = (n, buf', b')"
  shows "0 \<le> n \<and> same_row b b' \<and> (n = 0 \<longrightarrow> buf' = buf \<and> b' = b \<and> (\<forall>r \<in> set res. snd r = OP_STATE_SUCCESS)) \<and>
    (rw_mode \<noteq> 0 \<longrightarrow> buf' = buf)"
  using assms
proof (induction res arbitrary: buf b n)
  case (Cons r res)
  obtain t st where r: "r = (t, st)" by (cases r)
  show ?case
  proof (cases "st = OP_STATE_SUCCESS")
    case True
    with Cons r show ?thesis by auto
  next
    case False
    let ?buf = "if rw_mode = 0 then put_pieces buf (lw_iov (lk_rw t)) (replicate (nat (lw_len (lk_rw t))) 0) else buf"
    let ?b = "b\<lparr>lr_block := (lr_block b)[lk_dev t := (let k = lr_block b ! lk_dev t in
        if rw_mode = 0 then k\<lparr>read_err_count := read_err_count k + 1\<rparr> else k\<lparr>write_err_count := write_err_count k + 1\<rparr>)]\<rparr>"
    obtain m where m: "lun_row_errors rw_mode res ?buf ?b = (m, buf', b')" "n = m + 1"
      using Cons.prems False r by (auto simp: Let_def split: prod.splits)
    have "same_row b ?b" by (auto simp: same_row_def Let_def map_list_update_same)
    then have "same_row b b'" using Cons.IH [OF m(1)] by (auto simp: same_row_def)
    with Cons.IH [OF m(1)] m(2) show ?thesis by auto
  qed
qed auto

lemma same_row_ok: "same_row b b' \<Longrightarrow> row_ok s live cap_size d b' = row_ok s live cap_size d b"
proof -
  assume "same_row b b'"
  then have m: "map lb_data (lr_block b') = map lb_data (lr_block b)" "map lb_cap_offset (lr_block b') = map lb_cap_offset (lr_block b)"
    and f: "lr_seg_offset b' = lr_seg_offset b" "lr_seg_end b' = lr_seg_end b" "lr_block_len b' = lr_block_len b"
      "lr_row_len b' = lr_row_len b"
    by (auto simp: same_row_def)
  have blk: "(\<forall>k \<in> set (lr_block c). lb_cap_offset k = 0 \<and> db_cap (lb_data k) \<in> live d \<and> lr_block_len b \<le> cap_size d (db_cap (lb_data k))) \<longleftrightarrow>
      (\<forall>o' \<in> set (map lb_cap_offset (lr_block c)). o' = 0) \<and>
      (\<forall>k \<in> set (map lb_data (lr_block c)). db_cap k \<in> live d \<and> lr_block_len b \<le> cap_size d (db_cap k))" for c by auto
  have len: "length (lr_block b') = length (lr_block b)" using m(1) by (rule map_eq_imp_length_eq)
  show ?thesis unfolding row_ok_def f len blk m ..
qed

lemma same_row_cap: "same_row b b' \<Longrightarrow> i < length (lr_block b) \<Longrightarrow> row_cap (b', i) = row_cap (b, i)"
  unfolding row_cap_def same_row_def
  by (metis fst_conv length_map nth_map snd_conv)

lemma row_cap_swap:
  assumes "inj_on row_cap (E \<times> {..<N})" "b \<in> E" "\<And>i. i < N \<Longrightarrow> row_cap (b', i) = row_cap (b, i)"
  shows "inj_on row_cap (insert b' (E - {b}) \<times> {..<N})"
proof (rule inj_onI)
  fix p q assume "p \<in> insert b' (E - {b}) \<times> {..<N}" "q \<in> insert b' (E - {b}) \<times> {..<N}" and eq: "row_cap p = row_cap q"
  then obtain c i e j where pq: "p = (c, i)" "q = (e, j)" "i < N" "j < N" "c \<in> insert b' (E - {b})" "e \<in> insert b' (E - {b})"
    by auto
  let ?o = "\<lambda>c. if c = b' then b else c"
  have o: "?o c \<in> E" "?o e \<in> E" using pq assms(2) by auto
  have "row_cap (?o c, i) = row_cap (?o e, j)" using eq pq assms(3) by auto
  then have "(?o c, i) = (?o e, j)" using inj_onD [OF assms(1)] o pq(3,4) by blast
  then show "p = q" using pq by (auto split: if_splits)
qed

lemma lun_ok_extra [simp]:
  "lun_ok items live cap_size (s\<lparr>lun_bl := bl\<rparr>) = lun_ok items live cap_size s"
  "lun_ok items live cap_size (s\<lparr>lun_hard_errors := e\<rparr>) = lun_ok items live cap_size s"
  "lun_ok items live cap_size (s\<lparr>lun_used_size := u\<rparr>) = lun_ok items live cap_size s"
  by (auto simp: lun_ok_def lun_geom_def row_ok_def)

lemma row_fun_extra [simp]:
  "row_dev (s\<lparr>lun_isl := m\<rparr>) = row_dev s" "row_pos (s\<lparr>lun_isl := m\<rparr>) = row_pos s"
  "row_dev (s\<lparr>lun_world := w\<rparr>) = row_dev s" "row_pos (s\<lparr>lun_world := w\<rparr>) = row_pos s"
  "row_byte (s\<lparr>lun_isl := m\<rparr>) = row_byte s" "row_byte (s\<lparr>lun_world := w\<rparr>) = row_byte s"
  "row_byte (s\<lparr>lun_bl := bl\<rparr>) = row_byte s" "row_byte (s\<lparr>lun_hard_errors := e\<rparr>) = row_byte s"
  "row_byte (s\<lparr>lun_used_size := u\<rparr>) = row_byte s"
  by (auto simp: row_dev_def row_pos_def row_byte_def fun_eq_iff)

lemma lun_byte_extra [simp]:
  "lun_byte I bytes (s\<lparr>lun_bl := bl\<rparr>) = lun_byte I bytes s" "lun_byte I bytes (s\<lparr>lun_hard_errors := e\<rparr>) = lun_byte I bytes s"
  "lun_byte I bytes (s\<lparr>lun_used_size := u\<rparr>) = lun_byte I bytes s"
  by (auto simp: lun_byte_def fun_eq_iff split: list.splits)

context lun_store
begin

lemma swap_row:
  assumes ok: "lunok s" and b: "b \<in> ents (lun_isl s)"
    and f: "lr_seg_offset b' = lr_seg_offset b" "lr_seg_end b' = lr_seg_end b" and rb: "rok s (lun_world s) b'"
    and inj: "inj_on row_cap (insert b' (ents (lun_isl s) - {b}) \<times> {..<nat (n_devices s)})"
    and same: "\<And>x. lr_seg_offset b \<le> x \<Longrightarrow> x \<le> lr_seg_end b \<Longrightarrow> rbyte s (lun_world s) b' x = rbyte s (lun_world s) b x"
  defines "s' \<equiv> s\<lparr>lun_isl := lun_insert I (lun_delete I (lun_isl s) b) b'\<rparr>"
  shows "lunok s'" "ents (lun_isl s') = insert b' (ents (lun_isl s) - {b})"
    "0 \<le> x \<Longrightarrow> x < lun_total_size s \<Longrightarrow> lun_byte I bytes s' x = lun_byte I bytes s x"
proof -
  note k = lunok_facts [OF ok]
  note del = remove_entry [OF k(2) b, folded lun_delete_def]
  have "lr_seg_offset b' \<le> lr_seg_end b'" using rb by (auto simp: row_ok_def)
  moreover have "lr_seg_end e < lr_seg_offset b' \<or> lr_seg_end b' < lr_seg_offset e" if "e \<in> ents (lun_delete I (lun_isl s) b)" for e
    using that entries_disjoint [OF k(2) _ b, of e] del(2) f by auto
  note ins = insert_entry [OF del(1) calculation this, folded lun_insert_def]
  have e: "ents (lun_isl s') = insert b' (ents (lun_isl s) - {b})" using ins(2) del(2) by (simp add: s'_def)
  then show "ents (lun_isl s') = insert b' (ents (lun_isl s) - {b})" .
  show ok': "lunok s'"
    unfolding lun_ok_def
  proof (intro conjI)
    show "lun_geom s'" using k(1) by (simp add: s'_def lun_geom_def)
    show "wf (lun_isl s')" using ins(1) by (simp add: s'_def)
    show "\<forall>c \<in> ents (lun_isl s'). row_ok s' live cap_size (lun_world s') c \<and> lr_seg_end c < lun_total_size s'"
    proof
      fix c assume "c \<in> ents (lun_isl s')"
      then have "rok s (lun_world s) c \<and> lr_seg_end c < lun_total_size s" using k(3,4) b e rb f by auto
      then show "row_ok s' live cap_size (lun_world s') c \<and> lr_seg_end c < lun_total_size s'" by (simp add: s'_def row_ok_def)
    qed
    show "inj_on row_cap (ents (lun_isl s') \<times> {..<nat (n_devices s')})" using inj unfolding e by (simp add: s'_def)
    show "\<forall>x. 0 \<le> x \<and> x < lun_total_size s' \<longrightarrow> (\<exists>b \<in> ents (lun_isl s'). lr_seg_offset b \<le> x \<and> x \<le> lr_seg_end b)"
    proof (intro allI impI)
      fix x assume "0 \<le> x \<and> x < lun_total_size s'"
      then obtain c where "c \<in> ents (lun_isl s)" "lr_seg_offset c \<le> x" "x \<le> lr_seg_end c" using k(6) [of x] by (auto simp: s'_def)
      then show "\<exists>b \<in> ents (lun_isl s'). lr_seg_offset b \<le> x \<and> x \<le> lr_seg_end b"
        unfolding e using f by (cases "c = b") auto
    qed
  qed
  assume x: "0 \<le> x" "x < lun_total_size s"
  then obtain c where c: "c \<in> ents (lun_isl s)" "lr_seg_offset c \<le> x" "x \<le> lr_seg_end c" using k(6) by blast
  note old = lun_byte_row [OF k(2) c]
  let ?n = "if c = b then b' else c"
  have n: "?n \<in> ents (lun_isl s')" "lr_seg_offset ?n = lr_seg_offset c" "lr_seg_end ?n = lr_seg_end c" using c e f by auto
  have "rbyte s (lun_world s) ?n x = rbyte s (lun_world s) c x" using same c by auto
  then show "lun_byte I bytes s' x = lun_byte I bytes s x"
    using lun_byte_row [OF lunok_facts(2) [OF ok'] n(1), of x] n c old by (simp add: s'_def)
qed

lemma replace_row:
  assumes ok: "lunok s" and b: "b \<in> ents (lun_isl s)" and same: "same_row b b'"
  defines "s' \<equiv> s\<lparr>lun_isl := lun_insert I (lun_delete I (lun_isl s) b) b'\<rparr>"
  shows "lunok s'" "ents (lun_isl s') = insert b' (ents (lun_isl s) - {b})"
    "0 \<le> x \<Longrightarrow> x < lun_total_size s \<Longrightarrow> lun_byte I bytes s' x = lun_byte I bytes s x"
proof -
  note k = lunok_facts [OF ok]
  have f: "lr_seg_offset b' = lr_seg_offset b" "lr_seg_end b' = lr_seg_end b" using same by (auto simp: same_row_def)
  have rb: "rok s (lun_world s) b'" using same_row_ok [OF same] k(3) [OF b] by blast
  have caps: "row_cap (b', i) = row_cap (b, i)" if "i < nat (n_devices s)" for i
    using same_row_cap [OF same] that k(3) [OF b] by (simp add: row_ok_def)
  have "rbyte s (lun_world s) b' x = rbyte s (lun_world s) b x" for x
    using caps [OF row_dev_less [OF k(1)]] f by (simp add: row_byte_def)
  note sw = swap_row [OF ok b f rb row_cap_swap [OF k(5) b caps] this, folded s'_def]
  show "lunok s'" "ents (lun_isl s') = insert b' (ents (lun_isl s) - {b})"
    "0 \<le> x \<Longrightarrow> x < lun_total_size s \<Longrightarrow> lun_byte I bytes s' x = lun_byte I bytes s x" by (rule sw; assumption?)+
qed

lemma errors_ok:
  assumes "lun_errors I rw_mode tab res buf m = (n, buf', m')"
    and "distinct (map fst tab)" "fst ` set tab \<subseteq> ents m" "lunok (s\<lparr>lun_isl := m\<rparr>)"
  shows "0 \<le> n \<and> lunok (s\<lparr>lun_isl := m'\<rparr>) \<and>
    (\<forall>x. 0 \<le> x \<and> x < lun_total_size s \<longrightarrow> lun_byte I bytes (s\<lparr>lun_isl := m'\<rparr>) x = lun_byte I bytes (s\<lparr>lun_isl := m\<rparr>) x) \<and>
    (n = 0 \<longrightarrow> buf' = buf \<and> m' = m \<and> (\<forall>r \<in> set res. lk_row (fst r) \<in> fst ` set tab \<longrightarrow> snd r = OP_STATE_SUCCESS)) \<and>
    (rw_mode \<noteq> 0 \<longrightarrow> buf' = buf)"
  using assms
proof (induction tab arbitrary: buf m n)
  case (Cons e tab)
  obtain b ws where e: "e = (b, ws)" by (cases e)
  obtain n1 buf1 b' where r: "lun_row_errors rw_mode (filter (\<lambda>r. lk_row (fst r) = b) res) buf b = (n1, buf1, b')"
    by (metis prod.exhaust)
  note re = row_errors [OF r]
  let ?m = "if n1 = 0 then m else lun_insert I (lun_delete I m b) b'"
  obtain n2 where q: "lun_errors I rw_mode tab res buf1 ?m = (n2, buf', m')" "n = max n1 n2"
    using Cons.prems(1) r by (auto simp: e Let_def max_def split: prod.splits if_splits)
  have b: "b \<in> ents m" using Cons.prems(3) e by simp
  have rep: "lunok (s\<lparr>lun_isl := ?m\<rparr>)" "fst ` set tab \<subseteq> ents ?m"
    "0 \<le> x \<Longrightarrow> x < lun_total_size s \<Longrightarrow> lun_byte I bytes (s\<lparr>lun_isl := ?m\<rparr>) x = lun_byte I bytes (s\<lparr>lun_isl := m\<rparr>) x" for x
    using replace_row [OF Cons.prems(4), of b b'] re Cons.prems b e by auto
  from Cons.IH [OF q(1) _ rep(2,1)] Cons.prems(2) have IH: "0 \<le> n2" "lunok (s\<lparr>lun_isl := m'\<rparr>)"
    "\<And>x. 0 \<le> x \<Longrightarrow> x < lun_total_size s \<Longrightarrow> lun_byte I bytes (s\<lparr>lun_isl := m'\<rparr>) x = lun_byte I bytes (s\<lparr>lun_isl := ?m\<rparr>) x"
    "n2 = 0 \<Longrightarrow> buf' = buf1 \<and> m' = ?m \<and> (\<forall>r \<in> set res. lk_row (fst r) \<in> fst ` set tab \<longrightarrow> snd r = OP_STATE_SUCCESS)"
    "rw_mode \<noteq> 0 \<Longrightarrow> buf' = buf1" by auto
  moreover have "n = 0 \<Longrightarrow> n1 = 0 \<and> n2 = 0" using q(2) re IH(1) by auto
  ultimately have zero: "n = 0 \<Longrightarrow> buf' = buf \<and> m' = m \<and> (\<forall>r \<in> set res. lk_row (fst r) \<in> fst ` set (e # tab) \<longrightarrow> snd r = OP_STATE_SUCCESS)"
    using re by (auto simp: e)
  have "0 \<le> n" "rw_mode \<noteq> 0 \<Longrightarrow> buf' = buf" using re IH(1,5) q(2) by auto
  with zero IH(2,3) rep(3) show ?case by simp
qed auto

end

section \<open>Transfers\<close>

context lun_store
begin

lemma plan_facts:
  fixes base :: ex_off
  assumes ok: "lunok s" and rng: "0 \<le> lo" "0 < n" "lo + n \<le> lun_total_size s"
  defines "tab \<equiv> lun_plan_iov I s [ex_iovec_single lo n] base []"
  shows "distinct (map fst tab)" "fst ` set tab \<subseteq> ents (lun_isl s)"
    "t \<in> set (fst (lun_tasks mx now tab bl)) \<Longrightarrow>
       task_ok s lo (lo + n - 1) base t \<and> lk_row t \<in> fst ` set tab \<and> lk_row t \<in> ents (lun_isl s)"
    "lo \<le> x \<Longrightarrow> x \<le> lo + n - 1 \<Longrightarrow> b \<in> ents (lun_isl s) \<Longrightarrow> lr_seg_offset b \<le> x \<Longrightarrow> x \<le> lr_seg_end b \<Longrightarrow>
       \<exists>t \<in> set (fst (lun_tasks mx now tab bl)). lk_row t = b \<and> x \<in> task_set s lo (lo + n - 1) t"
proof -
  note k = lunok_facts [OF ok]
  let ?hi = "lo + n - 1"
  let ?bs = "isl_search I (lun_isl s) lo ?hi"
  have bs: "set ?bs = {b \<in> ents (lun_isl s). lr_seg_offset b \<le> ?hi \<and> lo \<le> lr_seg_end b}"
    using search_entries(1) [OF k(2)] by simp
  have "chain lr_seg_offset lr_seg_end lo ?hi lo ?bs"
    using rng k(6) by (intro search_chain_upto [OF k(2)]) auto
  moreover have "\<forall>b \<in> set ?bs. lr_seg_end b = lr_seg_offset b + lr_row_len b - 1" using k(3) bs by (auto simp: row_ok_def)
  ultimately have tab: "tab = map (\<lambda>b. (b, row_share s lo ?hi base b)) ?bs"
    using plan_iov_single [OF search_distinct [OF k(2)]] row_table_share [of lo ?hi lo ?bs s base] by (simp add: tab_def)
  show "distinct (map fst tab)" using search_distinct [OF k(2)] by (simp add: tab comp_def)
  show "fst ` set tab \<subseteq> ents (lun_isl s)" using bs by (auto simp: tab)
  have share: "length (row_share s lo ?hi base b) = nat (n_devices s)"
    "i < nat (n_devices s) \<Longrightarrow> dev_share s (max lo (lr_seg_offset b) - lr_seg_offset b) (min ?hi (lr_seg_end b) - lr_seg_offset b)
       (base + (max lo (lr_seg_offset b) - lo)) i (row_share s lo ?hi base b ! i)" if b: "b \<in> set ?bs" for b i
  proof -
    have "lr_seg_offset b \<le> lr_seg_end b" using entriesD(2) [OF k(2)] b bs by blast
    then have pos: "0 \<le> max lo (lr_seg_offset b) - lr_seg_offset b" "0 < min ?hi (lr_seg_end b) - max lo (lr_seg_offset b) + 1"
      using b bs rng by (auto simp: min_def max_def)
    have e: "max lo (lr_seg_offset b) - lr_seg_offset b + (min ?hi (lr_seg_end b) - max lo (lr_seg_offset b) + 1) - 1 =
        min ?hi (lr_seg_end b) - lr_seg_offset b" by simp
    have "0 < nat (n_devices s)" using lun_geomD(2) [OF k(1)] by simp
    from lun_row_decompose_share(1) [OF k(1) pos this] show "length (row_share s lo ?hi base b) = nat (n_devices s)"
      by (simp add: row_share_def)
    assume "i < nat (n_devices s)"
    from lun_row_decompose_share(2) [OF k(1) pos this, unfolded e] show
      "dev_share s (max lo (lr_seg_offset b) - lr_seg_offset b) (min ?hi (lr_seg_end b) - lr_seg_offset b)
       (base + (max lo (lr_seg_offset b) - lo)) i (row_share s lo ?hi base b ! i)" by (simp add: row_share_def)
  qed
  show "task_ok s lo ?hi base t \<and> lk_row t \<in> fst ` set tab \<and> lk_row t \<in> ents (lun_isl s)" if "t \<in> set (fst (lun_tasks mx now tab bl))"
  proof -
    from tasks_mem [OF that] obtain ws where t: "(lk_row t, ws) \<in> set tab" "lk_dev t < length ws"
      "lk_block t = lr_block (lk_row t) ! lk_dev t" "lk_rw t = ws ! lk_dev t" "lw_ex (lk_rw t) \<noteq> []" by blast
    then have m: "lk_row t \<in> set ?bs" "ws = row_share s lo ?hi base (lk_row t)" by (auto simp: tab)
    with share [OF m(1)] t have "task_ok s lo ?hi base t" by (simp add: task_ok_def Let_def)
    with t(1) m(1) bs show ?thesis by force
  qed
  assume x: "lo \<le> x" "x \<le> ?hi" and b: "b \<in> ents (lun_isl s)" "lr_seg_offset b \<le> x" "x \<le> lr_seg_end b"
  let ?i = "row_dev s (x - lr_seg_offset b)" and ?ws = "row_share s lo ?hi base b"
  have m: "b \<in> set ?bs" using bs b x by auto
  have i: "?i < nat (n_devices s)" by (rule row_dev_less [OF k(1)])
  have "lw_ex (?ws ! ?i) \<noteq> []"
  proof
    assume "lw_ex (?ws ! ?i) = []"
    with share(2) [OF m i] have "row_dev s r \<noteq> ?i"
      if "max lo (lr_seg_offset b) - lr_seg_offset b \<le> r" "r \<le> min ?hi (lr_seg_end b) - lr_seg_offset b" for r
      using that by (auto simp: dev_share_def)
    from this [of "x - lr_seg_offset b"] x b show False by simp
  qed
  moreover have "(b, ?ws) \<in> set tab" using m by (auto simp: tab)
  moreover have "?i < length (lr_block b)" using k(3) [OF b(1)] i by (simp add: row_ok_def)
  ultimately obtain t where "t \<in> set (fst (lun_tasks mx now tab bl))" "lk_row t = b" "lk_dev t = ?i"
    using tasks_cover [of b ?ws tab ?i mx now bl] share(1) [OF m] i by auto
  with x b show "\<exists>t \<in> set (fst (lun_tasks mx now tab bl)). lk_row t = b \<and> x \<in> task_set s lo ?hi t"
    by (auto simp: task_set_def)
qed

lemma lun_byte_world:
  assumes ok: "lunok s" and w: "\<And>b. b \<in> ents (lun_isl s) \<Longrightarrow> rok s d b"
  shows "lunok (s\<lparr>lun_world := d\<rparr>)"
    "b \<in> ents (lun_isl s) \<Longrightarrow> lr_seg_offset b \<le> x \<Longrightarrow> x \<le> lr_seg_end b \<Longrightarrow> lun_byte I bytes (s\<lparr>lun_world := d\<rparr>) x = rbyte s d b x"
proof -
  note k = lunok_facts [OF ok]
  have "row_ok (s\<lparr>lun_world := d\<rparr>) = row_ok s" "lun_geom (s\<lparr>lun_world := d\<rparr>) = lun_geom s"
    by (simp_all add: row_ok_def lun_geom_def fun_eq_iff)
  with ok w show "lunok (s\<lparr>lun_world := d\<rparr>)" by (simp add: lun_ok_def)
  assume "b \<in> ents (lun_isl s)" "lr_seg_offset b \<le> x" "x \<le> lr_seg_end b"
  then show "lun_byte I bytes (s\<lparr>lun_world := d\<rparr>) x = rbyte s d b x"
    using lun_byte_row [of "s\<lparr>lun_world := d\<rparr>" b x] k(2) by simp
qed

text \<open>What all transfers have in common: the run, the errors and the new state.\<close>

lemma rw_op_run:
  assumes ok: "lunok s" and rng: "0 \<le> lo" "0 < n" "lo + n \<le> lun_total_size s" and v: "map_version s = notify_version s"
    and keys: "hints = None \<or> lun_bl s = None \<or> (\<forall>b \<in> ents (lun_isl s). \<forall>k \<in> set (lr_block b). db_rid_key (lb_data k) \<noteq> None)"
  shows "\<exists>mx now bl sts buf1 d1 maxerr buf2 m2 st bl2.
    (let tab = lun_plan_iov I s [ex_iovec_single lo n] boff []; ts = fst (lun_tasks mx now tab bl)
     in lun_run IO rw_mode (lun_world s) buf ts = (sts, buf1, d1) \<and>
        lun_errors I rw_mode tab (zip ts sts) buf1 (lun_isl s) = (maxerr, buf2, m2) \<and>
        (op_state st = OP_STATE_SUCCESS \<longleftrightarrow> maxerr = 0) \<and> (hints = None \<or> lun_bl s = None \<longrightarrow> bl = None) \<and>
        seglun_rw_op I IO RS time hints s [ex_iovec_single lo n] buf boff rw_mode =
          Ret (st, buf2, s\<lparr>lun_world := d1, lun_isl := m2, lun_bl := bl2\<rparr>))"
proof -
  note k = lunok_facts [OF ok] and geo = lun_geomD [OF lunok_facts(1) [OF ok]]
  define ub where "ub = (case hints of None \<Rightarrow> False | Some mx \<Rightarrow> mx > 0)"
  define mx where "mx = (case hints of None \<Rightarrow> 0 | Some mx \<Rightarrow> mx)"
  define tab where "tab = lun_plan_iov I s [ex_iovec_single lo n] boff []"
  obtain now clock where time: "time = (now, clock)" by (cases time)
  obtain ts bl1 where t: "lun_tasks mx now tab (if ub then lun_bl s else None) = (ts, bl1)" by (metis prod.exhaust)
  note plan = plan_facts [OF ok rng, where base = boff, folded tab_def]
  obtain b where "b \<in> ents (lun_isl s)" "lr_seg_offset b \<le> lo" "lo \<le> lr_seg_end b" using k(6) [of lo] rng by auto
  then have ne: "ts \<noteq> []" using plan(4) [of lo b mx now "if ub then lun_bl s else None"] rng t by auto
  have "db_rid_key (lb_data (lk_block t)) \<noteq> None" if "t \<in> set ts" "ub" "lun_bl s \<noteq> None" for t
  proof -
    have "lk_row t \<in> ents (lun_isl s)" "task_ok s lo (lo + n - 1) boff t"
      using plan(3) [of t mx now "if ub then lun_bl s else None"] that(1) t by auto
    moreover from this k(3) have "lk_block t \<in> set (lr_block (lk_row t))" by (auto simp: task_ok_def Let_def row_ok_def)
    ultimately show ?thesis using keys that by (auto simp: ub_def split: option.splits)
  qed
  then have keyed: "\<not> (ub \<and> lun_bl s \<noteq> None \<and> (\<exists>t \<in> set ts. db_rid_key (lb_data (lk_block t)) = None))" by blast
  obtain sts buf1 d1 where r: "lun_run IO rw_mode (lun_world s) buf ts = (sts, buf1, d1)" by (metis prod.exhaust)
  obtain maxerr buf2 m2 where e: "lun_errors I rw_mode tab (zip ts sts) buf1 (lun_isl s) = (maxerr, buf2, m2)"
    by (metis prod.exhaust)
  have "\<not> (stripe_size s \<le> 0 \<or> n_devices s \<le> 0)" using geo(2,4) by linarith
  then have "seglun_rw_op I IO RS time hints s [ex_iovec_single lo n] buf boff rw_mode =
      Ret (if maxerr = 0 then op_success_status else \<lparr>op_state = OP_STATE_FAILURE, error_code = maxerr\<rparr>, buf2,
           s\<lparr>lun_isl := m2, lun_world := d1, lun_bl := (if ub then lun_blacklist clock 0 ts bl1 else lun_bl s)\<rparr>)"
    unfolding seglun_rw_op_def time ub_def [symmetric] mx_def [symmetric]
    using v ne keyed by (simp only: Let_def prod.case if_False not_True_eq_False tab_def [symmetric] t r e simp_thms if_True)
  moreover have "s\<lparr>lun_isl := m2, lun_world := d1, lun_bl := bl\<rparr> = s\<lparr>lun_world := d1, lun_isl := m2, lun_bl := bl\<rparr>" for bl
    by (cases s) simp
  ultimately have op': "seglun_rw_op I IO RS time hints s [ex_iovec_single lo n] buf boff rw_mode =
      Ret (if maxerr = 0 then op_success_status else \<lparr>op_state = OP_STATE_FAILURE, error_code = maxerr\<rparr>, buf2,
           s\<lparr>lun_world := d1, lun_isl := m2, lun_bl := (if ub then lun_blacklist clock 0 ts bl1 else lun_bl s)\<rparr>)" by simp
  have st: "op_state (if maxerr = 0 then op_success_status else \<lparr>op_state = OP_STATE_FAILURE, error_code = maxerr\<rparr>) =
      OP_STATE_SUCCESS \<longleftrightarrow> maxerr = 0" by (simp add: op_success_status_def)
  have none: "hints = None \<or> lun_bl s = None \<longrightarrow> (if ub then lun_bl s else None) = None" by (auto simp: ub_def)
  show ?thesis
    unfolding Let_def tab_def [symmetric]
    by (rule exI [of _ mx], rule exI [of _ now], rule exI [of _ "if ub then lun_bl s else None"], rule exI [of _ sts],
        rule exI [of _ buf1], rule exI [of _ d1], rule exI [of _ maxerr], rule exI [of _ buf2], rule exI [of _ m2], (rule exI)+,
        intro conjI) (use r e st op' t none in \<open>simp_all only: fst_conv\<close>)
qed

end

context lun_store
begin

abbreviation keyed_rows :: "int option \<Rightarrow> ('m, 'c, 'd) seglun_priv \<Rightarrow> bool" where
  "keyed_rows hints s \<equiv>
     hints = None \<or> lun_bl s = None \<or> (\<forall>b \<in> ents (lun_isl s). \<forall>k \<in> set (lr_block b). db_rid_key (lb_data k) \<noteq> None)"

lemma all_success:
  assumes "\<forall>r \<in> set (zip ts sts). lk_row (fst r) \<in> R \<longrightarrow> snd r = OP_STATE_SUCCESS" "\<forall>t \<in> set ts. lk_row t \<in> R"
    and "length sts = length ts"
  shows "set sts \<subseteq> {OP_STATE_SUCCESS}"
proof
  fix st assume "st \<in> set sts"
  then obtain i where "i < length sts" "sts ! i = st" by (auto simp: in_set_conv_nth)
  then have "(ts ! i, st) \<in> set (zip ts sts)" "ts ! i \<in> set ts" using assms(3) by (auto simp: in_set_zip)
  with assms(1,2) show "st \<in> {OP_STATE_SUCCESS}" by fastforce
qed

lemma rw_op_read:
  assumes ok: "lunok s" and rng: "0 \<le> lo" "0 < n" "lo + n \<le> lun_total_size s" and v: "map_version s = notify_version s"
    and keys: "keyed_rows hints s"
  shows "\<exists>st buf' s'. seglun_rw_op I IO RS time hints s [ex_iovec_single lo n] buf boff 0 = Ret (st, buf', s') \<and> lunok s' \<and>
    lun_total_size s' = lun_total_size s \<and> lun_used_size s' = lun_used_size s \<and>
    (\<forall>x. 0 \<le> x \<and> x < lun_total_size s \<longrightarrow> lun_byte I bytes s' x = lun_byte I bytes s x) \<and>
    (op_state st = OP_STATE_SUCCESS \<longrightarrow> buf' = mem_put buf boff (mem_get (lun_byte I bytes s) lo n))"
proof -
  note k = lunok_facts [OF ok]
  define tab where "tab = lun_plan_iov I s [ex_iovec_single lo n] boff []"
  obtain mx now bl sts buf1 d1 maxerr buf2 m2 st bl2 where run:
      "lun_run IO 0 (lun_world s) buf (fst (lun_tasks mx now tab bl)) = (sts, buf1, d1)"
      "lun_errors I 0 tab (zip (fst (lun_tasks mx now tab bl)) sts) buf1 (lun_isl s) = (maxerr, buf2, m2)"
      "op_state st = OP_STATE_SUCCESS \<longleftrightarrow> maxerr = 0"
      "seglun_rw_op I IO RS time hints s [ex_iovec_single lo n] buf boff 0 = Ret (st, buf2, s\<lparr>lun_world := d1, lun_isl := m2, lun_bl := bl2\<rparr>)"
    using rw_op_run [OF ok rng v keys, where RS = RS and time = time and buf = buf and boff = boff and rw_mode = 0]
    unfolding Let_def tab_def [symmetric] by blast
  note plan = plan_facts [OF ok rng, where base = boff, folded tab_def]
  let ?ts = "fst (lun_tasks mx now tab bl)" and ?hi = "lo + n - 1"
  have "\<forall>t \<in> set ?ts. task_ok s lo ?hi boff t \<and> rok s (lun_world s) (lk_row t) \<and>
      (\<forall>x \<in> task_set s lo ?hi t. rbyte s (lun_world s) (lk_row t) x = lun_byte I bytes s x)"
    using plan(3) k(3) lun_byte_row [OF k(2)] by (fastforce simp: task_set_def)
  note rd = run_read [OF k(1) run(1) this]
  then have kp: "kept UNIV (lun_world s) d1" by blast
  note w = lun_byte_world [OF ok, of d1]
  have ok1: "lunok (s\<lparr>lun_world := d1\<rparr>)" using rok_keeps [OF kp] k(3) by (intro w) auto
  have by1: "lun_byte I bytes (s\<lparr>lun_world := d1\<rparr>) x = lun_byte I bytes s x" if x: "0 \<le> x" "x < lun_total_size s" for x
  proof -
    obtain b where b: "b \<in> ents (lun_isl s)" "lr_seg_offset b \<le> x" "x \<le> lr_seg_end b" using k(6) [OF x] by blast
    then show ?thesis
      using w(2) [OF _ b] rok_keeps [OF kp] k(3) lun_byte_row [OF k(2) b] rbyte_keeps [OF kp k(1) k(3) [OF b(1)] b(2,3)] by auto
  qed
  have "lunok (s\<lparr>lun_world := d1, lun_isl := lun_isl s\<rparr>)" using ok1 by simp
  note er = errors_ok [OF run(2) plan(1,2) this]
  have "buf2 = mem_put buf boff (mem_get (lun_byte I bytes s) lo n)" if "maxerr = 0"
  proof -
    have "set sts \<subseteq> {OP_STATE_SUCCESS}" using er that rd plan(3) by (intro all_success [of ?ts sts "fst ` set tab"]) auto
    moreover have "(\<exists>t \<in> set ?ts. y - boff + lo \<in> task_set s lo ?hi t) \<longleftrightarrow> boff \<le> y \<and> y < boff + n" for y
    proof
      assume "\<exists>t \<in> set ?ts. y - boff + lo \<in> task_set s lo ?hi t"
      then show "boff \<le> y \<and> y < boff + n" by (auto simp: task_set_def)
    next
      assume y: "boff \<le> y \<and> y < boff + n"
      obtain b where "b \<in> ents (lun_isl s)" "lr_seg_offset b \<le> y - boff + lo" "y - boff + lo \<le> lr_seg_end b"
        using k(6) [of "y - boff + lo"] y rng by auto
      then show "\<exists>t \<in> set ?ts. y - boff + lo \<in> task_set s lo ?hi t" using plan(4) [of "y - boff + lo" b mx now bl] y by auto
    qed
    ultimately show ?thesis using er that rd by (auto simp: mem_put_get algebra_simps)
  qed
  with er run(3,4) ok1 by1 show ?thesis
    by (intro exI [of _ st] exI [of _ buf2] exI [of _ "s\<lparr>lun_world := d1, lun_isl := m2, lun_bl := bl2\<rparr>"]) simp
qed

lemma rw_op_write:
  assumes ok: "lunok s" and rng: "0 \<le> lo" "0 < n" "lo + n \<le> lun_total_size s" and v: "map_version s = notify_version s"
    and keys: "keyed_rows hints s"
  shows "\<exists>st s'. seglun_rw_op I IO RS time hints s [ex_iovec_single lo n] buf boff 1 = Ret (st, buf, s') \<and> lunok s' \<and>
    lun_total_size s' = lun_total_size s \<and> lun_used_size s' = lun_used_size s \<and>
    (\<forall>x. 0 \<le> x \<and> x < lun_total_size s \<and> \<not> (lo \<le> x \<and> x < lo + n) \<longrightarrow> lun_byte I bytes s' x = lun_byte I bytes s x) \<and>
    (op_state st = OP_STATE_SUCCESS \<longrightarrow> (\<forall>x. lo \<le> x \<and> x < lo + n \<longrightarrow> lun_byte I bytes s' x = buf (boff + (x - lo))))"
proof -
  note k = lunok_facts [OF ok]
  define tab where "tab = lun_plan_iov I s [ex_iovec_single lo n] boff []"
  obtain mx now bl sts buf1 d1 maxerr buf2 m2 st bl2 where run:
      "lun_run IO 1 (lun_world s) buf (fst (lun_tasks mx now tab bl)) = (sts, buf1, d1)"
      "lun_errors I 1 tab (zip (fst (lun_tasks mx now tab bl)) sts) buf1 (lun_isl s) = (maxerr, buf2, m2)"
      "op_state st = OP_STATE_SUCCESS \<longleftrightarrow> maxerr = 0"
      "seglun_rw_op I IO RS time hints s [ex_iovec_single lo n] buf boff 1 = Ret (st, buf2, s\<lparr>lun_world := d1, lun_isl := m2, lun_bl := bl2\<rparr>)"
    using rw_op_run [OF ok rng v keys, where RS = RS and time = time and buf = buf and boff = boff and rw_mode = 1]
    unfolding Let_def tab_def [symmetric] by blast
  note plan = plan_facts [OF ok rng, where base = boff, folded tab_def]
  let ?ts = "fst (lun_tasks mx now tab bl)" and ?hi = "lo + n - 1" and ?s1 = "s\<lparr>lun_world := d1\<rparr>"
  have "\<forall>t \<in> set ?ts. task_ok s lo ?hi boff t \<and> lk_row t \<in> ents (lun_isl s)" using plan(3) by blast
  from run_write [OF k(1,5) run(1) this] k(3) have wr: "length sts = length ?ts" "buf1 = buf" "\<forall>b \<in> ents (lun_isl s). rok s d1 b"
    "\<And>b x. b \<in> ents (lun_isl s) \<Longrightarrow> lr_seg_offset b \<le> x \<Longrightarrow> x \<le> lr_seg_end b \<Longrightarrow>
       \<forall>t \<in> set ?ts. b = lk_row t \<longrightarrow> x \<notin> task_set s lo ?hi t \<Longrightarrow> rbyte s d1 b x = rbyte s (lun_world s) b x"
    "\<And>b x. b \<in> ents (lun_isl s) \<Longrightarrow> lr_seg_offset b \<le> x \<Longrightarrow> x \<le> lr_seg_end b \<Longrightarrow> set sts \<subseteq> {OP_STATE_SUCCESS} \<Longrightarrow>
       \<exists>t \<in> set ?ts. b = lk_row t \<and> x \<in> task_set s lo ?hi t \<Longrightarrow> rbyte s d1 b x = buf (boff + (x - lo))" by auto
  have ok1: "lunok ?s1" using wr(3) by (intro lun_byte_world [OF ok]) auto
  have row: "\<exists>b. b \<in> ents (lun_isl s) \<and> lr_seg_offset b \<le> x \<and> x \<le> lr_seg_end b \<and> lun_byte I bytes ?s1 x = rbyte s d1 b x \<and>
      lun_byte I bytes s x = rbyte s (lun_world s) b x" if "0 \<le> x" "x < lun_total_size s" for x
    using k(6) [OF that] lun_byte_world(2) [OF ok] wr(3) lun_byte_row [OF k(2)] by blast
  have out: "lun_byte I bytes ?s1 x = lun_byte I bytes s x" if "0 \<le> x" "x < lun_total_size s" "\<not> (lo \<le> x \<and> x < lo + n)" for x
    using row [OF that(1,2)] wr(4) [of _ x] that(3) by (auto simp: task_set_def)
  have "lunok (s\<lparr>lun_world := d1, lun_isl := lun_isl s\<rparr>)" using ok1 by simp
  note er = errors_ok [OF run(2) plan(1,2) this]
  have new: "lun_byte I bytes ?s1 x = buf (boff + (x - lo))" if m: "maxerr = 0" and x: "lo \<le> x" "x < lo + n" for x
  proof -
    have s: "set sts \<subseteq> {OP_STATE_SUCCESS}" using er m wr(1) plan(3) by (intro all_success [of ?ts sts "fst ` set tab"]) auto
    from row [of x] rng x obtain b where b: "b \<in> ents (lun_isl s)" "lr_seg_offset b \<le> x" "x \<le> lr_seg_end b"
      "lun_byte I bytes ?s1 x = rbyte s d1 b x" by auto
    obtain t where "t \<in> set ?ts" "lk_row t = b" "x \<in> task_set s lo ?hi t"
      using plan(4) [OF x(1) _ b(1-3), of mx now bl] x by auto
    with b(4) show ?thesis using wr(5) [OF b(1-3) s] by auto
  qed
  have "buf2 = buf" using er wr(2) by simp
  with er run(3,4) out new rng show ?thesis
    by (intro exI [of _ st] exI [of _ "s\<lparr>lun_world := d1, lun_isl := m2, lun_bl := bl2\<rparr>"]) simp
qed

lemma maxpos_single: "0 \<le> lo \<Longrightarrow> 0 < n \<Longrightarrow> lun_maxpos [ex_iovec_single lo n] = lo + n - 1"
  by (simp add: lun_maxpos_def ex_iovec_single_def)

theorem rw_func_read:
  assumes ok: "lunok s" and rng: "0 \<le> lo" "0 < n" "lo + n \<le> lun_total_size s" and v: "map_version s = notify_version s"
    and keys: "keyed_rows hints s"
  shows "\<exists>st buf' s'. seglun_rw_func I IO RS time rnd hints s [ex_iovec_single lo n] buf boff 0 = Ret (st, buf', s') \<and> lunok s' \<and>
    lun_total_size s' = lun_total_size s \<and> lun_used_size s' = lun_used_size s \<and>
    (\<forall>x. 0 \<le> x \<and> x < lun_total_size s \<longrightarrow> lun_byte I bytes s' x = lun_byte I bytes s x) \<and>
    (op_state st = OP_STATE_SUCCESS \<longrightarrow> buf' = mem_put buf boff (mem_get (lun_byte I bytes s) lo n))"
proof -
  from rw_op_read [OF assms, of RS time buf boff] obtain st buf' s' where op:
    "seglun_rw_op I IO RS time hints s [ex_iovec_single lo n] buf boff 0 = Ret (st, buf', s')" and s':
    "lunok s'" "lun_total_size s' = lun_total_size s" "lun_used_size s' = lun_used_size s"
    "\<forall>x. 0 \<le> x \<and> x < lun_total_size s \<longrightarrow> lun_byte I bytes s' x = lun_byte I bytes s x"
    "op_state st = OP_STATE_SUCCESS \<longrightarrow> buf' = mem_put buf boff (mem_get (lun_byte I bytes s) lo n)" by blast
  have "seglun_rw_func I IO RS time rnd hints s [ex_iovec_single lo n] buf boff 0 =
      Ret (st, buf', if op_state st \<noteq> OP_STATE_SUCCESS then s'\<lparr>lun_hard_errors := lun_hard_errors s' + 1\<rparr> else s')"
    using rng op by (simp add: seglun_rw_func_def maxpos_single Let_def)
  with s' show ?thesis by (cases "op_state st = OP_STATE_SUCCESS") simp_all
qed

theorem rw_func_write:
  assumes ok: "lunok s" and rng: "0 \<le> lo" "0 < n" "lo + n \<le> lun_total_size s" and v: "map_version s = notify_version s"
    and keys: "keyed_rows hints s"
  shows "\<exists>st s'. seglun_rw_func I IO RS time rnd hints s [ex_iovec_single lo n] buf boff 1 = Ret (st, buf, s') \<and> lunok s' \<and>
    lun_total_size s' = lun_total_size s \<and> lun_used_size s' = max (lun_used_size s) (lo + n) \<and>
    (\<forall>x. 0 \<le> x \<and> x < lun_total_size s \<and> \<not> (lo \<le> x \<and> x < lo + n) \<longrightarrow> lun_byte I bytes s' x = lun_byte I bytes s x) \<and>
    (op_state st = OP_STATE_SUCCESS \<longrightarrow> (\<forall>x. lo \<le> x \<and> x < lo + n \<longrightarrow> lun_byte I bytes s' x = buf (boff + (x - lo))))"
proof -
  from rw_op_write [OF assms, of RS time buf boff] obtain st s' where op:
    "seglun_rw_op I IO RS time hints s [ex_iovec_single lo n] buf boff 1 = Ret (st, buf, s')" and s':
    "lunok s'" "lun_total_size s' = lun_total_size s" "lun_used_size s' = lun_used_size s"
    "\<forall>x. 0 \<le> x \<and> x < lun_total_size s \<and> \<not> (lo \<le> x \<and> x < lo + n) \<longrightarrow> lun_byte I bytes s' x = lun_byte I bytes s x"
    "op_state st = OP_STATE_SUCCESS \<longrightarrow> (\<forall>x. lo \<le> x \<and> x < lo + n \<longrightarrow> lun_byte I bytes s' x = buf (boff + (x - lo)))" by blast
  let ?s2 = "if lun_used_size s' \<le> lo + n - 1 then s'\<lparr>lun_used_size := lo + n\<rparr> else s'"
  have "seglun_rw_func I IO RS time rnd hints s [ex_iovec_single lo n] buf boff 1 =
      Ret (st, buf, if op_state st \<noteq> OP_STATE_SUCCESS then ?s2\<lparr>lun_hard_errors := lun_hard_errors ?s2 + 1\<rparr> else ?s2)"
    using rng op by (simp add: seglun_rw_func_def maxpos_single Let_def)
  with s' show ?thesis
    by (cases "op_state st = OP_STATE_SUCCESS"; cases "lun_used_size s' \<le> lo + n - 1") (simp_all add: max_def)
qed

end

section \<open>Reliable depots\<close>

definition reliable :: "('d, 'c) ds_io \<Rightarrow> bool" where
  "reliable IO \<longleftrightarrow>
     (\<forall>d c off buf boff n. fst (io_read IO d c off buf boff n) = OP_STATE_SUCCESS \<and> fst (io_write IO d c off buf boff n) = OP_STATE_SUCCESS) \<and>
     (\<forall>d c vs buf ps. fst (io_readv IO d c vs buf ps) = OP_STATE_SUCCESS \<and> fst (io_writev IO d c vs buf ps) = OP_STATE_SUCCESS)"

lemma exec_reliable: "reliable IO \<Longrightarrow> \<not> lk_skip t \<Longrightarrow> fst (lun_exec IO rw_mode d buf t) = OP_STATE_SUCCESS"
  by (simp add: lun_exec_def reliable_def Let_def case_prod_beta)

lemma run_reliable:
  "reliable IO \<Longrightarrow> \<forall>t \<in> set ts. \<not> lk_skip t \<Longrightarrow> set (fst (lun_run IO rw_mode d buf ts)) \<subseteq> {OP_STATE_SUCCESS}"
proof (induction ts arbitrary: d buf)
  case (Cons t ts)
  have "fst (lun_exec IO rw_mode d buf t) = OP_STATE_SUCCESS" using exec_reliable Cons.prems by auto
  with Cons show ?case by (auto simp: case_prod_beta)
qed simp

lemma row_tasks_unlisted: "snd (lun_row_tasks mx now b ks None cnt) = None \<and> (\<forall>t \<in> set (fst (lun_row_tasks mx now b ks None cnt)). \<not> lk_skip t)"
proof (induction ks arbitrary: cnt)
  case (Cons k ks)
  then show ?case by (cases k) (auto simp: lun_skip_def Let_def case_prod_beta split: if_splits)
qed simp

lemma tasks_unlisted: "t \<in> set (fst (lun_tasks mx now tab None)) \<Longrightarrow> \<not> lk_skip t"
proof (induction tab)
  case (Cons e tab)
  obtain b ws where e: "e = (b, ws)" by (cases e)
  note u = row_tasks_unlisted [of mx now b "zip [0..<length ws] (zip (lr_block b) ws)" 0]
  then show ?case using Cons by (auto simp: e Let_def case_prod_beta)
qed simp

lemma row_errors_none: "\<forall>r \<in> set res. snd r = OP_STATE_SUCCESS \<Longrightarrow> lun_row_errors rw_mode res buf b = (0, buf, b)"
  by (induction res) auto

lemma errors_none: "\<forall>r \<in> set res. snd r = OP_STATE_SUCCESS \<Longrightarrow> lun_errors I rw_mode tab res buf m = (0, buf, m)"
  by (induction tab) (auto simp: row_errors_none Let_def)

context lun_store
begin

lemma rw_func_succeeds:
  assumes ok: "lunok s" and rng: "0 \<le> lo" "0 < n" "lo + n \<le> lun_total_size s" and v: "map_version s = notify_version s"
    and bl: "hints = None \<or> lun_bl s = None" and rel: "reliable IO"
  shows "\<exists>st buf' s'. seglun_rw_func I IO RS time rnd hints s [ex_iovec_single lo n] buf boff rw_mode = Ret (st, buf', s') \<and>
    op_state st = OP_STATE_SUCCESS"
proof -
  have keys: "keyed_rows hints s" using bl by auto
  define tab where "tab = lun_plan_iov I s [ex_iovec_single lo n] boff []"
  obtain mx now sts buf1 d1 maxerr buf2 m2 st bl2 where run:
      "lun_run IO rw_mode (lun_world s) buf (fst (lun_tasks mx now tab None)) = (sts, buf1, d1)"
      "lun_errors I rw_mode tab (zip (fst (lun_tasks mx now tab None)) sts) buf1 (lun_isl s) = (maxerr, buf2, m2)"
      "op_state st = OP_STATE_SUCCESS \<longleftrightarrow> maxerr = 0"
      "seglun_rw_op I IO RS time hints s [ex_iovec_single lo n] buf boff rw_mode =
         Ret (st, buf2, s\<lparr>lun_world := d1, lun_isl := m2, lun_bl := bl2\<rparr>)"
    using rw_op_run [OF ok rng v keys, where RS = RS and time = time and buf = buf and boff = boff and rw_mode = rw_mode] bl
    unfolding Let_def tab_def [symmetric] by blast
  have "set sts \<subseteq> {OP_STATE_SUCCESS}"
    using run_reliable [OF rel, of "fst (lun_tasks mx now tab None)" rw_mode "lun_world s" buf] tasks_unlisted run(1) by auto
  then have "maxerr = 0" 
    using errors_none [of "zip (fst (lun_tasks mx now tab None)) sts" I rw_mode tab buf1 "lun_isl s"] run(2) by (fastforce dest: set_zip_rightD)
  then show ?thesis using run(3,4) rng by (simp add: seglun_rw_func_def maxpos_single Let_def)
qed

end

end
