(* ===== verification/Lun_Correctness.thy ===== *)
theory Lun_Correctness
  imports Lun_Transfer
begin

text \<open>
  Shrinking a striped segment, and the properties of its driver.
\<close>

section \<open>Shrinking\<close>

text \<open>The bytes below \<open>n\<close> of the allocations that are at least that long.\<close>

definition keeps_low ::
  "('d \<Rightarrow> 'c set) \<Rightarrow> ('d \<Rightarrow> 'c \<Rightarrow> ex_off) \<Rightarrow> ('d \<Rightarrow> 'c \<Rightarrow> mem) \<Rightarrow> ex_off \<Rightarrow> 'c set \<Rightarrow> 'd \<Rightarrow> 'd \<Rightarrow> bool" where
  "keeps_low live cap_size bytes n C d d' \<longleftrightarrow>
     (\<forall>c \<in> C. c \<in> live d \<and> n \<le> cap_size d c \<longrightarrow> c \<in> live d' \<and> n \<le> cap_size d' c \<and>
        (\<forall>x. 0 \<le> x \<and> x < n \<longrightarrow> bytes d' c x = bytes d c x))"

lemma keeps_low_trans:
  "keeps_low live cap_size bytes n C d d' \<Longrightarrow> keeps_low live cap_size bytes n C d' d'' \<Longrightarrow> keeps_low live cap_size bytes n C d d''"
  by (simp add: keeps_low_def)

lemma keeps_keeps_low: "keeps live cap_size bytes C d d' \<Longrightarrow> keeps_low live cap_size bytes n C d d'"
  by (simp add: keeps_def keeps_low_def)

definition row_cut :: "('c, 'd) seglun_row \<Rightarrow> ex_off \<Rightarrow> ex_off \<Rightarrow> ('c, 'd) seglun_row" where
  "row_cut b dsize blen =
     b\<lparr>lr_seg_end := lr_seg_offset b + dsize - 1, lr_block_len := blen, lr_row_len := dsize,
       lr_block := map (\<lambda>k. k\<lparr>lb_data := (lb_data k)\<lparr>db_max_size := blen, db_size := blen\<rparr>\<rparr>) (lr_block b)\<rparr>"

lemma row_cut_sel [simp]:
  "lr_seg_offset (row_cut b n m) = lr_seg_offset b" "lr_seg_end (row_cut b n m) = lr_seg_offset b + n - 1"
  "lr_block_len (row_cut b n m) = m" "lr_row_len (row_cut b n m) = n" "length (lr_block (row_cut b n m)) = length (lr_block b)"
  by (simp_all add: row_cut_def)

lemma row_cut_cap: "i < length (lr_block b) \<Longrightarrow> row_cap (row_cut b n m, i) = row_cap (b, i)"
  by (simp add: row_cap_def row_cut_def)

text \<open>Stopping to warm a block leaves all allocations as they are.\<close>

definition quiet ::
  "('d \<Rightarrow> 'c set) \<Rightarrow> ('d \<Rightarrow> 'c \<Rightarrow> ex_off) \<Rightarrow> ('d \<Rightarrow> 'c \<Rightarrow> mem) \<Rightarrow> ('c, 'd) seglun_block set \<Rightarrow> bool" where
  "quiet live cap_size bytes K \<longleftrightarrow>
     (\<forall>k \<in> K. \<forall>w c. \<exists>w'. cap_stop_warm (db_ds (lb_data k)) w c = Ret w' \<and> keeps live cap_size bytes UNIV w w')"

context lun_store
begin

lemma cut_blocks_keep:
  assumes "lun_cut_blocks IO d n ks = (st, d')" "0 < n" "\<forall>k \<in> set ks. block_cap k \<in> live d"
  shows "kept (- block_cap ` set ks) d d' \<and> keeps_low live cap_size bytes n UNIV d d'"
  using assms
proof (induction ks arbitrary: d st)
  case Nil
  then show ?case by (simp add: keeps_low_def)
next
  case (Cons k ks)
  obtain st1 d1 where t: "io_truncate IO d (block_cap k) n = (st1, d1)" by (metis prod.exhaust)
  obtain st2 where r: "lun_cut_blocks IO d1 n ks = (st2, d')" using Cons.prems(1) t by (auto split: prod.splits)
  note tl = truncate_law [OF t _ Cons.prems(2)]
  have k1: "kept (- {block_cap k}) d d1" and l1: "block_cap k \<in> live d1" using tl Cons.prems(3) by auto
  have "keeps_low live cap_size bytes n UNIV d d1"
    unfolding keeps_low_def
  proof (intro ballI impI)
    fix c assume c: "c \<in> live d \<and> n \<le> cap_size d c"
    show "c \<in> live d1 \<and> n \<le> cap_size d1 c \<and> (\<forall>x. 0 \<le> x \<and> x < n \<longrightarrow> bytes d1 c x = bytes d c x)"
      using tl Cons.prems(3) c k1 by (cases "c = block_cap k") (auto simp: keeps_def)
  qed
  moreover have "\<forall>k \<in> set ks. block_cap k \<in> live d1"
    using Cons.prems(3) l1 keepsD(1) [OF k1] by (metis ComplI insert_iff list.set_intros(2) singletonD)
  note IH = Cons.IH [OF r Cons.prems(2) this]
  moreover have "kept (- block_cap ` set (k # ks)) d d'"
    by (rule keeps_trans [OF keeps_mono [OF k1] keeps_mono [OF conjunct1 [OF IH]]]) auto
  ultimately show ?case by (blast intro: keeps_low_trans)
qed

lemma remove_blocks_keep:
  assumes "lun_remove_blocks IO d ks = (st, d')" "\<forall>k \<in> set ks. block_cap k \<in> live d" "distinct (map block_cap ks)"
  shows "kept (- block_cap ` set ks) d d'"
  using assms
proof (induction ks arbitrary: d st)
  case (Cons k ks)
  obtain st1 d1 where t: "io_remove IO d (block_cap k) = (st1, d1)" by (metis prod.exhaust)
  obtain st2 where r: "lun_remove_blocks IO d1 ks = (st2, d')" using Cons.prems(1) t by (auto split: prod.splits)
  have k1: "kept (- {block_cap k}) d d1" using remove_law [OF t] Cons.prems(2) by simp
  have "\<forall>k \<in> set ks. block_cap k \<in> live d1"
    using Cons.prems(2,3) keepsD(1) [OF k1] by (auto simp: image_iff)
  from Cons.IH [OF r this] Cons.prems(3) have k2: "kept (- block_cap ` set ks) d1 d'" by simp
  show ?case by (rule keeps_trans [OF keeps_mono [OF k1] keeps_mono [OF k2]]) auto
qed simp

lemma release_all_keep:
  "quiet live cap_size bytes (set ks) \<Longrightarrow> \<exists>d'. lun_release_all d ks = Ret d' \<and> kept UNIV d d'"
proof (induction ks arbitrary: d)
  case (Cons k ks)
  have "\<exists>d1 r. data_block_destroy d (Some ((lb_data k)\<lparr>db_ref_count := db_ref_count (lb_data k) - 1\<rparr>)) = Ret (d1, r) \<and> kept UNIV d d1"
  proof (cases "db_ref_count (lb_data k) - 1 > 0 \<or> db_warm (lb_data k) = None")
    case True
    then show ?thesis by (auto simp: data_block_destroy_def)
  next
    case False
    then obtain c where c: "db_warm (lb_data k) = Some c" by auto
    from Cons.prems obtain w' where "cap_stop_warm (db_ds (lb_data k)) d c = Ret w' \<and> kept UNIV d w'" unfolding quiet_def by (meson list.set_intros(1))
    with False c show ?thesis by (auto simp: data_block_destroy_def data_block_stop_warm_def)
  qed
  then obtain d1 r where 1: "data_block_destroy d (Some ((lb_data k)\<lparr>db_ref_count := db_ref_count (lb_data k) - 1\<rparr>)) = Ret (d1, r)"
    "kept UNIV d d1" by blast
  moreover have "quiet live cap_size bytes (set ks)" using Cons.prems by (simp add: quiet_def)
  from Cons.IH [OF this, of d1] obtain d' where "lun_release_all d1 ks = Ret d'" "kept UNIV d1 d'" by blast
  ultimately show ?case using keeps_trans by fastforce
qed simp

lemma row_caps: "rok s d b \<Longrightarrow> block_cap ` set (lr_block b) = (\<lambda>i. row_cap (b, i)) ` {..<nat (n_devices s)}"
  by (auto simp: row_ok_def row_cap_def in_set_conv_nth image_iff) (metis lessThan_iff nth_mem)+

lemma rows_caps_distinct:
  assumes "inj_on row_cap (E \<times> {..<nat (n_devices s)})" "\<forall>b \<in> E. rok s d b" "set bs \<subseteq> E" "distinct bs"
  shows "distinct (map block_cap (concat (map lr_block bs)))"
  using assms(3,4)
proof (induction bs)
  case (Cons b bs)
  have b: "rok s d b" "b \<in> E" using Cons.prems assms(2) by auto
  have "distinct (map block_cap (lr_block b))"
    using b assms(1) by (auto simp: distinct_conv_nth row_ok_def row_cap_def inj_on_def)
  moreover have "block_cap ` set (lr_block b) \<inter> block_cap ` set (lr_block c) = {}" if "c \<in> set bs" for c
  proof -
    have "c \<in> E" "rok s d c" "b \<noteq> c" using that Cons.prems assms(2) by auto
    with b assms(1) show ?thesis unfolding row_caps [OF b(1)] row_caps [OF \<open>rok s d c\<close>] by (auto simp: inj_on_def)
  qed
  ultimately show ?case using Cons by (auto simp: image_iff)
qed simp

lemma foldl_delete_rows:
  assumes "wf m" "set bs \<subseteq> ents m" "distinct bs"
  shows "wf (foldl (lun_delete I) m bs) \<and> ents (foldl (lun_delete I) m bs) = ents m - set bs"
  using assms
proof (induction bs arbitrary: m)
  case (Cons b bs)
  have "wf (lun_delete I m b)" "ents (lun_delete I m b) = ents m - {b}"
    using remove_entry [OF Cons.prems(1), of b] Cons.prems(2) by (auto simp: lun_delete_def)
  with Cons show ?case by auto
qed simp

end

context lun_store
begin

lemma total_stripes:
  assumes ok: "lunok s" and pos: "0 < lun_total_size s"
  shows "stripe_size s dvd lun_total_size s"
proof -
  note k = lunok_facts [OF ok]
  obtain b where b: "b \<in> ents (lun_isl s)" "lun_total_size s - 1 \<le> lr_seg_end b" using k(6) [of "lun_total_size s - 1"] pos by auto
  have "lun_total_size s = lr_seg_offset b + lr_row_len b" using b k(3,4) [OF b(1)] by (auto simp: row_ok_def)
  moreover have "stripe_size s dvd lr_row_len b"
    using k(3) [OF b(1)] lun_geomD(3) [OF k(1)] by (auto simp: row_ok_def mult.commute [of "n_devices s"])
  ultimately show ?thesis using k(3) [OF b(1)] by (auto simp: row_ok_def)
qed

lemma round_facts:
  assumes g: "lun_geom s" and n: "0 \<le> n"
  shows "stripe_size s dvd lun_round s n" "n \<le> lun_round s n" "stripe_size s dvd m \<Longrightarrow> n \<le> m \<Longrightarrow> lun_round s n \<le> m"
proof -
  note p = lun_geomD(4) [OF g]
  have e: "lun_round s n = (if n mod stripe_size s = 0 then n else (n div stripe_size s + 1) * stripe_size s)"
  proof (cases "n mod stripe_size s = 0")
    case False
    then have "0 < n mod stripe_size s" using pos_mod_sign [OF p, of n] by simp
    with False show ?thesis by (simp add: lun_round_def Let_def algebra_simps)
  qed (auto simp: lun_round_def Let_def)
  then show "stripe_size s dvd lun_round s n" by auto
  have lt: "n < (n div stripe_size s + 1) * stripe_size s"
    using div_mult_mod_eq [of n "stripe_size s"] pos_mod_bound [OF p, of n] unfolding distrib_right by linarith
  then show "n \<le> lun_round s n" using e by auto
  assume m: "stripe_size s dvd m" "n \<le> m"
  show "lun_round s n \<le> m"
  proof (cases "n mod stripe_size s = 0")
    case False
    obtain q where q: "m = stripe_size s * q" using m(1) by blast
    have "n \<noteq> m" using False q by auto
    then have "n div stripe_size s < q" using div_less_mult [OF p, of n q] m(2) q by simp
    then have "(n div stripe_size s + 1) * stripe_size s \<le> q * stripe_size s" using p by (intro mult_right_mono) auto
    then show ?thesis using e False q by (simp add: mult.commute)
  qed (use e m in simp)
qed

lemma shrink_rows:
  assumes ok: "lunok s" and new: "0 \<le> new_size" "new_size < lun_total_size s"
  shows "\<exists>b bs. isl_search I (lun_isl s) new_size (lun_total_size s) = b # bs \<and> b \<in> ents (lun_isl s) \<and> distinct (b # bs) \<and>
    set bs \<subseteq> ents (lun_isl s) \<and> lr_seg_offset b \<le> new_size \<and> new_size \<le> lr_seg_end b \<and>
    (\<forall>c \<in> set bs. lr_seg_end b < lr_seg_offset c) \<and> (\<forall>c \<in> ents (lun_isl s) - set (b # bs). lr_seg_end c < new_size)"
proof -
  note k = lunok_facts [OF ok]
  let ?hs = "isl_search I (lun_isl s) new_size (lun_total_size s)"
  obtain e where e: "e \<in> ents (lun_isl s)" "lr_seg_offset e \<le> new_size" "new_size \<le> lr_seg_end e" using k(6) [OF new] by blast
  have es: "e \<in> set ?hs" using search_entries(1) [OF k(2)] e new by simp
  then obtain b bs where hs: "?hs = b # bs" by (cases ?hs) auto
  have se: "c \<in> set (b # bs) \<longleftrightarrow> c \<in> ents (lun_isl s) \<and> lr_seg_offset c \<le> lun_total_size s \<and> new_size \<le> lr_seg_end c" for c
    unfolding hs [symmetric] search_entries(1) [OF k(2)] by simp
  have srt: "lr_seg_end b < lr_seg_offset c" if "c \<in> set bs" for c
    using search_sorted [OF k(2), of new_size "lun_total_size s"] that unfolding hs by simp
  have "lr_seg_offset b \<le> lr_seg_end b" using se [of b] entriesD(2) [OF k(2)] by simp
  then have "lr_seg_offset b \<le> new_size" using e(2) srt [of e] es hs by fastforce
  moreover have "lr_seg_end c < new_size" if "c \<in> ents (lun_isl s) - set (b # bs)" for c
    using that k(4) [of c] entriesD(2) [OF k(2), of c] se [of c] by auto
  moreover have "b \<in> ents (lun_isl s)" "new_size \<le> lr_seg_end b" "set bs \<subseteq> ents (lun_isl s)" using se by auto
  moreover have "distinct (b # bs)" using search_distinct [OF k(2), of new_size "lun_total_size s"] unfolding hs .
  ultimately show ?thesis using hs srt by blast
qed

text \<open>The first row is cut or removed; all other rows keep their blocks.\<close>

lemma shrink_first_row:
  assumes g: "lun_geom s" and E: "\<forall>b \<in> E. rok s d b" "inj_on row_cap (E \<times> {..<nat (n_devices s)})" and b: "b \<in> E"
    and n: "0 \<le> n" "stripe_size s dvd n" "n < lr_row_len b"
    and r: "(if n = 0 then lun_remove_blocks IO d (lr_block b) else lun_cut_blocks IO d (c_div n (n_devices s)) (lr_block b)) = (st, d')"
  defines "E' \<equiv> (if n = 0 then E - {b} else insert (row_cut b n (c_div n (n_devices s))) (E - {b}))"
  shows "\<forall>c \<in> E'. rok s d' c" "inj_on row_cap (E' \<times> {..<nat (n_devices s)})"
    "\<And>c y. c \<in> E - {b} \<Longrightarrow> lr_seg_offset c \<le> y \<Longrightarrow> y \<le> lr_seg_end c \<Longrightarrow> rbyte s d' c y = rbyte s d c y"
    "\<And>y. lr_seg_offset b \<le> y \<Longrightarrow> y < lr_seg_offset b + n \<Longrightarrow> rbyte s d' (row_cut b n (c_div n (n_devices s))) y = rbyte s d b y"
proof -
  note geo = lun_geomD [OF g]
  let ?m = "c_div n (n_devices s)" and ?N = "nat (n_devices s)"
  have rb: "rok s d b" using E b by blast
  have len: "length (lr_block b) = ?N" using rb by (simp add: row_ok_def)
  obtain q where q: "n = n_devices s * chunk_size s * q" using n(2) geo(3) by auto
  have m: "?m = chunk_size s * q" using geo(2) n(1) q by simp
  have mn: "?m * n_devices s = n" using m q by (simp add: algebra_simps)
  have mlen: "?m < lr_block_len b" using n(3) rb geo(2) mn by (simp add: row_ok_def) (metis mult_less_cancel_right_pos)
  have live: "\<forall>k \<in> set (lr_block b). block_cap k \<in> live d" using rb by (auto simp: row_ok_def)
  have m0: "0 < ?m" if "n \<noteq> 0" using that mn n(1) geo(2) by (metis less_le mult_nonneg_nonneg mult_not_zero not_less zero_less_mult_pos2)
  have k: "kept (- block_cap ` set (lr_block b)) d d'"
  proof (cases "n = 0")
    case True
    have "distinct (map block_cap (lr_block b))" using rows_caps_distinct [OF E(2,1), of "[b]"] b by simp
    with True remove_blocks_keep [OF _ live] r show ?thesis by simp
  next
    case False
    then show ?thesis using cut_blocks_keep [OF _ m0 live] r by simp
  qed
  have cutl: "keeps_low live cap_size bytes ?m UNIV d d'" if "n \<noteq> 0"
    using that cut_blocks_keep [OF _ m0 live] r by simp
  have oth: "row_cap (c, i) \<in> - block_cap ` set (lr_block b)" if "c \<in> E - {b}" "i < ?N" for c i
    unfolding row_caps [OF rb] using inj_onD [OF E(2), of "(c, i)"] that b by auto
  have bcap: "row_cap (b, i) \<in> live d' \<and> ?m \<le> cap_size d' (row_cap (b, i)) \<and>
      (\<forall>x. 0 \<le> x \<and> x < ?m \<longrightarrow> bytes d' (row_cap (b, i)) x = bytes d (row_cap (b, i)) x)" if "n \<noteq> 0" "i < ?N" for i
    using cutl [OF that(1)] rok_block [OF rb that(2)] mlen by (auto simp: keeps_low_def)
  have cutrow: "rok s d' (row_cut b n ?m)" if "n \<noteq> 0"
  proof -
    have "block_cap k \<in> live d' \<and> ?m \<le> cap_size d' (block_cap k) \<and> lb_cap_offset k = 0" if k: "k \<in> set (lr_block b)" for k
    proof -
      obtain i where "i < ?N" "k = lr_block b ! i" using k len by (auto simp: in_set_conv_nth)
      with bcap [OF \<open>n \<noteq> 0\<close>, of i] rb k show ?thesis by (auto simp: row_cap_def row_ok_def)
    qed
    with rb mn m that n(1) show ?thesis by (auto simp: row_ok_def row_cut_def)
  qed
  show "\<forall>c \<in> E'. rok s d' c"
    using rok_keeps [OF k] E(1) oth cutrow by (auto simp: E'_def split: if_splits)
  show "inj_on row_cap (E' \<times> {..<?N})"
  proof (cases "n = 0")
    case True
    have "(E - {b}) \<times> {..<?N} \<subseteq> E \<times> {..<?N}" by auto
    with True show ?thesis using inj_on_subset [OF E(2)] by (simp add: E'_def)
  next
    case False
    have "row_cap (row_cut b n ?m, i) = row_cap (b, i)" if "i < ?N" for i by (rule row_cut_cap) (use that len in simp)
    with False show ?thesis using row_cap_swap [OF E(2) b, of "row_cut b n ?m"] unfolding E'_def by simp
  qed
  show "rbyte s d' c y = rbyte s d c y" if "c \<in> E - {b}" "lr_seg_offset c \<le> y" "y \<le> lr_seg_end c" for c y
    using that E(1) oth row_dev_less [OF g] by (intro rbyte_keeps [OF k g]) auto
  show "rbyte s d' (row_cut b n ?m) y = rbyte s d b y" if y: "lr_seg_offset b \<le> y" "y < lr_seg_offset b + n" for y
  proof -
    have n0: "n \<noteq> 0" using y by auto
    have "row_dev s (y - lr_seg_offset b) < ?N" by (rule row_dev_less [OF g])
    moreover have "0 \<le> row_pos s (y - lr_seg_offset b)" "row_pos s (y - lr_seg_offset b) < ?m"
      using row_pos_less [OF g, of ?m "y - lr_seg_offset b"] y m mn by auto
    ultimately show ?thesis using bcap [OF n0] row_cut_cap [of _ b n ?m] len by (simp add: row_byte_def del: c_div_nonneg)
  qed
qed

end

context lun_store
begin

text \<open>A table of rows that serves every offset below its end from where the byte was before.\<close>

lemma rows_serve:
  assumes "lun_geom s'" "wf (lun_isl s')" "\<forall>c \<in> ents (lun_isl s'). row_ok s' live cap_size (lun_world s') c \<and> lr_seg_end c < lun_total_size s'"
    and "inj_on row_cap (ents (lun_isl s') \<times> {..<nat (n_devices s')})"
    and "\<And>x. 0 \<le> x \<Longrightarrow> x < lun_total_size s' \<Longrightarrow>
      \<exists>c \<in> ents (lun_isl s'). lr_seg_offset c \<le> x \<and> x \<le> lr_seg_end c \<and> row_byte s' bytes (lun_world s') c x = F x"
  shows "lunok s' \<and> (\<forall>x. 0 \<le> x \<and> x < lun_total_size s' \<longrightarrow> lun_byte I bytes s' x = F x)"
proof (intro conjI allI impI)
  show "lunok s'" unfolding lun_ok_def using assms by blast
  fix x assume "0 \<le> x \<and> x < lun_total_size s'"
  then show "lun_byte I bytes s' x = F x" using assms(5) lun_byte_row [OF assms(2)] by force
qed

lemma shrink_table:
  fixes k :: ex_off
  assumes ok: "lunok s" and b: "b \<in> ents (lun_isl s)" "distinct (b # bs)" "set bs \<subseteq> ents (lun_isl s)"
    and n: "0 \<le> n" "n \<le> lr_seg_end b - lr_seg_offset b"
    and after: "\<And>c. c \<in> set bs \<Longrightarrow> lr_seg_end b < lr_seg_offset c"
    and low: "\<And>c. c \<in> ents (lun_isl s) \<Longrightarrow> c \<notin> set (b # bs) \<Longrightarrow> lr_seg_end c < lr_seg_offset b + n"
  defines "m1 \<equiv> foldl (lun_delete I) (lun_isl s) (rev (if n = 0 then b # bs else bs))"
  defines "m2 \<equiv> (if n = 0 then m1 else lun_insert I (lun_delete I m1 b) (row_cut b n k))"
  shows "wf m2 \<and> ents m2 = (if n = 0 then ents (lun_isl s) - {b} else insert (row_cut b n k) (ents (lun_isl s) - {b})) - set bs"
proof -
  note f = lunok_facts [OF ok]
  have m1: "wf m1" "ents m1 = ents (lun_isl s) - set (if n = 0 then b # bs else bs)"
    using foldl_delete_rows [OF f(2), of "rev (if n = 0 then b # bs else bs)"] b by (auto simp: m1_def)
  show ?thesis
  proof (cases "n = 0")
    case True
    with m1 show ?thesis by (auto simp: m2_def)
  next
    case False
    have bm: "b \<in> ents m1" using False m1(2) b by auto
    have del: "wf (lun_delete I m1 b)" "ents (lun_delete I m1 b) = ents m1 - {b}"
      unfolding lun_delete_def by (rule remove_entry [OF m1(1) bm])+
    have "lr_seg_end e < lr_seg_offset b" if "e \<in> ents m1 - {b}" for e
    proof -
      have "e \<in> ents (lun_isl s)" "e \<notin> set (b # bs)" using that m1(2) False by auto
      with low [of e] entries_disjoint [OF f(2) _ b(1), of e] entriesD(2) [OF f(2), of e] n show ?thesis by auto
    qed
    then have "wf m2" "ents m2 = insert (row_cut b n k) (ents m1 - {b})"
      using insert_entry [OF del(1), of "row_cut b n k"] del(2) n False by (auto simp: m2_def lun_insert_def)
    moreover have "row_cut b n k \<notin> set bs" using after [of "row_cut b n k"] n by auto
    ultimately show ?thesis using m1(2) b False by auto
  qed
qed

lemma drop_rows:
  assumes g: "lun_geom s" and E: "\<forall>c \<in> E. rok s d c" "inj_on row_cap (E \<times> {..<nat (n_devices s)})"
    and bs: "set bs \<subseteq> E" "distinct bs"
    and r: "lun_remove_blocks IO d (concat (map lr_block bs)) = (st, d1)" and k: "kept UNIV d1 d2" and c: "c \<in> E - set bs"
  shows "rok s d2 c" "\<And>y. lr_seg_offset c \<le> y \<Longrightarrow> y \<le> lr_seg_end c \<Longrightarrow> rbyte s d2 c y = rbyte s d c y"
proof -
  let ?G = "block_cap ` set (concat (map lr_block bs))"
  have "\<forall>k \<in> set (concat (map lr_block bs)). block_cap k \<in> live d" using E(1) bs by (auto simp: row_ok_def)
  note k1 = remove_blocks_keep [OF r this rows_caps_distinct [OF E(2,1) bs]]
  have k2: "kept (- ?G) d d2" by (rule keeps_trans [OF k1 keeps_mono [OF k]]) simp
  have oth: "row_cap (c, i) \<notin> ?G" if "i < nat (n_devices s)" for i
  proof
    assume "row_cap (c, i) \<in> ?G"
    then obtain e where e: "e \<in> set bs" "row_cap (c, i) \<in> block_cap ` set (lr_block e)" by auto
    then have "rok s d e" "e \<in> E" using E(1) bs by auto
    then obtain j where "j < nat (n_devices s)" "row_cap (c, i) = row_cap (e, j)" using e(2) row_caps [of s d e] by auto
    with inj_onD [OF E(2), of "(c, i)" "(e, j)"] that e(1) \<open>e \<in> E\<close> c show False by auto
  qed
  have rc: "rok s d c" using E(1) c by blast
  show "rok s d2 c" using rok_keeps [OF k2 rc] oth by auto
  show "rbyte s d2 c y = rbyte s d c y" if "lr_seg_offset c \<le> y" "y \<le> lr_seg_end c" for y
    using rbyte_keeps [OF k2 g rc that] oth row_dev_less [OF g] by auto
qed

lemma shrink_inside:
  assumes ok: "lunok s" and round: "lun_round s asked = n" and nn: "stripe_size s dvd n" and n: "0 \<le> n" "n < lun_total_size s"
    and q: "\<And>b. b \<in> ents (lun_isl s) \<Longrightarrow> quiet live cap_size bytes (set (lr_block b))"
  shows "\<exists>st s'. seglun_shrink I IO s asked = Ret (st, s') \<and> lunok s' \<and> lun_total_size s' = n \<and> lun_used_size s' = n \<and>
    (\<forall>x. 0 \<le> x \<and> x < n \<longrightarrow> lun_byte I bytes s' x = lun_byte I bytes s x)"
proof -
  note f = lunok_facts [OF ok] and geo = lun_geomD [OF lunok_facts(1) [OF ok]]
  have good: "\<not> (stripe_size s \<le> 0 \<or> n_devices s \<le> 0)" using geo(2,4) by linarith
  obtain b bs where hs: "isl_search I (lun_isl s) n (lun_total_size s) = b # bs" and bE: "b \<in> ents (lun_isl s)"
    and dist: "distinct (b # bs)" and sub: "set bs \<subseteq> ents (lun_isl s)" and bo: "lr_seg_offset b \<le> n" "n \<le> lr_seg_end b"
    and after: "\<And>c. c \<in> set bs \<Longrightarrow> lr_seg_end b < lr_seg_offset c"
    and low: "\<And>c. c \<in> ents (lun_isl s) \<Longrightarrow> c \<notin> set (b # bs) \<Longrightarrow> lr_seg_end c < n"
    using shrink_rows [OF ok n] by blast
  define k where "k = n - lr_seg_offset b"
  let ?bl = "c_div k (n_devices s)"
  define E' where "E' = (if k = 0 then ents (lun_isl s) - {b} else insert (row_cut b k ?bl) (ents (lun_isl s) - {b}))"
  have rb: "rok s (lun_world s) b" using f(3) bE by blast
  have k: "0 \<le> k" "stripe_size s dvd k" "k < lr_row_len b" "k \<le> lr_seg_end b - lr_seg_offset b"
    using bo rb nn by (auto simp: k_def row_ok_def)
  obtain st1 d1 where c1: "(if k = 0 then lun_remove_blocks IO (lun_world s) (lr_block b)
      else lun_cut_blocks IO (lun_world s) ?bl (lr_block b)) = (st1, d1)" by (metis prod.exhaust)
  obtain st2 d2 where c2: "lun_remove_blocks IO d1 (concat (map lr_block bs)) = (st2, d2)" by (metis prod.exhaust)
  have allok: "\<forall>c \<in> ents (lun_isl s). rok s (lun_world s) c" using f(3) by blast
  note sf = shrink_first_row [OF f(1) allok f(5) bE k(1-3) c1, folded E'_def]
  have sub': "set bs \<subseteq> E'" "distinct bs" using sub dist by (auto simp: E'_def)
  define gone where "gone = (if k = 0 then b # bs else bs)"
  have "quiet live cap_size bytes (set (concat (map lr_block (rev gone))))"
    using q sub bE by (auto simp: gone_def quiet_def)
  then obtain d3 where d3: "lun_release_all d2 (concat (map lr_block (rev gone))) = Ret d3" "kept UNIV d2 d3"
    using release_all_keep by blast
  define m1 where "m1 = foldl (lun_delete I) (lun_isl s) (rev gone)"
  define m2 where "m2 = (if k = 0 then m1 else lun_insert I (lun_delete I m1 b) (row_cut b k ?bl))"
  define s' where "s' = s\<lparr>lun_isl := m2, lun_total_size := n, lun_used_size := n, lun_world := d3\<rparr>"
  have run: "seglun_shrink I IO s asked =
      Ret (if both st1 st2 = OP_STATE_SUCCESS then op_success_status else op_failure_status, s')"
    using good c1 c2 d3(1) unfolding seglun_shrink_def Let_def round hs list.case
    unfolding k_def [symmetric] gone_def [symmetric] row_cut_def [symmetric] m1_def [symmetric]
    by (simp only: if_False prod.case outcome.case m2_def s'_def)
  have m2: "wf m2" "ents m2 = E' - set bs"
    using shrink_table [OF ok bE dist sub k(1,4) after, of ?bl] low unfolding E'_def m2_def m1_def gone_def by (auto simp: k_def)
  note rows = drop_rows [OF f(1) sf(1,2) sub' c2 d3(2)]
  have serve: "\<exists>c' \<in> E' - set bs. lr_seg_offset c' \<le> x \<and> x \<le> lr_seg_end c' \<and> rbyte s d3 c' x = lun_byte I bytes s x"
    if x: "0 \<le> x" "x < n" for x
  proof -
    obtain c where c: "c \<in> ents (lun_isl s)" "lr_seg_offset c \<le> x" "x \<le> lr_seg_end c" using f(6) [of x] x n by auto
    note lc = lun_byte_row [OF f(2) c]
    show ?thesis
    proof (cases "c = b")
      case True
      then have m: "row_cut b k ?bl \<in> E' - set bs" using after [of "row_cut b k ?bl"] bo c x by (auto simp: E'_def k_def)
      show ?thesis using rows(2) [OF m] sf(4) [of x] c x lc True by (intro bexI [OF _ m]) (auto simp: k_def)
    next
      case False
      then have "c \<notin> set bs" using after [of c] bo c x by auto
      then show ?thesis using rows(2) [of c] sf(3) [of c x] c lc False by (intro bexI [of _ c]) (auto simp: E'_def)
    qed
  qed
  have s': "lun_isl s' = m2" "lun_world s' = d3" "lun_total_size s' = n" "n_devices s' = n_devices s" "row_ok s' = row_ok s"
    "row_byte s' = row_byte s" "lun_geom s' = lun_geom s"
    by (simp_all add: s'_def row_ok_def row_byte_def row_dev_def row_pos_def lun_geom_def fun_eq_iff)
  have inj: "inj_on row_cap ((E' - set bs) \<times> {..<nat (n_devices s)})" by (rule inj_on_subset [OF sf(2)]) auto
  have ends: "lr_seg_end c < n" if "c \<in> E' - set bs" for c using that low by (auto simp: E'_def k_def split: if_splits)
  have "lunok s' \<and> (\<forall>x. 0 \<le> x \<and> x < lun_total_size s' \<longrightarrow> lun_byte I bytes s' x = lun_byte I bytes s x)"
    by (rule rows_serve) (use f(1) m2 rows(1) ends inj serve in \<open>simp_all only: s', blast+\<close>)
  then show ?thesis using run by (auto simp: s'_def)
qed

lemma shrink_correct:
  assumes ok: "lunok s" and asked: "0 \<le> asked" "asked < lun_total_size s"
    and q: "\<And>b. b \<in> ents (lun_isl s) \<Longrightarrow> quiet live cap_size bytes (set (lr_block b))"
  shows "\<exists>st s'. seglun_shrink I IO s asked = Ret (st, s') \<and> lunok s' \<and> lun_total_size s' = lun_round s asked \<and>
    lun_used_size s' = lun_round s asked \<and> asked \<le> lun_round s asked \<and> lun_round s asked \<le> lun_total_size s \<and>
    (\<forall>x. 0 \<le> x \<and> x < lun_round s asked \<longrightarrow> lun_byte I bytes s' x = lun_byte I bytes s x)"
proof -
  note f = lunok_facts [OF ok] and geo = lun_geomD [OF lunok_facts(1) [OF ok]]
  define n where "n = lun_round s asked"
  have nn: "stripe_size s dvd n" "asked \<le> n" "n \<le> lun_total_size s"
    using round_facts [OF f(1) asked(1)] total_stripes [OF ok] asked by (auto simp: n_def)
  have good: "\<not> (stripe_size s \<le> 0 \<or> n_devices s \<le> 0)" using geo(2,4) by linarith
  show ?thesis
  proof (cases "n = lun_total_size s")
    case True
    have "isl_search I (lun_isl s) n (lun_total_size s) = []"
      using search_entries(1) [OF f(2), of n "lun_total_size s"] f(4) True
      by (cases "isl_search I (lun_isl s) n (lun_total_size s)") force+
    then have "seglun_shrink I IO s asked = Ret (op_success_status, s\<lparr>lun_total_size := n, lun_used_size := n\<rparr>)"
      using good by (simp add: seglun_shrink_def Let_def n_def)
    moreover have "s\<lparr>lun_total_size := n\<rparr> = s" unfolding True by simp
    ultimately show ?thesis using ok nn True by (auto simp: n_def)
  next
    case False
    then have "0 \<le> n" "n < lun_total_size s" using nn asked by auto
    from shrink_inside [OF ok n_def [symmetric] nn(1) this q] show ?thesis using nn by (auto simp: n_def)
  qed
qed

end

section \<open>The interface on the interval list and the depot in memory\<close>

lemma lun_storeI:
  "interval_skiplist I items \<Longrightarrow> depot IO live cap_size bytes \<Longrightarrow> lun_store I items IO live cap_size bytes"
  by (intro lun_store.intro keyed_intervals.intro)

interpretation list_lun: lun_store list_isl mset "mem_depot cap" "\<lambda>d. {..<length d}" mem_size mem_bytes
  by (rule lun_storeI [OF list_isl.interval_skiplist_axioms mem_depot.depot_axioms])

section \<open>Properties\<close>

text \<open>Two devices with chunks of two bytes: one row of two blocks of four bytes, which holds the bytes 1 to 8.\<close>

definition lun_mem_ds :: "(nat, byte list list) ds_fn" where
  "lun_mem_ds = \<lparr>ds_type = ''mem'', new_cap_set = 0, get_cap = (\<lambda>c k. None), set_cap = (\<lambda>c k v. (0, c)),
     cap_auto_warm = (\<lambda>w c. Ret (w, c)), cap_stop_warm = (\<lambda>w c. Ret w)\<rparr>"

definition demo_block :: "nat \<Rightarrow> (nat, byte list list) seglun_block" where
  "demo_block c = \<lparr>lb_data = (data_block_create lun_mem_ds (of_nat c))\<lparr>db_rid_key := Some ''rid'', db_cap := c, db_size := 4,
     db_max_size := 4, db_ref_count := 1\<rparr>, lb_cap_offset = 0, read_err_count = 0, write_err_count = 0\<rparr>"

definition demo_row :: "(nat, byte list list) seglun_row" where
  "demo_row = \<lparr>lr_block = [demo_block 0, demo_block 1], lr_seg_offset = 0, lr_seg_end = 7, lr_block_len = 4, lr_row_len = 8\<rparr>"

definition demo_lun :: "((nat, byte list list) seglun_row interval_entry list, nat, byte list list) seglun_priv" where
  "demo_lun = (segment_lun_create list_isl lun_mem_ds None [[1, 2, 7, 8], [3, 4, 5, 6]] 7)
     \<lparr>lun_isl := [(0, 7, demo_row)], lun_total_size := 8, lun_used_size := 8, n_devices := 2, chunk_size := 2, stripe_size := 4,
      map_version := -1\<rparr>"

definition no_rs :: "(byte list list, nat) lun_rs" where
  "no_rs = \<lparr>rs_place = (\<lambda>d q reqs hints n k. (OP_STATE_FAILURE, RS_ERROR_NOT_ENOUGH_RIDS, [], d)), rs_translate = (\<lambda>k c. c)\<rparr>"

lemma demo_row_sel [simp]:
  "lr_block demo_row = [demo_block 0, demo_block 1]" "lr_seg_offset demo_row = 0" "lr_seg_end demo_row = 7"
  "lr_block_len demo_row = 4" "lr_row_len demo_row = 8" "block_cap (demo_block c) = c" "lb_cap_offset (demo_block c) = 0"
  "db_ds (lb_data (demo_block c)) = lun_mem_ds" "db_rid_key (lb_data (demo_block c)) = Some ''rid''"
  by (simp_all add: demo_row_def demo_block_def data_block_create_def)

lemma demo_lun_sel [simp]:
  "lun_isl demo_lun = [(0, 7, demo_row)]" "lun_total_size demo_lun = 8" "lun_used_size demo_lun = 8" "n_devices demo_lun = 2"
  "chunk_size demo_lun = 2" "stripe_size demo_lun = 4" "n_shift demo_lun = 1" "lun_world demo_lun = [[1, 2, 7, 8], [3, 4, 5, 6]]"
  "map_version demo_lun = -1" "notify_version demo_lun = -1" "lun_bl demo_lun = None"
  by (simp_all add: demo_lun_def segment_lun_create_def)

lemma demo_lun_ok: "lun_ok mset (\<lambda>d. {..<length d}) mem_size demo_lun"
proof -
  have "inj_on row_cap ({demo_row} \<times> {..<2})" by (auto simp: inj_on_def row_cap_def less_2_cases_iff)
  then show ?thesis
    unfolding lun_ok_def by (auto simp: lun_geom_def keyed_disjoint_def entries_def row_ok_def mem_size_def numeral_2_eq_2)
qed

lemma demo_lun_byte:
  "lun_byte list_isl mem_bytes demo_lun x = row_byte demo_lun mem_bytes [[1, 2, 7, 8], [3, 4, 5, 6]] demo_row x" if "0 \<le> x" "x < 8"
  using list_lun.lun_byte_row [of demo_lun demo_row x] that demo_lun_ok by (simp add: lun_ok_def entries_def)

text \<open>
  C11: a read inside the segment always returns, leaves the rows in order and the contents as
  they are, and if it reports success the buffer receives the bytes of the segment. When hints
  are given and a black list is in use, every block needs a resource key.
\<close>

theorem seglun_read_correct:
  assumes "interval_skiplist I items" "depot IO live cap_size bytes" "lun_ok items live cap_size s"
    and "0 \<le> off" "0 < n" "off + n \<le> lun_total_size s" "map_version s = notify_version s"
    and "hints = None \<or> lun_bl s = None \<or>
      (\<forall>b \<in> entries (items (lun_isl s)). \<forall>k \<in> set (lr_block b). db_rid_key (lb_data k) \<noteq> None)"
  shows "\<exists>st buf' s'. seglun_rw_func I IO RS time rnd hints s [ex_iovec_single off n] buf boff 0 = Ret (st, buf', s') \<and>
    lun_ok items live cap_size s' \<and> lun_total_size s' = lun_total_size s \<and> lun_used_size s' = lun_used_size s \<and>
    (\<forall>x. 0 \<le> x \<and> x < lun_total_size s \<longrightarrow> lun_byte I bytes s' x = lun_byte I bytes s x) \<and>
    (op_state st = OP_STATE_SUCCESS \<longrightarrow> buf' = mem_put buf boff (mem_get (lun_byte I bytes s) off n))"
  by (rule lun_store.rw_func_read [OF lun_storeI [OF assms(1,2)] assms(3-8)])

lemma mem_depot_reliable: "reliable (mem_depot cap)"
  by (simp add: reliable_def mem_depot_def)

theorem seglun_read_correct_witness:
  "\<exists>st s'. seglun_rw_func list_isl (mem_depot 4) no_rs (0, \<lambda>_. (0, 0)) (\<lambda>_ _ _. 0) None demo_lun [ex_iovec_single 1 6] (\<lambda>_. 0) 10 0 =
      Ret (st, mem_put (\<lambda>_. 0) 10 [2, 3, 4, 5, 6, 7], s') \<and> lun_byte list_isl mem_bytes s' 6 = 7"
proof -
  have "[1..6::int] = [1, 2, 3, 4, 5, 6]" by (simp add: upto_rec1)
  then have b: "mem_get (lun_byte list_isl mem_bytes demo_lun) 1 6 = [2, 3, 4, 5, 6, 7]" "lun_byte list_isl mem_bytes demo_lun 6 = 7"
    by (simp_all add: mem_get_def demo_lun_byte row_byte_def row_dev_def row_pos_def row_cap_def mem_bytes_def mem_of_def)
  show ?thesis
    using seglun_read_correct [OF list_isl.interval_skiplist_axioms mem_depot.depot_axioms [where cap = 4] demo_lun_ok, where
        off = 1 and n = 6 and hints = None and RS = no_rs and time = "(0, \<lambda>_. (0, 0))" and rnd = "\<lambda>_ _ _. 0" and buf = "\<lambda>_. 0" and boff = 10]
      list_lun.rw_func_succeeds [OF demo_lun_ok _ _ _ _ _ mem_depot_reliable [of 4], where lo = 1 and n = 6 and hints = None and RS = no_rs
        and time = "(0, \<lambda>_. (0, 0))" and rnd = "\<lambda>_ _ _. 0" and buf = "\<lambda>_. 0" and boff = 10 and rw_mode = 0] b
    by auto
qed



text \<open>
  C24: if no operation of the data service fails and no black list is in use, a transfer inside the
  segment returns with success.
\<close>

theorem seglun_rw_succeeds:
  assumes "interval_skiplist I items" "depot IO live cap_size bytes" "lun_ok items live cap_size s"
    and "0 \<le> off" "0 < n" "off + n \<le> lun_total_size s" "map_version s = notify_version s"
    and "hints = None \<or> lun_bl s = None" "reliable IO"
  shows "\<exists>st buf' s'. seglun_rw_func I IO RS time rnd hints s [ex_iovec_single off n] buf boff rw_mode = Ret (st, buf', s') \<and>
    op_state st = OP_STATE_SUCCESS"
  by (rule lun_store.rw_func_succeeds [OF lun_storeI [OF assms(1,2)] assms(3-9)])

theorem seglun_rw_succeeds_witness:
  "\<exists>st buf' s'. seglun_rw_func list_isl (mem_depot 4) no_rs (0, \<lambda>_. (0, 0)) (\<lambda>_ _ _. 0) (Some 1) demo_lun [ex_iovec_single 0 8] (\<lambda>_. 9) 0 1 =
      Ret (st, buf', s') \<and> op_state st = OP_STATE_SUCCESS"
  using seglun_rw_succeeds [OF list_isl.interval_skiplist_axioms mem_depot.depot_axioms [where cap = 4] demo_lun_ok, where
      off = 0 and n = 8 and hints = "Some 1" and RS = no_rs and time = "(0, \<lambda>_. (0, 0))" and rnd = "\<lambda>_ _ _. 0" and buf = "\<lambda>_. 9"
      and boff = 0 and rw_mode = 1] mem_depot_reliable by simp

text \<open>
  C13: truncating a segment to a smaller size always returns, where stopping to warm a block leaves the
  allocations alone. The segment then ends at the next multiple of the stripe size, which is also
  reported as its size, and every byte below is kept, also when blocks cannot be cut or removed.
\<close>

theorem slun_truncate_shrink_correct:
  assumes "interval_skiplist I items" "depot IO live cap_size bytes" "lun_ok items live cap_size s"
    and "0 \<le> n" "n < lun_total_size s"
    and "\<And>b. b \<in> entries (items (lun_isl s)) \<Longrightarrow> quiet live cap_size bytes (set (lr_block b))"
  shows "\<exists>st s'. slun_truncate I IO RS rnd s n = Ret (st, s') \<and> lun_ok items live cap_size s' \<and>
    lun_total_size s' = lun_round s n \<and> lun_used_size s' = lun_round s n \<and> n \<le> lun_round s n \<and> lun_round s n \<le> lun_total_size s \<and>
    (\<forall>x. 0 \<le> x \<and> x < lun_round s n \<longrightarrow> lun_byte I bytes s' x = lun_byte I bytes s x)"
  using lun_store.shrink_correct [OF lun_storeI [OF assms(1,2)] assms(3-6)] assms(4,5) by (simp add: slun_truncate_def)

theorem slun_truncate_shrink_correct_witness:
  "\<exists>st s'. slun_truncate list_isl (mem_depot 4) no_rs (\<lambda>_ _ _. 0) demo_lun 3 = Ret (st, s') \<and> lun_used_size s' = 4 \<and>
     lun_byte list_isl mem_bytes s' 2 = 3"
proof -
  have b: "lun_byte list_isl mem_bytes demo_lun 2 = 3"
    by (simp add: demo_lun_byte row_byte_def row_dev_def row_pos_def row_cap_def mem_bytes_def mem_of_def)
  have "quiet (\<lambda>d. {..<length d}) mem_size mem_bytes (set (lr_block c))" if "c \<in> entries (mset (lun_isl demo_lun))" for c
    using that by (auto simp: entries_def quiet_def lun_mem_ds_def)
  moreover have "lun_round demo_lun 3 = 4" by (simp add: lun_round_def Let_def)
  ultimately show ?thesis
    using slun_truncate_shrink_correct [OF list_isl.interval_skiplist_axioms mem_depot.depot_axioms [where cap = 4] demo_lun_ok, where
        n = 3 and RS = no_rs and rnd = "\<lambda>_ _ _. 0"] b by auto
qed

lemma demo_lun_limits [simp]: "grow_break demo_lun = 0" "max_row_size demo_lun = 10485760" "lun_max_block_size demo_lun = 10485760"
  by (simp_all add: demo_lun_def segment_lun_create_def)

text \<open>
  Growing trusts the blocks of the last row. When every block refuses to grow, no status says
  that a block was lengthened, the result of the size check is not looked at, and the segment reports the new
  size, here 16 instead of 8, on blocks that still have four bytes each.
\<close>

theorem seglun_grow_ignores_failed_blocks:
  "\<exists>s'. slun_truncate list_isl ((mem_depot 4)\<lparr>io_truncate := \<lambda>d c n. (OP_STATE_FAILURE, d)\<rparr>) no_rs (\<lambda>_ _ _. 0) demo_lun 16 =
     Ret (op_success_status, s') \<and> seglun_size s' = 16 \<and> lun_total_size s' = 16 \<and> lun_world s' = lun_world demo_lun"
proof -
  let ?IO = "(mem_depot 4)\<lparr>io_truncate := \<lambda>d c n. (OP_STATE_FAILURE, d)\<rparr>"
  have c: "slun_row_size_check ?IO (lun_world demo_lun) (lun_row_set_len demo_lun demo_row 8) [0, 0] =
      (lun_row_set_len demo_lun demo_row 8, [-2, -2], 2, lun_world demo_lun)"
    by (simp add: slun_row_size_check_def lun_row_set_len_def mem_depot_def mem_size_def Let_def)
  have e: "lr_seg_end (lun_row_set_len demo_lun demo_row 8) = 15" by (simp add: lun_row_set_len_def)
  have l: "\<exists>m. lun_grow_last list_isl ?IO demo_lun 16 = Ret (demo_lun\<lparr>lun_isl := m\<rparr>, 16)"
    using c e by (simp add: lun_grow_last_def overlaps_def Let_def numeral_2_eq_2) (simp add: demo_lun_def segment_lun_create_def)
  have "\<not> (stripe_size demo_lun \<le> 0 \<or> n_devices demo_lun \<le> 0 \<or> chunk_size demo_lun \<le> 0 \<or> max_row_size demo_lun \<le> 0)"
    "lun_round demo_lun 16 = 16" by (simp_all add: lun_round_def Let_def)
  with l show ?thesis
    by (auto simp: slun_truncate_def seglun_grow_def lun_grow_rows.simps Let_def seglun_size_def)
qed

lemma clone_grow_full:
  "lr_row_len b = max_row_size ss \<Longrightarrow> lun_clone_grow I IO RS rnd j ss (bs @ [b]) p sd \<noteq> Ret (True, sd')"
proof (induction bs arbitrary: j p sd)
  case (Cons c bs)
  show ?case
    using Cons.IH [OF Cons.prems] by (cases "slun_truncate I IO RS (rnd j) sd (lr_seg_end c + 1)") (auto split: prod.splits)
qed simp

text \<open>
  A segment whose last row is a full one cannot be cloned. After the loop over the rows the code
  reads the end of the segment through the pointer that ended the loop, so the clone crashes
  unless an earlier growth failed; it never succeeds.
\<close>

theorem seglun_clone_full_last_row:
  assumes "isl_all I (lun_isl ss) = bs @ [b]" "lr_row_len b = max_row_size ss" "lun_total_size ss \<noteq> 0"
  shows "case seglun_clone_func I IO RS rnd trunc mt ss sd of Crash \<Rightarrow> True | Ret (st, _) \<Rightarrow> op_state st = OP_STATE_FAILURE"
proof -
  let ?base = "if trunc = 1 then slun_truncate I IO RS (rnd 0) sd 0 else Ret (op_success_status, sd)"
  show ?thesis
  proof (cases ?base)
    case Crash
    then show ?thesis by (simp add: seglun_clone_func_def)
  next
    case (Ret r)
    obtain st0 sd1 where r: "?base = Ret (st0, sd1)" using Ret by (cases r) auto
    have "\<And>sd2. lun_clone_grow I IO RS rnd 1 ss (bs @ [b]) False sd1 = Ret (True, sd2) \<Longrightarrow> False"
      using clone_grow_full [OF assms(2)] by blast
    with r assms(1,3) show ?thesis
      by (cases "lun_clone_grow I IO RS rnd 1 ss (bs @ [b]) False sd1") (auto simp: seglun_clone_func_def op_failure_status_def)
  qed
qed

text \<open>
  C12: decomposing a transfer of the offsets \<open>lo\<close> to \<open>lo + n - 1\<close> of a row gives every device at most one
  extent of its block; the extent consists of exactly the positions to which the layout maps the
  offsets of the device, and its pieces of the buffer hold, position by position, the bytes of
  these offsets.
\<close>

theorem lun_row_decompose_correct:
  fixes bpos :: ex_off
  assumes "lun_geom s" "0 \<le> lo" "0 < n" "i < nat (n_devices s)"
  defines "w \<equiv> lun_row_decompose s (replicate (nat (n_devices s)) lun_rw_empty) lo bpos n ! i"
  shows "length (lw_ex w) \<le> 1 \<and>
    {x. \<exists>v \<in> set (lw_ex w). iov_offset v \<le> x \<and> x < iov_offset v + iov_len v} = row_pos s ` {r. lo \<le> r \<and> r < lo + n \<and> row_dev s r = i} \<and>
    (\<forall>r. lo \<le> r \<and> r < lo + n \<and> row_dev s r = i \<longrightarrow>
       get_pieces buf (lw_iov w) ! nat (row_pos s r - iov_offset (hd (lw_ex w))) = buf (bpos + (r - lo)))"
proof -
  let ?R = "{r. lo \<le> r \<and> r < lo + n \<and> row_dev s r = i}"
  have sh: "dev_share s lo (lo + n - 1) bpos i w" unfolding w_def by (rule lun_row_decompose_share(2) [OF assms(1-4)])
  show ?thesis
  proof (cases "lw_ex w = []")
    case True
    then have "?R = {}" using sh by (auto simp: dev_share_def)
    with True show ?thesis by auto
  next
    case False
    then obtain off where o: "lw_ex w = [ex_iovec_single off (lw_len w)]" "lw_len w = pieces_len (lw_iov w)"
      "pieces_map s lo (lo + n - 1) bpos i off (lw_iov w)" and cov: "\<And>r. r \<in> ?R \<Longrightarrow> off \<le> row_pos s r \<and> row_pos s r < off + lw_len w"
      using sh by (auto simp: dev_share_def)
    have get: "\<exists>r \<in> ?R. row_pos s r = x \<and> get_pieces buf (lw_iov w) ! nat (x - off) = buf (bpos + (r - lo))"
      if "off \<le> x" "x < off + lw_len w" for x
      using pieces_map_get [OF o(3), of x buf] that o(2) by force
    have "{x. off \<le> x \<and> x < off + lw_len w} = row_pos s ` ?R"
      using get cov by (auto simp: image_iff)
    moreover have "get_pieces buf (lw_iov w) ! nat (row_pos s r - off) = buf (bpos + (r - lo))" if r: "r \<in> ?R" for r
      using get [of "row_pos s r"] cov [OF r] row_inj [OF assms(1)] r by auto
    ultimately show ?thesis by (simp add: o(1) ex_iovec_single_def)
  qed
qed

theorem lun_row_decompose_correct_witness:
  "length (lw_ex (lun_row_decompose demo_lun (replicate 2 lun_rw_empty) 1 10 6 ! 0)) \<le> 1 \<and> row_dev demo_lun 6 = 0 \<and> row_pos demo_lun 6 = 2 \<and>
   get_pieces (\<lambda>x. of_int x) (lw_iov (lun_row_decompose demo_lun (replicate 2 lun_rw_empty) 1 10 6 ! 0)) !
     nat (2 - iov_offset (hd (lw_ex (lun_row_decompose demo_lun (replicate 2 lun_rw_empty) 1 10 6 ! 0)))) = 15"
proof -
  have g: "lun_geom demo_lun" "row_dev demo_lun 6 = 0" "row_pos demo_lun 6 = 2" by (simp_all add: lun_geom_def row_dev_def row_pos_def)
  show ?thesis
    using lun_row_decompose_correct [OF g(1), of 1 6 0 10 "\<lambda>x. of_int x"] g(2,3)
    by (auto simp: numeral_2_eq_2 dest!: spec [of _ 6])
qed

end
