(* ===== verification/Lun_Inspect.thy ===== *)
theory Lun_Inspect
  imports Segment_Lun Rs_Simple
begin

unbundle bit_operations_syntax

text \<open>
  Inspecting, repairing and relocating a striped segment, \<open>src/segment_lun.c\<close>: the placement check, moving blocks to
  other resources, and the inspection that is built from them and from the repair of rows.
\<close>

section \<open>Arguments\<close>

text \<open>
  The table of wanted space changes: for a resource how much is to be moved, and the pool a
  replacement is picked from. The arguments of an inspection carry it, an extra query, the
  allocations to be removed on success and on failure, and the number of replaced blocks of every row.
\<close>

record rid_inspect_tweak =
  tw_rid :: rid_change_entry
  pick_pool :: nat

type_synonym rid_changes = "(string \<times> rid_inspect_tweak) list"

record 'c inspect_args =
  ia_query :: "rsq_base option"
  ia_qs :: "'c list option"
  ia_qf :: "'c list option"
  ia_rid_changes :: "rid_changes option"
  n_dev_rows :: nat
  dev_row_replaced :: "int list"

text \<open>
  The resource service as it is used here. \<open>rs_check\<close> gives the status of every fixed resource under a
  query. \<open>rs_move\<close> places new blocks, some of them in a restricted pool, and books them in the table of
  changes; for every request it returns the resource it chose and the capabilities it got, if it got them.
\<close>

record ('d, 'c) lun_placer =
  rs_check :: "'d \<Rightarrow> rsq_base option \<Rightarrow> rs_hint list \<Rightarrow> int list"
  rs_move :: "'d \<Rightarrow> rsq_base option \<Rightarrow> (int \<times> ex_off) list \<Rightarrow> (rs_hint \<times> nat option) list \<Rightarrow> int \<Rightarrow> int \<Rightarrow>
    rid_changes option \<Rightarrow> (string option \<times> 'c option) list \<times> 'd \<times> rid_changes option"

definition lun_hint :: "string option \<Rightarrow> ('c, 'd) seglun_block \<Rightarrow> rs_hint" where
  "lun_hint key k = \<lparr>fixed_rid_key = key, local_query = data_block_get_attr (lb_data k) ''migrate''\<rparr>"

text \<open>A resource that is to give up space and has not reached its goal. Looking up a NULL key crashes.\<close>

definition rid_pending :: "rid_changes option \<Rightarrow> string option \<Rightarrow> (string \<times> rid_inspect_tweak) option outcome" where
  "rid_pending ch key =
     (case ch of
        None \<Rightarrow> Ret None
      | Some t \<Rightarrow>
          (case key of
             None \<Rightarrow> Crash
           | Some rid \<Rightarrow>
               (case map_of t rid of
                  None \<Rightarrow> Ret None
                | Some e \<Rightarrow> if rc_state (tw_rid e) \<noteq> 0 \<or> rc_delta (tw_rid e) \<ge> 0 then Ret None else Ret (Some (rid, e)))))"

definition rid_adjust :: "ex_off \<Rightarrow> string \<Rightarrow> rid_changes \<Rightarrow> rid_changes" where
  "rid_adjust n rid t =
     map (\<lambda>(k, e). if k = rid
          then (k, e\<lparr>tw_rid := (let d = rc_delta (tw_rid e) + n
                 in (tw_rid e)\<lparr>rc_delta := d,
                      rc_state := (if \<bar>d\<bar> \<le> rc_tolerance (tw_rid e) \<or> rc_tolerance (tw_rid e) = 0 then 1 else 0)\<rparr>)\<rparr>)
          else (k, e)) t"

section \<open>Checking the placement\<close>

fun lun_check_devices ::
  "int \<Rightarrow> rid_changes option \<Rightarrow> ('c, 'd) seglun_block list \<Rightarrow> int list \<Rightarrow> int list \<Rightarrow> (int list \<times> int) outcome" where
  "lun_check_devices soft ch (k # ks) (b # bs) (st # sts) =
     (let step =
        (if st \<noteq> RS_ERROR_OK then Ret (st, if st = RS_ERROR_FIXED_NOT_FOUND then (if soft > 0 then 1 else 0) else 1)
         else case rid_pending ch (db_rid_key (lb_data k)) of
                Crash \<Rightarrow> Crash
              | Ret None \<Rightarrow> Ret (b, 0)
              | Ret (Some _) \<Rightarrow> Ret (-103, 1))
      in case step of
           Crash \<Rightarrow> Crash
         | Ret (b', n) \<Rightarrow>
             (case lun_check_devices soft ch ks bs sts of
                Crash \<Rightarrow> Crash
              | Ret (bs', n2) \<Rightarrow> Ret (b' # bs', n + n2)))"
| "lun_check_devices soft ch ks bs sts = Ret (bs, 0)"

definition slun_row_placement_check ::
  "('d, 'c) lun_placer \<Rightarrow> 'd \<Rightarrow> ('c, 'd) seglun_row \<Rightarrow> int list \<Rightarrow> int \<Rightarrow> rsq_base option \<Rightarrow> rid_changes option \<Rightarrow>
   (int list \<times> int) outcome" where
  "slun_row_placement_check P d b bst soft query ch =
     lun_check_devices soft ch (lr_block b) bst
       (rs_check P d query (map (\<lambda>k. lun_hint (db_rid_key (lb_data k)) k) (lr_block b)))"

section \<open>Moving blocks\<close>

text \<open>
  One pass over the devices. Good blocks take the hints from the front, blocks to be moved from the
  back; each of the latter gets a new descriptor.
\<close>

record ('c, 'd) lun_move =
  mv_hints :: "(rs_hint \<times> nat option) list"
  mv_good :: nat
  mv_bad :: nat
  mv_reqs :: "(int \<times> ex_off) list"
  mv_missing :: "(nat \<times> string option \<times> ('c, 'd) data_block) list"
  mv_changes :: "rid_changes option"

definition lun_move_device ::
  "('c, 'd) ds_fn \<Rightarrow> ex_id \<Rightarrow> ex_off \<Rightarrow> nat \<Rightarrow> ('c, 'd) seglun_block \<Rightarrow> int \<Rightarrow> ('c, 'd) lun_move \<Rightarrow> ('c, 'd) lun_move outcome" where
  "lun_move_device ds rnd len i k bst v =
     (case rid_pending (mv_changes v) (db_rid_key (lb_data k)) of
        Crash \<Rightarrow> Crash
      | Ret rid \<Rightarrow>
          if bst = 0 \<and> rid = None then
            Ret (v\<lparr>mv_hints := (mv_hints v)[mv_good v := (lun_hint (db_rid_key (lb_data k)) k, None)], mv_good := mv_good v + 1\<rparr>)
          else
            Ret (v\<lparr>mv_hints := (mv_hints v)[mv_bad v := (lun_hint None k, map_option (\<lambda>r. pick_pool (snd r)) rid)],
                   mv_changes := (case rid of None \<Rightarrow> mv_changes v
                                  | Some (key, _) \<Rightarrow> map_option (rid_adjust len key) (mv_changes v)),
                   mv_reqs := mv_reqs v @ [(int (mv_bad v), len)],
                   mv_missing := mv_missing v @ [(i, map_option fst rid, data_block_create ds rnd)],
                   mv_bad := mv_bad v - 1\<rparr>))"

fun lun_move_pass ::
  "('c, 'd) ds_fn \<Rightarrow> (nat \<Rightarrow> ex_id) \<Rightarrow> ex_off \<Rightarrow> (nat \<times> ('c, 'd) seglun_block \<times> int) list \<Rightarrow> ('c, 'd) lun_move \<Rightarrow>
   ('c, 'd) lun_move outcome" where
  "lun_move_pass ds rnd len [] v = Ret v"
| "lun_move_pass ds rnd len ((i, k, st) # ks) v =
     (case lun_move_device ds (rnd i) len i k st v of Crash \<Rightarrow> Crash | Ret v' \<Rightarrow> lun_move_pass ds rnd len ks v')"

text \<open>
  The answers: a block that got an allocation is copied to it; a resource that failed is excluded from the query;
  without a resource the change is booked back. The copies are collected as device, pending resource
  and new descriptor.
\<close>

fun lun_move_results ::
  "((nat \<times> string option \<times> ('c, 'd) data_block) \<times> (string option \<times> 'c option)) list \<Rightarrow> ex_off \<Rightarrow> int list \<Rightarrow>
   rsq_base option \<Rightarrow> rid_changes option \<Rightarrow>
   ((nat \<times> string option \<times> ('c, 'd) data_block) list \<times> rsq_base option \<times> rid_changes option) outcome" where
  "lun_move_results [] len bst rsq ch = Ret ([], rsq, ch)"
| "lun_move_results (((i, pend, db), (rid, cap)) # rs) len bst rsq ch =
     (case cap of
        Some c \<Rightarrow>
          (case lun_move_results rs len bst rsq ch of
             Crash \<Rightarrow> Crash
           | Ret (cs, r, ch') \<Rightarrow> Ret ((i, pend, db\<lparr>db_cap := c, db_rid_key := rid\<rparr>) # cs, r, ch'))
      | None \<Rightarrow>
          (case rid of
             Some key \<Rightarrow>
               (case lun_exclude rsq key of
                  Crash \<Rightarrow> Crash
                | Ret r1 \<Rightarrow> lun_move_results rs len bst r1 ch)
           | None \<Rightarrow>
               lun_move_results rs len bst rsq
                 (case pend of
                    Some key \<Rightarrow> if bst ! i = -103 then map_option (rid_adjust (- len) key) ch else ch
                  | None \<Rightarrow> ch)))"

text \<open>The copies run first, and then every one is looked at.\<close>

fun lun_move_copies ::
  "('d, 'c) ds_io \<Rightarrow> ex_off \<Rightarrow> ('c, 'd) seglun_block list \<Rightarrow> (nat \<times> string option \<times> ('c, 'd) data_block) list \<Rightarrow> 'd \<Rightarrow>
   op_state list \<times> 'd" where
  "lun_move_copies IO len ks [] d = ([], d)"
| "lun_move_copies IO len ks ((i, pend, db) # cs) d =
     (case io_copy IO d (block_cap (ks ! i)) (lb_cap_offset (ks ! i)) (db_cap db) 0 len of
        (st, d1) \<Rightarrow> (case lun_move_copies IO len ks cs d1 of (sts, d2) \<Rightarrow> (st # sts, d2)))"

record ('c, 'd) lun_moved =
  md_blocks :: "('c, 'd) seglun_block list"
  md_status :: "int list"
  md_changes :: "rid_changes option"
  md_qs :: "'c list option"
  md_qf :: "'c list option"
  md_cleanup :: "('c, 'd) data_block list"

definition lun_move_done ::
  "nat \<Rightarrow> ('c, 'd) data_block \<Rightarrow> 'd \<Rightarrow> ('c, 'd) lun_moved \<Rightarrow> ('d \<times> ('c, 'd) lun_moved) outcome" where
  "lun_move_done i db d v =
     (let k = md_blocks v ! i; dbs = lb_data k;
          dbd = db\<lparr>db_size := db_size dbs, db_max_size := db_max_size dbs, db_ref_count := db_ref_count db + 1,
                   db_attr_stack := db_attr_stack dbs, db_attrs := db_attrs dbs\<rparr>
      in case data_block_auto_warm d dbd of
           Crash \<Rightarrow> Crash
         | Ret (d1, dbw) \<Rightarrow>
             (let v1 = v\<lparr>md_blocks := (md_blocks v)[i := k\<lparr>lb_data := dbw, lb_cap_offset := 0\<rparr>], md_status := (md_status v)[i := 0],
                         md_cleanup := dbs\<lparr>db_attr_stack := None\<rparr> # md_cleanup v\<rparr>
              in case md_qs v of
                   Some qs \<Rightarrow> Ret (d1, v1\<lparr>md_qs := Some (qs @ [db_cap dbs])\<rparr>)
                 | None \<Rightarrow>
                     (case md_qf v of
                        None \<Rightarrow> Crash
                      | Some qf \<Rightarrow> Ret (d1, v1\<lparr>md_qf := Some (qf @ [db_cap dbw])\<rparr>))))"

definition lun_move_undo ::
  "('d, 'c) ds_io \<Rightarrow> ex_off \<Rightarrow> string option \<Rightarrow> ('c, 'd) data_block \<Rightarrow> 'd \<Rightarrow> ('c, 'd) lun_moved \<Rightarrow> ('d \<times> ('c, 'd) lun_moved) outcome" where
  "lun_move_undo IO len pend db d v =
     (let d1 = snd (io_remove IO d (db_cap db))
      in case pend of
           None \<Rightarrow> Ret (d1, v)
         | Some key \<Rightarrow>
             (case db_rid_key db of
                None \<Rightarrow> Crash
              | Some rid \<Rightarrow>
                  Ret (d1, v\<lparr>md_changes := map_option (\<lambda>t. rid_adjust len rid (rid_adjust (- len) key t)) (md_changes v)\<rparr>)))"

fun lun_move_finish ::
  "('d, 'c) ds_io \<Rightarrow> ex_off \<Rightarrow> ((nat \<times> string option \<times> ('c, 'd) data_block) \<times> op_state) list \<Rightarrow> 'd \<Rightarrow> ('c, 'd) lun_moved \<Rightarrow>
   ('d \<times> ('c, 'd) lun_moved) outcome" where
  "lun_move_finish IO len [] d v = Ret (d, v)"
| "lun_move_finish IO len (((i, pend, db), st) # cs) d v =
     (case (if st = OP_STATE_SUCCESS then lun_move_done i db d v else lun_move_undo IO len pend db d v) of
        Crash \<Rightarrow> Crash
      | Ret (d1, v1) \<Rightarrow> lun_move_finish IO len cs d1 v1)"

definition lun_move_round ::
  "('d, 'c) ds_io \<Rightarrow> ('d, 'c) lun_placer \<Rightarrow> ('c, 'd) ds_fn \<Rightarrow> (nat \<Rightarrow> ex_id) \<Rightarrow> ex_off \<Rightarrow> rsq_base option \<Rightarrow> 'd \<Rightarrow>
   ('c, 'd) lun_moved \<Rightarrow> (rsq_base option \<times> 'd \<times> ('c, 'd) lun_moved) outcome" where
  "lun_move_round IO P ds rnd len rsq d v =
     (let n = length (md_blocks v);
          v0 = \<lparr>mv_hints = replicate n (\<lparr>fixed_rid_key = None, local_query = NullValue\<rparr>, None), mv_good = 0, mv_bad = n - 1,
                mv_reqs = [], mv_missing = [], mv_changes = md_changes v\<rparr>
      in case lun_move_pass ds rnd len (zip [0..<n] (zip (md_blocks v) (md_status v))) v0 of
           Crash \<Rightarrow> Crash
         | Ret v1 \<Rightarrow>
             (case rs_move P d rsq (mv_reqs v1) (mv_hints v1) (int (mv_good v1)) (int n) (mv_changes v1) of
                (res, d1, ch1) \<Rightarrow>
                  (case lun_move_results (zip (mv_missing v1) res) len (md_status v) rsq ch1 of
                     Crash \<Rightarrow> Crash
                   | Ret (cs, rsq', ch2) \<Rightarrow>
                       (case lun_move_copies IO len (md_blocks v) cs d1 of
                          (sts, d2) \<Rightarrow>
                            (case lun_move_finish IO len (zip cs sts) d2 (v\<lparr>md_changes := ch2\<rparr>) of
                               Crash \<Rightarrow> Crash
                             | Ret (d3, v3) \<Rightarrow> Ret (rsq', d3, v3))))))"

definition lun_todo :: "int list \<Rightarrow> int" where
  "lun_todo bst = int (length (filter (\<lambda>b. b \<noteq> 0) bst))"

text \<open>At most \<open>Suc n\<close> rounds to go.\<close>

fun lun_move_loop ::
  "nat \<Rightarrow> ('d, 'c) ds_io \<Rightarrow> ('d, 'c) lun_placer \<Rightarrow> ('c, 'd) ds_fn \<Rightarrow> (nat \<Rightarrow> nat \<Rightarrow> ex_id) \<Rightarrow> ex_off \<Rightarrow> rsq_base option \<Rightarrow> 'd \<Rightarrow>
   ('c, 'd) lun_moved \<Rightarrow> ('d \<times> ('c, 'd) lun_moved) outcome" where
  "lun_move_loop n IO P ds rnd len rsq d v =
     (case lun_move_round IO P ds (rnd n) len rsq d v of
        Crash \<Rightarrow> Crash
      | Ret (rsq', d', v') \<Rightarrow>
          (case n of
             0 \<Rightarrow> Ret (d', v')
           | Suc n' \<Rightarrow> if lun_todo (md_status v') > 0 then lun_move_loop n' IO P ds rnd len rsq' d' v' else Ret (d', v')))"

declare lun_move_loop.simps [simp del]

text \<open>The result is the number of blocks still to be moved, and the row, the states and the arguments after it.\<close>

definition slun_row_placement_fix ::
  "('d, 'c) ds_io \<Rightarrow> ('d, 'c) lun_placer \<Rightarrow> ('c, 'd) ds_fn \<Rightarrow> (nat \<Rightarrow> nat \<Rightarrow> ex_id) \<Rightarrow> ('c, 'd) seglun_row \<Rightarrow> int list \<Rightarrow>
   'c inspect_args \<Rightarrow> ('c, 'd) data_block list \<Rightarrow> 'd \<Rightarrow>
   (int \<times> ('c, 'd) seglun_row \<times> int list \<times> 'c inspect_args \<times> ('c, 'd) data_block list \<times> 'd) outcome" where
  "slun_row_placement_fix IO P ds rnd b bst args cleanup d =
     (case rs_query_base_dup (ia_query args) of
        Crash \<Rightarrow> Crash
      | Ret rsq \<Rightarrow>
          (case lun_move_loop 4 IO P ds rnd (lr_block_len b) (Some rsq) d
                  \<lparr>md_blocks = lr_block b, md_status = bst, md_changes = ia_rid_changes args, md_qs = ia_qs args,
                   md_qf = ia_qf args, md_cleanup = cleanup\<rparr> of
             Crash \<Rightarrow> Crash
           | Ret (d', v) \<Rightarrow>
               Ret (lun_todo (md_status v), b\<lparr>lr_block := md_blocks v\<rparr>, md_status v,
                    args\<lparr>ia_rid_changes := md_changes v, ia_qs := md_qs v, ia_qf := md_qf v\<rparr>, md_cleanup v, d')))"


section \<open>Inspection\<close>

text \<open>The mode of an inspection is a command and flags.\<close>

definition INSPECT_FORCE_REPAIR :: int where "INSPECT_FORCE_REPAIR = 128"
definition INSPECT_SOFT_ERROR_FAIL :: int where "INSPECT_SOFT_ERROR_FAIL = 256"
definition INSPECT_FORCE_RECONSTRUCTION :: int where "INSPECT_FORCE_RECONSTRUCTION = 512"
definition INSPECT_FIX_READ_ERROR :: int where "INSPECT_FIX_READ_ERROR = 2048"
definition INSPECT_FIX_WRITE_ERROR :: int where "INSPECT_FIX_WRITE_ERROR = 4096"
definition INSPECT_COMMAND_BITS :: int where "INSPECT_COMMAND_BITS = 15"
definition INSPECT_RESULT_HARD_ERROR :: int where "INSPECT_RESULT_HARD_ERROR = 2048"
definition INSPECT_RESULT_MIGRATE_ERROR :: int where "INSPECT_RESULT_MIGRATE_ERROR = 4096"

lemmas inspect_defs =
  INSPECT_FORCE_REPAIR_def INSPECT_SOFT_ERROR_FAIL_def INSPECT_FORCE_RECONSTRUCTION_def INSPECT_FIX_READ_ERROR_def
  INSPECT_FIX_WRITE_ERROR_def INSPECT_COMMAND_BITS_def INSPECT_RESULT_HARD_ERROR_def INSPECT_RESULT_MIGRATE_ERROR_def

text \<open>\<open>INSPECT_QUICK_REPAIR\<close>, \<open>INSPECT_SCAN_REPAIR\<close> and \<open>INSPECT_FULL_REPAIR\<close> are 4, 5 and 6.\<close>

definition inspect_repairs :: "int \<Rightarrow> bool" where
  "inspect_repairs mode \<longleftrightarrow> mode AND INSPECT_COMMAND_BITS \<in> {4, 5, 6}"

definition inspect_force :: "int \<Rightarrow> int" where
  "inspect_force mode = (if inspect_repairs mode then mode AND INSPECT_FORCE_REPAIR else 0)"

text \<open>What the inspection of a row works on: the row, the states of its blocks, the arguments, the replaced descriptors and the depots.\<close>

record ('c, 'd) lun_visit =
  vi_row :: "('c, 'd) seglun_row"
  vi_status :: "int list"
  vi_args :: "'c inspect_args"
  vi_cleanup :: "('c, 'd) data_block list"
  vi_world :: 'd

record lun_tally =
  max_lost :: int
  total_lost :: int
  total_repaired :: int
  total_migrate :: int
  nmigrated :: int

text \<open>Blocks with errors of reading or writing are counted as lost if the mode says so.\<close>

fun lun_flag_errors :: "int \<Rightarrow> ('c, 'd) seglun_block list \<Rightarrow> int list \<Rightarrow> int list \<times> int" where
  "lun_flag_errors mode (k # ks) (b # bs) =
     (let (b1, n1) = (if read_err_count k > 0 \<and> mode AND INSPECT_FIX_READ_ERROR > 0
                      then (b + 4, if b = 0 then 1 else 0) else (b, 0));
          (b2, n2) = (if write_err_count k > 0 \<and> mode AND INSPECT_FIX_WRITE_ERROR > 0
                      then (b1 + 8, if b1 = 0 then 1 else 0) else (b1, 0));
          (bs', n) = lun_flag_errors mode ks bs
      in (b2 # bs', n1 + n2 + n))"
| "lun_flag_errors mode ks bs = (bs, 0)"

text \<open>Replacing blocks, at most \<open>Suc n\<close> times. The first component of the result counts the blocks in error.\<close>

definition lun_visit_fix :: "('c, 'd) lun_visit \<Rightarrow> ('c, 'd) lun_fix" where
  "lun_visit_fix v =
     \<lparr>fx_blocks = map Some (lr_block (vi_row v)), fx_status = vi_status v,
      fx_hints = replicate (length (lr_block (vi_row v))) \<lparr>fixed_rid_key = None, local_query = NullValue\<rparr>, fx_good = 0, fx_bad = 0,
      fx_reqs = [], fx_missing = [], fx_cleanup = vi_cleanup v, fx_qs = ia_qs (vi_args v)\<rparr>"

fun lun_replace_rounds ::
  "nat \<Rightarrow> ('d, 'c) ds_io \<Rightarrow> ('d, 'c) lun_rs \<Rightarrow> ('c, 'd) ds_fn \<Rightarrow> (nat \<Rightarrow> nat \<Rightarrow> nat \<Rightarrow> ex_id) \<Rightarrow> rsq_base option \<Rightarrow>
   ('c, 'd) lun_visit \<Rightarrow> (int \<times> ('c, 'd) lun_visit) outcome" where
  "lun_replace_rounds n IO RS ds rnd query v =
     (case slun_row_replace_fix IO RS ds (rnd n) query (vi_row v) (vi_world v) (lun_visit_fix v) of
        Crash \<Rightarrow> Crash
      | Ret (err, d, f) \<Rightarrow>
          (case lun_all_blocks (fx_blocks f) of
             Crash \<Rightarrow> Crash
           | Ret ks \<Rightarrow>
               (let v' = v\<lparr>vi_row := (vi_row v)\<lparr>lr_block := ks\<rparr>, vi_status := fx_status f,
                           vi_args := (vi_args v)\<lparr>ia_qs := fx_qs f\<rparr>, vi_cleanup := fx_cleanup f, vi_world := d\<rparr>
                in case n of
                     0 \<Rightarrow> Ret (err, v')
                   | Suc n' \<Rightarrow> if err > 0 then lun_replace_rounds n' IO RS ds rnd query v' else Ret (err, v'))))"

declare lun_replace_rounds.simps [simp del]

text \<open>
  The size check with the error flags, and the padding and replacing of a row that is repaired by
  force. The counters of replaced blocks are an array of 128 rows. The result is the number of lost
  and of repaired blocks.
\<close>

definition lun_inspect_sizes ::
  "('d, 'c) ds_io \<Rightarrow> ('d, 'c) lun_rs \<Rightarrow> ('c, 'd) ds_fn \<Rightarrow> (nat \<Rightarrow> nat \<Rightarrow> nat \<Rightarrow> ex_id) \<Rightarrow> int \<Rightarrow> rsq_base option \<Rightarrow> nat \<Rightarrow>
   ('c, 'd) lun_visit \<Rightarrow> lun_tally \<Rightarrow> (int \<times> int \<times> ('c, 'd) lun_visit \<times> lun_tally) outcome" where
  "lun_inspect_sizes IO RS ds rnd mode query drow v t =
     (case slun_row_size_check IO (vi_world v) (vi_row v) (replicate (length (lr_block (vi_row v))) 0) of
        (b1, st1, n1, d1) \<Rightarrow>
          (case lun_flag_errors mode (lr_block b1) st1 of
             (st2, n2) \<Rightarrow>
               (let nlost = n1 + n2; t1 = t\<lparr>max_lost := max (max_lost t) nlost\<rparr>; rep = dev_row_replaced (vi_args v)
                in if drow \<ge> length rep then Crash
                   else
                     (let v1 = v\<lparr>vi_row := b1, vi_status := st2, vi_world := d1,
                                 vi_args := (vi_args v)\<lparr>dev_row_replaced := rep[drow := rep ! drow + nlost]\<rparr>\<rparr>
                      in if inspect_force mode > 0 \<and> nlost > 0 then
                           (case slun_row_pad_fix IO d1 b1 st2 of
                              (b2, st3, perr, d2) \<Rightarrow>
                                (case lun_replace_rounds 4 IO RS ds rnd query (v1\<lparr>vi_row := b2, vi_status := st3, vi_world := d2\<rparr>) of
                                   Crash \<Rightarrow> Crash
                                 | Ret (err, v2) \<Rightarrow> Ret (nlost, nlost - err, v2, t1\<lparr>max_lost := max (max_lost t1) perr\<rparr>)))
                         else Ret (nlost, 0, v1, t1)))))"

text \<open>
  Moving the blocks that are in the wrong place. A block that could have moved but did not (\<open>-103\<close>)
  is not an error, unless the placement without the wanted changes is one.
\<close>

definition lun_unflag :: "int list \<Rightarrow> int list \<Rightarrow> int list \<times> int" where
  "lun_unflag before st =
     (map (\<lambda>(b, x). if b \<noteq> 0 \<and> x = -103 then 0 else x) (zip before st),
      int (length (filter (\<lambda>(b, x). b \<noteq> 0 \<and> x = -103) (zip before st))))"

definition lun_inspect_move ::
  "('d, 'c) ds_io \<Rightarrow> ('d, 'c) lun_placer \<Rightarrow> ('c, 'd) ds_fn \<Rightarrow> (nat \<Rightarrow> nat \<Rightarrow> ex_id) \<Rightarrow> int \<Rightarrow> rsq_base option \<Rightarrow> int \<Rightarrow>
   ('c, 'd) lun_visit \<Rightarrow> lun_tally \<Rightarrow> (('c, 'd) lun_visit \<times> lun_tally) outcome" where
  "lun_inspect_move IO P ds rnd soft query err v t =
     (case slun_row_placement_fix IO P ds rnd (vi_row v) (vi_status v) ((vi_args v)\<lparr>ia_query := query\<rparr>) (vi_cleanup v) (vi_world v) of
        Crash \<Rightarrow> Crash
      | Ret (todo, b, st, args, cleanup, d) \<Rightarrow>
          (case lun_unflag (vi_status v) st of
             (st1, j) \<Rightarrow>
               (let v1 = v\<lparr>vi_row := b, vi_status := st1, vi_args := args\<lparr>ia_query := ia_query (vi_args v)\<rparr>, vi_cleanup := cleanup,
                           vi_world := d\<rparr>;
                    t1 = t\<lparr>nmigrated := nmigrated t + (err - todo), total_migrate := total_migrate t - j\<rparr>
                in if j > 0 then
                     (case slun_row_placement_check P d b st soft query None of
                        Crash \<Rightarrow> Crash
                      | Ret (st2, err2) \<Rightarrow>
                          if err2 > 0 then Ret (v1\<lparr>vi_status := st2\<rparr>, t1\<lparr>total_migrate := total_migrate t1 + err2\<rparr>)
                          else Ret (v1, t1))
                   else Ret (v1, t1))))"

definition lun_inspect_placement ::
  "('d, 'c) ds_io \<Rightarrow> ('d, 'c) lun_placer \<Rightarrow> ('d, 'c) lun_rs \<Rightarrow> ('c, 'd) ds_fn \<Rightarrow> (nat \<Rightarrow> nat \<Rightarrow> nat \<Rightarrow> ex_id) \<Rightarrow> int \<Rightarrow>
   rsq_base option \<Rightarrow> ('c, 'd) lun_visit \<Rightarrow> lun_tally \<Rightarrow> (('c, 'd) lun_visit \<times> lun_tally) outcome" where
  "lun_inspect_placement IO P RS ds rnd mode query v t =
     (let soft = mode AND INSPECT_SOFT_ERROR_FAIL
      in case slun_row_placement_check P (vi_world v) (vi_row v) (vi_status v) soft query (ia_rid_changes (vi_args v)) of
           Crash \<Rightarrow> Crash
         | Ret (st, err) \<Rightarrow>
             (let v1 = v\<lparr>vi_status := st\<rparr>; t1 = t\<lparr>total_migrate := total_migrate t + err\<rparr>
              in if err > 0 \<and> inspect_repairs mode then
                   (if mode AND INSPECT_FORCE_RECONSTRUCTION = 0 then
                      lun_inspect_move IO P ds (rnd 0) soft query err v1 t1
                    else if inspect_force mode > 0 then
                      (case lun_replace_rounds 4 IO RS ds rnd query v1 of
                         Crash \<Rightarrow> Crash
                       | Ret (err2, v2) \<Rightarrow>
                           Ret (v2, t1\<lparr>max_lost := max (max_lost t1) err, nmigrated := nmigrated t1 + (err - err2)\<rparr>))
                    else Ret (v1, t1))
                 else Ret (v1, t1)))"

text \<open>One row: a row with a bad block left is not checked for its placement.\<close>

definition lun_inspect_row ::
  "('d, 'c) ds_io \<Rightarrow> ('d, 'c) lun_placer \<Rightarrow> ('d, 'c) lun_rs \<Rightarrow> ('c, 'd) ds_fn \<Rightarrow> (nat \<Rightarrow> nat \<Rightarrow> nat \<Rightarrow> nat \<Rightarrow> ex_id) \<Rightarrow>
   int \<Rightarrow> rsq_base option \<Rightarrow> nat \<Rightarrow> ('c, 'd) lun_visit \<Rightarrow> lun_tally \<Rightarrow> (('c, 'd) lun_visit \<times> lun_tally) outcome" where
  "lun_inspect_row IO P RS ds rnd mode query drow v t =
     (case lun_inspect_sizes IO RS ds (rnd 0) mode query drow v t of
        Crash \<Rightarrow> Crash
      | Ret (nlost, nrepaired, v1, t1) \<Rightarrow>
          (case (if lun_todo (vi_status v1) \<noteq> 0 then Ret (v1, t1)
                 else lun_inspect_placement IO P RS ds (rnd 1) mode query v1 t1) of
             Crash \<Rightarrow> Crash
           | Ret (v2, t2) \<Rightarrow>
               Ret (v2, t2\<lparr>total_lost := total_lost t2 + nlost, total_repaired := total_repaired t2 + nrepaired\<rparr>)))"

text \<open>All rows, in order. The rows are changed in place.\<close>

fun lun_inspect_rows ::
  "('m, ('c, 'd) seglun_row) isl_ops \<Rightarrow> ('d, 'c) ds_io \<Rightarrow> ('d, 'c) lun_placer \<Rightarrow> ('d, 'c) lun_rs \<Rightarrow>
   (nat \<Rightarrow> nat \<Rightarrow> nat \<Rightarrow> nat \<Rightarrow> nat \<Rightarrow> ex_id) \<Rightarrow> int \<Rightarrow> rsq_base option \<Rightarrow> nat \<Rightarrow> ('c, 'd) seglun_row list \<Rightarrow> 'c inspect_args \<Rightarrow>
   ('m, 'c, 'd) seglun_priv \<Rightarrow> lun_tally \<Rightarrow> ('c inspect_args \<times> ('m, 'c, 'd) seglun_priv \<times> lun_tally) outcome" where
  "lun_inspect_rows I IO P RS rnd mode query drow [] args s t = Ret (args, s, t)"
| "lun_inspect_rows I IO P RS rnd mode query drow (b # bs) args s t =
     (case lun_inspect_row IO P RS (lun_ds s) (rnd drow) mode query drow
             \<lparr>vi_row = b, vi_status = [], vi_args = args, vi_cleanup = db_cleanup s, vi_world = lun_world s\<rparr> t of
        Crash \<Rightarrow> Crash
      | Ret (v, t') \<Rightarrow>
          lun_inspect_rows I IO P RS rnd mode query (drow + 1) bs (vi_args v)
            (s\<lparr>lun_isl := lun_insert I (lun_delete I (lun_isl s) b) (vi_row v), db_cleanup := vi_cleanup v, lun_world := vi_world v\<rparr>) t')"

definition lun_inspect_query :: "rsq_base option \<Rightarrow> rsq_base option \<Rightarrow> rsq_base option outcome" where
  "lun_inspect_query rsq extra =
     (case rs_query_base_dup rsq of
        Crash \<Rightarrow> Crash
      | Ret q \<Rightarrow>
          (case extra of
             None \<Rightarrow> Ret (Some q)
           | Some _ \<Rightarrow>
               (case rs_query_base_append (Some q) extra of
                  Crash \<Rightarrow> Crash
                | Ret q1 \<Rightarrow>
                    (case rs_query_base_add q1 RSQ_BASE_OP_AND None 0 None 0 of
                       Crash \<Rightarrow> Crash
                     | Ret (_, q2) \<Rightarrow> Ret q2))))"

definition lun_inspect_result :: "lun_tally \<Rightarrow> op_state \<times> int" where
  "lun_inspect_result t =
     (if total_lost t - total_repaired t + total_migrate t - nmigrated t \<noteq> 0 then OP_STATE_FAILURE else OP_STATE_SUCCESS,
      (max_lost t OR (if max_lost t = 0 then 0 else INSPECT_RESULT_HARD_ERROR)) OR
        (if total_migrate t = nmigrated t then 0 else INSPECT_RESULT_MIGRATE_ERROR))"

definition seglun_inspect_func ::
  "('m, ('c, 'd) seglun_row) isl_ops \<Rightarrow> ('d, 'c) ds_io \<Rightarrow> ('d, 'c) lun_placer \<Rightarrow> ('d, 'c) lun_rs \<Rightarrow>
   (nat \<Rightarrow> nat \<Rightarrow> nat \<Rightarrow> nat \<Rightarrow> nat \<Rightarrow> ex_id) \<Rightarrow> int \<Rightarrow> 'c inspect_args option \<Rightarrow> ('m, 'c, 'd) seglun_priv \<Rightarrow>
   ((op_state \<times> int) \<times> 'c inspect_args option \<times> ('m, 'c, 'd) seglun_priv) outcome" where
  "seglun_inspect_func I IO P RS rnd mode args s =
     (case args of
        None \<Rightarrow> Crash
      | Some a \<Rightarrow>
          (case lun_inspect_query (lun_rsq s) (ia_query a) of
             Crash \<Rightarrow> Crash
           | Ret query \<Rightarrow>
               (let rows = isl_all I (lun_isl s)
                in case lun_inspect_rows I IO P RS rnd mode query 0 rows (a\<lparr>n_dev_rows := length rows\<rparr>) s
                          \<lparr>max_lost = 0, total_lost = 0, total_repaired = 0, total_migrate = 0, nmigrated = 0\<rparr> of
                     Crash \<Rightarrow> Crash
                   | Ret (a', s', t) \<Rightarrow> Ret (lun_inspect_result t, Some a', s'))))"

section \<open>Migration\<close>

text \<open>
  The migration gives the query of the segment to the relocation in the place of the arguments:
  the fields of another structure are read, partly behind its end.
\<close>

fun lun_migrate_rows ::
  "('d, 'c) lun_placer \<Rightarrow> int \<Rightarrow> 'c inspect_args option \<Rightarrow> 'd \<Rightarrow> ('c, 'd) seglun_row list \<Rightarrow> int \<Rightarrow> int outcome" where
  "lun_migrate_rows P soft args d [] nattempted = Ret nattempted"
| "lun_migrate_rows P soft args d (b # bs) nattempted =
     (case args of
        None \<Rightarrow> Crash
      | Some a \<Rightarrow>
          (case slun_row_placement_check P d b (replicate (length (lr_block b)) 0) soft (ia_query a) (ia_rid_changes a) of
             Crash \<Rightarrow> Crash
           | Ret (_, err) \<Rightarrow>
               if err > 0 \<or> ia_rid_changes a \<noteq> None then Crash
               else lun_migrate_rows P soft args d bs (nattempted + err)))"

definition seglun_migrate_func ::
  "('m, ('c, 'd) seglun_row) isl_ops \<Rightarrow> ('d, 'c) lun_placer \<Rightarrow> int \<Rightarrow> 'c inspect_args option \<Rightarrow> ('m, 'c, 'd) seglun_priv \<Rightarrow>
   op_state outcome" where
  "seglun_migrate_func I P mode args s =
     (case lun_migrate_rows P (mode AND INSPECT_SOFT_ERROR_FAIL) args (lun_world s) (isl_all I (lun_isl s)) 0 of
        Crash \<Rightarrow> Crash
      | Ret nattempted \<Rightarrow> Ret (if nattempted \<noteq> 0 then OP_STATE_FAILURE else OP_STATE_SUCCESS))"

section \<open>The commands\<close>

definition lun_write_errors :: "('c, 'd) seglun_row list \<Rightarrow> int" where
  "lun_write_errors bs = sum_list (map (\<lambda>b. sum_list (map write_err_count (lr_block b))) bs)"

text \<open>\<open>None\<close> is the NULL returned for a command that does not exist.\<close>

definition seglun_inspect ::
  "('m, ('c, 'd) seglun_row) isl_ops \<Rightarrow> ('d, 'c) ds_io \<Rightarrow> ('d, 'c) lun_placer \<Rightarrow> ('d, 'c) lun_rs \<Rightarrow>
   (nat \<Rightarrow> nat \<Rightarrow> nat \<Rightarrow> nat \<Rightarrow> nat \<Rightarrow> ex_id) \<Rightarrow> int \<Rightarrow> 'c inspect_args option \<Rightarrow> ('m, 'c, 'd) seglun_priv \<Rightarrow>
   ((op_state \<times> int) option \<times> 'c inspect_args option \<times> ('m, 'c, 'd) seglun_priv) outcome" where
  "seglun_inspect I IO P RS rnd mode args s =
     (let option = mode AND INSPECT_COMMAND_BITS;
          count = (\<lambda>n. Ret (Some (if n = 0 then OP_STATE_SUCCESS else OP_STATE_FAILURE, n), args, s))
      in if option \<in> {1, 2, 3, 4, 5, 6} then
           (case seglun_inspect_func I IO P RS rnd mode args s of Crash \<Rightarrow> Crash | Ret (st, a, s') \<Rightarrow> Ret (Some st, a, s'))
         else if option = 9 then
           (case seglun_migrate_func I P mode args s of Crash \<Rightarrow> Crash | Ret st \<Rightarrow> Ret (Some (st, 0), args, s))
         else if option = 7 \<or> option = 8 then count (lun_hard_errors s)
         else if option = 10 then count (lun_write_errors (isl_all I (lun_isl s)))
         else Ret (None, args, s))"

end
