(* ===== verification/Lun_Placement.thy ===== *)
theory Lun_Placement
  imports Lun_Correctness Lun_Inspect "HOL-Library.Sublist"
begin

text \<open>
  Inspecting and relocating keep the data. The locale \<open>lun_mover\<close> states what the relocation of a row relies on: new allocations
  are fresh, warming and probing leave the allocations alone. The lemmas follow the code: a pass collects the requests, the answers
  give the copies, the copies land or are undone; a round, the loop of five rounds, the inspection of a row and of all
  rows keep every byte. The last section holds the properties.
\<close>

section \<open>Blocks that moved\<close>

definition blocks_ok :: "('d \<Rightarrow> 'c set) \<Rightarrow> ('d \<Rightarrow> 'c \<Rightarrow> ex_off) \<Rightarrow> ex_off \<Rightarrow> 'd \<Rightarrow> ('c, 'd) seglun_block list \<Rightarrow> bool" where
  "blocks_ok live cap_size len d ks \<longleftrightarrow>
     distinct (map block_cap ks) \<and>
     (\<forall>k \<in> set ks. lb_cap_offset k = 0 \<and> block_cap k \<in> live d \<and> len \<le> cap_size d (block_cap k))"

definition moved ::
  "('d \<Rightarrow> 'c set) \<Rightarrow> ('d \<Rightarrow> 'c \<Rightarrow> ex_off) \<Rightarrow> ('d \<Rightarrow> 'c \<Rightarrow> mem) \<Rightarrow> ex_off \<Rightarrow> 'd \<Rightarrow> ('c, 'd) seglun_block list \<Rightarrow> 'd \<Rightarrow>
   ('c, 'd) seglun_block list \<Rightarrow> bool" where
  "moved live cap_size bytes len d ks d' ks' \<longleftrightarrow>
     keeps live cap_size bytes UNIV d d' \<and> length ks' = length ks \<and> blocks_ok live cap_size len d' ks' \<and>
     (\<forall>i < length ks. (block_cap (ks' ! i) = block_cap (ks ! i) \<or> block_cap (ks' ! i) \<notin> live d) \<and>
        (\<forall>x. 0 \<le> x \<and> x < len \<longrightarrow> bytes d' (block_cap (ks' ! i)) x = bytes d (block_cap (ks ! i)) x))"

lemma blocks_ok_nth:
  assumes "blocks_ok live cap_size len d ks" "i < length ks"
  shows "lb_cap_offset (ks ! i) = 0" "block_cap (ks ! i) \<in> live d" "len \<le> cap_size d (block_cap (ks ! i))"
  using assms by (auto simp: blocks_ok_def)

lemma blocks_ok_keeps:
  "keeps live cap_size bytes UNIV d d' \<Longrightarrow> blocks_ok live cap_size len d ks \<Longrightarrow> blocks_ok live cap_size len d' ks"
  by (auto simp: blocks_ok_def keeps_def)

lemma blocks_ok_keeps_on:
  "keeps live cap_size bytes C d d' \<Longrightarrow> block_cap ` set ks \<subseteq> C \<Longrightarrow> blocks_ok live cap_size len d ks \<Longrightarrow> blocks_ok live cap_size len d' ks"
  by (auto simp: blocks_ok_def keeps_def subset_iff)

lemma moved_keeps:
  assumes "keeps live cap_size bytes UNIV d d'" "blocks_ok live cap_size len d ks"
  shows "moved live cap_size bytes len d ks d' ks"
  using assms blocks_ok_keeps [OF assms] blocks_ok_nth [OF assms(2)] unfolding moved_def keeps_def by force

lemma moved_trans:
  assumes "moved live cap_size bytes len d ks d' ks'" "moved live cap_size bytes len d' ks' d'' ks''"
  shows "moved live cap_size bytes len d ks d'' ks''"
  unfolding moved_def
proof (intro conjI allI impI)
  show "keeps live cap_size bytes UNIV d d''" using assms by (auto simp: moved_def intro: keeps_trans)
  show "length ks'' = length ks" "blocks_ok live cap_size len d'' ks''" using assms by (auto simp: moved_def)
  fix i assume i: "i < length ks"
  have "c \<in> live d'" if "c \<in> live d" for c using assms(1) that by (auto simp: moved_def keeps_def)
  then show "block_cap (ks'' ! i) = block_cap (ks ! i) \<or> block_cap (ks'' ! i) \<notin> live d" using assms i by (metis moved_def)
  fix x :: int assume "0 \<le> x \<and> x < len"
  then show "bytes d'' (block_cap (ks'' ! i)) x = bytes d (block_cap (ks ! i)) x" using assms i by (simp add: moved_def)
qed

lemma keeps_fresh:
  assumes "keeps live cap_size bytes UNIV d d1" "keeps live cap_size bytes (- C) d1 d'" "C \<inter> live d = {}"
  shows "keeps live cap_size bytes UNIV d d'"
proof -
  have "keeps live cap_size bytes (- C) d d'" using keeps_trans [OF keeps_mono [OF assms(1)] assms(2)] by simp
  then show ?thesis using assms(3) by (fastforce simp: keeps_def)
qed

text \<open>New blocks at some of the places: their capabilities are distinct, were not in use, and hold the bytes of the blocks they replace.\<close>

lemma moved_place:
  assumes ok: "blocks_ok live cap_size len d ks" and kept: "keeps live cap_size bytes UNIV d d'" and n: "length ks' = length ks"
    and new: "\<And>i. i < length ks \<Longrightarrow> case m i of None \<Rightarrow> block_cap (ks' ! i) = block_cap (ks ! i) \<and> lb_cap_offset (ks' ! i) = 0
        | Some c \<Rightarrow> block_cap (ks' ! i) = c \<and> lb_cap_offset (ks' ! i) = 0 \<and> c \<in> live d' - live d \<and> len \<le> cap_size d' c \<and>
            (\<forall>x. 0 \<le> x \<and> x < len \<longrightarrow> bytes d' c x = bytes d (block_cap (ks ! i)) x)"
    and inj: "\<And>i j c. i < length ks \<Longrightarrow> j < length ks \<Longrightarrow> m i = Some c \<Longrightarrow> m j = Some c \<Longrightarrow> i = j"
  shows "moved live cap_size bytes len d ks d' ks'"
  unfolding moved_def
proof (intro conjI allI impI)
  show "keeps live cap_size bytes UNIV d d'" "length ks' = length ks" by fact+
  fix i assume i: "i < length ks"
  note ki = blocks_ok_nth [OF ok i]
  show "block_cap (ks' ! i) = block_cap (ks ! i) \<or> block_cap (ks' ! i) \<notin> live d" using new [OF i] by (auto split: option.splits)
  fix x :: int assume "0 \<le> x \<and> x < len"
  then show "bytes d' (block_cap (ks' ! i)) x = bytes d (block_cap (ks ! i)) x"
    using new [OF i] ki keepsD(3) [OF kept UNIV_I ki(2), of x] by (auto split: option.splits)
next
  have "map block_cap ks' ! i \<noteq> map block_cap ks' ! j" if ij: "i < length ks" "j < length ks" "i \<noteq> j" for i j
  proof -
    have "block_cap (ks ! i) \<noteq> block_cap (ks ! j)" using ok ij by (simp add: blocks_ok_def distinct_conv_nth)
    then show ?thesis
      using new [OF ij(1)] new [OF ij(2)] inj [OF ij(1,2)] ij n blocks_ok_nth(2) [OF ok ij(1)] blocks_ok_nth(2) [OF ok ij(2)]
      by (auto split: option.splits)
  qed
  then have "distinct (map block_cap ks')" using n by (simp add: distinct_conv_nth)
  moreover have "lb_cap_offset (ks' ! i) = 0 \<and> block_cap (ks' ! i) \<in> live d' \<and> len \<le> cap_size d' (block_cap (ks' ! i))" if "i < length ks" for i
    using new [OF that] blocks_ok_nth [OF blocks_ok_keeps [OF kept ok] that] by (auto split: option.splits)
  ultimately show "blocks_ok live cap_size len d' ks'" using n by (auto simp: blocks_ok_def in_set_conv_nth)
qed

section \<open>One round\<close>

lemma subseq_distinct: "subseq xs ys \<Longrightarrow> distinct ys \<Longrightarrow> distinct xs \<and> set xs \<subseteq> set ys"
  by (induction rule: list_emb.induct) auto

lemma subseq_zip_fst: "subseq js (map fst (zip xs ys)) \<Longrightarrow> subseq js xs"
  unfolding map_fst_zip_take by (rule subseq_order.trans) (auto intro: prefix_imp_subseq take_is_prefix)

lemma move_device_cases:
  assumes "lun_move_device ds rnd len i k st v = Ret v'"
  obtains (good) "mv_missing v' = mv_missing v" "mv_reqs v' = mv_reqs v"
    | (bad) r pend where "mv_missing v' = mv_missing v @ [(i, pend, data_block_create ds rnd)]" "mv_reqs v' = mv_reqs v @ [(r, len)]"
  using assms by (auto simp: lun_move_device_def split: outcome.splits if_splits)

definition move_plan :: "('c, 'd) ds_fn \<Rightarrow> ex_off \<Rightarrow> ('c, 'd) lun_move \<Rightarrow> bool" where
  "move_plan ds len v \<longleftrightarrow>
     (\<forall>r \<in> set (mv_reqs v). snd r = len) \<and> length (mv_missing v) = length (mv_reqs v) \<and>
     (\<forall>p \<in> set (mv_missing v). db_ds (snd (snd p)) = ds)"

lemma move_pass_plan:
  "lun_move_pass ds rnd len ks v = Ret v' \<Longrightarrow> move_plan ds len v \<Longrightarrow> move_plan ds len v'"
proof (induction ds rnd len ks v rule: lun_move_pass.induct)
  case (2 ds rnd len i k st ks v)
  then obtain w where w: "lun_move_device ds (rnd i) len i k st v = Ret w" "lun_move_pass ds rnd len ks w = Ret v'"
    by (auto split: outcome.splits)
  from w(1) have "move_plan ds len w"
    by (cases rule: move_device_cases) (use 2(3) in \<open>auto simp: move_plan_def data_block_create_def\<close>)
  with 2(1) w show ?case by simp
qed simp

lemma move_pass_missing:
  "lun_move_pass ds rnd len ks v = Ret v' \<Longrightarrow> \<exists>js. map fst (mv_missing v') = map fst (mv_missing v) @ js \<and> subseq js (map fst ks)"
proof (induction ds rnd len ks v rule: lun_move_pass.induct)
  case (2 ds rnd len i k st ks v)
  then obtain w where w: "lun_move_device ds (rnd i) len i k st v = Ret w" "lun_move_pass ds rnd len ks w = Ret v'"
    by (auto split: outcome.splits)
  from 2(1) [OF w] obtain js where js: "map fst (mv_missing v') = map fst (mv_missing w) @ js" "subseq js (map fst ks)" by blast
  from w(1) show ?case by (cases rule: move_device_cases) (use js in \<open>auto intro: list_emb.intros\<close>)
qed simp

text \<open>The copies to be made: those of the answers that name a capability.\<close>

definition mv_grants :: "((nat \<times> string option \<times> ('c, 'd) data_block) \<times> (string option \<times> 'c option)) list \<Rightarrow> (nat \<times> 'c) list" where
  "mv_grants zs = List.map_filter (\<lambda>(p, r). map_option (Pair (fst p)) (snd r)) zs"

definition mv_dest :: "nat \<times> string option \<times> ('c, 'd) data_block \<Rightarrow> nat \<times> 'c" where
  "mv_dest p = (fst p, db_cap (snd (snd p)))"

lemma move_results_grants:
  "lun_move_results zs len bst rsq ch = Ret (cs, rsq', ch') \<Longrightarrow> map mv_dest cs = mv_grants zs"
proof (induction zs len bst rsq ch arbitrary: cs rule: lun_move_results.induct)
  case (2 i pend db rid cap rs len bst rsq ch)
  then show ?case
    by (auto simp: mv_grants_def List.map_filter_simps mv_dest_def split: option.splits outcome.splits if_splits)
qed (auto simp: mv_grants_def List.map_filter_simps)

lemma move_results_ds:
  "lun_move_results zs len bst rsq ch = Ret (cs, rsq', ch') \<Longrightarrow> \<forall>z \<in> set zs. db_ds (snd (snd (fst z))) = ds \<Longrightarrow>
   \<forall>p \<in> set cs. db_ds (snd (snd p)) = ds"
proof (induction zs len bst rsq ch arbitrary: cs rule: lun_move_results.induct)
  case (2 i pend db rid cap rs len bst rsq ch)
  then show ?case by (fastforce split: option.splits outcome.splits if_splits)
qed simp

lemma grants_places: "subseq (map fst (mv_grants (zip ps rs))) (map fst ps)"
proof (induction ps rs rule: list_induct2')
  case (4 p ps r rs)
  then show ?case by (cases "snd r") (auto simp: mv_grants_def List.map_filter_simps intro: list_emb.intros)
qed (auto simp: mv_grants_def List.map_filter_simps)

lemma grants_caps: "subseq (map snd (mv_grants (zip ps rs))) (List.map_filter snd rs)"
proof (induction ps rs rule: list_induct2')
  case (4 p ps r rs)
  then show ?case by (cases "snd r") (auto simp: mv_grants_def List.map_filter_simps intro: list_emb.intros)
qed (auto simp: mv_grants_def List.map_filter_simps)

lemma grants_nth:
  assumes "(i, c) \<in> set (mv_grants (zip ps rs))"
  obtains j rid where "j < length ps" "j < length rs" "rs ! j = (rid, Some c)"
proof -
  from assms obtain p r where "(p, r) \<in> set (zip ps rs)" "snd r = Some c"
    by (auto simp: mv_grants_def List.map_filter_def)
  then show ?thesis using that by (auto simp: set_zip) (metis prod.collapse)
qed

text \<open>The places where a copy arrived, and the capabilities that are given back.\<close>

definition mv_landed :: "((nat \<times> string option \<times> ('c, 'd) data_block) \<times> op_state) list \<Rightarrow> (nat \<times> 'c) list" where
  "mv_landed zs = map (mv_dest \<circ> fst) (filter (\<lambda>z. snd z = OP_STATE_SUCCESS) zs)"

definition mv_lost :: "((nat \<times> string option \<times> ('c, 'd) data_block) \<times> op_state) list \<Rightarrow> 'c set" where
  "mv_lost zs = set (map (snd \<circ> mv_dest \<circ> fst) (filter (\<lambda>z. snd z \<noteq> OP_STATE_SUCCESS) zs))"

lemma row_cap_place:
  assumes "inj_on row_cap (E \<times> {..<N})" "b \<in> E" "\<And>p. p \<in> E \<times> {..<N} \<Longrightarrow> row_cap p \<in> C"
    and "\<And>i. i < N \<Longrightarrow> row_cap (b', i) = row_cap (b, i) \<or> row_cap (b', i) \<notin> C" "inj_on (\<lambda>i. row_cap (b', i)) {..<N}"
  shows "inj_on row_cap (insert b' (E - {b}) \<times> {..<N})"
proof (rule inj_onI)
  have new: "row_cap (b', i) \<noteq> row_cap (e, j)" if "i < N" "j < N" "e \<in> E" "e \<noteq> b" for i j e
    using assms(2,3) assms(4) [OF that(1)] inj_onD [OF assms(1), of "(b, i)" "(e, j)"] that by force
  fix p q assume pq: "p \<in> insert b' (E - {b}) \<times> {..<N}" "q \<in> insert b' (E - {b}) \<times> {..<N}" and eq: "row_cap p = row_cap q"
  obtain c i e j where p: "p = (c, i)" and q: "q = (e, j)" by fastforce
  have ij: "i < N" "j < N" using pq p q by auto
  consider "c = b'" "e = b'" | "c = b'" "e \<in> E - {b}" | "c \<in> E - {b}" "e = b'" | "c \<in> E - {b}" "e \<in> E - {b}" using pq p q by auto
  then show "p = q"
  proof cases
    case 1
    then show ?thesis using inj_onD [OF assms(5)] eq ij p q by auto
  next
    case 4
    then show ?thesis using inj_onD [OF assms(1) eq] ij p q by auto
  qed (use new ij eq p q in force)+
qed

lemma lun_cleanup_extra:
  "lun_ok items live cap_size (s\<lparr>db_cleanup := cl\<rparr>) = lun_ok items live cap_size s"
  "lun_byte I bytes (s\<lparr>db_cleanup := cl\<rparr>) = lun_byte I bytes s"
  by (auto simp: lun_ok_def lun_geom_def row_ok_def lun_byte_def row_byte_def row_dev_def row_pos_def fun_eq_iff split: list.splits)

lemma intervals_distinct: "sorted_wrt (\<lambda>d e. (g d :: int) < f e) bs \<Longrightarrow> \<forall>b \<in> set bs. f b \<le> g b \<Longrightarrow> distinct bs"
  by (induction bs) fastforce+

section \<open>Healthy rows\<close>

lemma flag_no_errors:
  "\<forall>k \<in> set ks. read_err_count k \<le> 0 \<and> write_err_count k \<le> 0 \<Longrightarrow> lun_flag_errors mode ks bs = (bs, 0)"
  by (induction mode ks bs rule: lun_flag_errors.induct) auto

lemma check_all_placed: "lun_check_devices soft None ks bs (replicate n RS_ERROR_OK) = Ret (bs, 0)"
proof (induction ks arbitrary: bs n)
  case (Cons k ks)
  then show ?case by (cases bs; cases n) (simp_all add: rid_pending_def)
qed simp

lemma todo_zeros [simp]: "lun_todo (replicate n 0) = 0"
  by (simp add: lun_todo_def)

lemma sizes_fit:
  "\<forall>k \<in> set ks. lb_cap_offset k = 0 \<Longrightarrow> \<forall>p \<in> set ps. len \<le> p \<Longrightarrow> lun_size_blocks IO d len ks bs ps = (ks, bs, 0, d)"
  by (induction IO d len ks bs ps rule: lun_size_blocks.induct) (auto simp: Let_def)

section \<open>Interface\<close>

locale lun_mover = lun_store I items IO live cap_size bytes
  for I :: "('m, ('c, 'd) seglun_row) isl_ops" and items :: "'m \<Rightarrow> ('c, 'd) seglun_row interval_entry multiset"
    and IO :: "('d, 'c) ds_io" and live :: "'d \<Rightarrow> 'c set" and cap_size :: "'d \<Rightarrow> 'c \<Rightarrow> ex_off"
    and bytes :: "'d \<Rightarrow> 'c \<Rightarrow> mem" +
  fixes P :: "('d, 'c) lun_placer" and ds :: "('c, 'd) ds_fn"
  assumes move_law: "rs_move P d rsq reqs hints ng n ch = (res, d', ch') \<Longrightarrow> \<forall>r \<in> set reqs. 0 < snd r \<Longrightarrow>
      kept UNIV d d' \<and> distinct (List.map_filter snd res) \<and>
      (\<forall>j < length reqs. j < length res \<longrightarrow>
         (case snd (res ! j) of None \<Rightarrow> True | Some c \<Rightarrow> c \<in> live d' - live d \<and> cap_size d' c = snd (reqs ! j)))"
    and warm_law: "cap_auto_warm ds d c = Ret (d', c') \<Longrightarrow> kept UNIV d d'"
    and probe_law: "io_probe IO d c = (st, n, d') \<Longrightarrow> c \<in> live d \<Longrightarrow> kept UNIV d d' \<and> (n = cap_size d c \<or> n = 0)"
begin

abbreviation bok :: "ex_off \<Rightarrow> 'd \<Rightarrow> ('c, 'd) seglun_block list \<Rightarrow> bool" where
  "bok len d ks \<equiv> blocks_ok live cap_size len d ks"

abbreviation mvd :: "ex_off \<Rightarrow> 'd \<Rightarrow> ('c, 'd) seglun_block list \<Rightarrow> 'd \<Rightarrow> ('c, 'd) seglun_block list \<Rightarrow> bool" where
  "mvd len d ks d' ks' \<equiv> moved live cap_size bytes len d ks d' ks'"

lemma copies_land:
  assumes "lun_move_copies IO len ks cs d = (sts, d')" "0 < len" "bok len d ks"
    and "\<forall>p \<in> set cs. fst p < length ks" "distinct (map (snd \<circ> mv_dest) cs)"
    and "\<forall>c \<in> (snd \<circ> mv_dest) ` set cs. c \<in> live d \<and> len \<le> cap_size d c \<and> c \<notin> block_cap ` set ks"
  shows "length sts = length cs" "kept (- (snd \<circ> mv_dest) ` set cs) d d'"
    "\<forall>c \<in> (snd \<circ> mv_dest) ` set cs. c \<in> live d' \<and> cap_size d' c = cap_size d c"
    "\<forall>(p, st) \<in> set (zip cs sts). st = OP_STATE_SUCCESS \<longrightarrow>
       (\<forall>x. 0 \<le> x \<and> x < len \<longrightarrow> bytes d' (snd (mv_dest p)) x = bytes d (block_cap (ks ! fst p)) x)"
proof -
  have "length sts = length cs \<and> kept (- (snd \<circ> mv_dest) ` set cs) d d' \<and>
    (\<forall>c \<in> (snd \<circ> mv_dest) ` set cs. c \<in> live d' \<and> cap_size d' c = cap_size d c) \<and>
    (\<forall>(p, st) \<in> set (zip cs sts). st = OP_STATE_SUCCESS \<longrightarrow>
       (\<forall>x. 0 \<le> x \<and> x < len \<longrightarrow> bytes d' (snd (mv_dest p)) x = bytes d (block_cap (ks ! fst p)) x))"
    using assms
  proof (induction cs arbitrary: d sts)
    case (Cons p cs)
    obtain i pend db where p: "p = (i, pend, db)" by (cases p)
    obtain st d1 where c1: "io_copy IO d (block_cap (ks ! i)) (lb_cap_offset (ks ! i)) (db_cap db) 0 len = (st, d1)" by fastforce
    obtain sts2 where c2: "lun_move_copies IO len ks cs d1 = (sts2, d')" and sts: "sts = st # sts2"
      using Cons.prems(1) c1 p by (auto split: prod.splits)
    have i: "i < length ks" using Cons.prems p by simp
    note ki = blocks_ok_nth [OF Cons.prems(3) i]
    have c: "db_cap db \<in> live d" "len \<le> cap_size d (db_cap db)" "db_cap db \<notin> block_cap ` set ks"
      "db_cap db \<notin> (snd \<circ> mv_dest) ` set cs"
      using Cons.prems(5,6) p by (auto simp: mv_dest_def)
    have "block_cap (ks ! i) \<noteq> db_cap db" using c(3) i by (metis image_eqI nth_mem)
    from copy_law [OF c1 ki(2) c(1) this] ki c \<open>0 < len\<close>
    have k1: "kept (- {db_cap db}) d d1" "db_cap db \<in> live d1" "cap_size d1 (db_cap db) = cap_size d (db_cap db)"
      and b1: "st = OP_STATE_SUCCESS \<Longrightarrow> 0 \<le> x \<Longrightarrow> x < len \<Longrightarrow> bytes d1 (db_cap db) x = bytes d (block_cap (ks ! i)) x" for x
      by auto
    have other: "q \<in> live d1 \<and> cap_size d1 q = cap_size d q \<and> (\<forall>x. 0 \<le> x \<and> x < cap_size d q \<longrightarrow> bytes d1 q x = bytes d q x)"
      if "q \<noteq> db_cap db" "q \<in> live d" for q using k1(1) that by (simp add: keeps_def)
    have ok1: "bok len d1 ks" by (rule blocks_ok_keeps_on [OF k1(1) _ Cons.prems(3)]) (use c(3) in auto)
    have D: "\<forall>q \<in> (snd \<circ> mv_dest) ` set cs. q \<in> live d1 \<and> cap_size d1 q = cap_size d q \<and> len \<le> cap_size d1 q \<and> q \<notin> block_cap ` set ks"
    proof
      fix q assume q: "q \<in> (snd \<circ> mv_dest) ` set cs"
      then have "q \<in> (snd \<circ> mv_dest) ` set (p # cs)" by simp
      with Cons.prems(6) have "q \<in> live d" "len \<le> cap_size d q" "q \<notin> block_cap ` set ks" by blast+
      moreover have "q \<noteq> db_cap db" using q c(4) by blast
      ultimately show "q \<in> live d1 \<and> cap_size d1 q = cap_size d q \<and> len \<le> cap_size d1 q \<and> q \<notin> block_cap ` set ks" using other by simp
    qed
    from D have "\<forall>q \<in> (snd \<circ> mv_dest) ` set cs. q \<in> live d1 \<and> len \<le> cap_size d1 q \<and> q \<notin> block_cap ` set ks" by blast
    from Cons.IH [OF c2 \<open>0 < len\<close> ok1 _ _ this] Cons.prems(4,5)
    have IH: "length sts2 = length cs" "kept (- (snd \<circ> mv_dest) ` set cs) d1 d'"
      "\<forall>c \<in> (snd \<circ> mv_dest) ` set cs. c \<in> live d' \<and> cap_size d' c = cap_size d1 c"
      "\<forall>(p, st) \<in> set (zip cs sts2). st = OP_STATE_SUCCESS \<longrightarrow>
       (\<forall>x. 0 \<le> x \<and> x < len \<longrightarrow> bytes d' (snd (mv_dest p)) x = bytes d1 (block_cap (ks ! fst p)) x)" by auto
    have "kept (- (snd \<circ> mv_dest) ` set (p # cs)) d d'"
      by (rule keeps_trans [OF keeps_mono [OF k1(1)] keeps_mono [OF IH(2)]]) (auto simp: p mv_dest_def)
    moreover have "\<forall>c \<in> (snd \<circ> mv_dest) ` set (p # cs). c \<in> live d' \<and> cap_size d' c = cap_size d c"
    proof
      fix q assume "q \<in> (snd \<circ> mv_dest) ` set (p # cs)"
      then consider "q = db_cap db" | "q \<in> (snd \<circ> mv_dest) ` set cs" by (auto simp: p mv_dest_def)
      then show "q \<in> live d' \<and> cap_size d' q = cap_size d q"
        by cases (use IH(3) D k1(2,3) c(4) keepsD(1,2) [OF IH(2), of "db_cap db"] in auto)
    qed
    moreover have "bytes d' (db_cap db) x = bytes d (block_cap (ks ! i)) x" if "st = OP_STATE_SUCCESS" "0 \<le> x" "x < len" for x
      using b1 [OF that] keepsD(3) [OF IH(2) _ k1(2), of x] c(2,4) k1(3) that by auto
    moreover have "bytes d' (snd (mv_dest q)) x = bytes d (block_cap (ks ! fst q)) x"
      if "(q, OP_STATE_SUCCESS) \<in> set (zip cs sts2)" "0 \<le> x" "x < len" for q x
    proof -
      have q: "fst q < length ks" using Cons.prems(4) set_zip_leftD [OF that(1)] by simp
      note kq = blocks_ok_nth [OF Cons.prems(3) q]
      have "block_cap (ks ! fst q) \<noteq> db_cap db" using c(3) q by (metis image_eqI nth_mem)
      then have "bytes d1 (block_cap (ks ! fst q)) x = bytes d (block_cap (ks ! fst q)) x" using other kq that(2,3) by auto
      then show ?thesis using bspec [OF IH(4) that(1)] that(2,3) by simp
    qed
    ultimately show ?case using IH(1) by (auto simp: sts p mv_dest_def)
  qed auto
  then show "length sts = length cs" "kept (- (snd \<circ> mv_dest) ` set cs) d d'"
    "\<forall>c \<in> (snd \<circ> mv_dest) ` set cs. c \<in> live d' \<and> cap_size d' c = cap_size d c"
    "\<forall>(p, st) \<in> set (zip cs sts). st = OP_STATE_SUCCESS \<longrightarrow>
       (\<forall>x. 0 \<le> x \<and> x < len \<longrightarrow> bytes d' (snd (mv_dest p)) x = bytes d (block_cap (ks ! fst p)) x)" by blast+
qed

lemma move_done:
  assumes "lun_move_done i db d v = Ret (d', v')" "db_ds db = ds" "i < length (md_blocks v)"
  shows "kept UNIV d d'" "length (md_blocks v') = length (md_blocks v)" "block_cap (md_blocks v' ! i) = db_cap db"
    "lb_cap_offset (md_blocks v' ! i) = 0" "j \<noteq> i \<Longrightarrow> md_blocks v' ! j = md_blocks v ! j"
proof -
  obtain d1 c where w: "cap_auto_warm ds d (db_cap db) = Ret (d1, c)" "d' = d1"
    using assms(1,2) by (auto simp: lun_move_done_def data_block_auto_warm_def Let_def split: outcome.splits option.splits)
  then show "kept UNIV d d'" using warm_law by simp
  show "length (md_blocks v') = length (md_blocks v)" "block_cap (md_blocks v' ! i) = db_cap db"
    "lb_cap_offset (md_blocks v' ! i) = 0" "j \<noteq> i \<Longrightarrow> md_blocks v' ! j = md_blocks v ! j"
    using assms by (auto simp: lun_move_done_def data_block_auto_warm_def Let_def split: outcome.splits option.splits)
qed

lemma move_undo:
  assumes "lun_move_undo IO len pend db d v = Ret (d', v')" "db_cap db \<in> live d"
  shows "kept (- {db_cap db}) d d'" "md_blocks v' = md_blocks v"
proof -
  obtain st d1 where r: "io_remove IO d (db_cap db) = (st, d1)" by fastforce
  then have "d' = d1" "md_blocks v' = md_blocks v"
    using assms(1) by (auto simp: lun_move_undo_def split: outcome.splits option.splits)
  then show "kept (- {db_cap db}) d d'" "md_blocks v' = md_blocks v" using remove_law [OF r assms(2)] by simp_all
qed

lemma finish_lands:
  assumes "lun_move_finish IO len zs d v = Ret (d', v')"
    and "\<forall>z \<in> set zs. fst (fst z) < length (md_blocks v) \<and> db_ds (snd (snd (fst z))) = ds \<and> snd (mv_dest (fst z)) \<in> live d"
    and "distinct (map (snd \<circ> mv_dest \<circ> fst) zs)" "distinct (map (fst \<circ> fst) zs)"
  shows "kept (- mv_lost zs) d d' \<and> length (md_blocks v') = length (md_blocks v) \<and>
    (\<forall>i < length (md_blocks v). case map_of (mv_landed zs) i of
       None \<Rightarrow> md_blocks v' ! i = md_blocks v ! i
     | Some c \<Rightarrow> block_cap (md_blocks v' ! i) = c \<and> lb_cap_offset (md_blocks v' ! i) = 0)"
  using assms
proof (induction zs arbitrary: d v)
  case Nil
  then show ?case by (simp add: mv_landed_def)
next
  case (Cons z zs)
  obtain i pend db st where z: "z = ((i, pend, db), st)" by (metis surj_pair)
  obtain d1 v1 where
    s: "(if st = OP_STATE_SUCCESS then lun_move_done i db d v else lun_move_undo IO len pend db d v) = Ret (d1, v1)"
    and f: "lun_move_finish IO len zs d1 v1 = Ret (d', v')" using Cons.prems(1) z by (auto split: outcome.splits)
  have i: "i < length (md_blocks v)" and db: "db_ds db = ds" "db_cap db \<in> live d" using Cons.prems(2) z by (auto simp: mv_dest_def)
  have fresh: "db_cap db \<notin> (snd \<circ> mv_dest \<circ> fst) ` set zs" "i \<notin> (fst \<circ> fst) ` set zs"
    using Cons.prems(3,4) z by (auto simp: mv_dest_def)
  then have ni: "map_of (mv_landed zs) i = None" by (force simp: mv_landed_def mv_dest_def map_of_eq_None_iff)
  have k1: "kept (- {db_cap db}) d d1" "length (md_blocks v1) = length (md_blocks v)"
    using s move_done(1,2) [OF _ db(1) i] move_undo [OF _ db(2)] keeps_mono by (fastforce split: if_splits)+
  have "snd (mv_dest (fst y)) \<in> live d1" if "y \<in> set zs" for y
  proof -
    have "snd (mv_dest (fst y)) \<noteq> db_cap db" using fresh(1) that by (metis comp_apply image_eqI)
    then show ?thesis using keepsD(1) [OF k1(1)] Cons.prems(2) that by simp
  qed
  with Cons.prems f k1(2) Cons.IH [OF f]
  have IH: "kept (- mv_lost zs) d1 d' \<and> length (md_blocks v') = length (md_blocks v1) \<and>
    (\<forall>i < length (md_blocks v1). case map_of (mv_landed zs) i of
       None \<Rightarrow> md_blocks v' ! i = md_blocks v1 ! i
     | Some c \<Rightarrow> block_cap (md_blocks v' ! i) = c \<and> lb_cap_offset (md_blocks v' ! i) = 0)" by simp
  show ?case
  proof (cases "st = OP_STATE_SUCCESS")
    case True
    then have "lun_move_done i db d v = Ret (d1, v1)" using s by simp
    note dn = move_done [OF this db(1) i]
    have "mv_lost (z # zs) = mv_lost zs" "mv_landed (z # zs) = (i, db_cap db) # mv_landed zs"
      using True z by (auto simp: mv_lost_def mv_landed_def mv_dest_def)
    then show ?thesis using IH dn ni k1(2) i keeps_trans [OF keeps_mono [OF dn(1)], of "- mv_lost zs"] by (auto split: option.splits)
  next
    case False
    then have "lun_move_undo IO len pend db d v = Ret (d1, v1)" using s by simp
    note un = move_undo [OF this db(2)]
    have l: "mv_lost (z # zs) = insert (db_cap db) (mv_lost zs)" "mv_landed (z # zs) = mv_landed zs"
      using False z by (auto simp: mv_lost_def mv_landed_def mv_dest_def)
    have "kept (- mv_lost (z # zs)) d d'" unfolding l
      by (rule keeps_trans [OF keeps_mono [OF un(1)] keeps_mono [of _ _ _ "- mv_lost zs"]]) (use IH in auto)
    then show ?thesis using IH unfolding un(2) l(2) by blast
  qed
qed

text \<open>
  The copies of a round go to allocations that are new, one for every place; the data service of the new descriptors is the one of the
  segment.
\<close>

definition move_copies :: "nat \<Rightarrow> ex_off \<Rightarrow> 'd \<Rightarrow> 'd \<Rightarrow> (nat \<times> string option \<times> ('c, 'd) data_block) list \<Rightarrow> bool" where
  "move_copies n len d d1 cs \<longleftrightarrow>
     kept UNIV d d1 \<and> distinct (map fst cs) \<and> distinct (map (snd \<circ> mv_dest) cs) \<and>
     (\<forall>p \<in> set cs. fst p < n \<and> db_ds (snd (snd p)) = ds) \<and>
     (\<forall>c \<in> (snd \<circ> mv_dest) ` set cs. c \<in> live d1 - live d \<and> cap_size d1 c = len)"

lemma round_copies:
  assumes p: "lun_move_pass ds rnd len (zip [0..<n] ks) v0 = Ret v1" and v0: "mv_reqs v0 = []" "mv_missing v0 = []"
    and m: "rs_move P d rsq (mv_reqs v1) hints ng nd ch = (res, d1, ch1)"
    and r: "lun_move_results (zip (mv_missing v1) res) len bst rsq ch1 = Ret (cs, rsq', ch2)" and "0 < len"
  shows "move_copies n len d d1 cs"
  unfolding move_copies_def
proof (intro conjI)
  have plan: "move_plan ds len v1" using move_pass_plan [OF p] v0 by (simp add: move_plan_def)
  have sub: "subseq (map fst (mv_missing v1)) [0..<n]" using move_pass_missing [OF p] v0 by (auto dest: subseq_zip_fst)
  have "\<forall>q \<in> set (mv_reqs v1). 0 < snd q" using plan \<open>0 < len\<close> by (auto simp: move_plan_def)
  note mv = move_law [OF m this]
  show "kept UNIV d d1" using mv by simp
  have cd: "map mv_dest cs = mv_grants (zip (mv_missing v1) res)" by (rule move_results_grants [OF r])
  have "map fst cs = map fst (map mv_dest cs)" by (simp add: mv_dest_def)
  then have "subseq (map fst cs) [0..<n]" using subseq_order.trans [OF grants_places [of "mv_missing v1" res] sub] cd by simp
  from subseq_distinct [OF this] have places: "distinct (map fst cs)" "\<forall>p \<in> set cs. fst p < n" by auto
  show "distinct (map fst cs)" by fact
  show "distinct (map (snd \<circ> mv_dest) cs)"
    using subseq_distinct [OF grants_caps [of "mv_missing v1" res]] mv by (simp flip: cd)
  have "\<forall>p \<in> set cs. db_ds (snd (snd p)) = ds"
    by (rule move_results_ds [OF r]) (use plan in \<open>auto simp: move_plan_def dest!: set_zip_leftD\<close>)
  with places(2) show "\<forall>p \<in> set cs. fst p < n \<and> db_ds (snd (snd p)) = ds" by blast
  show "\<forall>c \<in> (snd \<circ> mv_dest) ` set cs. c \<in> live d1 - live d \<and> cap_size d1 c = len"
  proof
    fix q assume "q \<in> (snd \<circ> mv_dest) ` set cs"
    then have "q \<in> snd ` set (map mv_dest cs)" by auto
    then obtain i where "(i, q) \<in> set (mv_grants (zip (mv_missing v1) res))" unfolding cd by auto
    then obtain j rid where j: "j < length (mv_missing v1)" "j < length res" "res ! j = (rid, Some q)" by (rule grants_nth)
    with plan have "j < length (mv_reqs v1)" "snd (mv_reqs v1 ! j) = len" by (auto simp: move_plan_def)
    with mv j show "q \<in> live d1 - live d \<and> cap_size d1 q = len" by auto
  qed
qed

lemma copies_moved:
  assumes ok: "bok len d (md_blocks v)" and cs: "move_copies (length (md_blocks v)) len d d1 cs" and "0 < len"
    and c: "lun_move_copies IO len (md_blocks v) cs d1 = (sts, d2)" and f: "lun_move_finish IO len (zip cs sts) d2 v = Ret (d', v')"
  shows "mvd len d (md_blocks v) d' (md_blocks v')"
proof -
  let ?n = "length (md_blocks v)" and ?ks = "md_blocks v" and ?zs = "zip cs sts"
  have mv: "kept UNIV d d1" and places: "distinct (map fst cs)" "\<forall>p \<in> set cs. fst p < ?n" "\<forall>p \<in> set cs. db_ds (snd (snd p)) = ds"
    and caps: "distinct (map (snd \<circ> mv_dest) cs)" and new: "\<forall>c \<in> (snd \<circ> mv_dest) ` set cs. c \<in> live d1 - live d \<and> cap_size d1 c = len"
    using cs unfolding move_copies_def by blast+
  have ok1: "bok len d1 ?ks" by (rule blocks_ok_keeps [OF mv ok])
  have "\<forall>c \<in> (snd \<circ> mv_dest) ` set cs. c \<in> live d1 \<and> len \<le> cap_size d1 c \<and> c \<notin> block_cap ` set ?ks"
    using new ok by (force simp: blocks_ok_def)
  note land = copies_land [OF c \<open>0 < len\<close> ok1 places(2) caps this]
  have zs: "map fst ?zs = cs" using land(1) by simp
  have mem: "fst z \<in> set cs" if "z \<in> set ?zs" for z using that zs by (metis imageI list.set_map)
  have "\<forall>z \<in> set ?zs. fst (fst z) < ?n \<and> db_ds (snd (snd (fst z))) = ds \<and> snd (mv_dest (fst z)) \<in> live d2"
    using mem places(2,3) land(3) by auto
  moreover have dc: "distinct (map (snd \<circ> mv_dest \<circ> fst) ?zs)" using caps zs by (metis map_map)
  moreover have "distinct (map (fst \<circ> fst) ?zs)" using places(1) zs by (metis map_map)
  ultimately have fin: "kept (- mv_lost ?zs) d2 d'" "length (md_blocks v') = ?n"
    and at: "i < ?n \<Longrightarrow> case map_of (mv_landed ?zs) i of None \<Rightarrow> md_blocks v' ! i = ?ks ! i
      | Some c \<Rightarrow> block_cap (md_blocks v' ! i) = c \<and> lb_cap_offset (md_blocks v' ! i) = 0" for i
    using finish_lands [OF f] by simp_all
  have landed: "\<exists>p. (p, OP_STATE_SUCCESS) \<in> set ?zs \<and> mv_dest p = (i, q) \<and> p \<in> set cs"
    if "map_of (mv_landed ?zs) i = Some q" for i q
    using map_of_SomeD [OF that] mem by (fastforce simp: mv_landed_def)
  have once: "z = z'" if "z \<in> set ?zs" "z' \<in> set ?zs" "snd (mv_dest (fst z)) = snd (mv_dest (fst z'))" for z z'
    using dc that by (metis comp_apply distinct_map inj_onD)
  have lost: "mv_lost ?zs \<subseteq> (snd \<circ> mv_dest) ` set cs" using mem by (auto simp: mv_lost_def)
  show ?thesis
  proof (rule moved_place [OF ok _ fin(2), where m = "map_of (mv_landed ?zs)"])
    show "kept UNIV d d'"
      by (rule keeps_fresh [OF _ keeps_trans [OF land(2) keeps_mono [OF fin(1)]]]) (use mv new lost in auto)
    fix i assume i: "i < ?n"
    note ki = blocks_ok_nth [OF ok i]
    show "case map_of (mv_landed ?zs) i of None \<Rightarrow> block_cap (md_blocks v' ! i) = block_cap (?ks ! i) \<and> lb_cap_offset (md_blocks v' ! i) = 0
        | Some c \<Rightarrow> block_cap (md_blocks v' ! i) = c \<and> lb_cap_offset (md_blocks v' ! i) = 0 \<and> c \<in> live d' - live d \<and> len \<le> cap_size d' c \<and>
            (\<forall>x. 0 \<le> x \<and> x < len \<longrightarrow> bytes d' c x = bytes d (block_cap (?ks ! i)) x)"
    proof (cases "map_of (mv_landed ?zs) i")
      case None
      then show ?thesis using at [OF i] ki by simp
    next
      case (Some q)
      from landed [OF this] obtain p where p: "(p, OP_STATE_SUCCESS) \<in> set ?zs" "mv_dest p = (i, q)" "p \<in> set cs" by blast
      then have q: "q \<in> (snd \<circ> mv_dest) ` set cs" by force
      have "q \<notin> mv_lost ?zs"
      proof
        assume "q \<in> mv_lost ?zs"
        then obtain z where "z \<in> set ?zs" "snd z \<noteq> OP_STATE_SUCCESS" "snd (mv_dest (fst z)) = q" by (auto simp: mv_lost_def)
        with once [of z "(p, OP_STATE_SUCCESS)"] p show False by simp
      qed
      note kq = keepsD [OF fin(1) _ , of q] 
      have l2: "q \<in> live d2" "cap_size d2 q = len" using land(3) new q by auto
      have "fst p = i" using p(2) by (simp add: mv_dest_def)
      then have "bytes d' q x = bytes d (block_cap (?ks ! i)) x" if "0 \<le> x" "x < len" for x
        using kq(3) [of x] \<open>q \<notin> mv_lost ?zs\<close> l2 that bspec [OF land(4) p(1)] p(2) keepsD(3) [OF mv UNIV_I ki(2), of x] ki(3) by auto
      then show ?thesis using Some at [OF i] kq(1,2) \<open>q \<notin> mv_lost ?zs\<close> l2 new q by auto
    qed
  next
    fix i j q assume "map_of (mv_landed ?zs) i = Some q" "map_of (mv_landed ?zs) j = Some q"
    then show "i = j" using landed [of i q] landed [of j q] once by (metis fst_conv snd_conv)
  qed
qed

lemma move_round:
  assumes "lun_move_round IO P ds rnd len rsq d v = Ret (rsq', d', v')" "0 < len" and ok: "bok len d (md_blocks v)"
  shows "mvd len d (md_blocks v) d' (md_blocks v')"
proof -
  let ?n = "length (md_blocks v)" and ?ks = "md_blocks v"
  obtain v1 res d1 ch1 cs ch2 sts d2 where
    p: "lun_move_pass ds rnd len (zip [0..<?n] (zip ?ks (md_status v)))
          \<lparr>mv_hints = replicate ?n (\<lparr>fixed_rid_key = None, local_query = NullValue\<rparr>, None), mv_good = 0, mv_bad = ?n - 1,
           mv_reqs = [], mv_missing = [], mv_changes = md_changes v\<rparr> = Ret v1"
    and m: "rs_move P d rsq (mv_reqs v1) (mv_hints v1) (int (mv_good v1)) (int ?n) (mv_changes v1) = (res, d1, ch1)"
    and r: "lun_move_results (zip (mv_missing v1) res) len (md_status v) rsq ch1 = Ret (cs, rsq', ch2)"
    and c: "lun_move_copies IO len ?ks cs d1 = (sts, d2)"
    and f: "lun_move_finish IO len (zip cs sts) d2 (v\<lparr>md_changes := ch2\<rparr>) = Ret (d', v')"
    using assms(1) by (auto simp: lun_move_round_def Let_def split: outcome.splits prod.splits)
  have "move_copies ?n len d d1 cs" by (rule round_copies [OF p _ _ m r \<open>0 < len\<close>]) simp_all
  then show ?thesis using copies_moved [of len d "v\<lparr>md_changes := ch2\<rparr>", OF _ _ \<open>0 < len\<close> _ f] ok c by simp
qed

lemma move_loop:
  "lun_move_loop n IO P ds rnd len rsq d v = Ret (d', v') \<Longrightarrow> 0 < len \<Longrightarrow> bok len d (md_blocks v) \<Longrightarrow>
   mvd len d (md_blocks v) d' (md_blocks v')"
proof (induction n arbitrary: rsq d v)
  case 0
  then show ?case by (auto simp: lun_move_loop.simps [of 0] dest: move_round split: outcome.splits)
next
  case (Suc n)
  obtain rsq1 d1 v1 where r: "lun_move_round IO P ds (rnd (Suc n)) len rsq d v = Ret (rsq1, d1, v1)"
    and n: "(if lun_todo (md_status v1) > 0 then lun_move_loop n IO P ds rnd len rsq1 d1 v1 else Ret (d1, v1)) = Ret (d', v')"
    using Suc.prems(1) by (auto simp: lun_move_loop.simps [of "Suc n"] split: outcome.splits)
  note m = move_round [OF r Suc.prems(2,3)]
  then have "bok len d1 (md_blocks v1)" by (simp add: moved_def)
  from n m moved_trans [OF m Suc.IH [OF _ Suc.prems(2) this]] show ?case by (auto split: if_splits)
qed

lemma placement_fix:
  assumes "slun_row_placement_fix IO P ds rnd b bst args cl d = Ret (todo, b', st, args', cl', d')"
    and "0 < lr_block_len b" "bok (lr_block_len b) d (lr_block b)"
  shows "b' = b\<lparr>lr_block := lr_block b'\<rparr>" "mvd (lr_block_len b) d (lr_block b) d' (lr_block b')"
proof -
  obtain rsq v where v: "lun_move_loop 4 IO P ds rnd (lr_block_len b) (Some rsq) d
      \<lparr>md_blocks = lr_block b, md_status = bst, md_changes = ia_rid_changes args, md_qs = ia_qs args, md_qf = ia_qf args,
       md_cleanup = cl\<rparr> = Ret (d', v)" and b': "b' = b\<lparr>lr_block := md_blocks v\<rparr>"
    using assms(1) by (auto simp: slun_row_placement_fix_def split: outcome.splits)
  then show "b' = b\<lparr>lr_block := lr_block b'\<rparr>" by simp
  show "mvd (lr_block_len b) d (lr_block b) d' (lr_block b')" using move_loop [OF v assms(2)] assms(3) b' by simp
qed

section \<open>Inspection\<close>

lemma probe_blocks:
  "lun_probe_blocks IO d ks = (ps, d') \<Longrightarrow> \<forall>k \<in> set ks. block_cap k \<in> live d \<and> len \<le> cap_size d (block_cap k) \<Longrightarrow>
   kept UNIV d d' \<and> length ps = length ks \<and> (\<forall>n \<in> set ps. n = 0 \<or> len \<le> n)"
proof (induction ks arbitrary: d ps)
  case (Cons k ks)
  obtain st n d1 where p: "io_probe IO d (block_cap k) = (st, n, d1)" by (metis surj_pair)
  obtain ns where r: "lun_probe_blocks IO d1 ks = (ns, d')" and ps: "ps = n # ns" using Cons.prems(1) p by (auto split: prod.splits)
  from probe_law [OF p] Cons.prems(2) have k: "kept UNIV d d1" "n = 0 \<or> len \<le> n" by auto
  then have "\<forall>k \<in> set ks. block_cap k \<in> live d1 \<and> len \<le> cap_size d1 (block_cap k)" using Cons.prems(2) by (simp add: keeps_def)
  from Cons.IH [OF r this] k ps show ?case by (auto intro: keeps_trans)
qed simp

lemma size_blocks:
  "lun_size_blocks IO d len ks bs ps = (ks', bs', n, d') \<Longrightarrow> \<forall>k \<in> set ks. lb_cap_offset k = 0 \<Longrightarrow> \<forall>p \<in> set ps. p = 0 \<or> len \<le> p \<Longrightarrow>
   ks' = ks \<and> d' = d"
  by (induction IO d len ks bs ps arbitrary: ks' bs' n d' rule: lun_size_blocks.induct)
    (auto simp: Let_def split: prod.splits if_splits)

lemma size_check:
  assumes "slun_row_size_check IO d b bst = (b', st, n, d')" "bok (lr_block_len b) d (lr_block b)"
  shows "b' = b" "kept UNIV d d'"
proof -
  obtain ps d1 ks where p: "lun_probe_blocks IO d (lr_block b) = (ps, d1)"
    and z: "lun_size_blocks IO d1 (lr_block_len b) (lr_block b) bst ps = (ks, st, n, d')" and b': "b' = b\<lparr>lr_block := ks\<rparr>"
    using assms(1) by (auto simp: slun_row_size_check_def Let_def split: prod.splits)
  from probe_blocks [OF p, of "lr_block_len b"] assms(2) have "kept UNIV d d1" "\<forall>n \<in> set ps. n = 0 \<or> lr_block_len b \<le> n"
    by (auto simp: blocks_ok_def)
  with size_blocks [OF z] assms(2) b' show "b' = b" "kept UNIV d d'" by (auto simp: blocks_ok_def)
qed

lemma inspect_sizes:
  assumes "lun_inspect_sizes IO RS ds' rnd mode query drow v t = Ret (nl, nr, v', t')" "inspect_force mode = 0"
    and "bok (lr_block_len (vi_row v)) (vi_world v) (lr_block (vi_row v))"
  shows "vi_row v' = vi_row v" "kept UNIV (vi_world v) (vi_world v')"
proof -
  obtain b st n d where z: "slun_row_size_check IO (vi_world v) (vi_row v) (replicate (length (lr_block (vi_row v))) 0) = (b, st, n, d)"
    by (metis surj_pair)
  note size_check [OF this assms(3)]
  then show "vi_row v' = vi_row v" "kept UNIV (vi_world v) (vi_world v')"
    using assms(1,2) z by (auto simp: lun_inspect_sizes_def Let_def split: prod.splits if_splits)
qed

lemma inspect_move:
  assumes "lun_inspect_move IO P ds rnd soft query err v t = Ret (v', t')"
    and "0 < lr_block_len (vi_row v)" "bok (lr_block_len (vi_row v)) (vi_world v) (lr_block (vi_row v))"
  shows "vi_row v' = (vi_row v)\<lparr>lr_block := lr_block (vi_row v')\<rparr>"
    "mvd (lr_block_len (vi_row v)) (vi_world v) (lr_block (vi_row v)) (vi_world v') (lr_block (vi_row v'))"
proof -
  obtain todo b st args cl d where p: "slun_row_placement_fix IO P ds rnd (vi_row v) (vi_status v) ((vi_args v)\<lparr>ia_query := query\<rparr>)
      (vi_cleanup v) (vi_world v) = Ret (todo, b, st, args, cl, d)" and v: "vi_row v' = b" "vi_world v' = d"
    using assms(1) by (auto simp: lun_inspect_move_def Let_def split: outcome.splits prod.splits if_splits)
  from placement_fix [OF p assms(2,3)] v
  show "vi_row v' = (vi_row v)\<lparr>lr_block := lr_block (vi_row v')\<rparr>"
    "mvd (lr_block_len (vi_row v)) (vi_world v) (lr_block (vi_row v)) (vi_world v') (lr_block (vi_row v'))" by simp_all
qed

lemma inspect_placement:
  assumes "lun_inspect_placement IO P RS ds rnd mode query v t = Ret (v', t')" "inspect_force mode = 0"
    and "0 < lr_block_len (vi_row v)" "bok (lr_block_len (vi_row v)) (vi_world v) (lr_block (vi_row v))"
  shows "vi_row v' = (vi_row v)\<lparr>lr_block := lr_block (vi_row v')\<rparr>"
    "mvd (lr_block_len (vi_row v)) (vi_world v) (lr_block (vi_row v)) (vi_world v') (lr_block (vi_row v'))"
proof -
  consider "vi_row v' = vi_row v" "vi_world v' = vi_world v"
    | st t1 soft err where "lun_inspect_move IO P ds (rnd 0) soft query err (v\<lparr>vi_status := st\<rparr>) t1 = Ret (v', t')"
    using assms(1,2) by (auto simp: lun_inspect_placement_def Let_def split: outcome.splits prod.splits if_splits)
  note c = this
  from c show "vi_row v' = (vi_row v)\<lparr>lr_block := lr_block (vi_row v')\<rparr>"
    by cases (use inspect_move(1) [of "rnd 0" _ query _ "v\<lparr>vi_status := _\<rparr>"] assms(3,4) in auto)
  from c show "mvd (lr_block_len (vi_row v)) (vi_world v) (lr_block (vi_row v)) (vi_world v') (lr_block (vi_row v'))"
    by cases (use inspect_move(2) [of "rnd 0" _ query _ "v\<lparr>vi_status := _\<rparr>"] moved_keeps [OF keeps_refl assms(4)] assms(3,4) in auto)
qed

lemma inspect_row:
  assumes "lun_inspect_row IO P RS ds rnd mode query drow v t = Ret (v', t')" "inspect_force mode = 0"
    and "0 < lr_block_len (vi_row v)" "bok (lr_block_len (vi_row v)) (vi_world v) (lr_block (vi_row v))"
  shows "vi_row v' = (vi_row v)\<lparr>lr_block := lr_block (vi_row v')\<rparr>"
    "mvd (lr_block_len (vi_row v)) (vi_world v) (lr_block (vi_row v)) (vi_world v') (lr_block (vi_row v'))"
proof -
  obtain nl nr v1 t1 t2 where z: "lun_inspect_sizes IO RS ds (rnd 0) mode query drow v t = Ret (nl, nr, v1, t1)"
    and p: "(if lun_todo (vi_status v1) \<noteq> 0 then Ret (v1, t1) else lun_inspect_placement IO P RS ds (rnd 1) mode query v1 t1) = Ret (v', t2)"
    using assms(1) by (auto simp: lun_inspect_row_def split: outcome.splits prod.splits)
  note s = inspect_sizes [OF z assms(2,4)]
  note m = moved_keeps [OF s(2) assms(4)]
  have ok: "bok (lr_block_len (vi_row v1)) (vi_world v1) (lr_block (vi_row v1))" using m s(1) by (simp add: moved_def)
  have "vi_row v' = (vi_row v1)\<lparr>lr_block := lr_block (vi_row v')\<rparr> \<and>
    mvd (lr_block_len (vi_row v1)) (vi_world v1) (lr_block (vi_row v1)) (vi_world v') (lr_block (vi_row v'))"
    using p inspect_placement [OF _ assms(2), of RS "rnd 1" query v1 t1 v' t2] ok assms(3) s(1) moved_keeps [OF keeps_refl ok] by (auto split: if_splits)
  then show "vi_row v' = (vi_row v)\<lparr>lr_block := lr_block (vi_row v')\<rparr>"
    "mvd (lr_block_len (vi_row v)) (vi_world v) (lr_block (vi_row v)) (vi_world v') (lr_block (vi_row v'))"
    using s(1) moved_trans [OF m] by auto
qed

section \<open>The segment\<close>

lemma world_keeps:
  assumes ok: "lunok s" and kept: "kept UNIV (lun_world s) d"
  shows "lunok (s\<lparr>lun_world := d\<rparr>)"
    "0 \<le> x \<Longrightarrow> x < lun_total_size s \<Longrightarrow> lun_byte I bytes (s\<lparr>lun_world := d\<rparr>) x = lun_byte I bytes s x"
proof -
  note k = lunok_facts [OF ok]
  note w = lun_byte_world [OF ok rok_keeps [OF kept k(3) UNIV_I]]
  from w(1) show "lunok (s\<lparr>lun_world := d\<rparr>)" .
  assume "0 \<le> x" "x < lun_total_size s"
  then obtain b where b: "b \<in> ents (lun_isl s)" "lr_seg_offset b \<le> x" "x \<le> lr_seg_end b" using k(6) by blast
  show "lun_byte I bytes (s\<lparr>lun_world := d\<rparr>) x = lun_byte I bytes s x"
    using w(2) [OF _ b] lun_byte_row [OF k(2) b] rbyte_keeps [OF kept k(1) k(3) [OF b(1)] b(2,3) UNIV_I] b(1) by simp
qed

lemma row_blocks_ok:
  assumes "lunok s" "b \<in> ents (lun_isl s)"
  shows "0 < lr_block_len b" "bok (lr_block_len b) (lun_world s) (lr_block b)"
proof -
  note k = lunok_facts [OF assms(1)]
  note rb = k(3) [OF assms(2)]
  have "0 < n_devices s" using k(1) by (simp add: lun_geom_def)
  then show "0 < lr_block_len b" using rb by (auto simp: row_ok_def zero_less_mult_iff)
  have "distinct (map block_cap (lr_block b))"
    using inj_onD [OF k(5), of "(b, _)" "(b, _)"] assms(2) rb by (auto simp: distinct_conv_nth row_ok_def row_cap_def)
  then show "bok (lr_block_len b) (lun_world s) (lr_block b)" using rb by (auto simp: blocks_ok_def row_ok_def)
qed

lemma relocate_row:
  fixes cl :: "('c, 'd) data_block list"
  assumes ok: "lunok s" and b: "b \<in> ents (lun_isl s)" and b': "b' = b\<lparr>lr_block := lr_block b'\<rparr>"
    and m: "mvd (lr_block_len b) (lun_world s) (lr_block b) d (lr_block b')"
  defines "s' \<equiv> s\<lparr>lun_isl := lun_insert I (lun_delete I (lun_isl s) b) b', db_cleanup := cl, lun_world := d\<rparr>"
  shows "lunok s'" "ents (lun_isl s') = insert b' (ents (lun_isl s) - {b})"
    "0 \<le> x \<Longrightarrow> x < lun_total_size s \<Longrightarrow> lun_byte I bytes s' x = lun_byte I bytes s x"
proof -
  note k = lunok_facts [OF ok]
  let ?s = "s\<lparr>lun_world := d\<rparr>" and ?N = "nat (n_devices s)"
  have kept: "kept UNIV (lun_world s) d" and ok': "bok (lr_block_len b) d (lr_block b')" and len: "length (lr_block b') = length (lr_block b)"
    using m by (auto simp: moved_def)
  note w = world_keeps [OF ok kept]
  have f: "lr_seg_offset b' = lr_seg_offset b" "lr_seg_end b' = lr_seg_end b" "lr_block_len b' = lr_block_len b" "lr_row_len b' = lr_row_len b"
    by (subst b', simp)+
  have n: "length (lr_block b) = ?N" using k(3) [OF b] by (simp add: row_ok_def)
  have rb: "row_ok ?s live cap_size (lun_world ?s) b'"
    using k(3) [OF b] ok' len unfolding row_ok_def f by (auto simp: blocks_ok_def)
  have at: "row_cap (b', i) = row_cap (b, i) \<or> row_cap (b', i) \<notin> live (lun_world s)"
    "0 \<le> y \<Longrightarrow> y < lr_block_len b \<Longrightarrow> bytes d (row_cap (b', i)) y = bytes (lun_world s) (row_cap (b, i)) y" if "i < ?N" for i y
    using m that n by (auto simp: moved_def row_cap_def)
  have "inj_on (\<lambda>i. row_cap (b', i)) {..<?N}"
    using ok' len n by (auto simp: blocks_ok_def row_cap_def inj_on_def distinct_conv_nth)
  have "row_cap p \<in> live (lun_world s)" if "p \<in> ents (lun_isl s) \<times> {..<?N}" for p
    using that rok_block(1) [OF k(3)] by (cases p) auto
  note inj = row_cap_place [OF k(5) b this at(1) \<open>inj_on (\<lambda>i. row_cap (b', i)) {..<?N}\<close>]
  have "row_byte ?s bytes (lun_world ?s) b' x = row_byte ?s bytes (lun_world ?s) b x" if "lr_seg_offset b \<le> x" "x \<le> lr_seg_end b" for x
  proof -
    note wh = row_where [OF k(1) k(3) [OF b] that]
    show ?thesis using at(2) [OF wh] rbyte_keeps [OF kept k(1) k(3) [OF b] that UNIV_I] f(1) by (simp add: row_byte_def)
  qed
  note sw = swap_row [OF w(1), of b b', simplified, OF b f(1,2) rb [simplified] inj this [simplified]]
  have s': "s' = (s\<lparr>lun_world := d, lun_isl := lun_insert I (lun_delete I (lun_isl s) b) b'\<rparr>)\<lparr>db_cleanup := cl\<rparr>" by (simp add: s'_def)
  show "lunok s'" "ents (lun_isl s') = insert b' (ents (lun_isl s) - {b})"
    "0 \<le> x \<Longrightarrow> x < lun_total_size s \<Longrightarrow> lun_byte I bytes s' x = lun_byte I bytes s x"
    unfolding s' lun_cleanup_extra using sw w(2) by simp_all
qed

lemma inspect_rows:
  assumes "lun_inspect_rows I IO P RS rnd mode query drow bs args s t = Ret (args', s', t')" "inspect_force mode = 0"
    and "lunok s" "lun_ds s = ds" "distinct bs" "set bs \<subseteq> ents (lun_isl s)"
  shows "lunok s' \<and> lun_total_size s' = lun_total_size s \<and> lun_used_size s' = lun_used_size s \<and>
    (\<forall>x. 0 \<le> x \<and> x < lun_total_size s \<longrightarrow> lun_byte I bytes s' x = lun_byte I bytes s x)"
  using assms
proof (induction bs arbitrary: drow args s t)
  case (Cons b bs)
  obtain v t1 where r: "lun_inspect_row IO P RS ds (rnd drow) mode query drow
      \<lparr>vi_row = b, vi_status = [], vi_args = args, vi_cleanup = db_cleanup s, vi_world = lun_world s\<rparr> t = Ret (v, t1)"
    and n: "lun_inspect_rows I IO P RS rnd mode query (drow + 1) bs (vi_args v)
        (s\<lparr>lun_isl := lun_insert I (lun_delete I (lun_isl s) b) (vi_row v), db_cleanup := vi_cleanup v, lun_world := vi_world v\<rparr>) t1 =
      Ret (args', s', t')"
    using Cons.prems(1,4) by (auto split: outcome.splits prod.splits)
  have b: "b \<in> ents (lun_isl s)" using Cons.prems(6) by simp
  note rb = row_blocks_ok [OF Cons.prems(3) b]
  note m = inspect_row [OF r Cons.prems(2), simplified, OF rb]
  note sw = relocate_row [OF Cons.prems(3) b m, where cl = "vi_cleanup v"]
  have "set bs \<subseteq> insert (vi_row v) (ents (lun_isl s) - {b})" using Cons.prems(5,6) by auto
  with Cons.IH [OF n Cons.prems(2) sw(1)] sw(2,3) Cons.prems(4,5) show ?case by simp
qed simp

theorem inspect_func:
  assumes "seglun_inspect_func I IO P RS rnd mode args s = Ret (st, args', s')" "inspect_force mode = 0" "lunok s" "lun_ds s = ds"
  shows "lunok s' \<and> lun_total_size s' = lun_total_size s \<and> lun_used_size s' = lun_used_size s \<and>
    (\<forall>x. 0 \<le> x \<and> x < lun_total_size s \<longrightarrow> lun_byte I bytes s' x = lun_byte I bytes s x)"
proof -
  note k = lunok_facts [OF assms(3)]
  have "distinct (isl_all I (lun_isl s))"
    by (rule intervals_distinct [OF all_sorted [OF k(2)]]) (use entriesD(2) [OF k(2)] all_entries(1) [OF k(2)] in auto)
  then show ?thesis
    using assms all_entries(1) [OF k(2)]
    by (auto simp: seglun_inspect_func_def Let_def dest!: inspect_rows split: option.splits outcome.splits prod.splits)
qed

lemma probe_reliable:
  "\<forall>d c. c \<in> live d \<longrightarrow> fst (snd (io_probe IO d c)) = cap_size d c \<Longrightarrow>
   \<forall>k \<in> set ks. block_cap k \<in> live d \<and> len \<le> cap_size d (block_cap k) \<Longrightarrow> 
   \<forall>n \<in> set (fst (lun_probe_blocks IO d ks)). len \<le> n"
proof (induction ks arbitrary: d)
  case (Cons k ks)
  obtain st n d1 where p: "io_probe IO d (block_cap k) = (st, n, d1)" by (metis surj_pair)
  have k: "kept UNIV d d1" using probe_law [OF p] Cons.prems(2) by auto
  have n: "len \<le> n" using Cons.prems p by (metis fst_conv list.set_intros(1) snd_conv)
  have "\<forall>k \<in> set ks. block_cap k \<in> live d1 \<and> len \<le> cap_size d1 (block_cap k)" using Cons.prems(2) k by (simp add: keeps_def)
  from Cons.IH [OF Cons.prems(1) this] n show ?case by (auto simp: p split: prod.splits)
qed simp

lemma inspect_row_healthy:
  fixes v :: "('c, 'd) lun_visit"
  defines "ks \<equiv> lr_block (vi_row v)"
  assumes probe: "\<forall>d c. c \<in> live d \<longrightarrow> fst (snd (io_probe IO d c)) = cap_size d c"
    and check: "\<forall>d q hs. rs_check P d q hs = replicate (length hs) RS_ERROR_OK"
    and ok: "bok (lr_block_len (vi_row v)) (vi_world v) ks"
    and err: "\<forall>k \<in> set ks. read_err_count k \<le> 0 \<and> write_err_count k \<le> 0"
    and args: "drow < length (dev_row_replaced (vi_args v))" "ia_rid_changes (vi_args v) = None" "max_lost t = 0"
  shows "\<exists>d. kept UNIV (vi_world v) d \<and> lun_inspect_row IO P RS ds' rnd mode query drow v t =
    Ret (v\<lparr>vi_status := replicate (length ks) 0, vi_world := d\<rparr>, t)"
proof -
  let ?b = "vi_row v" and ?d = "vi_world v" and ?z = "replicate (length ks) 0"
  obtain ps d where p: "lun_probe_blocks IO ?d ks = (ps, d)" by fastforce
  have live: "\<forall>k \<in> set ks. block_cap k \<in> live ?d \<and> lr_block_len ?b \<le> cap_size ?d (block_cap k)" using ok by (simp add: blocks_ok_def)
  have "kept UNIV ?d d" using probe_blocks [OF p live] by simp
  moreover have "\<forall>n \<in> set ps. lr_block_len ?b \<le> n" using probe_reliable [OF probe live] p by simp
  then have z: "slun_row_size_check IO ?d ?b ?z = (?b, ?z, 0, d)"
    using p sizes_fit [of ks ps "lr_block_len ?b" IO d ?z] ok unfolding slun_row_size_check_def
    by (simp add: ks_def blocks_ok_def)
  have "(dev_row_replaced (vi_args v))[drow := dev_row_replaced (vi_args v) ! drow + 0] = dev_row_replaced (vi_args v)" by simp
  then have "lun_inspect_sizes IO RS ds' (rnd 0) mode query drow v t = Ret (0, 0, v\<lparr>vi_status := ?z, vi_world := d\<rparr>, t)"
    using z args flag_no_errors [OF err, of mode ?z] unfolding lun_inspect_sizes_def ks_def by simp
  then show ?thesis
    using \<open>kept UNIV ?d d\<close> check_all_placed [of _ ks ?z "length ks"] check args(2)
    by (auto simp: lun_inspect_row_def lun_inspect_placement_def slun_row_placement_check_def ks_def)
qed

lemma inspect_rows_healthy:
  assumes probe: "\<forall>d c. c \<in> live d \<longrightarrow> fst (snd (io_probe IO d c)) = cap_size d c"
    and check: "\<forall>d q hs. rs_check P d q hs = replicate (length hs) RS_ERROR_OK"
    and "lunok s" "distinct bs" "set bs \<subseteq> ents (lun_isl s)"
    and "\<forall>b \<in> set bs. \<forall>k \<in> set (lr_block b). read_err_count k \<le> 0 \<and> write_err_count k \<le> 0"
    and "drow + length bs \<le> length (dev_row_replaced args)" "ia_rid_changes args = None" "max_lost t = 0"
  shows "\<exists>s'. lun_inspect_rows I IO P RS rnd mode query drow bs args s t = Ret (args, s', t) \<and>
    lunok s' \<and> lun_total_size s' = lun_total_size s \<and> lun_used_size s' = lun_used_size s \<and>
    (\<forall>x. 0 \<le> x \<and> x < lun_total_size s \<longrightarrow> lun_byte I bytes s' x = lun_byte I bytes s x)"
  using assms(3-)
proof (induction bs arbitrary: drow s)
  case (Cons b bs)
  have b: "b \<in> ents (lun_isl s)" using Cons.prems(3) by simp
  note rb = row_blocks_ok [OF Cons.prems(1) b]
  let ?v = "\<lparr>vi_row = b, vi_status = [], vi_args = args, vi_cleanup = db_cleanup s, vi_world = lun_world s\<rparr>"
  have "drow < length (dev_row_replaced args)" using Cons.prems(5) by simp
  then obtain d where kept: "kept UNIV (lun_world s) d"
    and r: "lun_inspect_row IO P RS (lun_ds s) (rnd drow) mode query drow ?v t =
      Ret (?v\<lparr>vi_status := replicate (length (lr_block b)) 0, vi_world := d\<rparr>, t)"
    using inspect_row_healthy [OF probe check, of ?v drow t RS "lun_ds s" "rnd drow" mode query] rb(2) Cons.prems(4,6,7) by auto
  have "b = b\<lparr>lr_block := lr_block b\<rparr>" by simp
  note sw = relocate_row [OF Cons.prems(1) b this moved_keeps [OF kept rb(2)], where cl = "db_cleanup s"]
  have e: "set bs \<subseteq> insert b (ents (lun_isl s) - {b})" using Cons.prems(2,3) by auto
  from Cons.IH [OF sw(1), of "drow + 1"] sw(2) e Cons.prems(2,4-7)
  show ?case using sw(3) r by (auto simp: max_def)
qed simp

theorem inspect_healthy:
  assumes probe: "\<forall>d c. c \<in> live d \<longrightarrow> fst (snd (io_probe IO d c)) = cap_size d c"
    and check: "\<forall>d q hs. rs_check P d q hs = replicate (length hs) RS_ERROR_OK"
    and ok: "lunok s"
    and err: "\<forall>b \<in> ents (lun_isl s). \<forall>k \<in> set (lr_block b). read_err_count k \<le> 0 \<and> write_err_count k \<le> 0"
    and a: "lun_rsq s = Some q" "ia_query a = None" "ia_rid_changes a = None" "isl_count I (lun_isl s) \<le> length (dev_row_replaced a)"
  shows "\<exists>s'. seglun_inspect_func I IO P RS rnd mode (Some a) s =
      Ret ((OP_STATE_SUCCESS, 0), Some (a\<lparr>n_dev_rows := isl_count I (lun_isl s)\<rparr>), s') \<and>
    lunok s' \<and> lun_total_size s' = lun_total_size s \<and> lun_used_size s' = lun_used_size s \<and>
    (\<forall>x. 0 \<le> x \<and> x < lun_total_size s \<longrightarrow> lun_byte I bytes s' x = lun_byte I bytes s x)"
proof -
  note k = lunok_facts [OF ok]
  note all = all_entries [OF k(2)]
  let ?t = "\<lparr>max_lost = 0, total_lost = 0, total_repaired = 0, total_migrate = 0, nmigrated = 0\<rparr>"
  let ?a = "a\<lparr>n_dev_rows := isl_count I (lun_isl s)\<rparr>"
  obtain q1 where q1: "lun_inspect_query (lun_rsq s) (ia_query a) = Ret q1" using a by (simp add: lun_inspect_query_def rs_query_base_dup_def)
  have d: "distinct (isl_all I (lun_isl s))"
    by (rule intervals_distinct [OF all_sorted [OF k(2)]]) (use entriesD(2) [OF k(2)] all(1) in auto)
  have "\<exists>s'. lun_inspect_rows I IO P RS rnd mode q1 0 (isl_all I (lun_isl s)) ?a s ?t = Ret (?a, s', ?t) \<and>
    lunok s' \<and> lun_total_size s' = lun_total_size s \<and> lun_used_size s' = lun_used_size s \<and>
    (\<forall>x. 0 \<le> x \<and> x < lun_total_size s \<longrightarrow> lun_byte I bytes s' x = lun_byte I bytes s x)"
    using inspect_rows_healthy [OF probe check ok d, of 0 ?a ?t RS rnd mode q1] all err a by simp
  then show ?thesis using q1 all(3) by (auto simp: seglun_inspect_func_def lun_inspect_result_def)
qed

end

section \<open>A resource service for the depot in memory\<close>

text \<open>
  The resource service takes every resource but the one called \<open>full\<close>, if there is one. New blocks are placed on the
  resource \<open>new\<close>, behind the allocations there are, while there are fewer than \<open>cap\<close>.
\<close>

definition mem_placer :: "nat \<Rightarrow> string option \<Rightarrow> (byte list list, nat) lun_placer" where
  "mem_placer cap full = \<lparr>
     rs_check = (\<lambda>d q hs. map (\<lambda>h. if full \<noteq> None \<and> fixed_rid_key h = full then RS_ERROR_FIXED_MATCH_FAIL else RS_ERROR_OK) hs),
     rs_move = (\<lambda>d q reqs hs ng n ch.
        if length d + length reqs \<le> cap
        then (map (\<lambda>i. (Some ''new'', Some (length d + i))) [0..<length reqs], d @ map (\<lambda>r. replicate (nat (snd r)) 0) reqs, ch)
        else (map (\<lambda>_. (None, None)) reqs, d, ch))\<rparr>"

lemma map_filter_none: "List.map_filter snd (map (\<lambda>_. (a, None)) xs) = []"
  by (induction xs) (auto simp: List.map_filter_simps)

lemma map_filter_some: "List.map_filter snd (map (\<lambda>i. (a, Some (f i))) xs) = map f xs"
  by (induction xs) (auto simp: List.map_filter_simps)

interpretation list_mover: lun_mover list_isl mset "mem_depot cap" "\<lambda>d. {..<length d}" mem_size mem_bytes "mem_placer cap full" lun_mem_ds
proof (unfold_locales, goal_cases)
  case (1 d rsq reqs hints ng n ch res d' ch')
  then have "0 \<le> snd (reqs ! i)" if "i < length reqs" for i
    using that by (meson less_imp_le nth_mem)
  with 1 show ?case
    by (auto simp: mem_placer_def keeps_def mem_size_def mem_bytes_def nth_append map_filter_none map_filter_some distinct_map inj_on_def
        split: if_splits)
next
  case (2 d c d' c')
  then show ?case by (simp add: lun_mem_ds_def)
next
  case (3 d c st n d')
  then show ?case by (auto simp: mem_depot_def)
qed

text \<open>The segment of two devices with a query, looked at by an inspection that finds both of its blocks in the wrong place.\<close>

abbreviation demo_query :: rsq_base where
  "demo_query \<equiv> \<lparr>q_eles = [], q_tail = TailNull\<rparr>"

definition demo_look :: "((nat, byte list list) seglun_row interval_entry list, nat, byte list list) seglun_priv" where
  "demo_look = demo_lun\<lparr>lun_rsq := Some demo_query\<rparr>"

definition demo_args :: "nat inspect_args" where
  "demo_args = \<lparr>ia_query = None, ia_qs = Some [], ia_qf = None, ia_rid_changes = None, n_dev_rows = 0, dev_row_replaced = replicate 128 0\<rparr>"

definition demo_visit :: "int list \<Rightarrow> (nat, byte list list) lun_visit" where
  "demo_visit st = \<lparr>vi_row = demo_row, vi_status = st, vi_args = demo_args\<lparr>n_dev_rows := Suc 0\<rparr>, vi_cleanup = [],
     vi_world = [[1, 2, 7, 8], [3, 4, 5, 6]]\<rparr>"

definition demo_tally :: "int \<Rightarrow> lun_tally" where
  "demo_tally n = \<lparr>max_lost = 0, total_lost = 0, total_repaired = 0, total_migrate = n, nmigrated = n\<rparr>"

lemma lun_query_extra:
  "lun_ok items live cap_size (s\<lparr>lun_rsq := q\<rparr>) = lun_ok items live cap_size s"
  "lun_byte I bytes (s\<lparr>lun_rsq := q\<rparr>) = lun_byte I bytes s"
  by (auto simp: lun_ok_def lun_geom_def row_ok_def lun_byte_def row_byte_def row_dev_def row_pos_def fun_eq_iff split: list.splits)

lemma demo_look_sel [simp]:
  "lun_isl demo_look = [(0, 7, demo_row)]" "lun_world demo_look = [[1, 2, 7, 8], [3, 4, 5, 6]]" "lun_ds demo_look = lun_mem_ds"
  "db_cleanup demo_look = []" "lun_rsq demo_look = Some demo_query" "lun_total_size demo_look = 8"
  by (simp_all add: demo_look_def, simp_all add: demo_lun_def segment_lun_create_def)

lemma demo_look_ok: "lun_ok mset (\<lambda>d. {..<length d}) mem_size demo_look"
  using demo_lun_ok by (simp add: demo_look_def lun_query_extra)

lemma demo_look_byte: "lun_byte list_isl mem_bytes demo_look 4 = 5"
  by (simp add: demo_look_def lun_query_extra demo_lun_byte row_byte_def row_dev_def row_pos_def row_cap_def mem_bytes_def mem_of_def)

lemma demo_look_probe:
  "slun_row_size_check (mem_depot 8) [[1, 2, 7, 8], [3, 4, 5, 6]] demo_row [0, 0] = (demo_row, [0, 0], 0, [[1, 2, 7, 8], [3, 4, 5, 6]])"
  by (simp add: slun_row_size_check_def mem_depot_def mem_size_def)

lemma demo_look_check: "slun_row_placement_check (mem_placer 8 (Some ''rid'')) d demo_row [0, 0] soft q None = Ret ([-102, -102], 2)"
  by (simp add: slun_row_placement_check_def mem_placer_def lun_hint_def RS_ERROR_FIXED_MATCH_FAIL_def RS_ERROR_OK_def
      RS_ERROR_FIXED_NOT_FOUND_def)

lemma demo_look_sizes:
  "lun_inspect_sizes (mem_depot 8) no_rs lun_mem_ds (\<lambda>_ _ _. 0) 4 q 0 (demo_visit []) (demo_tally 0) =
     Ret (0, 0, demo_visit [0, 0], demo_tally 0)"
proof -
  have "lun_flag_errors 4 [demo_block 0, demo_block 1] [0, 0] = ([0, 0], 0)" by (rule flag_no_errors) (simp add: demo_block_def)
  moreover have "(replicate 128 0)[0 := 0] = replicate 128 (0::int)" by (simp add: list_eq_iff_nth_eq nth_list_update)
  ultimately show ?thesis
    by (simp add: lun_inspect_sizes_def demo_look_probe demo_visit_def demo_args_def demo_tally_def inspect_force_def inspect_defs)
qed

lemma demo_look_move:
  "\<exists>d v. lun_move_loop 4 (mem_depot 8) (mem_placer 8 (Some ''rid'')) lun_mem_ds (\<lambda>_ _. 0) 4 q [[1, 2, 7, 8], [3, 4, 5, 6]]
      \<lparr>md_blocks = [demo_block 0, demo_block 1], md_status = [-102, -102], md_changes = None, md_qs = Some [], md_qf = None,
       md_cleanup = []\<rparr> = Ret (d, v) \<and> map block_cap (md_blocks v) = [2, 3] \<and> md_status v = [0, 0]"
  by (simp add: lun_move_loop.simps lun_move_round_def lun_move_device_def rid_pending_def mem_placer_def upt_rec mem_depot_def
      lun_move_done_def data_block_auto_warm_def lun_todo_def demo_block_def data_block_create_def lun_mem_ds_def Let_def)

lemma demo_look_placement:
  "\<exists>v. lun_inspect_placement (mem_depot 8) (mem_placer 8 (Some ''rid'')) no_rs lun_mem_ds (\<lambda>_ _ _. 0) 4 (Some demo_query)
      (demo_visit [0, 0]) (demo_tally 0) = Ret (v, demo_tally 2) \<and> map block_cap (lr_block (vi_row v)) = [2, 3]"
  using demo_look_move [of "Some demo_query"]
  by (elim exE conjE) (simp add: lun_inspect_placement_def demo_look_check inspect_repairs_def inspect_defs lun_inspect_move_def
      slun_row_placement_fix_def rs_query_base_dup_def demo_args_def demo_visit_def demo_tally_def lun_unflag_def lun_todo_def)

lemma demo_look_inspect:
  "\<exists>a s'. seglun_inspect list_isl (mem_depot 8) (mem_placer 8 (Some ''rid'')) no_rs (\<lambda>_ _ _ _ _. 0) 4 (Some demo_args) demo_look =
     Ret (Some (OP_STATE_SUCCESS, 0), a, s') \<and> map (\<lambda>(_, _, b). map block_cap (lr_block b)) (lun_isl s') = [[2, 3]]"
proof -
  obtain v where p: "lun_inspect_placement (mem_depot 8) (mem_placer 8 (Some ''rid'')) no_rs lun_mem_ds (\<lambda>_ _ _. 0) 4 (Some demo_query)
      (demo_visit [0, 0]) (demo_tally 0) = Ret (v, demo_tally 2)" "map block_cap (lr_block (vi_row v)) = [2, 3]"
    using demo_look_placement by (elim exE conjE)
  have "ia_query demo_args = None" by (simp add: demo_args_def)
  then show ?thesis
    using p demo_look_sizes
    by (simp add: seglun_inspect_def seglun_inspect_func_def inspect_defs lun_inspect_query_def rs_query_base_dup_def lun_inspect_row_def
        lun_inspect_result_def lun_insert_def lun_delete_def lun_todo_def demo_tally_def demo_visit_def)
qed

section \<open>Properties\<close>

text \<open>
  C14: an inspection that is not told to repair by force, in any mode, leaves the rows of the segment in order and
  every byte of it as it was, also when it moves blocks to other resources and when requests, copies and removals fail
  on the way.
\<close>

theorem seglun_inspect_keeps_data:
  assumes "lun_mover I items IO live cap_size bytes P (lun_ds s)" "lun_ok items live cap_size s" "inspect_force mode = 0"
    and "seglun_inspect I IO P RS rnd mode args s = Ret (st, args', s')"
  shows "lun_ok items live cap_size s' \<and> lun_total_size s' = lun_total_size s \<and> lun_used_size s' = lun_used_size s \<and>
    (\<forall>x. 0 \<le> x \<and> x < lun_total_size s \<longrightarrow> lun_byte I bytes s' x = lun_byte I bytes s x)"
  using lun_mover.inspect_func [OF assms(1) _ assms(3,2), of RS rnd args] assms(2,4)
  by (auto simp: seglun_inspect_def Let_def split: if_splits outcome.splits)

theorem seglun_inspect_keeps_data_witness:
  "\<exists>a s'. seglun_inspect list_isl (mem_depot 8) (mem_placer 8 (Some ''rid'')) no_rs (\<lambda>_ _ _ _ _. 0) 4 (Some demo_args) demo_look =
     Ret (Some (OP_STATE_SUCCESS, 0), a, s') \<and> map (\<lambda>(_, _, b). map block_cap (lr_block b)) (lun_isl s') = [[2, 3]] \<and>
     lun_byte list_isl mem_bytes s' 4 = 5"
proof -
  have l: "lun_mover list_isl mset (mem_depot 8) (\<lambda>d. {..<length d}) mem_size mem_bytes (mem_placer 8 (Some ''rid'')) (lun_ds demo_look)"
    using list_mover.lun_mover_axioms [of 8 "Some ''rid''"] by simp
  have "inspect_force 4 = 0" by (simp add: inspect_force_def inspect_defs)
  note keeps = seglun_inspect_keeps_data [OF l demo_look_ok this, where RS = no_rs and rnd = "\<lambda>_ _ _ _ _. 0" and args = "Some demo_args"]
  then show ?thesis using demo_look_inspect demo_look_byte by fastforce
qed







end
