(* ===== verification/Lun_Text.thy ===== *)
theory Lun_Text
  imports Segment_Lun
begin

text \<open>
  The text form of the striped segment, \<open>src/segment_lun.c\<close>: the lines of a segment, the repeated attempts
  to print them into a buffer, and reading them back.
\<close>

section \<open>Writing\<close>

definition lun_block_text :: "('c, 'd) seglun_block \<Rightarrow> string" where
  "lun_block_text k = '':'' @ print_nat (unat (db_id (lb_data k))) @ '':'' @ print_int (lb_cap_offset k)"

definition lun_row_value :: "('c, 'd) seglun_row \<Rightarrow> string" where
  "lun_row_value b =
     print_int (lr_seg_offset b) @ '':'' @ print_int (lr_seg_end b) @ '':'' @ print_int (lr_row_len b) @
     concat (map lun_block_text (lr_block b))"

definition seglun_fields :: "text_ops \<Rightarrow> string \<Rightarrow> ('m, 'c, 'd) seglun_priv \<Rightarrow> (string \<times> string) list" where
  "seglun_fields T rs_type s =
     (case lun_name s of
        Some nm \<Rightarrow> if nm = '''' then [] else [(''name'', escape_text T ''='' bslash nm)]
      | None \<Rightarrow> []) @
     [(''type'', ''lun''), (''ref_count'', print_int (lun_ref_count s))] @
     (case lun_rsq s of
        None \<Rightarrow> []
      | Some _ \<Rightarrow>
          [(''query_default'',
            escape_text T ''='' bslash (case rs_query_base_print T rs_type (lun_rsq s) of None \<Rightarrow> '''' | Some q \<Rightarrow> q))]) @
     [(''n_devices'', print_int (n_devices s)), (''n_shift'', print_int (n_shift s)),
      (''max_block_size'', print_int (lun_max_block_size s)), (''excess_block_size'', print_int (lun_excess_block_size s)),
      (''max_size'', print_int (lun_total_size s)), (''used_size'', print_int (lun_used_size s)),
      (''chunk_size'', print_int (chunk_size s))]"

text \<open>
  One attempt. A block is stored before its row is printed, and storing it takes its attributes
  off its stack. The attempt ends with the first row that does not fit; the result says whether everything
  did, and holds the text, the rows as they are now, and the text of the blocks.
\<close>

fun lun_serialize_blocks ::
  "text_ops \<Rightarrow> ('c, 'd) seglun_block list \<Rightarrow> string option \<Rightarrow> (('c, 'd) seglun_block list \<times> string option) outcome" where
  "lun_serialize_blocks T [] t = Ret ([], t)"
| "lun_serialize_blocks T (k # ks) t =
     (case data_block_serialize T EX_TEXT (lb_data k) t of
        Crash \<Rightarrow> Crash
      | Ret (_, t1, db) \<Rightarrow>
          (case lun_serialize_blocks T ks t1 of
             Crash \<Rightarrow> Crash
           | Ret (ks', t2) \<Rightarrow> Ret (k\<lparr>lb_data := db\<rparr> # ks', t2)))"

fun lun_try_rows ::
  "text_ops \<Rightarrow> nat \<Rightarrow> ('c, 'd) seglun_row list \<Rightarrow> string \<Rightarrow> string option \<Rightarrow>
   (bool \<times> string \<times> ('c, 'd) seglun_row list \<times> string option) outcome" where
  "lun_try_rows T bufsize [] used t = Ret (length used < bufsize, used, [], t)"
| "lun_try_rows T bufsize (b # bs) used t =
     (case lun_serialize_blocks T (lr_block b) t of
        Crash \<Rightarrow> Crash
      | Ret (ks, t1) \<Rightarrow>
          (let used' = used @ ''row='' @ lun_row_value b @ newline; b' = b\<lparr>lr_block := ks\<rparr>
           in if length used' \<ge> bufsize then Ret (False, used', b' # bs, t1)
              else (case lun_try_rows T bufsize bs used' t1 of
                      Crash \<Rightarrow> Crash
                    | Ret (ok, u, bs', t2) \<Rightarrow> Ret (ok, u, b' # bs', t2))))"

definition seglun_serialize_text_try ::
  "text_ops \<Rightarrow> string \<Rightarrow> ('m, 'c, 'd) seglun_priv \<Rightarrow> nat \<Rightarrow> ('c, 'd) seglun_row list \<Rightarrow>
   (bool \<times> string \<times> ('c, 'd) seglun_row list \<times> string option) outcome" where
  "seglun_serialize_text_try T rs_type s bufsize rows =
     lun_try_rows T bufsize rows
       (''['' @ segment_group (lun_id s) @ '']'' @ newline @
        concat (map (\<lambda>(k, v). k @ ''='' @ v @ newline) (seglun_fields T rs_type s))) None"

text \<open>The buffer is doubled until an attempt fits. Every attempt begins with an empty text of the blocks.\<close>

partial_function (option) lun_serialize_loop ::
  "text_ops \<Rightarrow> string \<Rightarrow> ('m, 'c, 'd) seglun_priv \<Rightarrow> nat \<Rightarrow> ('c, 'd) seglun_row list \<Rightarrow>
   (string \<times> string option \<times> ('c, 'd) seglun_row list) outcome option" where
  "lun_serialize_loop T rs_type s bufsize rows =
     (case seglun_serialize_text_try T rs_type s bufsize rows of
        Crash \<Rightarrow> Some Crash
      | Ret (ok, u, rows', t) \<Rightarrow>
          if ok then Some (Ret (u, t, rows')) else lun_serialize_loop T rs_type s (2 * bufsize) rows')"

declare lun_serialize_loop.simps [code]

definition lun_replace_rows ::
  "('m, ('c, 'd) seglun_row) isl_ops \<Rightarrow> 'm \<Rightarrow> (('c, 'd) seglun_row \<times> ('c, 'd) seglun_row) list \<Rightarrow> 'm" where
  "lun_replace_rows I m bs = foldl (\<lambda>m (b, b'). lun_insert I (lun_delete I m b) b') m bs"

definition seglun_serialize_text ::
  "text_ops \<Rightarrow> string \<Rightarrow> ('m, ('c, 'd) seglun_row) isl_ops \<Rightarrow> ('m, 'c, 'd) seglun_priv \<Rightarrow> string option \<Rightarrow>
   (int \<times> string option \<times> ('m, 'c, 'd) seglun_priv) outcome option" where
  "seglun_serialize_text T rs_type I s t =
     (let rows = isl_all I (lun_isl s)
      in case lun_serialize_loop T rs_type s (100 * 1024) rows of
           None \<Rightarrow> None
         | Some Crash \<Rightarrow> Some Crash
         | Some (Ret (u, caps, rows')) \<Rightarrow>
             Some (Ret (0, exnode_exchange_append_text (exnode_exchange_append_text t caps) (Some u),
                        s\<lparr>lun_isl := lun_replace_rows I (lun_isl s) (zip rows rows')\<rparr>)))"

definition seglun_serialize ::
  "text_ops \<Rightarrow> string \<Rightarrow> ex_type \<Rightarrow> ('m, ('c, 'd) seglun_row) isl_ops \<Rightarrow> ('m, 'c, 'd) seglun_priv \<Rightarrow> string option \<Rightarrow>
   (int \<times> string option \<times> ('m, 'c, 'd) seglun_priv) outcome option" where
  "seglun_serialize T rs_type ty I s t =
     (case ty of
        EX_TEXT \<Rightarrow> seglun_serialize_text T rs_type I s t
      | EX_PROTOCOL_BUFFERS \<Rightarrow> Some (Ret (-1, t, s))
      | EX_OTHER \<Rightarrow> Some (Ret (-1, t, s)))"

section \<open>Reading\<close>







section \<open>Printing\<close>

definition seglun_header :: "text_ops \<Rightarrow> string \<Rightarrow> ('m, 'c, 'd) seglun_priv \<Rightarrow> string" where
  "seglun_header T rs_type s =
     ''['' @ segment_group (lun_id s) @ '']'' @ newline @
     concat (map (\<lambda>(k, v). k @ ''='' @ v @ newline) (seglun_fields T rs_type s))"

definition lun_lines :: "('c, 'd) seglun_row list \<Rightarrow> string" where
  "lun_lines bs = concat (map (\<lambda>b. ''row='' @ lun_row_value b @ newline) bs)"

lemma data_block_serialize_id:
  "data_block_serialize T ty b t = Ret (e, t', b') \<Longrightarrow> db_id b' = db_id b"
  by (cases ty) (auto simp: data_block_serialize_def data_block_serialize_text_def data_block_elements_def Let_def
      split: outcome.splits option.splits)

lemma serialize_blocks_text:
  "lun_serialize_blocks T ks t = Ret (ks', t') \<Longrightarrow> map lun_block_text ks' = map lun_block_text ks"
proof (induction T ks t arbitrary: ks' rule: lun_serialize_blocks.induct)
  case (2 T k ks t)
  obtain e t1 db ks2 where r: "data_block_serialize T EX_TEXT (lb_data k) t = Ret (e, t1, db)"
    "lun_serialize_blocks T ks t1 = Ret (ks2, t')" "ks' = k\<lparr>lb_data := db\<rparr> # ks2"
    using 2(2) by (auto split: outcome.splits)
  with 2(1) [OF r(1) refl refl] data_block_serialize_id [OF r(1)] show ?case by (simp add: lun_block_text_def)
qed simp

lemma try_rows:
  assumes "lun_try_rows T n bs used t = Ret (ok, u, bs', t')"
  shows "(ok \<longleftrightarrow> length (used @ lun_lines bs) < n) \<and> (ok \<longrightarrow> u = used @ lun_lines bs) \<and>
    map lun_row_value bs' = map lun_row_value bs"
  using assms
proof (induction T n bs used t arbitrary: ok u bs' t' rule: lun_try_rows.induct)
  case (2 T n b bs used t)
  obtain ks t1 where s: "lun_serialize_blocks T (lr_block b) t = Ret (ks, t1)" using 2(2) by (auto split: outcome.splits)
  let ?u = "used @ ''row='' @ lun_row_value b @ newline"
  have v: "lun_row_value (b\<lparr>lr_block := ks\<rparr>) = lun_row_value b" using serialize_blocks_text [OF s] by (simp add: lun_row_value_def)
  have l: "used @ lun_lines (b # bs) = ?u @ lun_lines bs" by (simp add: lun_lines_def)
  show ?case
  proof (cases "length ?u \<ge> n")
    case True
    with 2(2) s v show ?thesis unfolding l by (auto simp: Let_def)
  next
    case False
    obtain bs2 where r: "lun_try_rows T n bs ?u t1 = Ret (ok, u, bs2, t')" "bs' = b\<lparr>lr_block := ks\<rparr> # bs2"
      using 2(2) s False by (auto simp: Let_def split: outcome.splits)
    have "(ok \<longleftrightarrow> length (?u @ lun_lines bs) < n) \<and> (ok \<longrightarrow> u = ?u @ lun_lines bs) \<and> map lun_row_value bs2 = map lun_row_value bs"
      by (rule 2(1) [OF s _ refl refl _ r(1)]) (use False in simp_all)
    then show ?thesis unfolding l r(2) using v by simp
  qed
qed (auto simp: lun_lines_def)

lemma lun_lines_values: "map lun_row_value bs' = map lun_row_value bs \<Longrightarrow> lun_lines bs' = lun_lines bs"
proof -
  assume "map lun_row_value bs' = map lun_row_value bs"
  then have "map (\<lambda>v. ''row='' @ v @ newline) (map lun_row_value bs') = map (\<lambda>v. ''row='' @ v @ newline) (map lun_row_value bs)" by simp
  then show ?thesis by (simp add: lun_lines_def comp_def)
qed

lemma serialize_loop_returns:
  assumes "length (seglun_header T rs_type s @ lun_lines bs) < n * 2 ^ k"
  shows "lun_serialize_loop T rs_type s n bs = Some Crash \<or>
    (\<exists>caps bs'. lun_serialize_loop T rs_type s n bs = Some (Ret (seglun_header T rs_type s @ lun_lines bs, caps, bs')))"
  using assms
proof (induction k arbitrary: n bs)
  case 0
  show ?case
  proof (cases "seglun_serialize_text_try T rs_type s n bs")
    case (Ret r)
    then obtain ok u bs' t where r: "seglun_serialize_text_try T rs_type s n bs = Ret (ok, u, bs', t)" by (cases r) auto
    from try_rows [OF this [unfolded seglun_serialize_text_try_def, folded seglun_header_def]] 0
    have "ok" "u = seglun_header T rs_type s @ lun_lines bs" by auto
    then show ?thesis by (subst (2) lun_serialize_loop.simps) (simp add: r)
  qed (simp add: lun_serialize_loop.simps)
next
  case (Suc k)
  show ?case
  proof (cases "seglun_serialize_text_try T rs_type s n bs")
    case (Ret r)
    then obtain ok u bs' t where r: "seglun_serialize_text_try T rs_type s n bs = Ret (ok, u, bs', t)" by (cases r) auto
    from try_rows [OF this [unfolded seglun_serialize_text_try_def, folded seglun_header_def]]
    have ok: "ok \<Longrightarrow> u = seglun_header T rs_type s @ lun_lines bs" and same: "lun_lines bs' = lun_lines bs"
      by (auto dest: lun_lines_values)
    show ?thesis
    proof (cases ok)
      case True
      with ok r show ?thesis by (subst (2) lun_serialize_loop.simps) simp
    next
      case False
      have "lun_serialize_loop T rs_type s n bs = lun_serialize_loop T rs_type s (2 * n) bs'"
        by (subst lun_serialize_loop.simps) (simp add: r False)
      then show ?thesis using Suc.IH [of bs' "2 * n"] Suc.prems same by (simp add: algebra_simps)
    qed
  qed (simp add: lun_serialize_loop.simps)
qed

section \<open>Attributes\<close>

definition strip_attrs :: "('c, 'd) seglun_block \<Rightarrow> ('c, 'd) seglun_block" where
  "strip_attrs k = k\<lparr>lb_data := (lb_data k)\<lparr>db_attr_stack := None\<rparr>\<rparr>"

text \<open>A block whose attribute stack has been emptied.\<close>

definition emptied :: "('c, 'd) seglun_block \<Rightarrow> ('c, 'd) seglun_block \<Rightarrow> bool" where
  "emptied k' k \<longleftrightarrow> (\<exists>a st. st \<in> {None, Some []} \<and> k' = k\<lparr>lb_data := (lb_data k)\<lparr>db_attrs := a, db_attr_stack := st\<rparr>\<rparr>)"

lemma serialize_empties:
  "data_block_serialize T EX_TEXT (lb_data k) t = Ret (e, t', db) \<Longrightarrow> emptied (k\<lparr>lb_data := db\<rparr>) k"
  unfolding data_block_serialize_def data_block_serialize_text_def data_block_elements_def emptied_def
  by (cases k; cases "lb_data k") (auto simp: Let_def split: outcome.splits option.splits)

lemma blocks_emptied: "lun_serialize_blocks T ks t = Ret (ks', t') \<Longrightarrow> list_all2 emptied ks' ks"
proof (induction T ks t arbitrary: ks' rule: lun_serialize_blocks.induct)
  case (2 T k ks t)
  then show ?case by (auto intro: serialize_empties split: outcome.splits)
qed simp

lemma serialize_emptied:
  assumes "emptied k' k" "data_block_serialize T EX_TEXT (lb_data k') t = Ret (e, t', db)"
  shows "\<exists>db'. data_block_serialize T EX_TEXT (lb_data (strip_attrs k)) t = Ret (e, t', db')" "emptied (k'\<lparr>lb_data := db\<rparr>) k"
  using assms unfolding data_block_serialize_def data_block_serialize_text_def data_block_elements_def emptied_def strip_attrs_def
  by (auto simp: Let_def split: outcome.splits option.splits)

lemma blocks_plain:
  "lun_serialize_blocks T ks' t = Ret (ks2, t') \<Longrightarrow> list_all2 emptied ks' ks \<Longrightarrow>
     list_all2 emptied ks2 ks \<and> (\<exists>ks3. lun_serialize_blocks T (map strip_attrs ks) t = Ret (ks3, t'))"
proof (induction T ks' t arbitrary: ks ks2 rule: lun_serialize_blocks.induct)
  case (2 T k' ks' t)
  obtain k ks0 where ks: "ks = k # ks0" "emptied k' k" "list_all2 emptied ks' ks0" using 2(3) by (auto simp: list_all2_Cons1)
  obtain e t1 db ks3 where r: "data_block_serialize T EX_TEXT (lb_data k') t = Ret (e, t1, db)"
    "lun_serialize_blocks T ks' t1 = Ret (ks3, t')" "ks2 = k'\<lparr>lb_data := db\<rparr> # ks3"
    using 2(2) by (auto split: outcome.splits)
  from serialize_emptied [OF ks(2) r(1)] 2(1) [OF r(1) refl refl r(2) ks(3)] show ?case
    by (auto simp: ks(1) r(3))
qed auto

text \<open>If the blocks could be stored once, they can be stored again.\<close>

lemma serialize_again:
  assumes "data_block_serialize T EX_TEXT (lb_data k) t = Ret r" "emptied k' k"
  shows "\<exists>r'. data_block_serialize T EX_TEXT (lb_data k') t' = Ret r'"
  using assms unfolding data_block_serialize_def data_block_serialize_text_def data_block_elements_def emptied_def
  by (auto simp: Let_def split: outcome.splits option.splits)

lemma blocks_again:
  "lun_serialize_blocks T ks t = Ret r \<Longrightarrow> list_all2 emptied ks' ks \<Longrightarrow> \<exists>ks2 t2. lun_serialize_blocks T ks' t' = Ret (ks2, t2)"
proof (induction T ks t arbitrary: ks' r t' rule: lun_serialize_blocks.induct)
  case (2 T k ks t)
  obtain k1 ks1 where ks': "ks' = k1 # ks1" "emptied k1 k" "list_all2 emptied ks1 ks" using 2(3) by (auto simp: list_all2_Cons2)
  obtain e t1 db r2 where r: "data_block_serialize T EX_TEXT (lb_data k) t = Ret (e, t1, db)" "lun_serialize_blocks T ks t1 = Ret r2"
    using 2(2) by (auto split: outcome.splits)
  obtain e2 t2 db2 where "data_block_serialize T EX_TEXT (lb_data k1) t' = Ret (e2, t2, db2)"
    using serialize_again [OF r(1) ks'(2)] by (metis prod.exhaust)
  moreover obtain ks2 t3 where "lun_serialize_blocks T ks1 t2 = Ret (ks2, t3)" using 2(1) [OF r(1) refl refl r(2) ks'(3)] by blast
  ultimately show ?case by (simp add: ks'(1))
qed simp

lemma try_one_row_ok:
  assumes "lun_serialize_blocks T (lr_block b) None = Ret (ks, t)"
  shows "\<exists>ok u. seglun_serialize_text_try T rs_type s n [b] = Ret (ok, u, [b\<lparr>lr_block := ks\<rparr>], t)"
proof (cases "length (seglun_header T rs_type s @ ''row='' @ lun_row_value b @ newline) \<ge> n")
  case True
  with assms show ?thesis unfolding seglun_serialize_text_try_def seglun_header_def [symmetric]
    by (intro exI [of _ False]) (simp add: Let_def)
next
  case False
  with assms show ?thesis unfolding seglun_serialize_text_try_def seglun_header_def [symmetric]
    by (intro exI [of _ True]) (simp add: Let_def)
qed

lemma loop_step:
  assumes "list_all2 emptied (lr_block b') ks" "lun_serialize_blocks T ks t0 = Ret r0"
  shows "\<exists>ok u ks2 t ks3. seglun_serialize_text_try T rs_type s n [b'] = Ret (ok, u, [b'\<lparr>lr_block := ks2\<rparr>], t) \<and>
    (ok \<longleftrightarrow> length (seglun_header T rs_type s @ lun_lines [b']) < n) \<and> list_all2 emptied ks2 ks \<and>
    lun_serialize_blocks T (map strip_attrs ks) None = Ret (ks3, t) \<and> lun_lines [b'\<lparr>lr_block := ks2\<rparr>] = lun_lines [b']"
proof -
  obtain ks2 t2 where b: "lun_serialize_blocks T (lr_block b') None = Ret (ks2, t2)" using blocks_again [OF assms(2,1)] by blast
  then obtain ok u where r: "seglun_serialize_text_try T rs_type s n [b'] = Ret (ok, u, [b'\<lparr>lr_block := ks2\<rparr>], t2)"
    using try_one_row_ok by blast
  have "lun_lines [b'\<lparr>lr_block := ks2\<rparr>] = lun_lines [b']"
    using serialize_blocks_text [OF b] by (intro lun_lines_values) (simp add: lun_row_value_def)
  with r blocks_plain [OF b assms(1)] try_rows [OF r [unfolded seglun_serialize_text_try_def, folded seglun_header_def]]
  show ?thesis by blast
qed

lemma loop_emptied:
  assumes "length (seglun_header T rs_type s @ lun_lines [b']) < n * 2 ^ k" "list_all2 emptied (lr_block b') ks"
    and "lun_serialize_blocks T ks t0 = Ret r0"
  shows "\<exists>u caps bs ks3. lun_serialize_loop T rs_type s n [b'] = Some (Ret (u, caps, bs)) \<and>
    lun_serialize_blocks T (map strip_attrs ks) None = Ret (ks3, caps)"
  using assms(1,2)
proof (induction k arbitrary: n b')
  case 0
  obtain ok u ks2 t ks3 where "seglun_serialize_text_try T rs_type s n [b'] = Ret (ok, u, [b'\<lparr>lr_block := ks2\<rparr>], t)"
    "ok \<longleftrightarrow> length (seglun_header T rs_type s @ lun_lines [b']) < n"
    "lun_serialize_blocks T (map strip_attrs ks) None = Ret (ks3, t)"
    using loop_step [OF 0(2) assms(3)] by metis
  with 0(1) show ?case by (subst lun_serialize_loop.simps) auto
next
  case (Suc k)
  obtain ok u ks2 t ks3 where r: "seglun_serialize_text_try T rs_type s n [b'] = Ret (ok, u, [b'\<lparr>lr_block := ks2\<rparr>], t)"
    "ok \<longleftrightarrow> length (seglun_header T rs_type s @ lun_lines [b']) < n" "list_all2 emptied ks2 ks"
    "lun_serialize_blocks T (map strip_attrs ks) None = Ret (ks3, t)" "lun_lines [b'\<lparr>lr_block := ks2\<rparr>] = lun_lines [b']"
    using loop_step [OF Suc.prems(2) assms(3)] by metis
  show ?case
  proof (cases ok)
    case True
    with r show ?thesis by (subst lun_serialize_loop.simps) auto
  next
    case False
    have "lun_serialize_loop T rs_type s n [b'] = lun_serialize_loop T rs_type s (2 * n) [b'\<lparr>lr_block := ks2\<rparr>]"
      by (subst lun_serialize_loop.simps) (simp add: r(1) False)
    then show ?thesis using Suc.IH [of "b'\<lparr>lr_block := ks2\<rparr>" "2 * n"] r(3,5) Suc.prems(1) by (simp add: algebra_simps)
  qed
qed

section \<open>Reading back\<close>













section \<open>Properties\<close>

text \<open>A segment of one row on one device, whose block is the seventh, and a file that holds it.\<close>

definition text_query :: rsq_base where
  "text_query = \<lparr>q_eles = [\<lparr>q_op = 1, q_key = Some ''a'', q_val = Some ''b'', q_key_op = 1, q_val_op = 1\<rparr>], q_tail = TailLast\<rparr>"

definition text_block :: "(ibp_capset, warm_table) seglun_block" where
  "text_block = \<lparr>lb_data = (data_block_create ds_ibp_fn 7)\<lparr>db_id := 7,
       db_cap := \<lparr>readCap = Some ''r'', writeCap = Some ''w'', manageCap = Some ''m''\<rparr>,
       db_attrs := [\<lparr>at_key = ''a'', at_value = Value ''x'', at_freed = False\<rparr>], db_attr_stack := Some [0]\<rparr>,
     lb_cap_offset = 0, read_err_count = 0, write_err_count = 0\<rparr>"

definition text_row :: "(ibp_capset, warm_table) seglun_row" where
  "text_row = \<lparr>lr_block = [text_block], lr_seg_offset = 0, lr_seg_end = 3, lr_block_len = 4, lr_row_len = 4\<rparr>"

definition text_lun :: "((ibp_capset, warm_table) seglun_row interval_entry list, ibp_capset, warm_table) seglun_priv" where
  "text_lun = (segment_lun_create list_isl ds_ibp_fn None undefined 9)\<lparr>lun_id := 9, lun_name := Some ''n'', lun_rsq := Some text_query,
     lun_isl := [(0, 3, text_row)], lun_total_size := 4, lun_used_size := 4, chunk_size := 2, stripe_size := 2,
     lun_max_block_size := 4, max_row_size := 4\<rparr>"



lemma text_lun_sel [simp]:
  "lun_isl text_lun = [(0, 3, text_row)]" "n_devices text_lun = 1" "chunk_size text_lun = 2" "stripe_size text_lun = 2"
  "lun_max_block_size text_lun = 4" "max_row_size text_lun = 4" "lun_used_size text_lun = 4" "lun_total_size text_lun = 4"
  "lun_rsq text_lun = Some text_query" "lun_name text_lun = Some ''n''" "lun_id text_lun = 9"
  by (simp_all add: text_lun_def segment_lun_create_def)

lemma text_row_sel [simp]:
  "lr_block text_row = [text_block]" "lr_seg_offset text_row = 0" "lr_seg_end text_row = 3" "lr_block_len text_row = 4"
  "lr_row_len text_row = 4" "db_id (lb_data text_block) = 7"
  by (simp_all add: text_row_def text_block_def)



text \<open>
  C33: printing a segment always returns: the attempts end, and then the text is the complete one,
  with a line for every row, whatever buffer they began with. Otherwise storing a block has crashed.
\<close>

theorem seglun_serialize_returns:
  assumes "0 < n"
  shows "lun_serialize_loop T rs_type s n bs = Some Crash \<or>
    (\<exists>caps bs'. lun_serialize_loop T rs_type s n bs =
       Some (Ret (''['' @ segment_group (lun_id s) @ '']'' @ newline @
         concat (map (\<lambda>(k, v). k @ ''='' @ v @ newline) (seglun_fields T rs_type s @ map (\<lambda>b. (''row'', lun_row_value b)) bs)), caps, bs')))"
proof -
  let ?L = "length (seglun_header T rs_type s @ lun_lines bs)"
  have "?L < 2 ^ ?L" by (rule less_exp)
  also have "\<dots> \<le> n * 2 ^ ?L" using assms by simp
  finally show ?thesis
    using serialize_loop_returns [of T rs_type s bs n ?L] by (simp add: seglun_header_def lun_lines_def comp_def)
qed

theorem seglun_serialize_returns_witness:
  "lun_serialize_loop ref_text ''simple'' text_lun 8 [text_row] = Some Crash \<or>
    (\<exists>caps bs'. lun_serialize_loop ref_text ''simple'' text_lun 8 [text_row] =
       Some (Ret (''['' @ segment_group 9 @ '']'' @ newline @
         concat (map (\<lambda>(k, v). k @ ''='' @ v @ newline) (seglun_fields ref_text ''simple'' text_lun @ [(''row'', lun_row_value text_row)])), caps, bs')))"
  using seglun_serialize_returns [of 8 ref_text "''simple''" text_lun "[text_row]"] by simp

text \<open>
  An attempt that did not fit has emptied the attribute stacks of the blocks it stored. When
  the line of a segment with one row does not fit the first buffer, printing succeeds, but the blocks of that row end up
  in the text without their attributes.
\<close>

theorem seglun_serialize_retry_drops_attributes:
  assumes "0 < n" "n \<le> length (seglun_header T rs_type s @ lun_lines [b])" "lun_serialize_blocks T (lr_block b) None = Ret (ks0, t0)"
  shows "\<exists>u caps bs ks. lun_serialize_loop T rs_type s n [b] = Some (Ret (u, caps, bs)) \<and>
    lun_serialize_blocks T (map strip_attrs (lr_block b)) None = Ret (ks, caps)"
proof -
  obtain ok u where r: "seglun_serialize_text_try T rs_type s n [b] = Ret (ok, u, [b\<lparr>lr_block := ks0\<rparr>], t0)"
    using try_one_row_ok [OF assms(3)] by blast
  from try_rows [OF this [unfolded seglun_serialize_text_try_def, folded seglun_header_def]] assms(2) have "\<not> ok" by simp
  then have l: "lun_serialize_loop T rs_type s n [b] = lun_serialize_loop T rs_type s (2 * n) [b\<lparr>lr_block := ks0\<rparr>]"
    by (subst lun_serialize_loop.simps) (simp add: r)
  let ?L = "length (seglun_header T rs_type s @ lun_lines [b\<lparr>lr_block := ks0\<rparr>])"
  have "?L < 2 ^ ?L" by (rule less_exp)
  also have "\<dots> \<le> 2 * n * 2 ^ ?L" using assms(1) by simp
  finally show ?thesis unfolding l using loop_emptied [of T rs_type s "b\<lparr>lr_block := ks0\<rparr>" "2 * n" ?L] blocks_emptied [OF assms(3)] assms(3) by simp
qed

end
