(* ===== verification/Exnode.thy ===== *)
theory Exnode
  imports Data_Block Segment_Base
begin

text \<open>
  Exnodes, \<open>src/exnode.c\<close> and \<open>src/view_base.c\<close>: the container of the segments of a file, its removal, cloning and
  destruction, and the exchange format. Segments are shared by address: a list of objects is the heap,
  and an exnode holds positions in it.
\<close>

section \<open>Lists by identifier\<close>

text \<open>The ordered lists of the toolbox, keyed by \<open>skiplist_compare_ex_id\<close> and without duplicates.\<close>

record ('l, 'v) id_list_ops =
  il_empty :: 'l
  il_insert :: "'l \<Rightarrow> ex_id \<Rightarrow> 'v \<Rightarrow> 'l"
  il_remove :: "'l \<Rightarrow> ex_id \<Rightarrow> 'v \<Rightarrow> 'l"
  il_search :: "'l \<Rightarrow> ex_id \<Rightarrow> 'v option"
  il_all :: "'l \<Rightarrow> (ex_id \<times> 'v) list"

locale id_list =
  fixes L :: "('l, 'v) id_list_ops"
  assumes all_empty: "il_all L (il_empty L) = []"
    and all_insert: "k \<notin> fst ` set (il_all L l) \<Longrightarrow> set (il_all L (il_insert L l k v)) = insert (k, v) (set (il_all L l))"
    and all_remove: "set (il_all L (il_remove L l k v)) = set (il_all L l) - {(k, v)}"
    and all_sorted: "sorted_wrt (<) (map fst (il_all L l))"
    and search_all: "il_search L l k = map_of (il_all L l) k"

definition assoc_list :: "((ex_id \<times> 'v) list, 'v) id_list_ops" where
  "assoc_list = \<lparr>
     il_empty = [],
     il_insert = (\<lambda>l k v. if k \<in> fst ` set l then l else (k, v) # l),
     il_remove = (\<lambda>l k v. if map_of l k = Some v then filter (\<lambda>e. fst e \<noteq> k) l else l),
     il_search = map_of,
     il_all = (\<lambda>l. map (\<lambda>k. (k, the (map_of l k))) (sorted_list_of_set (fst ` set l)))\<rparr>"

lemma assoc_all: "set (il_all assoc_list l) = {(k, v). map_of l k = Some v}"
proof -
  have "(k, v) \<in> set (il_all assoc_list l) \<longleftrightarrow> map_of l k = Some v" for k v
  proof (cases "map_of l k")
    case None
    then have "k \<notin> fst ` set l" by (simp add: map_of_eq_None_iff)
    with None show ?thesis by (auto simp: assoc_list_def)
  next
    case (Some w)
    then have "k \<in> fst ` set l" by (force dest: map_of_SomeD)
    with Some show ?thesis by (auto simp: assoc_list_def)
  qed
  then show ?thesis by auto
qed

lemma map_of_filter_other: "map_of (filter (\<lambda>e. fst e \<noteq> k) l) k' = (if k' = k then None else map_of l k')"
  by (induction l) auto

interpretation assoc: id_list assoc_list
proof (unfold_locales, goal_cases)
  case (1)
  show ?case by (simp add: assoc_list_def)
next
  case (2 k l v)
  then have "k \<notin> fst ` set l" by (force simp: assoc_list_def)
  then have "il_insert assoc_list l k v = (k, v) # l" "map_of l k = None" by (auto simp: assoc_list_def map_of_eq_None_iff)
  then show ?case by (auto simp: assoc_all split: if_splits)
next
  case (3 l k v)
  have "il_remove assoc_list l k v = (if map_of l k = Some v then filter (\<lambda>e. fst e \<noteq> k) l else l)" by (simp add: assoc_list_def)
  then show ?case by (auto simp: assoc_all map_of_filter_other split: if_splits)
next
  case (4 l)
  then show ?case by (simp add: assoc_list_def comp_def strict_sorted_iff)
next
  case (5 l k)
  have "distinct (map fst (il_all assoc_list l))" by (simp add: assoc_list_def comp_def)
  then have "map_of (il_all assoc_list l) k = Some v \<longleftrightarrow> map_of l k = Some v" for v
    by (simp add: assoc_all)
  moreover have "il_search assoc_list = map_of" by (simp add: assoc_list_def)
  ultimately show ?case by (metis option.exhaust)
qed

section \<open>Data\<close>

record 'p segment_obj =
  so_id :: ex_id
  so_ref :: int
  so_priv :: 'p

record ('l, 'w, 'b) exnode =
  ex_hdr :: "'l ex_header"
  default_seg :: "nat option"
  ex_block :: "'b list"
  ex_view :: 'w

text \<open>The operations of a segment driver an exnode calls. Cloning gives the new segment, if it was made.\<close>

record 'p segment_drv =
  sd_remove :: "'p segment_obj \<Rightarrow> op_state \<times> 'p segment_obj"
  sd_clone :: "'p segment_obj \<Rightarrow> int \<Rightarrow> op_state \<times> 'p segment_obj option \<times> 'p segment_obj"
  sd_serialize :: "'p segment_obj \<Rightarrow> string option \<Rightarrow> string option \<times> 'p segment_obj"
  sd_destroy :: "'p segment_obj \<Rightarrow> 'p segment_obj"

definition seg_ref :: "int \<Rightarrow> nat \<Rightarrow> 'p segment_obj list \<Rightarrow> 'p segment_obj list" where
  "seg_ref n a h = h[a := (h ! a)\<lparr>so_ref := so_ref (h ! a) + n\<rparr>]"

section \<open>The container\<close>

definition exnode_get_default :: "('l, 'w, 'b) exnode \<Rightarrow> nat option" where
  "exnode_get_default ex = default_seg ex"

definition exnode_set_default :: "('l, 'w, 'b) exnode \<Rightarrow> nat option \<Rightarrow> ('l, 'w, 'b) exnode" where
  "exnode_set_default ex seg = ex\<lparr>default_seg := seg\<rparr>"

definition exnode_create :: "('w, nat) id_list_ops \<Rightarrow> ('l, 'w, 'b) exnode" where
  "exnode_create L = \<lparr>ex_hdr = ex_header_init, default_seg = None, ex_block = [], ex_view = il_empty L\<rparr>"

definition view_insert ::
  "('w, nat) id_list_ops \<Rightarrow> ('l, 'w, 'b) exnode \<Rightarrow> nat \<Rightarrow> 'p segment_obj list \<Rightarrow> ('l, 'w, 'b) exnode \<times> 'p segment_obj list" where
  "view_insert L ex a h = (ex\<lparr>ex_view := il_insert L (ex_view ex) (so_id (h ! a)) a\<rparr>, seg_ref 1 a h)"

definition view_remove ::
  "('w, nat) id_list_ops \<Rightarrow> ('l, 'w, 'b) exnode \<Rightarrow> nat \<Rightarrow> 'p segment_obj list \<Rightarrow> ('l, 'w, 'b) exnode \<times> 'p segment_obj list" where
  "view_remove L ex a h = (ex\<lparr>ex_view := il_remove L (ex_view ex) (so_id (h ! a)) a\<rparr>, seg_ref (-1) a h)"

text \<open>Removing the data of all segments.\<close>

fun ex_remove_loop :: "'p segment_drv \<Rightarrow> (ex_id \<times> nat) list \<Rightarrow> 'p segment_obj list \<Rightarrow> op_state \<times> 'p segment_obj list" where
  "ex_remove_loop D [] h = (OP_STATE_SUCCESS, h)"
| "ex_remove_loop D ((i, a) # vs) h =
     (case sd_remove D (h ! a) of
        (st, g) \<Rightarrow> (case ex_remove_loop D vs (h[a := g]) of (st2, h2) \<Rightarrow> (both st st2, h2)))"

definition exnode_remove_func ::
  "('w, nat) id_list_ops \<Rightarrow> 'p segment_drv \<Rightarrow> ('l, 'w, 'b) exnode \<Rightarrow> 'p segment_obj list \<Rightarrow> op_state \<times> 'p segment_obj list" where
  "exnode_remove_func L D ex h = ex_remove_loop D (il_all L (ex_view ex)) h"

text \<open>
  Cloning: all clones are started, and then every one is looked at. The identifier of the default segment is
  read in between, so there has to be one.
\<close>

fun ex_clone_start ::
  "'p segment_drv \<Rightarrow> int \<Rightarrow> (ex_id \<times> nat) list \<Rightarrow> 'p segment_obj list \<Rightarrow> (nat \<times> op_state \<times> nat option) list \<times> 'p segment_obj list" where
  "ex_clone_start D mode [] h = ([], h)"
| "ex_clone_start D mode ((i, a) # vs) h =
     (case sd_clone D (h ! a) mode of
        (st, new, g) \<Rightarrow>
          (let h1 = h[a := g];
               (c, h2) = (case new of None \<Rightarrow> (None, h1) | Some n \<Rightarrow> (Some (length h1), h1 @ [n]));
               (rs, h3) = ex_clone_start D mode vs h2
           in ((a, st, c) # rs, h3)))"

fun ex_clone_finish ::
  "('w, nat) id_list_ops \<Rightarrow> 'p segment_drv \<Rightarrow> ex_id \<Rightarrow> (nat \<times> op_state \<times> nat option) list \<Rightarrow> ('l, 'w, 'b) exnode \<Rightarrow>
   'p segment_obj list \<Rightarrow> (nat \<times> ('l, 'w, 'b) exnode \<times> 'p segment_obj list) outcome" where
  "ex_clone_finish L D did [] ex h = Ret (0, ex, h)"
| "ex_clone_finish L D did ((a, st, c) # rs) ex h =
     (case c of
        None \<Rightarrow> Crash
      | Some n \<Rightarrow>
          if st \<noteq> OP_STATE_SUCCESS then
            (case ex_clone_finish L D did rs ex (h[n := sd_destroy D (h ! n)]) of
               Crash \<Rightarrow> Crash
             | Ret (nfailed, r) \<Rightarrow> Ret (nfailed + 1, r))
          else
            (let ex1 = (if did = so_id (h ! a) then ex\<lparr>default_seg := Some n\<rparr> else ex);
                 ex2 = ex1\<lparr>ex_view := il_insert L (ex_view ex1) (so_id (h ! n)) n\<rparr>
             in ex_clone_finish L D did rs ex2 (seg_ref 1 n h)))"

definition exnode_clone_func ::
  "('w, nat) id_list_ops \<Rightarrow> 'p segment_drv \<Rightarrow> int \<Rightarrow> ('l, 'w, 'b) exnode \<Rightarrow> ('l, 'w, 'b) exnode \<Rightarrow> 'p segment_obj list \<Rightarrow>
   (op_state \<times> ('l, 'w, 'b) exnode \<times> 'p segment_obj list) outcome" where
  "exnode_clone_func L D mode sex ex h =
     (let vs = il_all L (ex_view sex)
      in if vs = [] then Ret (OP_STATE_SUCCESS, ex, h)
         else (case ex_clone_start D mode vs h of
                 (rs, h1) \<Rightarrow>
                   (case default_seg sex of
                      None \<Rightarrow> Crash
                    | Some d \<Rightarrow>
                        (case ex_clone_finish L D (so_id (h1 ! d)) rs ex h1 of
                           Crash \<Rightarrow> Crash
                         | Ret (nfailed, ex', h') \<Rightarrow>
                             Ret (if nfailed > 0 then OP_STATE_FAILURE else OP_STATE_SUCCESS, ex', h')))))"

definition exnode_clone ::
  "('w, nat) id_list_ops \<Rightarrow> 'p segment_drv \<Rightarrow> int \<Rightarrow> ex_id \<Rightarrow> ('l, 'w, 'b) exnode \<Rightarrow> 'p segment_obj list \<Rightarrow>
   (op_state \<times> ('l, 'w, 'b) exnode \<times> 'p segment_obj list) outcome" where
  "exnode_clone L D mode new_id src h =
     exnode_clone_func L D mode src
       ((exnode_create L)\<lparr>ex_hdr := ex_header_init\<lparr>hdr_name := hdr_name (ex_hdr src), hdr_type := hdr_type (ex_hdr src),
          hdr_id := new_id\<rparr>\<rparr>) h"

text \<open>Destruction. The iterator is advanced twice in every pass.\<close>

fun every_other :: "'a list \<Rightarrow> 'a list" where
  "every_other [] = []"
| "every_other [x] = [x]"
| "every_other (x # y # xs) = x # every_other xs"

definition ex_release_segs :: "'p segment_drv \<Rightarrow> (ex_id \<times> nat) list \<Rightarrow> 'p segment_obj list \<Rightarrow> 'p segment_obj list" where
  "ex_release_segs D vs h =
     foldl (\<lambda>h (i, a). let h1 = seg_ref (-1) a h in h1[a := sd_destroy D (h1 ! a)]) h (every_other vs)"

fun ex_release_blocks :: "('c, 'd) data_block list \<Rightarrow> 'd \<Rightarrow> 'd outcome" where
  "ex_release_blocks [] w = Ret w"
| "ex_release_blocks (b # bs) w =
     (case data_block_destroy w (Some b) of Crash \<Rightarrow> Crash | Ret (w', _) \<Rightarrow> ex_release_blocks bs w')"

definition exnode_destroy ::
  "('w, nat) id_list_ops \<Rightarrow> 'p segment_drv \<Rightarrow> ('l, 'w, ('c, 'd) data_block) exnode \<Rightarrow> 'p segment_obj list \<Rightarrow> 'd \<Rightarrow>
   ('p segment_obj list \<times> 'd) outcome" where
  "exnode_destroy L D ex h w =
     (let h' = ex_release_segs D (il_all L (ex_view ex)) h
      in case ex_release_blocks (every_other (ex_block ex)) w of
           Crash \<Rightarrow> Crash
         | Ret w' \<Rightarrow> Ret (h', w'))"

section \<open>The exchange format\<close>

record exnode_exchange =
  xp_type :: ex_type
  xp_text :: "string option"
  xp_fd :: "inip_file option"

definition exnode_exchange_create :: "ex_type \<Rightarrow> exnode_exchange" where
  "exnode_exchange_create ty = \<lparr>xp_type = ty, xp_text = None, xp_fd = None\<rparr>"

definition exnode_exchange_free :: "exnode_exchange \<Rightarrow> exnode_exchange" where
  "exnode_exchange_free x = x\<lparr>xp_text := None, xp_fd := None\<rparr>"

definition exnode_exchange_text_parse :: "(string \<Rightarrow> inip_file) \<Rightarrow> string \<Rightarrow> exnode_exchange" where
  "exnode_exchange_text_parse parse t = (exnode_exchange_create EX_TEXT)\<lparr>xp_text := Some t, xp_fd := Some (parse t)\<rparr>"

text \<open>The contents of a file, which has to exist.\<close>

definition exnode_exchange_load_file :: "(string \<Rightarrow> inip_file) \<Rightarrow> string option \<Rightarrow> exnode_exchange outcome" where
  "exnode_exchange_load_file parse file =
     (case file of None \<Rightarrow> Crash | Some t \<Rightarrow> Ret (exnode_exchange_text_parse parse (t @ newline)))"

definition exnode_exchange_append :: "exnode_exchange \<Rightarrow> exnode_exchange \<Rightarrow> exnode_exchange" where
  "exnode_exchange_append x y =
     (case xp_text y of None \<Rightarrow> x | Some t \<Rightarrow> x\<lparr>xp_text := exnode_exchange_append_text (xp_text x) (Some t)\<rparr>)"

definition inip_group :: "inip_file \<Rightarrow> string \<Rightarrow> (string \<times> string) list" where
  "inip_group fd g = (case map_of fd g of None \<Rightarrow> [] | Some kvs \<Rightarrow> kvs)"

definition exnode_exchange_get_default_view_id :: "(string \<Rightarrow> int) \<Rightarrow> exnode_exchange \<Rightarrow> ex_id outcome" where
  "exnode_exchange_get_default_view_id num x =
     (case xp_fd x of None \<Rightarrow> Crash | Some fd \<Rightarrow> Ret (word_of_int (inip_get_integer num (inip_group fd ''view'') ''default'' 0)))"

subsection \<open>Loading\<close>

text \<open>
  \<open>tok\<close> is the text up to the first colon. The last segment that was tried is remembered; it is NULL if it could not be
  loaded.
\<close>

fun ex_load_views ::
  "(string \<Rightarrow> int) \<Rightarrow> (string \<Rightarrow> string) \<Rightarrow> ('w, nat) id_list_ops \<Rightarrow> (ex_id \<Rightarrow> 'p segment_obj option) service_manager \<Rightarrow> inip_file \<Rightarrow>
   (string \<times> string) list \<Rightarrow> nat option \<Rightarrow> ('l, 'w, 'b) exnode \<Rightarrow> 'p segment_obj list \<Rightarrow>
   (nat option \<times> ('l, 'w, 'b) exnode \<times> 'p segment_obj list) outcome" where
  "ex_load_views num tok L ess fd [] seg ex h = Ret (seg, ex, h)"
| "ex_load_views num tok L ess fd ((k, v) # kvs) seg ex h =
     (if k = ''segment'' then
        (case load_segment (\<lambda>g. inip_get_string (inip_group fd g)) ess (word_of_int (num (tok v))) EX_TEXT of
           Crash \<Rightarrow> Crash
         | Ret None \<Rightarrow> ex_load_views num tok L ess fd kvs None ex h
         | Ret (Some g) \<Rightarrow>
             (case view_insert L ex (length h) (h @ [g]) of
                (ex1, h1) \<Rightarrow> ex_load_views num tok L ess fd kvs (Some (length h)) ex1 h1))
      else ex_load_views num tok L ess fd kvs seg ex h)"

definition exnode_deserialize_text ::
  "(string \<Rightarrow> int) \<Rightarrow> (string \<Rightarrow> string) \<Rightarrow> ('w, nat) id_list_ops \<Rightarrow> (ex_id \<Rightarrow> 'p segment_obj option) service_manager \<Rightarrow> inip_file \<Rightarrow>
   ('l, 'w, 'b) exnode \<Rightarrow> 'p segment_obj list \<Rightarrow> (int \<times> ('l, 'w, 'b) exnode \<times> 'p segment_obj list) outcome" where
  "exnode_deserialize_text num tok L ess fd ex h =
     (let ex1 = (case map_of fd ''exnode'' of
                   None \<Rightarrow> ex
                 | Some kvs \<Rightarrow> ex\<lparr>ex_hdr := (ex_hdr ex)\<lparr>hdr_name := Some (inip_get_string kvs ''name'' ''''),
                     hdr_id := word_of_int (inip_get_integer num kvs ''id'' 0)\<rparr>\<rparr>)
      in case map_of fd ''view'' of
           None \<Rightarrow> Ret (1, ex1, h)
         | Some kvs \<Rightarrow>
             (case ex_load_views num tok L ess fd kvs None ex1 h of
                Crash \<Rightarrow> Crash
              | Ret (seg, ex2, h2) \<Rightarrow>
                  (let did = word_of_int (inip_get_integer num kvs ''default'' 0);
                       ex3 = ex2\<lparr>default_seg := (if did = 0 then seg else il_search L (ex_view ex2) did)\<rparr>
                   in Ret (if default_seg ex3 = None then 1 else 0, ex3, h2))))"


subsection \<open>Storing\<close>

definition exnode_lines :: "text_ops \<Rightarrow> ('l, 'w, 'b) exnode \<Rightarrow> (string \<times> string) list" where
  "exnode_lines T ex =
     (case hdr_name (ex_hdr ex) of
        None \<Rightarrow> []
      | Some n \<Rightarrow> if n = '''' then [] else [(''name'', escape_text T ''='' bslash n)]) @
     [(''id'', print_nat (unat (hdr_id (ex_hdr ex))))]"

definition view_lines :: "('w, nat) id_list_ops \<Rightarrow> 'p segment_obj list \<Rightarrow> ('l, 'w, 'b) exnode \<Rightarrow> (string \<times> string) list" where
  "view_lines L h ex =
     (case default_seg ex of None \<Rightarrow> [] | Some a \<Rightarrow> [(''default'', print_nat (unat (so_id (h ! a))))]) @
     map (\<lambda>(i, a). (''segment'', print_nat (unat i))) (il_all L (ex_view ex))"

fun ex_serialize_views ::
  "'p segment_drv \<Rightarrow> (ex_id \<times> nat) list \<Rightarrow> 'p segment_obj list \<Rightarrow> string option \<Rightarrow> string option \<times> 'p segment_obj list" where
  "ex_serialize_views D [] h t = (t, h)"
| "ex_serialize_views D ((i, a) # vs) h t =
     (case sd_serialize D (h ! a) t of (t1, g) \<Rightarrow> ex_serialize_views D vs (h[a := g]) t1)"

text \<open>Both parts are printed into a buffer of 1024 bytes; what does not fit is lost.\<close>

definition exnode_serialize_text ::
  "text_ops \<Rightarrow> ('w, nat) id_list_ops \<Rightarrow> 'p segment_drv \<Rightarrow> ('l, 'w, 'b) exnode \<Rightarrow> 'p segment_obj list \<Rightarrow> string option \<Rightarrow>
   int \<times> string option \<times> 'p segment_obj list" where
  "exnode_serialize_text T L D ex h t =
     (let t1 = exnode_exchange_append_text t (Some (buffer_text 1024 (group_text ''exnode'' (exnode_lines T ex))));
          (t2, h2) = ex_serialize_views D (il_all L (ex_view ex)) h t1
      in (0, exnode_exchange_append_text t2 (Some (buffer_text 1024 (newline @ group_text ''view'' (view_lines L h ex)))), h2))"

definition exnode_serialize ::
  "text_ops \<Rightarrow> ('w, nat) id_list_ops \<Rightarrow> 'p segment_drv \<Rightarrow> ('l, 'w, 'b) exnode \<Rightarrow> 'p segment_obj list \<Rightarrow> exnode_exchange \<Rightarrow>
   int \<times> exnode_exchange \<times> 'p segment_obj list" where
  "exnode_serialize T L D ex h x =
     (case xp_type x of
        EX_TEXT \<Rightarrow> (case exnode_serialize_text T L D ex h (xp_text x) of (n, t, h') \<Rightarrow> (n, x\<lparr>xp_text := t\<rparr>, h'))
      | EX_PROTOCOL_BUFFERS \<Rightarrow> (-1, x, h)
      | EX_OTHER \<Rightarrow> (-1, x, h))"

section \<open>Reading back what was stored\<close>

text \<open>Every segment of a view is in the heap under its identifier, with one reference.\<close>

definition loaded :: "(ex_id \<times> nat) list \<Rightarrow> 'p segment_obj list \<Rightarrow> bool" where
  "loaded vs h \<longleftrightarrow> (\<forall>(i, a) \<in> set vs. a < length h \<and> so_id (h ! a) = i \<and> so_ref (h ! a) = 1)"

text \<open>A driver that always clones: \<open>nid\<close> gives the identifier of the clone.\<close>

definition clones :: "'p segment_drv \<Rightarrow> (ex_id \<Rightarrow> ex_id) \<Rightarrow> int \<Rightarrow> bool" where
  "clones D nid mode \<longleftrightarrow> (\<forall>g. \<exists>n g'. sd_clone D g mode = (OP_STATE_SUCCESS, Some n, g') \<and> so_id n = nid (so_id g) \<and> so_ref n = 0 \<and>
     so_id g' = so_id g)"

context id_list
begin

lemma all_distinct: "distinct (map fst (il_all L l))"
  using all_sorted [of l] by (simp add: strict_sorted_iff)

lemma all_unique:
  assumes "set (il_all L l) = set vs" "sorted_wrt (<) (map fst vs)"
  shows "il_all L l = vs"
proof -
  have "map fst (il_all L l) = map fst vs"
    using strict_sorted_equal [OF all_sorted [of l] assms(2)] assms(1) by (metis list.set_map)
  then show ?thesis
    using assms by (metis all_distinct map_inj_on distinct_map inj_on_Un Un_absorb)
qed

end

locale ex_views = id_list L for L :: "('w, nat) id_list_ops"
begin

lemma load_views:
  assumes "\<forall>i \<in> set is. \<exists>g. load_segment (\<lambda>g. inip_get_string (inip_group fd g)) ess i EX_TEXT = Ret (Some g) \<and>
      so_id g = i \<and> so_ref g = 0"
    and "\<And>n. num (print_nat n) = int n" "\<And>s. CHR '':'' \<notin> set s \<Longrightarrow> tok s = s"
    and "distinct is" "set is \<inter> fst ` set (il_all L (ex_view ex)) = {}" "loaded (il_all L (ex_view ex)) h"
  shows "\<exists>seg ex' h'. ex_load_views num tok L ess fd (map (\<lambda>i. (''segment'', print_nat (unat i))) is) seg0 ex h = Ret (seg, ex', h') \<and>
    fst ` set (il_all L (ex_view ex')) = set is \<union> fst ` set (il_all L (ex_view ex)) \<and> loaded (il_all L (ex_view ex')) h' \<and>
    ex_hdr ex' = ex_hdr ex"
  using assms(1,4-6)
proof (induction "is" arbitrary: seg0 ex h)
  case (Cons i "is")
  obtain g where g: "load_segment (\<lambda>g. inip_get_string (inip_group fd g)) ess i EX_TEXT = Ret (Some g)" "so_id g = i" "so_ref g = 0"
    using Cons.prems(1) by auto
  have "CHR '':'' \<notin> set (print_nat (unat i))" by (auto dest: is_digit_print_nat simp: is_digit_def)
  then have n: "word_of_int (num (tok (print_nat (unat i)))) = i" using assms(2,3) by simp
  let ?ex = "ex\<lparr>ex_view := il_insert L (ex_view ex) i (length h)\<rparr>" and ?h = "h @ [g\<lparr>so_ref := 1\<rparr>]"
  have v: "view_insert L ex (length h) (h @ [g]) = (?ex, ?h)" using g by (simp add: view_insert_def seg_ref_def)
  have fresh: "i \<notin> fst ` set (il_all L (ex_view ex))" using Cons.prems(3) by auto
  note ins = all_insert [OF fresh, of "length h"]
  have "loaded (il_all L (ex_view ?ex)) ?h"
    using Cons.prems(4) ins g by (auto simp: loaded_def nth_append)
  then obtain seg ex' h' where
    "ex_load_views num tok L ess fd (map (\<lambda>i. (''segment'', print_nat (unat i))) is) (Some (length h)) ?ex ?h = Ret (seg, ex', h')"
    "fst ` set (il_all L (ex_view ex')) = set is \<union> fst ` set (il_all L (ex_view ?ex))" "loaded (il_all L (ex_view ex')) h'" "ex_hdr ex' = ex_hdr ?ex"
    using Cons.IH [of ?ex ?h "Some (length h)"] Cons.prems ins by auto
  then show ?case using g n v ins by auto
qed auto

lemma deserialize_text:
  fixes ex :: "('l, 'w, 'b) exnode"
  assumes "map_of fd ''exnode'' = Some (exnode_lines T ex)" "map_of fd ''view'' = Some (view_lines L h ex)"
    and num: "\<And>n. num (print_nat n) = int n" and tok: "\<And>s. CHR '':'' \<notin> set s \<Longrightarrow> tok s = s"
    and load: "\<forall>i \<in> fst ` set (il_all L (ex_view ex)). \<exists>g. load_segment (\<lambda>g. inip_get_string (inip_group fd g)) ess i EX_TEXT = Ret (Some g) \<and>
      so_id g = i \<and> so_ref g = 0"
    and dflt: "default_seg ex = Some a" "(so_id (h ! a), a) \<in> set (il_all L (ex_view ex))" "so_id (h ! a) \<noteq> 0"
  shows "\<exists>(ex' :: ('l, 'w, 'b) exnode) h'. exnode_deserialize_text num tok L ess fd (exnode_create L) [] = Ret (0, ex', h') \<and>
    hdr_id (ex_hdr ex') = hdr_id (ex_hdr ex) \<and>
    hdr_name (ex_hdr ex') = Some (case hdr_name (ex_hdr ex) of None \<Rightarrow> '''' | Some n \<Rightarrow> if n = '''' then '''' else escape_text T ''='' bslash n) \<and>
    map fst (il_all L (ex_view ex')) = map fst (il_all L (ex_view ex)) \<and> loaded (il_all L (ex_view ex')) h' \<and>
    (\<exists>c. default_seg ex' = Some c \<and> so_id (h' ! c) = so_id (h ! a))"
proof -
  let ?is = "map fst (il_all L (ex_view ex))" and ?d = "so_id (h ! a)"
  define ex1 :: "('l, 'w, 'b) exnode" where "ex1 = (exnode_create L)\<lparr>ex_hdr := (ex_hdr (exnode_create L :: ('l, 'w, 'b) exnode))\<lparr>hdr_name := Some (inip_get_string (exnode_lines T ex) ''name'' ''''),
      hdr_id := word_of_int (inip_get_integer num (exnode_lines T ex) ''id'' 0)\<rparr>\<rparr>"
  have lines: "view_lines L h ex = (''default'', print_nat (unat ?d)) # map (\<lambda>i. (''segment'', print_nat (unat i))) ?is"
    using dflt(1) by (simp add: view_lines_def comp_def case_prod_unfold)
  obtain seg ex2 h2 where r: "ex_load_views num tok L ess fd (map (\<lambda>i. (''segment'', print_nat (unat i))) ?is) None ex1 [] = Ret (seg, ex2, h2)"
    "fst ` set (il_all L (ex_view ex2)) = set ?is" "loaded (il_all L (ex_view ex2)) h2" "ex_hdr ex2 = ex_hdr ex1"
    using load_views [OF _ num tok, of ?is fd ess ex1 "[]" None] load all_distinct [of "ex_view ex"]
    by (auto simp: ex1_def exnode_create_def all_empty loaded_def)
  have same: "map fst (il_all L (ex_view ex2)) = ?is"
    by (rule strict_sorted_equal [OF all_sorted all_sorted]) (use r(2) in simp)
  have "?d \<in> fst ` set (il_all L (ex_view ex2))" using r(2) dflt(2) by force
  then obtain c where c: "(?d, c) \<in> set (il_all L (ex_view ex2))" by auto
  then have s: "il_search L (ex_view ex2) ?d = Some c" by (simp add: search_all all_distinct)
  have "so_id (h2 ! c) = ?d" using r(3) c by (auto simp: loaded_def)
  moreover have "hdr_id (ex_hdr ex1) = hdr_id (ex_hdr ex)" and nm: "hdr_name (ex_hdr ex1) =
      Some (case hdr_name (ex_hdr ex) of None \<Rightarrow> '''' | Some n \<Rightarrow> if n = '''' then '''' else escape_text T ''='' bslash n)"
    by (auto simp: ex1_def exnode_lines_def inip_get_integer_def inip_get_string_def num split: option.splits)
  moreover have "inip_get_integer num (view_lines L h ex) ''default'' 0 = int (unat ?d)" by (simp add: lines inip_get_integer_def num)
  moreover have lv: "ex_load_views num tok L ess fd (view_lines L h ex) None ex1 [] = Ret (seg, ex2, h2)"
    unfolding lines using r(1) by simp
  ultimately have "exnode_deserialize_text num tok L ess fd (exnode_create L) [] = Ret (0, ex2\<lparr>default_seg := Some c\<rparr>, h2)"
    using s dflt(3) lv [unfolded ex1_def] unfolding exnode_deserialize_text_def assms(1,2) by simp
  then show ?thesis
    using r(3,4) same \<open>so_id (h2 ! c) = ?d\<close> \<open>hdr_id (ex_hdr ex1) = hdr_id (ex_hdr ex)\<close> nm by simp
qed

lemma clone_start:
  assumes "clones D nid mode" "N \<le> length h" "\<forall>(i, a) \<in> set vs. a < N \<and> so_id (h ! a) = i"
  shows "\<exists>h'. ex_clone_start D mode vs h = (map2 (\<lambda>(i, a) n. (a, OP_STATE_SUCCESS, Some n)) vs [length h..<length h + length vs], h') \<and>
    length h' = length h + length vs \<and> (\<forall>a < length h. so_id (h' ! a) = so_id (h ! a)) \<and>
    (\<forall>b. N \<le> b \<and> b < length h \<longrightarrow> h' ! b = h ! b) \<and>
    (\<forall>j < length vs. so_id (h' ! (length h + j)) = nid (fst (vs ! j)) \<and> so_ref (h' ! (length h + j)) = 0)"
  using assms(2,3)
proof (induction vs arbitrary: h)
  case (Cons v vs)
  obtain i a where v: "v = (i, a)" "a < N" "so_id (h ! a) = i" using Cons.prems by (cases v) auto
  obtain n g where c: "sd_clone D (h ! a) mode = (OP_STATE_SUCCESS, Some n, g)" "so_id n = nid i" "so_ref n = 0" "so_id g = i"
    using assms(1) v(3) unfolding clones_def by blast
  let ?h = "h[a := g] @ [n]"
  have ids: "so_id (?h ! b) = so_id (h ! b)" if "b < length h" for b
    using that v(2,3) c(4) Cons.prems(1) by (cases "b = a") (auto simp: nth_append)
  have keep: "?h ! b = h ! b" if "N \<le> b" "b < length h" for b using that v(2) by (simp add: nth_append)
  have "\<forall>(i, a) \<in> set vs. a < N \<and> so_id (?h ! a) = i" using Cons.prems ids by fastforce
  with Cons.IH [of ?h] Cons.prems(1) obtain h' where IH:
    "ex_clone_start D mode vs ?h = (map2 (\<lambda>(i, a) n. (a, OP_STATE_SUCCESS, Some n)) vs [length ?h..<length ?h + length vs], h')"
    "length h' = length ?h + length vs" "\<forall>a < length ?h. so_id (h' ! a) = so_id (?h ! a)"
    "\<forall>b. N \<le> b \<and> b < length ?h \<longrightarrow> h' ! b = ?h ! b"
    "\<forall>j < length vs. so_id (h' ! (length ?h + j)) = nid (fst (vs ! j)) \<and> so_ref (h' ! (length ?h + j)) = 0" by auto
  have "h' ! length h = n" using IH(4) Cons.prems(1) by (simp add: nth_append)
  then have "so_id (h' ! (length h + j)) = nid (fst ((v # vs) ! j)) \<and> so_ref (h' ! (length h + j)) = 0" if "j < length (v # vs)" for j
    using that IH(5) c(2,3) v(1) by (cases j) auto
  moreover have "[length h..<length h + length (v # vs)] = length h # [length ?h..<length ?h + length vs]"
    by (simp add: upt_rec [of "length h"] Suc_le_eq)
  ultimately show ?case using IH ids keep c(1) v(1) by (auto simp: Let_def)
qed auto

lemma clone_finish:
  assumes "\<forall>(a, st, c) \<in> set rs. st = OP_STATE_SUCCESS \<and> (\<exists>n. c = Some n \<and> n < length h \<and> so_id (h ! n) = nid (so_id (h ! a)) \<and> so_ref (h ! n) = 0)"
    and "distinct (map (\<lambda>r. nid (so_id (h ! fst r))) rs)" "(\<lambda>r. nid (so_id (h ! fst r))) ` set rs \<inter> fst ` set (il_all L (ex_view ex)) = {}"
    and "loaded (il_all L (ex_view ex)) h"
  shows "\<exists>ex' h'. ex_clone_finish L D did rs ex h = Ret (0, ex', h') \<and>
    fst ` set (il_all L (ex_view ex')) = (\<lambda>r. nid (so_id (h ! fst r))) ` set rs \<union> fst ` set (il_all L (ex_view ex)) \<and>
    loaded (il_all L (ex_view ex')) h' \<and> ex_hdr ex' = ex_hdr ex \<and> (\<forall>b. so_id (h' ! b) = so_id (h ! b)) \<and>
    (if did \<in> (\<lambda>r. so_id (h ! fst r)) ` set rs then \<exists>n. default_seg ex' = Some n \<and> so_id (h' ! n) = nid did
     else default_seg ex' = default_seg ex)"
  using assms
proof (induction rs arbitrary: ex h)
  case (Cons r rs)
  obtain a n where r: "r = (a, OP_STATE_SUCCESS, Some n)" "n < length h" "so_id (h ! n) = nid (so_id (h ! a))" "so_ref (h ! n) = 0"
    using Cons.prems(1) by (cases r) auto
  let ?h = "seg_ref 1 n h" and ?i = "nid (so_id (h ! a))"
  let ?ex1 = "if did = so_id (h ! a) then ex\<lparr>default_seg := Some n\<rparr> else ex"
  let ?ex = "?ex1\<lparr>ex_view := il_insert L (ex_view ex) ?i n\<rparr>"
  have ids: "so_id (?h ! b) = so_id (h ! b)" for b by (cases "b = n") (simp_all add: seg_ref_def r(2))
  have fresh: "?i \<notin> fst ` set (il_all L (ex_view ex))" using Cons.prems(3) r(1) by auto
  note ins = all_insert [OF fresh, of n]
  let ?k = "\<lambda>r. nid (so_id (h ! fst r))"
  have k: "(\<lambda>r. nid (so_id (?h ! fst r))) = ?k" "(\<lambda>r. so_id (?h ! fst r)) = (\<lambda>r. so_id (h ! fst r))" by (simp_all add: ids)
  have "\<forall>(a, st, c) \<in> set rs. st = OP_STATE_SUCCESS \<and>
      (\<exists>n. c = Some n \<and> n < length ?h \<and> so_id (?h ! n) = nid (so_id (?h ! a)) \<and> so_ref (?h ! n) = 0)"
  proof (clarify, intro conjI)
    fix b st c assume m: "(b, st, c) \<in> set rs"
    with Cons.prems(1) obtain n' where n': "st = OP_STATE_SUCCESS" "c = Some n'" "n' < length h" "so_id (h ! n') = nid (so_id (h ! b))" "so_ref (h ! n') = 0"
      by fastforce
    have "?i \<noteq> nid (so_id (h ! b))" using Cons.prems(2) m r(1) by force
    then have "n' \<noteq> n" using n'(4) r(3) by auto
    with n' show "st = OP_STATE_SUCCESS" "\<exists>n. c = Some n \<and> n < length ?h \<and> so_id (?h ! n) = nid (so_id (?h ! b)) \<and> so_ref (?h ! n) = 0"
      by (simp_all add: ids) (simp add: seg_ref_def)
  qed
  moreover have "loaded (il_all L (ex_view ?ex)) ?h"
  proof -
    have "c \<noteq> n" if "(i, c) \<in> set (il_all L (ex_view ex))" for i c using Cons.prems(4) that r(4) by (auto simp: loaded_def)
    then show ?thesis using Cons.prems(4) ins r by (fastforce simp: loaded_def seg_ref_def)
  qed
  moreover have "distinct (map ?k rs)" "?k ` set rs \<inter> fst ` set (il_all L (ex_view ?ex)) = {}"
    using Cons.prems(2,3) ins r(1) by auto
  ultimately obtain ex' h' where IH: "ex_clone_finish L D did rs ?ex ?h = Ret (0, ex', h')"
    "fst ` set (il_all L (ex_view ex')) = ?k ` set rs \<union> fst ` set (il_all L (ex_view ?ex))" "loaded (il_all L (ex_view ex')) h'"
    "ex_hdr ex' = ex_hdr ?ex" "\<forall>b. so_id (h' ! b) = so_id (?h ! b)"
    "if did \<in> (\<lambda>r. so_id (h ! fst r)) ` set rs then \<exists>n. default_seg ex' = Some n \<and> so_id (h' ! n) = nid did
     else default_seg ex' = default_seg ?ex"
    using Cons.IH [of ?h ?ex] unfolding k by blast
  have f: "ex_clone_finish L D did (r # rs) ex h = Ret (0, ex', h')" using IH(1) r(1,3) by (auto simp: Let_def split: if_splits)
  have "default_seg ?ex = Some n \<and> so_id (h' ! n) = nid did" if "did = so_id (h ! a)" using that IH(5) ids r(3) by simp
  then show ?case using f IH(2-6) ins r(1) ids by (auto split: if_splits)
qed auto

lemma clone_correct:
  fixes ex :: "('l, 'w, 'b) exnode"
  assumes c: "clones D nid mode" and inj: "inj_on nid (fst ` set (il_all L (ex_view ex)))"
    and ok: "\<forall>(i, a) \<in> set (il_all L (ex_view ex)). a < length h \<and> so_id (h ! a) = i"
    and d: "default_seg ex = Some d" "(so_id (h ! d), d) \<in> set (il_all L (ex_view ex))"
  shows "\<exists>ex' h'. exnode_clone L D mode new_id ex h = Ret (OP_STATE_SUCCESS, ex', h') \<and>
    fst ` set (il_all L (ex_view ex')) = nid ` fst ` set (il_all L (ex_view ex)) \<and> loaded (il_all L (ex_view ex')) h' \<and>
    (\<exists>n. default_seg ex' = Some n \<and> so_id (h' ! n) = nid (so_id (h ! d))) \<and>
    hdr_id (ex_hdr ex') = new_id \<and> hdr_name (ex_hdr ex') = hdr_name (ex_hdr ex) \<and> hdr_type (ex_hdr ex') = hdr_type (ex_hdr ex)"
proof -
  let ?vs = "il_all L (ex_view ex)"
  define rs where "rs = map2 (\<lambda>(i, a) n. (a, OP_STATE_SUCCESS, Some n)) ?vs [length h..<length h + length ?vs]"
  obtain h1 where s: "ex_clone_start D mode ?vs h = (rs, h1)" "length h1 = length h + length ?vs"
    "\<forall>a < length h. so_id (h1 ! a) = so_id (h ! a)"
    "\<forall>j < length ?vs. so_id (h1 ! (length h + j)) = nid (fst (?vs ! j)) \<and> so_ref (h1 ! (length h + j)) = 0"
    using clone_start [OF c order_refl ok] unfolding rs_def by blast
  have rs: "map fst rs = map snd ?vs" unfolding rs_def by (rule nth_equalityI) (auto simp: case_prod_unfold)
  have ids: "map (\<lambda>r. so_id (h1 ! fst r)) rs = map fst ?vs"
  proof -
    have "map (\<lambda>r. so_id (h1 ! fst r)) rs = map (\<lambda>a. so_id (h1 ! a)) (map fst rs)" by simp
    also have "\<dots> = map (\<lambda>a. so_id (h1 ! a)) (map snd ?vs)" by (simp only: rs)
    also have "\<dots> = map fst ?vs" using ok s(3) by auto
    finally show ?thesis .
  qed
  have "map (\<lambda>r. nid (so_id (h1 ! fst r))) rs = map nid (map (\<lambda>r. so_id (h1 ! fst r)) rs)" by simp
  then have nids: "map (\<lambda>r. nid (so_id (h1 ! fst r))) rs = map nid (map fst ?vs)" by (simp only: ids)
  have "\<forall>(a, st, c) \<in> set rs. st = OP_STATE_SUCCESS \<and>
      (\<exists>n. c = Some n \<and> n < length h1 \<and> so_id (h1 ! n) = nid (so_id (h1 ! a)) \<and> so_ref (h1 ! n) = 0)"
    using ok s(2,3,4) by (fastforce simp: rs_def set_zip case_prod_unfold)
  moreover have "distinct (map (\<lambda>r. nid (so_id (h1 ! fst r))) rs)"
    unfolding nids using inj all_distinct [of "ex_view ex"] by (simp add: distinct_map inj_on_def)
  moreover let ?ex0 = "(exnode_create L)\<lparr>ex_hdr := ex_header_init\<lparr>hdr_name := hdr_name (ex_hdr ex), hdr_type := hdr_type (ex_hdr ex),
          hdr_id := new_id\<rparr>\<rparr> :: ('l, 'w, 'b) exnode"
  have e: "il_all L (ex_view ?ex0) = []" by (simp add: exnode_create_def all_empty)
  ultimately obtain ex' h' where f: "ex_clone_finish L D (so_id (h ! d)) rs ?ex0 h1 = Ret (0, ex', h')"
    "fst ` set (il_all L (ex_view ex')) = (\<lambda>r. nid (so_id (h1 ! fst r))) ` set rs" "loaded (il_all L (ex_view ex')) h'" "ex_hdr ex' = ex_hdr ?ex0"
    "if so_id (h ! d) \<in> (\<lambda>r. so_id (h1 ! fst r)) ` set rs then \<exists>n. default_seg ex' = Some n \<and> so_id (h' ! n) = nid (so_id (h ! d))
     else default_seg ex' = default_seg ?ex0"
    using clone_finish [of rs h1 nid ?ex0 D "so_id (h ! d)"] by (auto simp: loaded_def)
  have "(\<lambda>r. so_id (h1 ! fst r)) ` set rs = fst ` set ?vs" using arg_cong [OF ids, of set] by simp
  then have "so_id (h ! d) \<in> (\<lambda>r. so_id (h1 ! fst r)) ` set rs" using d(2) by force
  then have "\<exists>n. default_seg ex' = Some n \<and> so_id (h' ! n) = nid (so_id (h ! d))" using f(5) by simp
  moreover have "(\<lambda>r. nid (so_id (h1 ! fst r))) ` set rs = nid ` fst ` set ?vs" using arg_cong [OF nids, of set] by (simp add: image_image)
  moreover have "so_id (h1 ! d) = so_id (h ! d)" using s(3) ok d(2) by auto
  moreover have "?vs \<noteq> []" using d(2) by auto
  ultimately show ?thesis using s(1) f d(1) unfolding exnode_clone_def exnode_clone_func_def by (auto simp: Let_def)
qed

end

lemma every_other_nth: "j < length xs \<Longrightarrow> even j \<Longrightarrow> xs ! j \<in> set (every_other xs)"
proof (induction xs arbitrary: j rule: every_other.induct)
  case (3 x y xs)
  then show ?case by (cases j; cases "j - 1") (auto split: nat.splits)
qed auto

lemma every_other_odd: "distinct xs \<Longrightarrow> j < length xs \<Longrightarrow> odd j \<Longrightarrow> xs ! j \<notin> set (every_other xs) "
proof (induction xs arbitrary: j rule: every_other.induct)
  case (3 x y xs)
  have sub: "set (every_other zs) \<subseteq> set zs" for zs :: "'a list" by (induction zs rule: every_other.induct) auto
  show ?case
  proof (cases "j = 1")
    case True
    then show ?thesis using 3(2) sub [of xs] by auto
  next
    case False
    with 3(3,4) obtain k where k: "j = Suc (Suc k)" "k < length xs" "odd k" by (cases j; cases "j - 1") auto
    then show ?thesis using 3 by (auto dest: nth_mem)
  qed
qed auto

lemma release_untouched: "a \<notin> snd ` set (every_other vs) \<Longrightarrow> ex_release_segs D vs h ! a = h ! a"
proof -
  have "a \<notin> snd ` set us \<Longrightarrow> foldl (\<lambda>h (i, a). let h1 = seg_ref (-1) a h in h1[a := sd_destroy D (h1 ! a)]) h us ! a = h ! a" for us
    by (induction us arbitrary: h) (auto simp: Let_def seg_ref_def)
  then show "a \<notin> snd ` set (every_other vs) \<Longrightarrow> ?thesis" by (simp add: ex_release_segs_def)
qed

interpretation assoc_views: ex_views assoc_list ..

section \<open>Properties\<close>

text \<open>Two segments, 5 and 9, the second of which is the default one.\<close>

definition demo_exnode :: "(unit, (ex_id \<times> nat) list, (nat, unit) data_block) exnode" where
  "demo_exnode = (exnode_create assoc_list)\<lparr>ex_hdr := ex_header_init\<lparr>hdr_name := Some ''n'', hdr_id := 3\<rparr>,
     default_seg := Some 1, ex_view := [(5, 0), (9, 1)]\<rparr>"

definition demo_heap :: "unit segment_obj list" where
  "demo_heap = [\<lparr>so_id = 5, so_ref = 1, so_priv = ()\<rparr>, \<lparr>so_id = 9, so_ref = 1, so_priv = ()\<rparr>]"

definition demo_drv :: "unit segment_drv" where
  "demo_drv = \<lparr>sd_remove = (\<lambda>g. (OP_STATE_SUCCESS, g)),
     sd_clone = (\<lambda>g m. (OP_STATE_SUCCESS, Some \<lparr>so_id = so_id g + 100, so_ref = 0, so_priv = ()\<rparr>, g)),
     sd_serialize = (\<lambda>g t. (t, g)), sd_destroy = (\<lambda>g. g)\<rparr>"



lemma demo_exnode_sel [simp]:
  "il_all assoc_list (ex_view demo_exnode) = [(5, 0), (9, 1)]" "default_seg demo_exnode = Some 1" "hdr_id (ex_hdr demo_exnode) = 3"
  "hdr_name (ex_hdr demo_exnode) = Some ''n''" "hdr_type (ex_hdr demo_exnode) = None" "ex_block demo_exnode = []"
proof -
  have "sorted_list_of_set {5, 9 :: ex_id} = [5, 9]" by simp
  then show "il_all assoc_list (ex_view demo_exnode) = [(5, 0), (9, 1)]" by (simp add: demo_exnode_def assoc_list_def insert_commute)
qed (simp_all add: demo_exnode_def exnode_create_def ex_header_init_def)



text \<open>
  C23: where every segment can be cloned and the clones have identifiers of their own, cloning an exnode gives one that
  holds exactly the clones, each with one reference, the clone of the default segment as default, and the name of the original under a
  new identifier.
\<close>

theorem exnode_clone_correct:
  fixes ex :: "('l, 'w, 'b) exnode"
  assumes "id_list L" "clones D nid mode" "inj_on nid (fst ` set (il_all L (ex_view ex)))"
    and "\<forall>(i, a) \<in> set (il_all L (ex_view ex)). a < length h \<and> so_id (h ! a) = i"
    and "default_seg ex = Some d" "(so_id (h ! d), d) \<in> set (il_all L (ex_view ex))"
  shows "\<exists>ex' h'. exnode_clone L D mode new_id ex h = Ret (OP_STATE_SUCCESS, ex', h') \<and>
    fst ` set (il_all L (ex_view ex')) = nid ` fst ` set (il_all L (ex_view ex)) \<and> loaded (il_all L (ex_view ex')) h' \<and>
    (\<exists>n. default_seg ex' = Some n \<and> so_id (h' ! n) = nid (so_id (h ! d))) \<and>
    hdr_id (ex_hdr ex') = new_id \<and> hdr_name (ex_hdr ex') = hdr_name (ex_hdr ex) \<and> hdr_type (ex_hdr ex') = hdr_type (ex_hdr ex)"
  by (rule ex_views.clone_correct [OF ex_views.intro [OF assms(1)] assms(2-6)])

theorem exnode_clone_correct_witness:
  "\<exists>ex' h'. exnode_clone assoc_list demo_drv 0 77 demo_exnode demo_heap = Ret (OP_STATE_SUCCESS, ex', h') \<and>
     fst ` set (il_all assoc_list (ex_view ex')) = {105, 109} \<and> hdr_id (ex_hdr ex') = 77"
proof -
  have "clones demo_drv (\<lambda>i. i + 100) 0" by (simp add: clones_def demo_drv_def)
  from exnode_clone_correct [OF assoc.id_list_axioms this, of demo_exnode demo_heap 1 77] show ?thesis
    by (auto simp: demo_heap_def inj_on_def)
qed

text \<open>
  Destroying an exnode leaves out every second segment: it keeps the reference the exnode had on it and is never
  destroyed.
\<close>

theorem exnode_destroy_skips:
  assumes "exnode_destroy L D ex h w = Ret (h', w')" "distinct (map snd (il_all L (ex_view ex)))"
    and "j < length (il_all L (ex_view ex))" "odd j"
  shows "h' ! snd (il_all L (ex_view ex) ! j) = h ! snd (il_all L (ex_view ex) ! j)"
proof -
  let ?vs = "il_all L (ex_view ex)"
  have eo: "every_other (map snd vs) = map snd (every_other vs)" for vs :: "(ex_id \<times> nat) list"
    by (induction vs rule: every_other.induct) auto
  have "snd (?vs ! j) \<notin> snd ` set (every_other ?vs)"
    using every_other_odd [OF assms(2) _ assms(4)] assms(3) eo [of ?vs] by simp
  then show ?thesis using release_untouched [of "snd (?vs ! j)" ?vs D h] assms(1)
    by (auto simp: exnode_destroy_def Let_def split: outcome.splits)
qed

end
