(* ===== verification/Erasure_Tools.thy ===== *)
theory Erasure_Tools
  imports Raid4
begin

text \<open>
  The erasure coding front end of \<open>src/erasure_tools.c\<close>: the choice of the coding parameters, the plans, and the
  dispatch of encoding and decoding to the Jerasure library or to \<open>src/raid4.c\<close>. The library is the parameter
  \<open>jerasure_lib\<close>. The locale \<open>erasure_code\<close> says what a client of a plan relies on.
\<close>

section \<open>Methods\<close>

definition REED_SOL_VAN :: int where "REED_SOL_VAN = 0"
definition REED_SOL_R6_OP :: int where "REED_SOL_R6_OP = 1"
definition CAUCHY_ORIG :: int where "CAUCHY_ORIG = 2"
definition CAUCHY_GOOD :: int where "CAUCHY_GOOD = 3"
definition BLAUM_ROTH :: int where "BLAUM_ROTH = 4"
definition LIBERATION :: int where "LIBERATION = 5"
definition LIBER8TION :: int where "LIBER8TION = 6"
definition RAID4 :: int where "RAID4 = 7"
definition N_JE_METHODS :: int where "N_JE_METHODS = 8"

lemmas method_defs =
  REED_SOL_VAN_def REED_SOL_R6_OP_def CAUCHY_ORIG_def CAUCHY_GOOD_def BLAUM_ROTH_def LIBERATION_def LIBER8TION_def
  RAID4_def N_JE_METHODS_def

definition JE_method :: "string list" where
  "JE_method = [''reed_sol_van'', ''reed_sol_r6_op'', ''cauchy_orig'', ''cauchy_good'', ''blaum_roth'', ''liberation'',
     ''liber8tion'', ''raid4'']"

text \<open>\<open>strcasecmp\<close> compares the letters without their case.\<close>

definition tolower :: "char \<Rightarrow> char" where
  "tolower c = (let n = of_char c :: nat in if 65 \<le> n \<and> n \<le> 90 then char_of (n + 32) else c)"

fun method_index :: "string \<Rightarrow> int \<Rightarrow> string list \<Rightarrow> int" where
  "method_index meth i [] = -1"
| "method_index meth i (m # ms) = (if map tolower meth = map tolower m then i else method_index meth (i + 1) ms)"

definition et_method_type :: "string \<Rightarrow> int" where
  "et_method_type meth = method_index meth 0 JE_method"

section \<open>Primes\<close>

definition prime55 :: "int list" where
  "prime55 = [2,3,5,7,11,13,17,19,23,29,31,37,41,43,47,53,59,61,67,71,
     73,79,83,89,97,101,103,107,109,113,127,131,137,139,149,151,157,163,167,173,179,
     181,191,193,197,199,211,223,227,229,233,239,241,251,257]"

text \<open>The loop over the table, with the prime before the one that is looked at.\<close>

fun nearest_prime_loop :: "int \<Rightarrow> int \<Rightarrow> int \<Rightarrow> int list \<Rightarrow> int" where
  "nearest_prime_loop w which p [] = p"
| "nearest_prime_loop w which p (q # qs) =
     (if w \<le> q then
        (if which > 0 then q
         else if which < 0 then p
         else if w - p < q - w then p else q)
      else nearest_prime_loop w which q qs)"

definition nearest_prime :: "int \<Rightarrow> int \<Rightarrow> int" where
  "nearest_prime w which = nearest_prime_loop w which (hd prime55) (tl prime55)"

section \<open>Plans\<close>

text \<open>The function pointers of a plan are names; \<open>NULL\<close> is \<open>None\<close>.\<close>

datatype form_fn =
  reed_sol_r6_op_form_coding | reed_sol_van_form_coding | cauchy_orig_form_coding | cauchy_good_form_coding
| blaum_roth_form_coding | liberation_form_coding | liber8tion_form_coding | cauchy_orig_form_encoding
| cauchy_good_form_encoding | blaum_roth_form_encoding | liberation_form_encoding | liber8tion_form_encoding
| dummy_coding

datatype encode_fn = schedule_encode | matrix_encode | reed_sol_r6_op_encode | raid4_op_encode

datatype decode_fn = matrix_decode | schedule_decode | raid4_op_decode

record ('x, 'y, 'z) erasure_plan =
  strip_size :: int
  pl_method :: int
  data_strips :: int
  parity_strips :: int
  pl_w :: int
  packet_size :: int
  base_unit :: int
  encode_matrix :: "'x option"
  encode_bitmatrix :: "'y option"
  encode_schedule :: "'z option"
  form_encoding_matrix :: form_fn
  form_decoding_matrix :: form_fn
  encode_block :: encode_fn
  decode_block :: decode_fn

record ('x, 'y, 'z) jerasure_lib =
  reed_sol_r6_coding_matrix :: "int \<Rightarrow> int \<Rightarrow> 'x option"
  reed_sol_vandermonde_coding_matrix :: "int \<Rightarrow> int \<Rightarrow> int \<Rightarrow> 'x option"
  cauchy_original_coding_matrix :: "int \<Rightarrow> int \<Rightarrow> int \<Rightarrow> 'x option"
  cauchy_good_general_coding_matrix :: "int \<Rightarrow> int \<Rightarrow> int \<Rightarrow> 'x option"
  jerasure_matrix_to_bitmatrix :: "int \<Rightarrow> int \<Rightarrow> int \<Rightarrow> 'x option \<Rightarrow> 'y option"
  blaum_roth_coding_bitmatrix :: "int \<Rightarrow> int \<Rightarrow> 'y option"
  liberation_coding_bitmatrix :: "int \<Rightarrow> int \<Rightarrow> 'y option"
  liber8tion_coding_bitmatrix :: "int \<Rightarrow> 'y option"
  jerasure_smart_bitmatrix_to_schedule :: "int \<Rightarrow> int \<Rightarrow> int \<Rightarrow> 'y option \<Rightarrow> 'z option"
  jerasure_schedule_encode :: "int \<Rightarrow> int \<Rightarrow> int \<Rightarrow> 'z option \<Rightarrow> strip list \<Rightarrow> strip list \<Rightarrow> nat \<Rightarrow> int \<Rightarrow> strip list outcome"
  jerasure_matrix_encode :: "int \<Rightarrow> int \<Rightarrow> int \<Rightarrow> 'x option \<Rightarrow> strip list \<Rightarrow> strip list \<Rightarrow> nat \<Rightarrow> strip list outcome"
  reed_sol_r6_encode :: "int \<Rightarrow> int \<Rightarrow> strip list \<Rightarrow> strip list \<Rightarrow> nat \<Rightarrow> strip list outcome"
  jerasure_matrix_decode ::
    "int \<Rightarrow> int \<Rightarrow> int \<Rightarrow> 'x option \<Rightarrow> int list \<Rightarrow> strip list \<Rightarrow> strip list \<Rightarrow> nat \<Rightarrow> (strip list \<times> strip list) outcome"
  jerasure_schedule_decode_lazy ::
    "int \<Rightarrow> int \<Rightarrow> int \<Rightarrow> 'y option \<Rightarrow> int list \<Rightarrow> strip list \<Rightarrow> strip list \<Rightarrow> nat \<Rightarrow> int \<Rightarrow> (strip list \<times> strip list) outcome"

definition et_new_plan ::
  "int \<Rightarrow> int \<Rightarrow> int \<Rightarrow> int \<Rightarrow> int \<Rightarrow> int \<Rightarrow> int \<Rightarrow> ('x, 'y, 'z) erasure_plan option" where
  "et_new_plan method ssize data parity w psize unit =
     (let plan = (\<lambda>fe fd en de.
            Some \<lparr>strip_size = ssize, pl_method = method, data_strips = data, parity_strips = parity, pl_w = w,
              packet_size = psize, base_unit = unit, encode_matrix = None, encode_bitmatrix = None, encode_schedule = None,
              form_encoding_matrix = fe, form_decoding_matrix = fd, encode_block = en, decode_block = de\<rparr>)
      in if method \<ge> N_JE_METHODS then None
         else if method = REED_SOL_R6_OP then
           plan reed_sol_r6_op_form_coding reed_sol_r6_op_form_coding reed_sol_r6_op_encode matrix_decode
         else if method = REED_SOL_VAN then plan reed_sol_van_form_coding reed_sol_van_form_coding matrix_encode matrix_decode
         else if method = CAUCHY_ORIG then plan cauchy_orig_form_encoding cauchy_orig_form_coding schedule_encode schedule_decode
         else if method = CAUCHY_GOOD then plan cauchy_good_form_encoding cauchy_good_form_coding schedule_encode schedule_decode
         else if method = BLAUM_ROTH then plan blaum_roth_form_encoding blaum_roth_form_coding schedule_encode schedule_decode
         else if method = LIBERATION then plan liberation_form_encoding liberation_form_coding schedule_encode schedule_decode
         else if method = LIBER8TION then plan liber8tion_form_encoding liber8tion_form_coding schedule_encode schedule_decode
         else if method = RAID4 then plan dummy_coding dummy_coding raid4_op_encode raid4_op_decode
         else None)"

section \<open>Forming the matrices\<close>

text \<open>The Cauchy codes form a matrix and its bit matrix; the others of the schedule family only a bit matrix.\<close>

definition form_matrix ::
  "(int \<Rightarrow> int \<Rightarrow> int \<Rightarrow> 'x option) \<Rightarrow> ('x, 'y, 'z) jerasure_lib \<Rightarrow> ('x, 'y, 'z) erasure_plan \<Rightarrow> int \<times> ('x, 'y, 'z) erasure_plan" where
  "form_matrix f J p =
     (if encode_matrix p \<noteq> None then (0, p)
      else
        (let m = f (data_strips p) (parity_strips p) (pl_w p);
             p' = p\<lparr>encode_matrix := m,
                    encode_bitmatrix := jerasure_matrix_to_bitmatrix J (data_strips p) (parity_strips p) (pl_w p) m\<rparr>
         in (if encode_schedule p' = None then -1 else 0, p')))"

definition form_bitmatrix :: "'y option \<Rightarrow> ('x, 'y, 'z) erasure_plan \<Rightarrow> int \<times> ('x, 'y, 'z) erasure_plan" where
  "form_bitmatrix b p =
     (if encode_bitmatrix p \<noteq> None then (0, p)
      else (let p' = p\<lparr>encode_bitmatrix := b\<rparr> in (if encode_schedule p' = None then -1 else 0, p')))"

definition form_schedule ::
  "('x, 'y, 'z) jerasure_lib \<Rightarrow> ('x, 'y, 'z) erasure_plan \<Rightarrow> int \<times> ('x, 'y, 'z) erasure_plan" where
  "form_schedule J p =
     (let p' = p\<lparr>encode_schedule :=
                  jerasure_smart_bitmatrix_to_schedule J (data_strips p) (parity_strips p) (pl_w p) (encode_bitmatrix p)\<rparr>
      in (if encode_schedule p' = None then -1 else 0, p'))"

definition reed_sol_r6_op_form_coding_matrix ::
  "('x, 'y, 'z) jerasure_lib \<Rightarrow> ('x, 'y, 'z) erasure_plan \<Rightarrow> int \<times> ('x, 'y, 'z) erasure_plan" where
  "reed_sol_r6_op_form_coding_matrix J p =
     (if encode_matrix p \<noteq> None then (0, p)
      else (0, p\<lparr>encode_matrix := reed_sol_r6_coding_matrix J (data_strips p) (pl_w p)\<rparr>))"

definition reed_sol_van_form_coding_matrix ::
  "('x, 'y, 'z) jerasure_lib \<Rightarrow> ('x, 'y, 'z) erasure_plan \<Rightarrow> int \<times> ('x, 'y, 'z) erasure_plan" where
  "reed_sol_van_form_coding_matrix J p =
     (if encode_matrix p \<noteq> None then (0, p)
      else (let p' = p\<lparr>encode_matrix := reed_sol_vandermonde_coding_matrix J (data_strips p) (parity_strips p) (pl_w p)\<rparr>
            in (if encode_matrix p' = None then -1 else 0, p')))"

definition cauchy_orig_form_coding_matrix ::
  "('x, 'y, 'z) jerasure_lib \<Rightarrow> ('x, 'y, 'z) erasure_plan \<Rightarrow> int \<times> ('x, 'y, 'z) erasure_plan" where
  "cauchy_orig_form_coding_matrix J = form_matrix (cauchy_original_coding_matrix J) J"

definition cauchy_good_form_coding_matrix ::
  "('x, 'y, 'z) jerasure_lib \<Rightarrow> ('x, 'y, 'z) erasure_plan \<Rightarrow> int \<times> ('x, 'y, 'z) erasure_plan" where
  "cauchy_good_form_coding_matrix J = form_matrix (cauchy_good_general_coding_matrix J) J"

definition blaum_roth_form_coding_matrix ::
  "('x, 'y, 'z) jerasure_lib \<Rightarrow> ('x, 'y, 'z) erasure_plan \<Rightarrow> int \<times> ('x, 'y, 'z) erasure_plan" where
  "blaum_roth_form_coding_matrix J p = form_bitmatrix (blaum_roth_coding_bitmatrix J (data_strips p) (pl_w p)) p"

definition liberation_form_coding_matrix ::
  "('x, 'y, 'z) jerasure_lib \<Rightarrow> ('x, 'y, 'z) erasure_plan \<Rightarrow> int \<times> ('x, 'y, 'z) erasure_plan" where
  "liberation_form_coding_matrix J p = form_bitmatrix (liberation_coding_bitmatrix J (data_strips p) (pl_w p)) p"

definition liber8tion_form_coding_matrix ::
  "('x, 'y, 'z) jerasure_lib \<Rightarrow> ('x, 'y, 'z) erasure_plan \<Rightarrow> int \<times> ('x, 'y, 'z) erasure_plan" where
  "liber8tion_form_coding_matrix J p = form_bitmatrix (liber8tion_coding_bitmatrix J (data_strips p)) p"

definition cauchy_orig_form_encoding_matrix ::
  "('x, 'y, 'z) jerasure_lib \<Rightarrow> ('x, 'y, 'z) erasure_plan \<Rightarrow> int \<times> ('x, 'y, 'z) erasure_plan" where
  "cauchy_orig_form_encoding_matrix J p =
     (if encode_matrix p \<noteq> None then (0, p) else form_schedule J (snd (cauchy_orig_form_coding_matrix J p)))"

definition cauchy_good_form_encoding_matrix ::
  "('x, 'y, 'z) jerasure_lib \<Rightarrow> ('x, 'y, 'z) erasure_plan \<Rightarrow> int \<times> ('x, 'y, 'z) erasure_plan" where
  "cauchy_good_form_encoding_matrix J p =
     (if encode_matrix p \<noteq> None then (0, p) else form_schedule J (snd (cauchy_good_form_coding_matrix J p)))"

definition blaum_roth_form_encoding_matrix ::
  "('x, 'y, 'z) jerasure_lib \<Rightarrow> ('x, 'y, 'z) erasure_plan \<Rightarrow> int \<times> ('x, 'y, 'z) erasure_plan" where
  "blaum_roth_form_encoding_matrix J p =
     (if encode_bitmatrix p \<noteq> None then (0, p) else form_schedule J (snd (blaum_roth_form_coding_matrix J p)))"

definition liberation_form_encoding_matrix ::
  "('x, 'y, 'z) jerasure_lib \<Rightarrow> ('x, 'y, 'z) erasure_plan \<Rightarrow> int \<times> ('x, 'y, 'z) erasure_plan" where
  "liberation_form_encoding_matrix J p =
     (if encode_bitmatrix p \<noteq> None then (0, p) else form_schedule J (snd (liberation_form_coding_matrix J p)))"

definition liber8tion_form_encoding_matrix ::
  "('x, 'y, 'z) jerasure_lib \<Rightarrow> ('x, 'y, 'z) erasure_plan \<Rightarrow> int \<times> ('x, 'y, 'z) erasure_plan" where
  "liber8tion_form_encoding_matrix J p =
     (if encode_bitmatrix p \<noteq> None then (0, p) else form_schedule J (snd (liber8tion_form_coding_matrix J p)))"

text \<open>A call through one of the two pointers.\<close>

definition form_call ::
  "('x, 'y, 'z) jerasure_lib \<Rightarrow> form_fn \<Rightarrow> ('x, 'y, 'z) erasure_plan \<Rightarrow> int \<times> ('x, 'y, 'z) erasure_plan" where
  "form_call J f =
     (case f of
        dummy_coding \<Rightarrow> Pair 0
      | reed_sol_r6_op_form_coding \<Rightarrow> reed_sol_r6_op_form_coding_matrix J
      | reed_sol_van_form_coding \<Rightarrow> reed_sol_van_form_coding_matrix J
      | cauchy_orig_form_coding \<Rightarrow> cauchy_orig_form_coding_matrix J
      | cauchy_good_form_coding \<Rightarrow> cauchy_good_form_coding_matrix J
      | blaum_roth_form_coding \<Rightarrow> blaum_roth_form_coding_matrix J
      | liberation_form_coding \<Rightarrow> liberation_form_coding_matrix J
      | liber8tion_form_coding \<Rightarrow> liber8tion_form_coding_matrix J
      | cauchy_orig_form_encoding \<Rightarrow> cauchy_orig_form_encoding_matrix J
      | cauchy_good_form_encoding \<Rightarrow> cauchy_good_form_encoding_matrix J
      | blaum_roth_form_encoding \<Rightarrow> blaum_roth_form_encoding_matrix J
      | liberation_form_encoding \<Rightarrow> liberation_form_encoding_matrix J
      | liber8tion_form_encoding \<Rightarrow> liber8tion_form_encoding_matrix J)"

text \<open>A plan that is ready for use, as every client makes it: first for encoding, then for decoding.\<close>

definition et_form :: "('x, 'y, 'z) jerasure_lib \<Rightarrow> ('x, 'y, 'z) erasure_plan \<Rightarrow> ('x, 'y, 'z) erasure_plan" where
  "et_form J p =
     (let p1 = snd (form_call J (form_encoding_matrix p) p) in snd (form_call J (form_decoding_matrix p1) p1))"

section \<open>Encoding and decoding a block\<close>

definition et_encode_block ::
  "('x, 'y, 'z) jerasure_lib \<Rightarrow> ('x, 'y, 'z) erasure_plan \<Rightarrow> strip list \<Rightarrow> nat \<Rightarrow> strip list outcome" where
  "et_encode_block J p ptr block_size =
     (let d = nat (data_strips p); dat = take d ptr; par = drop d ptr;
          r = (case encode_block p of
                 schedule_encode \<Rightarrow>
                   jerasure_schedule_encode J (data_strips p) (parity_strips p) (pl_w p) (encode_schedule p) dat par block_size (packet_size p)
               | matrix_encode \<Rightarrow>
                   jerasure_matrix_encode J (data_strips p) (parity_strips p) (pl_w p) (encode_matrix p) dat par block_size
               | reed_sol_r6_op_encode \<Rightarrow> reed_sol_r6_encode J (data_strips p) (pl_w p) dat par block_size
               | raid4_op_encode \<Rightarrow> Ret (raid4_encode d dat par block_size))
      in case r of Crash \<Rightarrow> Crash | Ret par' \<Rightarrow> Ret (dat @ par'))"

definition et_decode_block ::
  "('x, 'y, 'z) jerasure_lib \<Rightarrow> ('x, 'y, 'z) erasure_plan \<Rightarrow> strip list \<Rightarrow> nat \<Rightarrow> int list \<Rightarrow> strip list outcome" where
  "et_decode_block J p ptr block_size erasures =
     (let d = nat (data_strips p); dat = take d ptr; par = drop d ptr;
          r = (case decode_block p of
                 matrix_decode \<Rightarrow>
                   jerasure_matrix_decode J (data_strips p) (parity_strips p) (pl_w p) (encode_matrix p) erasures dat par block_size
               | schedule_decode \<Rightarrow>
                   jerasure_schedule_decode_lazy J (data_strips p) (parity_strips p) (pl_w p) (encode_bitmatrix p) erasures
                     dat par block_size (packet_size p)
               | raid4_op_decode \<Rightarrow>
                   (case raid4_decode d erasures dat par block_size of Crash \<Rightarrow> Crash | Ret (_, dat') \<Rightarrow> Ret (dat', par)))
      in case r of Crash \<Rightarrow> Crash | Ret (dat', par') \<Rightarrow> Ret (dat' @ par'))"

section \<open>Choosing the parameters\<close>

definition et_default_w :: "int \<Rightarrow> int \<Rightarrow> int option" where
  "et_default_w method data =
     (if method \<in> {REED_SOL_R6_OP, REED_SOL_VAN, CAUCHY_ORIG, CAUCHY_GOOD, LIBER8TION, RAID4} then Some 8
      else if method = BLAUM_ROTH then Some (nearest_prime (data + 1) 1 - 1)
      else if method = LIBERATION then Some (nearest_prime data 1)
      else None)"

text \<open>The tests of the parameters; \<open>sizeof(long)\<close> is 8.\<close>

definition et_valid :: "int \<Rightarrow> int \<Rightarrow> int \<Rightarrow> int \<Rightarrow> int \<Rightarrow> bool" where
  "et_valid method data parity w psize =
     (if method = REED_SOL_R6_OP then parity = 2 \<and> (w = 8 \<or> w = 16 \<or> w = 32)
      else if method \<in> {REED_SOL_VAN, CAUCHY_ORIG, CAUCHY_GOOD} then w = 8 \<or> w = 16 \<or> w = 32
      else if method = BLAUM_ROTH then data \<le> w \<and> nearest_prime (w + 1) 0 = w + 1 \<and> psize mod 8 = 0
      else if method = LIBERATION then data \<le> w \<and> nearest_prime w 0 = w \<and> psize mod 8 = 0
      else if method = LIBER8TION then w = 8 \<and> parity = 2 \<and> data \<le> w
      else if method = RAID4 then parity = 1
      else False)"

text \<open>
  The search for the packet size, from the largest one down; \<open>best\<close> holds the excess, the packet size and the padded
  size of the best one so far. The percentage is rounded to single precision before it is compared with 1, so it
  is below 1 exactly when it is below \<open>1 - 2 ^ -25\<close>.
\<close>

definition round_up :: "int \<Rightarrow> int \<Rightarrow> int" where
  "round_up n i = (let rem = n mod i in if rem > 0 then n + (i - rem) else n)"

definition excess_small :: "int \<Rightarrow> int \<Rightarrow> bool" where
  "excess_small j file_size \<longleftrightarrow> 100 * j * 2 ^ 25 < file_size * (2 ^ 25 - 1)"

function et_search :: "int \<Rightarrow> int \<Rightarrow> int \<Rightarrow> int \<Rightarrow> int \<Rightarrow> int \<Rightarrow> (int \<times> int) option \<Rightarrow> (int \<times> int) option" where
  "et_search file_size unit_size unit low smallest psize best =
     (if psize > low \<and> unit > 0 then
        (let new_size = round_up file_size (unit_size * psize * unit); j = new_size - file_size
         in if j \<le> smallest then
              (if excess_small j file_size then Some (psize, new_size)
               else et_search file_size unit_size unit low j (psize - unit) (Some (psize, new_size)))
            else et_search file_size unit_size unit low smallest (psize - unit) best)
      else best)"
  by pat_completeness auto

termination
  by (relation "measure (\<lambda>(f, u, b, l, s, p, x). nat (p - l))") (auto simp: Let_def)

declare et_search.simps [simp del]

text \<open>
  \<open>Crash\<close>: a division by zero, or no packet size was tried and the best one is read although it was never set.
\<close>

definition et_generate_plan ::
  "int \<Rightarrow> int \<Rightarrow> int \<Rightarrow> int \<Rightarrow> int \<Rightarrow> int \<Rightarrow> int \<Rightarrow> ('x, 'y, 'z) erasure_plan option outcome" where
  "et_generate_plan file_size method data parity w0 packet_low packet_high =
     (case (if w0 = -1 then et_default_w method data else Some w0) of
        None \<Rightarrow> Ret None
      | Some w \<Rightarrow>
          (let unit0 = (if w0 = -1 \<and> method = RAID4 then 1 else 8);
               ssize = c_div file_size (w * unit0 * data);
               low0 = (if packet_low < 0 then (if ssize < 4 * 1024 then c_div ssize 4 else 512) else packet_low);
               high0 = (if packet_high < 0 then (if ssize < 4 * 1024 then ssize else 4096) else packet_high);
               low1 = c_div low0 unit0 * unit0;
               high1 = c_div high0 unit0 * unit0
           in if w * data = 0 then Crash
              else if low0 > high0 then Ret None
              else if \<not> et_valid method data parity w high1 then Ret None
              else
                (let unit = (if method = RAID4 then 1 else unit0);
                     low = (if method = RAID4 then 0 else low1);
                     high = (if method = RAID4 then 1 else high1)
                 in case et_search file_size (data * w) unit low (10 * file_size) high None of
                      None \<Rightarrow> Crash
                    | Some (psize, new_size) \<Rightarrow>
                        Ret (et_new_plan method (c_div new_size data) data parity w psize unit))))"

section \<open>What the chosen parameters give\<close>

lemma round_up_covers:
  assumes "0 < i"
  shows "n \<le> round_up n i" "i dvd round_up n i" "round_up n i < n + i"
proof -
  have m: "0 \<le> n mod i" "n mod i < i" using assms by simp_all
  show "n \<le> round_up n i" "round_up n i < n + i" using m by (auto simp only: round_up_def Let_def split: if_splits)
  have "i dvd n - n mod i + i" by (simp add: dvd_minus_mod)
  moreover have "n mod i = 0 \<Longrightarrow> i dvd n" by (simp add: dvd_eq_mod_eq_0)
  ultimately show "i dvd round_up n i" using m by (auto simp: round_up_def Let_def algebra_simps)
qed

lemma et_search_result:
  assumes "et_search file_size unit_size unit low smallest psize best = Some (ps, ns)"
    and "best = None \<or> (\<exists>b. best = Some (b, round_up file_size (unit_size * b * unit)) \<and> low < b)"
  shows "low < ps \<and> ns = round_up file_size (unit_size * ps * unit)"
  using assms
proof (induction file_size unit_size unit low smallest psize best rule: et_search.induct)
  case (1 f us u l sm p b)
  let ?n = "round_up f (us * p * u)"
  show ?case
  proof (cases "p > l \<and> u > 0")
    case False
    then have "b = Some (ps, ns)" using 1(3) by (subst (asm) et_search.simps) auto
    then show ?thesis using 1(4) by auto
  next
    case True
    note s = 1(3) [unfolded et_search.simps [of f us u l sm p b] Let_def if_P [OF True]]
    consider "?n - f \<le> sm" "excess_small (?n - f) f" | "?n - f \<le> sm" "\<not> excess_small (?n - f) f" | "\<not> ?n - f \<le> sm" by blast
    then show ?thesis
    proof cases
      case 1
      then show ?thesis using s True by auto
    next
      case 2
      show ?thesis by (rule 1(1) [OF True refl refl 2]) (use s 2 True in simp_all)
    next
      case 3
      show ?thesis by (rule 1(2) [OF True refl refl 3]) (use s 3 1(4) in simp_all)
    qed
  qed
qed

lemma et_new_plan_fields:
  "et_new_plan method ssize data parity w psize unit = Some p \<Longrightarrow>
   strip_size p = ssize \<and> pl_method p = method \<and> data_strips p = data \<and> parity_strips p = parity \<and> pl_w p = w \<and> packet_size p = psize \<and> base_unit p = unit"
  by (auto simp: et_new_plan_def split: if_splits)

lemma et_valid_w: "et_valid method data parity w psize \<Longrightarrow> 0 < data \<Longrightarrow> method = RAID4 \<longrightarrow> 0 < w \<Longrightarrow> 0 < w"
  by (auto simp: et_valid_def split: if_splits)

text \<open>
  C37: A plan that \<open>et_generate_plan\<close> returns fits the file: it has the strips that were asked for, they hold the whole file with less
  than one unit of padding, and the length of a strip is a multiple of the unit the code works on, the word size times the packet size.
\<close>

theorem et_generate_plan_covers:
  assumes plan: "et_generate_plan file_size method data parity w0 packet_low packet_high = Ret (Some p)"
    and file_size: "0 \<le> file_size" and data: "0 < data" and w: "w0 = -1 \<or> 0 < w0"
  shows "data_strips p = data \<and> parity_strips p = parity \<and> pl_method p = method \<and> 0 < packet_size p \<and> 0 < pl_w p \<and>
    file_size \<le> data * strip_size p \<and> data * strip_size p < file_size + data * (pl_w p * packet_size p * base_unit p) \<and>
    pl_w p * packet_size p * base_unit p dvd strip_size p"
proof -
  obtain wd where wd: "(if w0 = -1 then et_default_w method data else Some w0) = Some wd"
    using plan by (auto simp: et_generate_plan_def split: option.splits)
  define unit0 where "unit0 = (if w0 = -1 \<and> method = RAID4 then 1 else 8 :: int)"
  define ssize where "ssize = c_div file_size (wd * unit0 * data)"
  define low0 where "low0 = (if packet_low < 0 then (if ssize < 4 * 1024 then c_div ssize 4 else 512) else packet_low)"
  define high0 where "high0 = (if packet_high < 0 then (if ssize < 4 * 1024 then ssize else 4096) else packet_high)"
  define u where "u = (if method = RAID4 then 1 else unit0)"
  define low where "low = (if method = RAID4 then 0 else c_div low0 unit0 * unit0)"
  define high where "high = (if method = RAID4 then 1 else c_div high0 unit0 * unit0)"
  have v: "et_valid method data parity wd (c_div high0 unit0 * unit0)" and
    s: "\<exists>ps ns. et_search file_size (data * wd) u low (10 * file_size) high None = Some (ps, ns) \<and> et_new_plan method (c_div ns data) data parity wd ps u = Some p"
    using plan unfolding et_generate_plan_def wd option.case Let_def unit0_def [symmetric] ssize_def [symmetric] low0_def [symmetric]
      high0_def [symmetric] u_def [symmetric] low_def [symmetric] high_def [symmetric]
    by (auto split: if_splits option.splits prod.splits)
  have wpos: "0 < wd" using v data w wd by (intro et_valid_w [OF v data]) (auto simp: et_default_w_def method_defs split: if_splits)
  have u: "0 < unit0" "0 < u" by (simp_all add: unit0_def u_def)
  have "0 \<le> ssize" unfolding ssize_def using file_size wpos data u by (simp add: pos_imp_zdiv_nonneg_iff)
  then have "0 \<le> low0" by (simp add: low0_def pos_imp_zdiv_nonneg_iff)
  then have low: "0 \<le> low" using u by (simp add: low_def pos_imp_zdiv_nonneg_iff)
  obtain ps ns where r: "et_search file_size (data * wd) u low (10 * file_size) high None = Some (ps, ns)"
    "et_new_plan method (c_div ns data) data parity wd ps u = Some p" using s by blast
  have ps: "0 < ps" "ns = round_up file_size (data * wd * ps * u)" using et_search_result [OF r(1)] low by auto
  let ?b = "wd * ps * u"
  have b: "0 < data * ?b" using data wpos ps(1) u(2) by simp
  have ns: "file_size \<le> ns" "data * ?b dvd ns" "ns < file_size + data * ?b"
    using round_up_covers [OF b, of file_size] ps(2) by (simp_all add: mult.assoc)
  then obtain k where k: "ns = data * (?b * k)" by (auto simp: dvd_def mult.assoc)
  then have "c_div ns data = ?b * k" using ns(1) file_size data by simp
  then have "data * strip_size p = ns \<and> strip_size p = ?b * k" using et_new_plan_fields [OF r(2)] k by simp
  then show ?thesis using et_new_plan_fields [OF r(2)] ns wpos ps(1) by (metis dvd_triv_left)
qed

theorem et_generate_plan_covers_witness:
  "\<exists>p :: (unit, unit, unit) erasure_plan. et_generate_plan 98304 CAUCHY_GOOD 6 3 8 (-1) (-1) = Ret (Some p) \<and> 98304 \<le> 6 * strip_size p"
proof -
  have "case et_generate_plan 98304 CAUCHY_GOOD 6 3 8 (-1) (-1) :: (unit, unit, unit) erasure_plan option outcome of Ret (Some p) \<Rightarrow> True | _ \<Rightarrow> False" by code_simp
  then obtain p :: "(unit, unit, unit) erasure_plan" where "et_generate_plan 98304 CAUCHY_GOOD 6 3 8 (-1) (-1) = Ret (Some p)"
    by (auto split: outcome.splits option.splits)
  then show ?thesis using et_generate_plan_covers [of 98304 CAUCHY_GOOD 6 3 8 "-1" "-1"] by fastforce
qed

text \<open>
  C40: For a stripe whose data chunks have less than 512 bytes the search for a packet size is empty with the parameters the erasure coded
  segment passes, so that the plan is made from the variables \<open>best_size\<close> and \<open>best_psize\<close>, which were never set.
\<close>

theorem et_generate_plan_small:
  assumes "0 < data" "0 \<le> chunk_size" "chunk_size < 512"
  shows "(et_generate_plan (data * chunk_size) CAUCHY_GOOD data parity (-1) (-1) (-1) :: ('x, 'y, 'z) erasure_plan option outcome) = Crash"
proof -
  have "data * chunk_size div (64 * data) = chunk_size div 64" using assms(1) by (simp add: mult.commute [of data])
  moreover have c: "0 \<le> chunk_size div 64" "chunk_size div 64 < 8" using assms(2,3) by simp_all
  then have "chunk_size div 64 div 8 = 0" "chunk_size div 64 div 4 div 8 = 0" by simp_all
  ultimately show ?thesis using assms c
    by (simp add: et_generate_plan_def et_default_w_def method_defs et_valid_def et_search.simps Let_def)
qed

theorem et_generate_plan_small_witness:
  "(et_generate_plan 600 CAUCHY_GOOD 6 3 (-1) (-1) (-1) :: (unit, unit, unit) erasure_plan option outcome) = Crash"
  using et_generate_plan_small [of 6 100 3] by simp

section \<open>What a client of a plan relies on\<close>

text \<open>
  A code for \<open>nd\<close> data and \<open>np\<close> parity strips of \<open>bs\<close> bytes; \<open>par\<close> are the parity strips of a stripe and \<open>lost\<close> the sets
  of strips the decoder can rebuild. Given other erasures it may leave anything in the erased strips, but it touches
  no other.
\<close>

definition strips :: "nat \<Rightarrow> nat \<Rightarrow> strip list \<Rightarrow> bool" where
  "strips n bs cs \<longleftrightarrow> length cs = n \<and> (\<forall>c \<in> set cs. length c = bs)"

definition erasure_list :: "nat set \<Rightarrow> int list" where
  "erasure_list E = map int (sorted_list_of_set E) @ [-1]"

locale erasure_code =
  fixes enc :: "strip list \<Rightarrow> strip list outcome"
    and dec :: "strip list \<Rightarrow> int list \<Rightarrow> strip list outcome"
    and nd np bs :: nat
    and par :: "strip list \<Rightarrow> strip list"
    and lost :: "nat set \<Rightarrow> bool"
  assumes strips_par: "strips nd bs ds \<Longrightarrow> strips np bs (par ds)"
    and encode: "strips nd bs ds \<Longrightarrow> strips np bs ps \<Longrightarrow> enc (ds @ ps) = Ret (ds @ par ds)"
    and lost_range: "lost E \<Longrightarrow> E \<subseteq> {..<nd + np} \<and> E \<noteq> {} \<and> card E \<le> np"
    and rebuild: "strips nd bs ds \<Longrightarrow> lost E \<Longrightarrow> strips (nd + np) bs cs \<Longrightarrow>
      (\<And>k. k < nd + np \<Longrightarrow> k \<notin> E \<Longrightarrow> cs ! k = (ds @ par ds) ! k) \<Longrightarrow> dec cs (erasure_list E) = Ret (ds @ par ds)"
    and decode: "strips (nd + np) bs cs \<Longrightarrow> E \<subseteq> {..<nd + np} \<Longrightarrow> E \<noteq> {} \<Longrightarrow> card E \<le> np \<Longrightarrow>
      \<exists>out. dec cs (erasure_list E) = Ret out \<and> strips (nd + np) bs out \<and> (\<forall>k < nd + np. k \<notin> E \<longrightarrow> out ! k = cs ! k)"
begin

lemma strips_codeword: "strips nd bs ds \<Longrightarrow> strips (nd + np) bs (ds @ par ds)"
  using strips_par [of ds] by (auto simp: strips_def)

end

subsection \<open>The single parity code\<close>

text \<open>The decoder of \<open>src/raid4.c\<close> rebuilds any one data strip. A lost parity strip is left as it is.\<close>

definition raid4_lost :: "nat \<Rightarrow> nat set \<Rightarrow> bool" where
  "raid4_lost nd E \<longleftrightarrow> (\<exists>k < nd. E = {k})"

definition raid4_parity :: "nat \<Rightarrow> nat \<Rightarrow> strip list \<Rightarrow> strip list" where
  "raid4_parity nd bs ds = raid4_encode nd ds [replicate bs 0] bs"

definition is_raid4 :: "nat \<Rightarrow> ('x, 'y, 'z) erasure_plan \<Rightarrow> bool" where
  "is_raid4 nd p \<longleftrightarrow> data_strips p = int nd \<and> encode_block p = raid4_op_encode \<and> decode_block p = raid4_op_decode"

lemma parity_unique:
  assumes "stripe_ok n bs ds" "stripe_ok 1 bs ps" "0 < n"
  shows "raid4_encode n ds ps bs = raid4_parity n bs ds"
proof -
  obtain p where p: "raid4_encode n ds ps bs = [p]" "length p = bs" "\<forall>j < bs. p ! j = parity_byte j ds"
    using raid4_encode_parity [OF assms] by blast
  obtain q where q: "raid4_parity n bs ds = [q]" "length q = bs" "\<forall>j < bs. q ! j = parity_byte j ds"
    using raid4_encode_parity [OF assms(1) _ assms(3), of "[replicate bs 0]"] by (auto simp: raid4_parity_def stripe_ok_def)
  have "p = q" using p q by (intro nth_equalityI) auto
  with p q show ?thesis by simp
qed

lemma raid4_decode_total:
  assumes "strips n bs ds" "length p = bs" "k < n"
  shows "\<exists>q. raid4_decode n (int k # -1 # es) ds [p] bs = Ret (0, ds[k := q]) \<and> length q = bs"
proof -
  have len: "length ds = n" "\<And>i. i < n \<Longrightarrow> length (ds ! i) = bs" using assms(1) by (auto simp: strips_def)
  let ?is = "filter (\<lambda>i. i \<noteq> k) [0..<n]"
  obtain q where q: "fold (\<lambda>i d. d[k := xor_block (d ! i) (d ! k) bs]) ?is (ds[k := p]) = ds[k := q]" "length q = bs"
    using xor_fold [of k "ds[k := p]" bs ?is "(!)"] assms(2,3) len(1) by auto
  have "fold (\<lambda>i d. if i \<noteq> k then d[k := xor_block (d ! i) (d ! k) bs] else d) [0..<n] (ds[k := p]) =
      fold (\<lambda>i d. d[k := xor_block (d ! i) (d ! k) bs]) ?is (ds[k := p])"
    unfolding fold_filter by (rule arg_cong [where f = "\<lambda>f. fold f [0..<n] (ds[k := p])"]) (auto simp: fun_eq_iff)
  with q assms(2,3) len show ?thesis by (auto simp: raid4_decode_def Let_def)
qed

lemma raid4_code:
  assumes "0 < nd" "is_raid4 nd p"
  shows "erasure_code (\<lambda>cs. et_encode_block J p cs bs) (\<lambda>cs er. et_decode_block J p cs bs er) nd 1 bs
    (raid4_parity nd bs) (raid4_lost nd)"
proof (unfold_locales, goal_cases)
  case (1 ds)
  then show ?case using raid4_encode_parity [of nd bs ds "[replicate bs 0]"] assms(1)
    by (auto simp: strips_def stripe_ok_def raid4_parity_def)
next
  case (2 ds ps)
  then show ?case using parity_unique [of nd bs ds ps] assms
    by (auto simp: et_encode_block_def is_raid4_def strips_def stripe_ok_def Let_def)
next
  case (3 E)
  then show ?case by (auto simp: raid4_lost_def)
next
  case (4 ds E cs)
  obtain k where k: "k < nd" "E = {k}" using 4(2) by (auto simp: raid4_lost_def)
  obtain q where q: "raid4_parity nd bs ds = [q]" "length q = bs" "\<And>j. j < bs \<Longrightarrow> q ! j = parity_byte j ds"
    using raid4_encode_parity [of nd bs ds "[replicate bs 0]"] 4(1) assms(1) by (auto simp: strips_def stripe_ok_def raid4_parity_def)
  have len: "length cs = Suc nd" "length ds = nd" "\<And>i. i \<le> nd \<Longrightarrow> length (cs ! i) = bs" using 4(1,3) by (auto simp: strips_def)
  have "take nd cs ! i = ds[k := cs ! k] ! i" if "i < nd" for i using 4(4) [of i] len(1,2) k that by (auto simp: nth_list_update nth_append)
  then have "take nd cs = ds[k := cs ! k]" using len(1,2) by (intro nth_equalityI) auto
  moreover have "drop nd cs = [q]" using 4(4) [of nd] k len q(1) by (auto simp: nth_append Cons_nth_drop_Suc [symmetric])
  moreover have "raid4_decode nd (int k # -1 # []) (ds[k := cs ! k]) [q] bs = Ret (0, ds)"
    by (rule raid4_decode_restores) (use 4(1) q k len in \<open>auto simp: strips_def stripe_ok_def\<close>)
  ultimately show ?case using assms(2) q(1) k by (simp add: et_decode_block_def is_raid4_def erasure_list_def)
next
  case (5 cs E)
  then obtain k where k: "E = {k}" "k \<le> nd" by (metis One_nat_def Suc_leI card_1_singletonE card_gt_0_iff finite_lessThan finite_subset insert_subset le_antisym lessThan_iff less_Suc_eq_le add.commute plus_1_eq_Suc)
  have len: "length cs = Suc nd" "\<And>i. i \<le> nd \<Longrightarrow> length (cs ! i) = bs" using 5(1) by (auto simp: strips_def)
  have cs: "cs = take nd cs @ [cs ! nd]" using len by (metis append_take_drop_id Cons_nth_drop_Suc drop_all lessI order_refl)
  show ?case
  proof (cases "k = nd")
    case True
    then have "et_decode_block J p cs bs (erasure_list E) = Ret cs"
      using assms(2) k by (simp add: et_decode_block_def is_raid4_def erasure_list_def raid4_decode_def)
    then show ?thesis using 5(1) by auto
  next
    case False
    with k have kn: "k < nd" by simp
    have st: "strips nd bs (take nd cs)" using len by (auto simp: strips_def in_set_conv_nth)
    obtain q where q: "raid4_decode nd (int k # -1 # []) (take nd cs) [cs ! nd] bs = Ret (0, (take nd cs)[k := q])" "length q = bs"
      using raid4_decode_total [OF st _ kn, of "cs ! nd"] len by auto
    have "drop nd cs = [cs ! nd]" using len by (simp add: Cons_nth_drop_Suc [symmetric])
    then have d: "et_decode_block J p cs bs (erasure_list E) = Ret ((take nd cs)[k := q] @ [cs ! nd])"
      using q(1) assms(2) k(1) by (simp add: et_decode_block_def is_raid4_def erasure_list_def)
    moreover have "(take nd cs)[k := q] @ [cs ! nd] = cs[k := q]"
      using cs kn len by (metis length_take list_update_append1 min.absorb2 less_or_eq_imp_le lessI)
    ultimately show ?thesis using 5(1) q(2) k by (auto simp: strips_def dest!: set_update_subset_insert [THEN subsetD])
  qed
qed

definition raid4_plan :: "nat \<Rightarrow> ('x, 'y, 'z) erasure_plan" where
  "raid4_plan m = the (et_new_plan RAID4 0 (int m) 1 8 1 1)"

lemma is_raid4_plan: "is_raid4 m (raid4_plan m)"
  by (simp add: raid4_plan_def et_new_plan_def is_raid4_def method_defs)

interpretation raid4: erasure_code "\<lambda>cs. et_encode_block J (raid4_plan (Suc m)) cs bs"
  "\<lambda>cs er. et_decode_block J (raid4_plan (Suc m)) cs bs er" "Suc m" 1 bs "raid4_parity (Suc m) bs" "raid4_lost (Suc m)" for J m bs
  by (rule raid4_code) (simp_all add: is_raid4_plan)

end
