(* ===== verification/Segment_Jerasure.thy ===== *)
theory Segment_Jerasure
  imports Erasure_Tools Segment Service_Manager
begin

text \<open>
  The erasure coded segment of \<open>src/segment_jerasure.c\<close>. A stripe of the file is stored on the devices of a striped
  child segment as data and parity chunks, every chunk behind a tag (the \<^emph>\<open>magic\<close>), which is the same for all
  chunks of the stripe: their Adler-32 checksum. A read takes the tag most chunks have as the one of the stripe,
  rebuilds the chunks with another tag, and searches for the bad chunks when the checksum still does not fit.

  \<open>Z\<close> is the checksum of zlib, \<open>J\<close> the Jerasure library and \<open>C\<close> the driver of the child segment. The segment lock
  makes the locked regions single steps.
\<close>

section \<open>Data\<close>

definition JE_MAGIC_SIZE :: nat where "JE_MAGIC_SIZE = 4"

type_synonym chunk = "byte list"
type_synonym magic = "byte list"

record zlib =
  z_init :: int
  z_adler32 :: "int \<Rightarrow> byte list \<Rightarrow> int"

record ('g, 'p) segjerase_priv =
  child_seg :: 'g
  je_plan :: 'p
  je_blacklist :: bool
  max_parity :: int
  write_errors :: int
  je_soft_errors :: int
  je_hard_errors :: int
  je_method :: int
  n_data_devs :: nat
  n_parity_devs :: nat
  magic_cksum :: int
  je_chunk_size :: nat
  paranoid_check :: int
  je_w :: int

text \<open>The sizes the code keeps beside the parameters they follow from.\<close>

definition n_devs :: "('g, 'p) segjerase_priv \<Rightarrow> nat" where
  "n_devs s = n_data_devs s + n_parity_devs s"

definition chunk_size_with_magic :: "('g, 'p) segjerase_priv \<Rightarrow> nat" where
  "chunk_size_with_magic s = je_chunk_size s + JE_MAGIC_SIZE"

definition je_data_size :: "('g, 'p) segjerase_priv \<Rightarrow> nat" where
  "je_data_size s = je_chunk_size s * n_data_devs s"

definition je_parity_size :: "('g, 'p) segjerase_priv \<Rightarrow> nat" where
  "je_parity_size s = je_chunk_size s * n_parity_devs s"

definition stripe_size_with_magic :: "('g, 'p) segjerase_priv \<Rightarrow> nat" where
  "stripe_size_with_magic s = chunk_size_with_magic s * n_devs s"

lemmas je_size_defs =
  n_devs_def chunk_size_with_magic_def je_data_size_def je_parity_size_def stripe_size_with_magic_def JE_MAGIC_SIZE_def

text \<open>
  The operations of the child. A transfer takes the number of devices the black list may drop (none is given
  when the hints are \<open>NULL\<close>), the extents, and the bytes of the vector it reads from or fills, with an offset into that
  vector. A failed device shows in the error code.
\<close>

record 'g je_child =
  jc_read :: "'g \<Rightarrow> int option \<Rightarrow> ex_iovec list \<Rightarrow> byte list \<Rightarrow> ex_off \<Rightarrow> op_status \<times> byte list \<times> 'g"
  jc_write :: "'g \<Rightarrow> int option \<Rightarrow> ex_iovec list \<Rightarrow> byte list \<Rightarrow> ex_off \<Rightarrow> op_status \<times> 'g"
  jc_inspect :: "'g \<Rightarrow> int \<Rightarrow> op_status \<times> int list \<times> 'g"
  jc_truncate :: "'g \<Rightarrow> ex_off \<Rightarrow> op_status \<times> 'g"
  jc_remove :: "'g \<Rightarrow> op_status \<times> 'g"
  jc_clone :: "'g \<Rightarrow> 'g option \<Rightarrow> int \<Rightarrow> op_status \<times> 'g"
  jc_size :: "'g \<Rightarrow> ex_off"
  jc_signature :: "'g \<Rightarrow> string"

section \<open>Checksums\<close>

fun je_magic_bytes :: "nat \<Rightarrow> int \<Rightarrow> magic" where
  "je_magic_bytes 0 c = []"
| "je_magic_bytes (Suc n) c = word_of_int (take_bit 8 c) # je_magic_bytes n (drop_bit 8 c)"

definition je_cksum_calc :: "zlib \<Rightarrow> chunk list \<Rightarrow> magic" where
  "je_cksum_calc Z ptr = je_magic_bytes JE_MAGIC_SIZE (foldl (z_adler32 Z) (z_init Z) ptr)"

definition je_cksum_compare :: "zlib \<Rightarrow> magic \<Rightarrow> chunk list \<Rightarrow> int" where
  "je_cksum_compare Z magic ptr = (if magic = je_cksum_calc Z ptr then 0 else 1)"

lemma length_je_magic_bytes [simp]: "length (je_magic_bytes n c) = n"
  by (induction n c rule: je_magic_bytes.induct) simp_all

lemma length_je_cksum_calc [simp]: "length (je_cksum_calc Z ptr) = JE_MAGIC_SIZE"
  by (simp add: je_cksum_calc_def)

section \<open>Checking a stripe\<close>

text \<open>
  The chunks of a stripe and the work buffers are the cells of a store; \<open>ptr\<close> and \<open>eptr\<close> are arrays of cell numbers.
  The work buffers begin at cell \<open>pw\<close>. \<open>J\<close> and \<open>plan\<close> are the decoder, here \<open>dec\<close>, which gets the contents of the
  cells, and whose results go back to the cells.
\<close>

type_synonym je_store = "chunk list"

definition cells :: "je_store \<Rightarrow> nat list \<Rightarrow> chunk list" where
  "cells h ptr = map ((!) h) ptr"

definition cells_put :: "nat list \<Rightarrow> chunk list \<Rightarrow> je_store \<Rightarrow> je_store" where
  "cells_put ptr cs h = fold (\<lambda>(a, c) h. h[a := c]) (zip ptr cs) h"

text \<open>The devices that are failed as a control in one pass: good ones behind the last control of the pass before.\<close>

definition je_controls :: "bool list \<Rightarrow> int \<Rightarrow> int \<Rightarrow> nat list" where
  "je_controls badmap n_ctl_max control_index =
     take (nat n_ctl_max) (filter (\<lambda>i. \<not> badmap ! i \<and> int i > control_index) [0..<length badmap])"

definition je_erasures :: "bool list \<Rightarrow> nat list \<Rightarrow> int list" where
  "je_erasures badmap control = map int (filter (\<lambda>i. badmap ! i \<or> i \<in> set control) [0..<length badmap]) @ [-1]"

fun redirect :: "nat list \<Rightarrow> nat list \<Rightarrow> nat \<Rightarrow> nat list" where
  "redirect ptr [] pw = ptr"
| "redirect ptr (i # is) pw = redirect (ptr[i := pw]) is (pw + 1)"

definition je_decode_pass ::
  "(chunk list \<Rightarrow> int list \<Rightarrow> chunk list outcome) \<Rightarrow> bool list \<Rightarrow> nat list \<Rightarrow> nat list \<Rightarrow> nat \<Rightarrow> je_store \<Rightarrow>
   (nat list \<times> je_store) outcome" where
  "je_decode_pass dec badmap control ptr pw h =
     (let eptr = redirect ptr control pw
      in case dec (cells h eptr) (je_erasures badmap control) of
           Crash \<Rightarrow> Crash
         | Ret out \<Rightarrow> Ret (eptr, cells_put eptr out h))"

lemma je_controls_gt: "i \<in> set (je_controls b m c) \<Longrightarrow> int i > c \<and> i < length b"
  by (auto simp: je_controls_def dest!: in_set_takeD)

text \<open>The passes of the check without a checksum. The first mismatch ends it with 1.\<close>

function je_control_loop ::
  "(chunk list \<Rightarrow> int list \<Rightarrow> chunk list outcome) \<Rightarrow> bool list \<Rightarrow> int \<Rightarrow> nat list \<Rightarrow> nat \<Rightarrow> int \<Rightarrow> je_store \<Rightarrow>
   (int \<times> nat list \<times> je_store) outcome" where
  "je_control_loop dec badmap n_ctl_max ptr pw control_index h =
     (let control = je_controls badmap n_ctl_max control_index
      in case je_decode_pass dec badmap control ptr pw h of
           Crash \<Rightarrow> Crash
         | Ret (eptr, h') \<Rightarrow>
             if control = [] \<and> \<not> n_ctl_max > 0 then Ret (0, eptr, h')
             else
               (let ci = (if control = [] then int (length badmap) - 1 else int (last control))
                in if \<exists>c \<in> set control. h' ! (ptr ! c) \<noteq> h' ! (eptr ! c) then Ret (1, eptr, h')
                   else if ci < int (length badmap) - 1 then je_control_loop dec badmap n_ctl_max ptr pw ci h'
                   else Ret (0, eptr, h')))"
  by pat_completeness auto

termination
proof (relation "measure (\<lambda>(dec, b, m, ptr, pw, ci, h). nat (int (length b) - 1 - ci))", goal_cases)
  case (2 dec b m ptr pw c h control r eptr h' ci)
  then show ?case
    using je_controls_gt [of "last control" b m c] by (auto split: if_splits)
qed simp

declare je_control_loop.simps [simp del]

text \<open>\<open>magic\<close> is \<open>None\<close> for \<open>NULL\<close>. A plain comparison of the checksum leaves \<open>eptr\<close> as it was.\<close>

definition jerase_control_check ::
  "zlib \<Rightarrow> (chunk list \<Rightarrow> int list \<Rightarrow> chunk list outcome) \<Rightarrow> nat \<Rightarrow> bool list \<Rightarrow> nat list \<Rightarrow> nat list \<Rightarrow> nat \<Rightarrow> magic option \<Rightarrow>
   je_store \<Rightarrow> (int \<times> nat list \<times> je_store) outcome" where
  "jerase_control_check Z dec n_parity badmap ptr eptr0 pw magic h =
     (let nbad = length (filter id badmap)
      in case magic of
           Some m \<Rightarrow>
             if nbad = 0 then Ret (je_cksum_compare Z m (cells h ptr), eptr0, h)
             else (case je_decode_pass dec badmap [] ptr pw h of
                     Crash \<Rightarrow> Crash
                   | Ret (eptr, h') \<Rightarrow> Ret (je_cksum_compare Z m (cells h' eptr), eptr, h'))
         | None \<Rightarrow> je_control_loop dec badmap (int n_parity - int nbad) ptr pw (-1) h)"

section \<open>Searching for the bad chunks\<close>

text \<open>
  The devices \<open>index\<close> are taken as bad: their cells are replaced by work buffers for the check. The result has the map
  of bad devices, \<open>eptr\<close> and the store.
\<close>

definition je_index_map :: "nat \<Rightarrow> nat list \<Rightarrow> bool list" where
  "je_index_map n index = map (\<lambda>i. i \<in> set index) [0..<n]"

definition je_brute_check ::
  "zlib \<Rightarrow> (chunk list \<Rightarrow> int list \<Rightarrow> chunk list outcome) \<Rightarrow> nat \<Rightarrow> nat list \<Rightarrow> nat \<Rightarrow> magic option \<Rightarrow> nat list \<Rightarrow>
   bool list \<times> nat list \<times> je_store \<Rightarrow> (int \<times> bool list \<times> nat list \<times> je_store) outcome" where
  "je_brute_check Z dec n_parity ptr pw magic index st =
     (case st of (_, eptr, h) \<Rightarrow>
        (let badmap = je_index_map (length ptr) index
         in case jerase_control_check Z dec n_parity badmap (redirect ptr index pw) eptr (pw + length index) magic h of
              Crash \<Rightarrow> Crash
            | Ret (n, eptr', h') \<Rightarrow> Ret (n, badmap, eptr', h')))"

text \<open>The choices of one level, with \<open>k\<close> levels to go.\<close>

fun jerase_brute_recurse ::
  "zlib \<Rightarrow> (chunk list \<Rightarrow> int list \<Rightarrow> chunk list outcome) \<Rightarrow> nat \<Rightarrow> nat list \<Rightarrow> nat \<Rightarrow> magic option \<Rightarrow> nat \<Rightarrow> nat list \<Rightarrow> nat list \<Rightarrow>
   bool list \<times> nat list \<times> je_store \<Rightarrow> (int \<times> bool list \<times> nat list \<times> je_store) outcome" where
  "jerase_brute_recurse Z dec n_parity ptr pw magic 0 index is st = je_brute_check Z dec n_parity ptr pw magic index st"
| "jerase_brute_recurse Z dec n_parity ptr pw magic (Suc k) index [] st = Ret (1, st)"
| "jerase_brute_recurse Z dec n_parity ptr pw magic (Suc k) index (i # is) st =
     (case jerase_brute_recurse Z dec n_parity ptr pw magic k (index @ [i]) [i + 1..<length ptr] st of
        Crash \<Rightarrow> Crash
      | Ret (r, st') \<Rightarrow>
          if r = 0 then Ret (0, st')
          else jerase_brute_recurse Z dec n_parity ptr pw magic (Suc k) index is st')"

text \<open>One, two and more bad devices.\<close>

fun je_brute_counts ::
  "zlib \<Rightarrow> (chunk list \<Rightarrow> int list \<Rightarrow> chunk list outcome) \<Rightarrow> nat \<Rightarrow> nat list \<Rightarrow> nat \<Rightarrow> magic option \<Rightarrow> nat list \<Rightarrow>
   bool list \<times> nat list \<times> je_store \<Rightarrow> (int \<times> bool list \<times> nat list \<times> je_store) outcome" where
  "je_brute_counts Z dec n_parity ptr pw magic [] st = Ret (1, st)"
| "je_brute_counts Z dec n_parity ptr pw magic (k # ks) st =
     (case jerase_brute_recurse Z dec n_parity ptr pw magic k [] [0..<length ptr] st of
        Crash \<Rightarrow> Crash
      | Ret (r, st') \<Rightarrow>
          if r = 0 then Ret (0, st') else je_brute_counts Z dec n_parity ptr pw magic ks st')"

definition jerase_brute_recovery ::
  "zlib \<Rightarrow> (chunk list \<Rightarrow> int list \<Rightarrow> chunk list outcome) \<Rightarrow> nat \<Rightarrow> bool list \<Rightarrow> nat list \<Rightarrow> nat list \<Rightarrow> nat \<Rightarrow> magic option \<Rightarrow>
   je_store \<Rightarrow> (int \<times> bool list \<times> nat list \<times> je_store) outcome" where
  "jerase_brute_recovery Z dec n_parity badmap ptr eptr pw magic h =
     (case jerase_control_check Z dec n_parity badmap ptr eptr pw magic h of
        Crash \<Rightarrow> Crash
      | Ret (n, eptr', h') \<Rightarrow>
          if n = 0 then Ret (0, badmap, eptr', h')
          else
            (let ncheck = (if magic \<noteq> None then n_parity + 1 else n_parity)
             in je_brute_counts Z dec n_parity ptr pw magic [1..<ncheck]
                  (replicate (length ptr) False, eptr', h')))"

section \<open>The tag of a stripe\<close>

text \<open>The different tags in the order in which they are met, each with its devices.\<close>

fun je_magic_add :: "magic \<Rightarrow> nat \<Rightarrow> (magic \<times> nat list) list \<Rightarrow> (magic \<times> nat list) list" where
  "je_magic_add m k [] = [(m, [k])]"
| "je_magic_add m k ((m', ks) # tab) = (if m' = m then (m', ks @ [k]) # tab else (m', ks) # je_magic_add m k tab)"

definition je_magic_table :: "magic list \<Rightarrow> (magic \<times> nat list) list" where
  "je_magic_table ms = foldl (\<lambda>tab (k, m). je_magic_add m k tab) [] (enumerate 0 ms)"

text \<open>The tag with the most devices, the first of them when there are several.\<close>

fun je_quorum :: "magic \<times> nat list \<Rightarrow> (magic \<times> nat list) list \<Rightarrow> magic \<times> nat list" where
  "je_quorum b [] = b"
| "je_quorum b (e # es) = je_quorum (if length (snd b) < length (snd e) then e else b) es"

definition je_stripe_magic :: "magic list \<Rightarrow> magic \<times> nat list" where
  "je_stripe_magic ms = (let tab = je_magic_table ms in je_quorum (hd tab) (tl tab))"

definition je_badmap :: "nat \<Rightarrow> nat list \<Rightarrow> bool list" where
  "je_badmap n good = map (\<lambda>k. k \<notin> set good) [0..<n]"

definition empty_magic :: magic where "empty_magic = replicate JE_MAGIC_SIZE 0"

section \<open>Stripes in memory\<close>

text \<open>
  A transfer of \<open>n\<close> stripes uses a vector whose pieces alternate between tags and chunks: the tags lie in an array of
  their own, the data chunks in the caller's buffer and the parity chunks in a work area. \<open>base\<close> is the first stripe
  of the transfer in the two areas, \<open>boff\<close> its position in the buffer.
\<close>

record je_mem =
  jm_buf :: mem
  jm_magic :: mem
  jm_parity :: mem

definition je_get_magic :: "('g, 'p) segjerase_priv \<Rightarrow> nat \<Rightarrow> je_mem \<Rightarrow> nat \<Rightarrow> magic" where
  "je_get_magic s st m k = mem_get (jm_magic m) (int ((st * n_devs s + k) * JE_MAGIC_SIZE)) (int JE_MAGIC_SIZE)"

definition je_put_magic :: "('g, 'p) segjerase_priv \<Rightarrow> nat \<Rightarrow> nat \<Rightarrow> magic \<Rightarrow> je_mem \<Rightarrow> je_mem" where
  "je_put_magic s st k c m = m\<lparr>jm_magic := mem_put (jm_magic m) (int ((st * n_devs s + k) * JE_MAGIC_SIZE)) c\<rparr>"

definition je_get_chunk :: "('g, 'p) segjerase_priv \<Rightarrow> nat \<Rightarrow> ex_off \<Rightarrow> je_mem \<Rightarrow> nat \<Rightarrow> chunk" where
  "je_get_chunk s st pos m k =
     (if k < n_data_devs s then mem_get (jm_buf m) (pos + int (k * je_chunk_size s)) (int (je_chunk_size s))
      else mem_get (jm_parity m) (int (st * je_parity_size s + (k - n_data_devs s) * je_chunk_size s)) (int (je_chunk_size s)))"

definition je_put_chunk :: "('g, 'p) segjerase_priv \<Rightarrow> nat \<Rightarrow> ex_off \<Rightarrow> nat \<Rightarrow> chunk \<Rightarrow> je_mem \<Rightarrow> je_mem" where
  "je_put_chunk s st pos k c m =
     (if k < n_data_devs s then m\<lparr>jm_buf := mem_put (jm_buf m) (pos + int (k * je_chunk_size s)) c\<rparr>
      else m\<lparr>jm_parity := mem_put (jm_parity m) (int (st * je_parity_size s + (k - n_data_devs s) * je_chunk_size s)) c\<rparr>)"

definition je_gather :: "('g, 'p) segjerase_priv \<Rightarrow> nat \<Rightarrow> ex_off \<Rightarrow> nat \<Rightarrow> je_mem \<Rightarrow> byte list" where
  "je_gather s base boff n m =
     concat (map (\<lambda>t. concat (map (\<lambda>k.
         je_get_magic s (base + t) m k @ je_get_chunk s (base + t) (boff + int (t * je_data_size s)) m k) [0..<n_devs s])) [0..<n])"

definition je_vec_piece :: "('g, 'p) segjerase_priv \<Rightarrow> byte list \<Rightarrow> nat \<Rightarrow> nat \<Rightarrow> byte list" where
  "je_vec_piece s vec t k = take (chunk_size_with_magic s) (drop (t * stripe_size_with_magic s + k * chunk_size_with_magic s) vec)"

definition je_scatter_stripe :: "('g, 'p) segjerase_priv \<Rightarrow> nat \<Rightarrow> ex_off \<Rightarrow> byte list \<Rightarrow> nat \<Rightarrow> je_mem \<Rightarrow> je_mem" where
  "je_scatter_stripe s base boff vec t m =
     fold (\<lambda>k m. je_put_chunk s (base + t) (boff + int (t * je_data_size s)) k (drop JE_MAGIC_SIZE (je_vec_piece s vec t k))
              (je_put_magic s (base + t) k (take JE_MAGIC_SIZE (je_vec_piece s vec t k)) m)) [0..<n_devs s] m"

definition je_scatter :: "('g, 'p) segjerase_priv \<Rightarrow> nat \<Rightarrow> ex_off \<Rightarrow> nat \<Rightarrow> byte list \<Rightarrow> je_mem \<Rightarrow> je_mem" where
  "je_scatter s base boff n vec m = fold (je_scatter_stripe s base boff vec) [0..<n] m"

section \<open>Reading\<close>

definition je_dec ::
  "('x, 'y, 'z) jerasure_lib \<Rightarrow> ('g, ('x, 'y, 'z) erasure_plan option) segjerase_priv \<Rightarrow> chunk list \<Rightarrow> int list \<Rightarrow> chunk list outcome" where
  "je_dec J s cs er = (case je_plan s of None \<Rightarrow> Crash | Some p \<Rightarrow> et_decode_block J p cs (je_chunk_size s) er)"

definition je_enc ::
  "('x, 'y, 'z) jerasure_lib \<Rightarrow> ('g, ('x, 'y, 'z) erasure_plan option) segjerase_priv \<Rightarrow> chunk list \<Rightarrow> chunk list outcome" where
  "je_enc J s cs = (case je_plan s of None \<Rightarrow> Crash | Some p \<Rightarrow> et_encode_block J p cs (je_chunk_size s))"

text \<open>
  \<open>jr_op\<close> is the variable \<open>op_status\<close>, which is only set when chunks are missing; \<open>jr_pwork\<close> are the work buffers and
  \<open>jr_brute\<close> the map of bad devices of the last successful search.
\<close>

record je_read_state =
  jr_mem :: je_mem
  jr_pwork :: "chunk list"
  jr_status :: op_status
  jr_soft :: bool
  jr_hard :: bool
  jr_brute :: "bool list option"
  jr_op :: int

definition je_read_failed :: "int \<Rightarrow> je_read_state \<Rightarrow> je_read_state" where
  "je_read_failed code r = r\<lparr>jr_status := \<lparr>op_state = OP_STATE_FAILURE, error_code = code\<rparr>, jr_hard := True\<rparr>"

text \<open>The check of a stripe and the repair of its chunks. \<open>good\<close> are the devices with the tag \<open>m\<close>.\<close>

definition je_write_back :: "('g, 'p) segjerase_priv \<Rightarrow> nat \<Rightarrow> ex_off \<Rightarrow> je_store \<Rightarrow> je_read_state \<Rightarrow> je_read_state" where
  "je_write_back s st pos h r =
     r\<lparr>jr_mem := fold (\<lambda>k. je_put_chunk s st pos k (h ! k)) [0..<n_devs s] (jr_mem r), jr_pwork := drop (n_devs s) h\<rparr>"

definition je_copy_data :: "nat \<Rightarrow> nat list \<Rightarrow> nat list \<Rightarrow> je_store \<Rightarrow> je_store" where
  "je_copy_data n_data ptr eptr h = fold (\<lambda>k h. if eptr ! k \<noteq> ptr ! k then h[ptr ! k := h ! (eptr ! k)] else h) [0..<n_data] h"

definition je_read_recover ::
  "zlib \<Rightarrow> ('x, 'y, 'z) jerasure_lib \<Rightarrow> ('g, ('x, 'y, 'z) erasure_plan option) segjerase_priv \<Rightarrow> nat \<Rightarrow> ex_off \<Rightarrow> magic \<Rightarrow> nat list \<Rightarrow>
   je_read_state \<Rightarrow> je_read_state outcome" where
  "je_read_recover Z J s st pos m good r =
     (let n = n_devs s; ptr = [0..<n]; h = map (je_get_chunk s st pos (jr_mem r)) ptr @ jr_pwork r;
          badmap = je_badmap n good; magic = (if magic_cksum s = 0 then None else Some m)
      in case jerase_control_check Z (je_dec J s) (n_parity_devs s) badmap ptr (replicate n 0) n magic h of
           Crash \<Rightarrow> Crash
         | Ret (e, eptr, h1) \<Rightarrow>
             if e = 0 then Ret (je_write_back s st pos h1 r)
             else
               (case jerase_brute_recovery Z (je_dec J s) (n_parity_devs s) (case jr_brute r of None \<Rightarrow> badmap | Some b \<Rightarrow> b)
                       ptr eptr n magic h1 of
                  Crash \<Rightarrow> Crash
                | Ret (e2, bm, eptr2, h2) \<Rightarrow>
                    if e2 = 0 then
                      Ret ((je_write_back s st pos (je_copy_data (n_data_devs s) ptr eptr2 h2) r)\<lparr>jr_brute := Some bm\<rparr>)
                    else Ret (je_read_failed (jr_op r) (je_write_back s st pos h2 r))))"

definition je_blank :: "('g, 'p) segjerase_priv \<Rightarrow> nat \<Rightarrow> ex_off \<Rightarrow> je_mem \<Rightarrow> je_mem" where
  "je_blank s st pos m = fold (\<lambda>k. je_put_chunk s st pos k (replicate (je_chunk_size s) 0)) [0..<n_data_devs s] m"

definition je_read_stripe ::
  "zlib \<Rightarrow> ('x, 'y, 'z) jerasure_lib \<Rightarrow> ('g, ('x, 'y, 'z) erasure_plan option) segjerase_priv \<Rightarrow> int \<Rightarrow> nat \<Rightarrow> ex_off \<Rightarrow>
   je_read_state \<Rightarrow> je_read_state outcome" where
  "je_read_stripe Z J s code st pos r =
     (case je_stripe_magic (map (je_get_magic s st (jr_mem r)) [0..<n_devs s]) of
        (m, good) \<Rightarrow>
          (let paranoid = (if code \<noteq> 0 then 1 else paranoid_check s);
               data_ok = (if length good \<noteq> n_devs s then
                            (if length (filter (\<lambda>k. k < n_data_devs s) good) \<noteq> n_data_devs s then 0 else 1)
                          else if m = empty_magic then (if code < int (n_parity_devs s) then 2 else -1)
                          else (1 :: int))
           in if data_ok = 1 then (if paranoid = 1 then je_read_recover Z J s st pos m good r else Ret r)
              else if data_ok = 2 then Ret (r\<lparr>jr_mem := je_blank s st pos (jr_mem r)\<rparr>)
              else if length good < n_data_devs s \<or> data_ok = -1 then Ret (je_read_failed code (r\<lparr>jr_op := code\<rparr>))
              else je_read_recover Z J s st pos m good
                     (r\<lparr>jr_op := code, jr_status := (jr_status r)\<lparr>error_code := code\<rparr>, jr_soft := True\<rparr>)))"

fun je_read_stripes ::
  "zlib \<Rightarrow> ('x, 'y, 'z) jerasure_lib \<Rightarrow> ('g, ('x, 'y, 'z) erasure_plan option) segjerase_priv \<Rightarrow> int \<Rightarrow> nat \<Rightarrow> ex_off \<Rightarrow> nat \<Rightarrow>
   je_read_state \<Rightarrow> je_read_state outcome" where
  "je_read_stripes Z J s code st pos 0 r = Ret r"
| "je_read_stripes Z J s code st pos (Suc n) r =
     (case je_read_stripe Z J s code st pos r of
        Crash \<Rightarrow> Crash
      | Ret r' \<Rightarrow> je_read_stripes Z J s code (st + 1) (pos + int (je_data_size s)) n r')"

text \<open>The reads that wait in the queue, and their checks. The offset into the vector is that of the buffer.\<close>

record je_task =
  jt_extent :: ex_iovec
  jt_base :: nat
  jt_nstripes :: nat
  jt_boff :: ex_off

fun je_read_tasks ::
  "'g je_child \<Rightarrow> zlib \<Rightarrow> ('x, 'y, 'z) jerasure_lib \<Rightarrow> ('g, ('x, 'y, 'z) erasure_plan option) segjerase_priv \<Rightarrow> int \<Rightarrow>
   je_task list \<Rightarrow> je_read_state \<Rightarrow> 'g \<Rightarrow> (je_read_state \<times> 'g) outcome" where
  "je_read_tasks C Z J s hint [] r g = Ret (r, g)"
| "je_read_tasks C Z J s hint (q # qs) r g =
     (case jc_read C g (Some hint) [jt_extent q] (je_gather s (jt_base q) (jt_boff q) (jt_nstripes q) (jr_mem r)) (jt_boff q) of
        (st, vec, g') \<Rightarrow>
          (case je_read_stripes Z J s (error_code st) (jt_base q) (jt_boff q) (jt_nstripes q)
                  (r\<lparr>jr_mem := je_scatter s (jt_base q) (jt_boff q) (jt_nstripes q) vec (jr_mem r)\<rparr>) of
             Crash \<Rightarrow> Crash
           | Ret r' \<Rightarrow> je_read_tasks C Z J s hint qs r' g'))"

definition je_stripes :: "('g, 'p) segjerase_priv \<Rightarrow> ex_iovec \<Rightarrow> nat" where
  "je_stripes s v = nat (c_div (iov_len v) (int (je_data_size s)))"

definition je_extent :: "('g, 'p) segjerase_priv \<Rightarrow> ex_iovec \<Rightarrow> ex_iovec" where
  "je_extent s v =
     ex_iovec_single (c_div (iov_offset v) (int (je_data_size s)) * int (stripe_size_with_magic s))
       (int (je_stripes s v * stripe_size_with_magic s))"

text \<open>The parity area holds all stripes, or as many as \<open>max_parity\<close> allows but at least those of any one extent.\<close>

definition je_parity_len :: "('g, 'p) segjerase_priv \<Rightarrow> ex_iovec list \<Rightarrow> int" where
  "je_parity_len s iov =
     (let len = int (sum_list (map (je_stripes s) iov) * je_parity_size s)
      in if max_parity s < len then foldl (\<lambda>p v. max p (int (je_stripes s v * je_parity_size s))) (max_parity s) iov else len)"

fun je_read_loop ::
  "'g je_child \<Rightarrow> zlib \<Rightarrow> ('x, 'y, 'z) jerasure_lib \<Rightarrow> ('g, ('x, 'y, 'z) erasure_plan option) segjerase_priv \<Rightarrow> int \<Rightarrow> int \<Rightarrow>
   ex_iovec list \<Rightarrow> ex_off \<Rightarrow> je_task list \<Rightarrow> nat \<Rightarrow> je_read_state \<Rightarrow> 'g \<Rightarrow> (je_read_state \<times> 'g) outcome" where
  "je_read_loop C Z J s hint parity_len [] boff pend cur r g = je_read_tasks C Z J s hint pend r g"
| "je_read_loop C Z J s hint parity_len (v # vs) boff pend cur r g =
     (if int (je_stripes s v * je_parity_size s) + int (cur * je_parity_size s) > parity_len then
        (case je_read_tasks C Z J s hint pend r g of
           Crash \<Rightarrow> Crash
         | Ret (r', g') \<Rightarrow>
             je_read_loop C Z J s hint parity_len vs (boff + iov_len v)
               [\<lparr>jt_extent = je_extent s v, jt_base = 0, jt_nstripes = je_stripes s v, jt_boff = boff\<rparr>] (je_stripes s v) r' g')
      else
        je_read_loop C Z J s hint parity_len vs (boff + iov_len v)
          (pend @ [\<lparr>jt_extent = je_extent s v, jt_base = cur, jt_nstripes = je_stripes s v, jt_boff = boff\<rparr>])
          (cur + je_stripes s v) r g)"

text \<open>The number of devices the black list may drop, none in the second attempt.\<close>

definition je_hint :: "('g, 'p) segjerase_priv \<Rightarrow> int option \<Rightarrow> bool \<Rightarrow> int" where
  "je_hint s hints retry =
     (if retry then 0
      else case hints of None \<Rightarrow> int (n_parity_devs s) | Some b \<Rightarrow> min b (int (n_parity_devs s)))"

text \<open>
  \<open>junk\<close> is what the parity area, the work buffers and \<open>op_status\<close> hold before they are set; the tags are cleared.
\<close>

record je_junk =
  jk_parity :: mem
  jk_pwork :: "chunk list"
  jk_op :: int

definition je_read_attempt ::
  "'g je_child \<Rightarrow> zlib \<Rightarrow> ('x, 'y, 'z) jerasure_lib \<Rightarrow> je_junk \<Rightarrow> ('g, ('x, 'y, 'z) erasure_plan option) segjerase_priv \<Rightarrow> int \<Rightarrow>
   ex_iovec list \<Rightarrow> mem \<Rightarrow> ex_off \<Rightarrow> 'g \<Rightarrow> (je_read_state \<times> 'g) outcome" where
  "je_read_attempt C Z J junk s hint iov buffer boff g =
     je_read_loop C Z J s hint (je_parity_len s iov) iov boff [] 0
       \<lparr>jr_mem = \<lparr>jm_buf = buffer, jm_magic = (\<lambda>_. 0), jm_parity = jk_parity junk\<rparr>, jr_pwork = jk_pwork junk,
        jr_status = op_success_status, jr_soft = False, jr_hard = False, jr_brute = None, jr_op = jk_op junk\<rparr> g"

definition je_count_errors :: "bool \<Rightarrow> bool \<Rightarrow> ('g, 'p) segjerase_priv \<Rightarrow> ('g, 'p) segjerase_priv" where
  "je_count_errors soft hard s =
     s\<lparr>je_soft_errors := (if soft then je_soft_errors s + 1 else je_soft_errors s),
       je_hard_errors := (if hard then je_hard_errors s + 1 else je_hard_errors s)\<rparr>"

definition segjerase_read_func ::
  "'g je_child \<Rightarrow> zlib \<Rightarrow> ('x, 'y, 'z) jerasure_lib \<Rightarrow> je_junk \<Rightarrow> ('g, ('x, 'y, 'z) erasure_plan option) segjerase_priv \<Rightarrow> int option \<Rightarrow>
   ex_iovec list \<Rightarrow> mem \<Rightarrow> ex_off \<Rightarrow> (op_status \<times> mem \<times> ('g, ('x, 'y, 'z) erasure_plan option) segjerase_priv) outcome" where
  "segjerase_read_func C Z J junk s hints iov buffer boff =
     (let finish = (\<lambda>r g. Ret (jr_status r, jm_buf (jr_mem r), je_count_errors (jr_soft r) (jr_hard r) (s\<lparr>child_seg := g\<rparr>)))
      in case je_read_attempt C Z J junk s (je_hint s hints False) iov buffer boff (child_seg s) of
           Crash \<Rightarrow> Crash
         | Ret (r, g) \<Rightarrow>
             if jr_hard r \<and> je_blacklist s then
               (case je_read_attempt C Z J (junk\<lparr>jk_pwork := jr_pwork r, jk_op := jr_op r\<rparr>) s (je_hint s hints True) iov
                       (jm_buf (jr_mem r)) boff g of
                  Crash \<Rightarrow> Crash
                | Ret (r2, g2) \<Rightarrow> finish r2 g2)
             else finish r g)"

text \<open>The extents have to consist of whole stripes; otherwise there is no operation.\<close>

definition je_aligned :: "('g, 'p) segjerase_priv \<Rightarrow> ex_iovec list \<Rightarrow> bool" where
  "je_aligned s iov \<longleftrightarrow> (\<forall>v \<in> set iov. int (je_data_size s) dvd iov_offset v \<and> int (je_data_size s) dvd iov_len v)"

definition segjerase_read ::
  "'g je_child \<Rightarrow> zlib \<Rightarrow> ('x, 'y, 'z) jerasure_lib \<Rightarrow> je_junk \<Rightarrow> ('g, ('x, 'y, 'z) erasure_plan option) segjerase_priv \<Rightarrow> int option \<Rightarrow>
   ex_iovec list \<Rightarrow> mem \<Rightarrow> ex_off \<Rightarrow> (op_status \<times> mem \<times> ('g, ('x, 'y, 'z) erasure_plan option) segjerase_priv) option outcome" where
  "segjerase_read C Z J junk s hints iov buffer boff =
     (if je_data_size s = 0 \<and> iov \<noteq> [] then Crash
      else if \<not> je_aligned s iov then Ret None
      else (case segjerase_read_func C Z J junk s hints iov buffer boff of Crash \<Rightarrow> Crash | Ret x \<Rightarrow> Ret (Some x)))"

section \<open>Writing\<close>

text \<open>
  The bytes of one stripe: the data of the buffer, encoded and tagged. The result has the parity area too.
\<close>

definition je_stripe_bytes :: "magic \<Rightarrow> chunk list \<Rightarrow> byte list" where
  "je_stripe_bytes m cs = concat (map (\<lambda>c. m @ c) cs)"

definition je_write_stripe ::
  "zlib \<Rightarrow> ('x, 'y, 'z) jerasure_lib \<Rightarrow> ('g, ('x, 'y, 'z) erasure_plan option) segjerase_priv \<Rightarrow> nat \<Rightarrow> ex_off \<Rightarrow> je_mem \<Rightarrow>
   (byte list \<times> je_mem) outcome" where
  "je_write_stripe Z J s st pos m =
     (case je_enc J s (map (je_get_chunk s st pos m) [0..<n_devs s]) of
        Crash \<Rightarrow> Crash
      | Ret cs \<Rightarrow>
          Ret (je_stripe_bytes (je_cksum_calc Z cs) cs,
               fold (\<lambda>k. je_put_chunk s st pos k (cs ! k)) [n_data_devs s..<n_devs s] m))"

fun je_write_stripes ::
  "zlib \<Rightarrow> ('x, 'y, 'z) jerasure_lib \<Rightarrow> ('g, ('x, 'y, 'z) erasure_plan option) segjerase_priv \<Rightarrow> nat \<Rightarrow> ex_off \<Rightarrow> nat \<Rightarrow> je_mem \<Rightarrow>
   (byte list \<times> je_mem) outcome" where
  "je_write_stripes Z J s st pos 0 m = Ret ([], m)"
| "je_write_stripes Z J s st pos (Suc n) m =
     (case je_write_stripe Z J s st pos m of
        Crash \<Rightarrow> Crash
      | Ret (bs, m1) \<Rightarrow>
          (case je_write_stripes Z J s (st + 1) (pos + int (je_data_size s)) n m1 of
             Crash \<Rightarrow> Crash
           | Ret (bs', m2) \<Rightarrow> Ret (bs @ bs', m2)))"

record je_write_state =
  jw_status :: op_status
  jw_soft :: bool
  jw_hard :: bool

definition je_write_result :: "('g, 'p) segjerase_priv \<Rightarrow> op_status \<Rightarrow> je_write_state \<Rightarrow> je_write_state" where
  "je_write_result s st w =
     (if op_state st = OP_STATE_SUCCESS then w
      else if error_code st > int (n_parity_devs s) then w\<lparr>jw_status := st, jw_hard := True\<rparr>
      else w\<lparr>jw_status := (jw_status w)\<lparr>error_code := error_code st\<rparr>, jw_soft := True\<rparr>)"

fun je_write_tasks ::
  "'g je_child \<Rightarrow> ('g, 'p) segjerase_priv \<Rightarrow> int \<Rightarrow> (ex_iovec \<times> byte list \<times> ex_off) list \<Rightarrow> je_write_state \<Rightarrow> 'g \<Rightarrow> je_write_state \<times> 'g" where
  "je_write_tasks C s hint [] w g = (w, g)"
| "je_write_tasks C s hint ((v, vec, boff) # qs) w g =
     (case jc_write C g (Some hint) [v] vec boff of
        (st, g') \<Rightarrow> je_write_tasks C s hint qs (je_write_result s st w) g')"

fun je_write_loop ::
  "'g je_child \<Rightarrow> zlib \<Rightarrow> ('x, 'y, 'z) jerasure_lib \<Rightarrow> ('g, ('x, 'y, 'z) erasure_plan option) segjerase_priv \<Rightarrow> int \<Rightarrow> int \<Rightarrow>
   ex_iovec list \<Rightarrow> ex_off \<Rightarrow> (ex_iovec \<times> byte list \<times> ex_off) list \<Rightarrow> nat \<Rightarrow> je_mem \<Rightarrow> je_write_state \<Rightarrow> 'g \<Rightarrow>
   (je_write_state \<times> 'g) outcome" where
  "je_write_loop C Z J s hint parity_len [] boff pend cur m w g = Ret (je_write_tasks C s hint pend w g)"
| "je_write_loop C Z J s hint parity_len (v # vs) boff pend cur m w g =
     (let flush = int (je_stripes s v * je_parity_size s) + int (cur * je_parity_size s) > parity_len;
          (w1, g1) = (if flush then je_write_tasks C s hint pend w g else (w, g));
          pend1 = (if flush then [] else pend); curr1 = (if flush then 0 else cur)
      in case je_write_stripes Z J s curr1 boff (je_stripes s v) m of
           Crash \<Rightarrow> Crash
         | Ret (vec, m') \<Rightarrow>
             je_write_loop C Z J s hint parity_len vs (boff + iov_len v) (pend1 @ [(je_extent s v, vec, boff)])
               (curr1 + je_stripes s v) m' w1 g1)"

definition je_write_attempt ::
  "'g je_child \<Rightarrow> zlib \<Rightarrow> ('x, 'y, 'z) jerasure_lib \<Rightarrow> je_junk \<Rightarrow> ('g, ('x, 'y, 'z) erasure_plan option) segjerase_priv \<Rightarrow> int \<Rightarrow>
   ex_iovec list \<Rightarrow> mem \<Rightarrow> ex_off \<Rightarrow> 'g \<Rightarrow> (je_write_state \<times> 'g) outcome" where
  "je_write_attempt C Z J junk s hint iov buffer boff g =
     je_write_loop C Z J s hint (je_parity_len s iov) iov boff [] 0
       \<lparr>jm_buf = buffer, jm_magic = (\<lambda>_. 0), jm_parity = jk_parity junk\<rparr>
       \<lparr>jw_status = op_success_status, jw_soft = False, jw_hard = False\<rparr> g"

definition segjerase_write_func ::
  "'g je_child \<Rightarrow> zlib \<Rightarrow> ('x, 'y, 'z) jerasure_lib \<Rightarrow> je_junk \<Rightarrow> ('g, ('x, 'y, 'z) erasure_plan option) segjerase_priv \<Rightarrow> int option \<Rightarrow>
   ex_iovec list \<Rightarrow> mem \<Rightarrow> ex_off \<Rightarrow> (op_status \<times> ('g, ('x, 'y, 'z) erasure_plan option) segjerase_priv) outcome" where
  "segjerase_write_func C Z J junk s hints iov buffer boff =
     (let finish = (\<lambda>w g.
            Ret (jw_status w,
                 if jw_soft w \<or> jw_hard w
                 then je_count_errors (jw_soft w) (jw_hard w) (s\<lparr>child_seg := g, write_errors := 1, paranoid_check := 1\<rparr>)
                 else s\<lparr>child_seg := g\<rparr>))
      in case je_write_attempt C Z J junk s (je_hint s hints False) iov buffer boff (child_seg s) of
           Crash \<Rightarrow> Crash
         | Ret (w, g) \<Rightarrow>
             if jw_hard w \<and> je_blacklist s then
               (case je_write_attempt C Z J junk s (je_hint s hints True) iov buffer boff g of
                  Crash \<Rightarrow> Crash
                | Ret (w2, g2) \<Rightarrow> finish w2 g2)
             else finish w g)"

definition segjerase_write ::
  "'g je_child \<Rightarrow> zlib \<Rightarrow> ('x, 'y, 'z) jerasure_lib \<Rightarrow> je_junk \<Rightarrow> ('g, ('x, 'y, 'z) erasure_plan option) segjerase_priv \<Rightarrow> int option \<Rightarrow>
   ex_iovec list \<Rightarrow> mem \<Rightarrow> ex_off \<Rightarrow> (op_status \<times> ('g, ('x, 'y, 'z) erasure_plan option) segjerase_priv) option outcome" where
  "segjerase_write C Z J junk s hints iov buffer boff =
     (if je_data_size s = 0 \<and> iov \<noteq> [] then Crash
      else if \<not> je_aligned s iov then Ret None
      else (case segjerase_write_func C Z J junk s hints iov buffer boff of Crash \<Rightarrow> Crash | Ret x \<Rightarrow> Ret (Some x)))"

section \<open>The other operations\<close>

definition segjerase_flush :: "('g, 'p) segjerase_priv \<Rightarrow> ex_off \<Rightarrow> ex_off \<Rightarrow> op_status \<times> ('g, 'p) segjerase_priv" where
  "segjerase_flush s lo hi = (op_success_status, s)"

definition segjerase_remove :: "'g je_child \<Rightarrow> ('g, 'p) segjerase_priv \<Rightarrow> op_status \<times> ('g, 'p) segjerase_priv" where
  "segjerase_remove C s = (let (st, g) = jc_remove C (child_seg s) in (st, s\<lparr>child_seg := g\<rparr>))"

text \<open>Sizes are rounded up to whole stripes; a negative size reserves space.\<close>

definition je_tweaked_size :: "('g, 'p) segjerase_priv \<Rightarrow> ex_off \<Rightarrow> ex_off" where
  "je_tweaked_size s new_size =
     (let abs_size = (if new_size < 0 then - new_size else new_size); d = int (je_data_size s);
          n = (if abs_size mod d > 0 then abs_size div d + 1 else abs_size div d) * int (stripe_size_with_magic s)
      in if new_size < 0 then - n else n)"

definition segjerase_truncate ::
  "'g je_child \<Rightarrow> ('g, 'p) segjerase_priv \<Rightarrow> ex_off \<Rightarrow> (op_status \<times> ('g, 'p) segjerase_priv) outcome" where
  "segjerase_truncate C s new_size =
     (if je_data_size s = 0 then Crash
      else (let s1 = (if new_size = 0 then s\<lparr>magic_cksum := 1\<rparr> else s);
                (st, g) = jc_truncate C (child_seg s) (je_tweaked_size s new_size)
            in Ret (st, s1\<lparr>child_seg := g\<rparr>)))"

definition segjerase_block_size :: "('g, 'p) segjerase_priv \<Rightarrow> ex_off" where
  "segjerase_block_size s = int (je_data_size s)"

definition segjerase_size :: "'g je_child \<Rightarrow> ('g, 'p) segjerase_priv \<Rightarrow> ex_off outcome" where
  "segjerase_size C s =
     (if stripe_size_with_magic s = 0 then Crash
      else Ret (c_div (jc_size C (child_seg s)) (int (stripe_size_with_magic s)) * int (je_data_size s)))"

definition segjerase_signature :: "'g je_child \<Rightarrow> ('g, 'p) segjerase_priv \<Rightarrow> string" where
  "segjerase_signature C s =
     ''jerase('' @ newline @
     ''    method='' @ JE_method ! nat (je_method s) @ newline @
     ''    n_data_devs='' @ print_nat (n_data_devs s) @ newline @
     ''    n_parity_devs='' @ print_nat (n_parity_devs s) @ newline @
     ''    chunk_size='' @ print_nat (je_chunk_size s) @ newline @
     ''    magic_cksum='' @ print_int (magic_cksum s) @ newline @
     ''    w='' @ print_int (je_w s) @ newline @ '')'' @ newline @
     jc_signature C (child_seg s)"

section \<open>The size of a file\<close>

text \<open>
  C38: Truncation to \<open>n\<close> bytes gives the smallest size of whole stripes that holds them, when the child takes exactly the size it is
  asked for. The size the segment reports counts data only: the stripes of the child are longer, by the parity and the tags.
\<close>

theorem segjerase_truncate_size:
  assumes s: "0 < je_data_size s" "0 \<le> new_size"
    and t: "jc_truncate C (child_seg s) (je_tweaked_size s new_size) = (st, g)" "jc_size C g = je_tweaked_size s new_size"
  shows "\<exists>s' m. segjerase_truncate C s new_size = Ret (st, s') \<and> segjerase_size C s' = Ret m \<and>
    new_size \<le> m \<and> m < new_size + int (je_data_size s) \<and> int (je_data_size s) dvd m \<and> (new_size = 0 \<longrightarrow> magic_cksum s' = 1)"
proof -
  let ?d = "int (je_data_size s)" and ?S = "int (stripe_size_with_magic s)"
  let ?n = "if new_size mod ?d > 0 then new_size div ?d + 1 else new_size div ?d"
  have S: "0 < ?S" using s(1) by (auto simp: je_size_defs)
  have n: "0 \<le> ?n" using s by (simp add: pos_imp_zdiv_nonneg_iff)
  have tw: "je_tweaked_size s new_size = ?n * ?S" using s(2) by (simp add: je_tweaked_size_def Let_def)
  define s' where "s' = (if new_size = 0 then s\<lparr>magic_cksum := 1\<rparr> else s)\<lparr>child_seg := g\<rparr>"
  have same: "je_data_size s' = je_data_size s" "stripe_size_with_magic s' = stripe_size_with_magic s" "child_seg s' = g"
    by (simp_all add: s'_def je_size_defs)
  have "c_div (?n * ?S) ?S = ?n" using n S by simp
  then have "segjerase_size C s' = Ret (?n * ?d)" using t(2) tw S by (simp add: segjerase_size_def same)
  moreover have "segjerase_truncate C s new_size = Ret (st, s')" using t(1) s(1) by (simp add: segjerase_truncate_def s'_def Let_def)
  moreover have "new_size \<le> ?n * ?d \<and> ?n * ?d < new_size + ?d"
  proof -
    define q r where "q = new_size div ?d" and "r = new_size mod ?d"
    have "new_size = q * ?d + r" "0 \<le> r" "r < ?d" using s(1) by (simp_all add: q_def r_def)
    then show ?thesis unfolding q_def [symmetric] r_def [symmetric] by (cases "r > 0") (auto simp: distrib_right)
  qed
  ultimately show ?thesis by (auto simp: s'_def)
qed

text \<open>A child that only has a size, and a segment of three devices with chunks of two bytes.\<close>

definition sized_child :: "ex_off je_child" where
  "sized_child =
     \<lparr>jc_read = (\<lambda>g hint vs vec off. (op_success_status, vec, g)), jc_write = (\<lambda>g hint vs vec off. (op_success_status, g)),
      jc_inspect = (\<lambda>g m. (op_success_status, [], g)), jc_truncate = (\<lambda>g n. (op_success_status, n)),
      jc_remove = (\<lambda>g. (op_success_status, 0)), jc_clone = (\<lambda>g c m. (op_success_status, g)), jc_size = (\<lambda>g. g),
      jc_signature = (\<lambda>g. [])\<rparr>"

definition no_jerasure :: "(unit, unit, unit) jerasure_lib" where
  "no_jerasure =
     \<lparr>reed_sol_r6_coding_matrix = (\<lambda>_ _. None), reed_sol_vandermonde_coding_matrix = (\<lambda>_ _ _. None),
      cauchy_original_coding_matrix = (\<lambda>_ _ _. None), cauchy_good_general_coding_matrix = (\<lambda>_ _ _. None),
      jerasure_matrix_to_bitmatrix = (\<lambda>_ _ _ _. None), blaum_roth_coding_bitmatrix = (\<lambda>_ _. None),
      liberation_coding_bitmatrix = (\<lambda>_ _. None), liber8tion_coding_bitmatrix = (\<lambda>_. None),
      jerasure_smart_bitmatrix_to_schedule = (\<lambda>_ _ _ _. None), jerasure_schedule_encode = (\<lambda>_ _ _ _ _ _ _ _. Crash),
      jerasure_matrix_encode = (\<lambda>_ _ _ _ _ _ _. Crash), reed_sol_r6_encode = (\<lambda>_ _ _ _ _. Crash),
      jerasure_matrix_decode = (\<lambda>_ _ _ _ _ _ _ _. Crash), jerasure_schedule_decode_lazy = (\<lambda>_ _ _ _ _ _ _ _ _. Crash)\<rparr>"

definition small_segment :: "(ex_off, (unit, unit, unit) erasure_plan option) segjerase_priv" where
  "small_segment =
     \<lparr>child_seg = 0, je_plan = None, je_blacklist = False, max_parity = 0, write_errors = 0, je_soft_errors = 0,
      je_hard_errors = 0, je_method = RAID4, n_data_devs = 2, n_parity_devs = 1, magic_cksum = 1, je_chunk_size = 2,
      paranoid_check = 0, je_w = 8\<rparr>"

lemma small_segment_sizes: "je_data_size small_segment = 4" "stripe_size_with_magic small_segment = 18" "child_seg small_segment = 0"
  by (simp_all add: small_segment_def je_size_defs)

theorem segjerase_truncate_size_witness:
  "\<exists>s' m. segjerase_truncate sized_child small_segment 5 = Ret (op_success_status, s') \<and> segjerase_size sized_child s' = Ret m \<and> 5 \<le> m \<and> m < 9"
  using segjerase_truncate_size [of small_segment 5 sized_child op_success_status "je_tweaked_size small_segment 5"]
  by (auto simp: small_segment_sizes sized_child_def)

end
