(* ===== verification/Jerasure_Inspect.thy ===== *)
theory Jerasure_Inspect
  imports Segment_Jerasure Lun_Inspect Segment_Linear
begin

unbundle bit_operations_syntax

text \<open>
  The inspection of an erasure coded segment, \<open>src/segment_jerasure.c\<close>: the byte-level check of a range of stripes with its
  repairs, the scan of the tags, and the inspection that combines them with the one of the child. Messages are left out.
\<close>

section \<open>Checking all bytes\<close>

definition INSPECT_FAIL_ON_ERROR :: int where "INSPECT_FAIL_ON_ERROR = 1024"
definition INSPECT_RESULT_FULL_CHECK :: int where "INSPECT_RESULT_FULL_CHECK = 512"
definition INSPECT_RESULT_SOFT_ERROR :: int where "INSPECT_RESULT_SOFT_ERROR = 1024"
definition INSPECT_RESULT_COUNT_MASK :: int where "INSPECT_RESULT_COUNT_MASK = 511"
definition INSPECT_WRITE_ERRORS :: int where "INSPECT_WRITE_ERRORS = 10"

text \<open>
  The state of a check: the bytes of the stripes in the buffer, the extents that are to be written (in the child, and
  their positions in the buffer), the work buffers and the counters.
\<close>

record je_full =
  jf_vec :: "byte list"
  jf_iov :: "(ex_iovec \<times> nat) list"
  jf_pwork :: "chunk list"
  jf_brute :: "bool list option"
  jf_repair :: nat
  jf_bad :: nat
  jf_erasure :: nat
  jf_unrec :: nat
  jf_empty :: nat
  jf_rerror :: int
  jf_werror :: int

definition je_pos :: "('g, 'p) segjerase_priv \<Rightarrow> nat \<Rightarrow> nat \<Rightarrow> nat" where
  "je_pos s i k = i * stripe_size_with_magic s + k * chunk_size_with_magic s"

definition bytes_put :: "nat \<Rightarrow> byte list \<Rightarrow> byte list \<Rightarrow> byte list" where
  "bytes_put p bs vec = take p vec @ bs @ drop (p + length bs) vec"

text \<open>The chunks of a stripe go back to the buffer, where the decoder has changed them.\<close>

definition je_full_back :: "('g, 'p) segjerase_priv \<Rightarrow> nat \<Rightarrow> je_store \<Rightarrow> je_full \<Rightarrow> je_full" where
  "je_full_back s i h f =
     f\<lparr>jf_vec := fold (\<lambda>k. bytes_put (je_pos s i k + JE_MAGIC_SIZE) (h ! k)) [0..<n_devs s] (jf_vec f),
       jf_pwork := drop (n_devs s) h\<rparr>"

text \<open>The repaired chunks with their tag, and what has to be written of them.\<close>

definition je_full_fix ::
  "zlib \<Rightarrow> ('g, 'p) segjerase_priv \<Rightarrow> ex_off \<Rightarrow> nat \<Rightarrow> magic \<Rightarrow> bool list \<Rightarrow> nat list \<Rightarrow> je_store \<Rightarrow> je_full \<Rightarrow> je_full" where
  "je_full_fix Z s off i m badmap eptr h f =
     (let m' = (if magic_cksum s = 0 then je_cksum_calc Z (cells h eptr) else m);
          ks = filter (\<lambda>k. badmap ! k \<or> magic_cksum s = 0) [0..<n_devs s]
      in f\<lparr>jf_vec := fold (\<lambda>k. bytes_put (je_pos s i k) (m' @ h ! (eptr ! k))) ks (jf_vec f),
           jf_iov := jf_iov f @
             (if magic_cksum s \<noteq> 0 then
                map (\<lambda>k. (ex_iovec_single (off + int (je_pos s i k)) (int (chunk_size_with_magic s)), je_pos s i k)) ks
              else [])\<rparr>)"

definition je_full_check ::
  "zlib \<Rightarrow> ('x, 'y, 'z) jerasure_lib \<Rightarrow> ('g, ('x, 'y, 'z) erasure_plan option) segjerase_priv \<Rightarrow> bool \<Rightarrow> ex_off \<Rightarrow> nat \<Rightarrow> magic \<Rightarrow>
   nat list \<Rightarrow> je_full \<Rightarrow> je_full outcome" where
  "je_full_check Z J s do_fix off i m good f =
     (let n = n_devs s; ptr = [0..<n];
          h = map (\<lambda>k. drop JE_MAGIC_SIZE (je_vec_piece s (jf_vec f) i k)) ptr @ jf_pwork f;
          badmap = je_badmap n good; magic = (if magic_cksum s = 0 then None else Some m);
          fix_it = (\<lambda>bm eptr h f. if do_fix then je_full_fix Z s off i m bm eptr h f else f)
      in case jerase_control_check Z (je_dec J s) (n_parity_devs s) badmap ptr (replicate n 0) n magic h of
           Crash \<Rightarrow> Crash
         | Ret (e, eptr, h1) \<Rightarrow>
             if e = 0 then
               (if length good \<noteq> n then Ret (fix_it badmap eptr h1 ((je_full_back s i h1 f)\<lparr>jf_bad := jf_bad f + 1\<rparr>))
                else if magic_cksum s \<noteq> 0 then Ret (je_full_back s i h1 f)
                else Ret (fix_it badmap eptr h1 (je_full_back s i h1 f)))
             else
               (let f1 = f\<lparr>jf_bad := jf_bad f + 1, jf_erasure := jf_erasure f + 1\<rparr>
                in case jerase_brute_recovery Z (je_dec J s) (n_parity_devs s) (case jf_brute f of None \<Rightarrow> badmap | Some b \<Rightarrow> b)
                          ptr eptr n magic h1 of
                     Crash \<Rightarrow> Crash
                   | Ret (e2, bm, eptr2, h2) \<Rightarrow>
                       if e2 = 0 then Ret (fix_it bm eptr2 h2 ((je_full_back s i h2 f1)\<lparr>jf_brute := Some bm\<rparr>))
                       else Ret ((je_full_back s i h2 f1)\<lparr>jf_unrec := jf_unrec f1 + 1\<rparr>)))"

definition je_full_stripe ::
  "zlib \<Rightarrow> ('x, 'y, 'z) jerasure_lib \<Rightarrow> ('g, ('x, 'y, 'z) erasure_plan option) segjerase_priv \<Rightarrow> bool \<Rightarrow> ex_off \<Rightarrow> nat \<Rightarrow>
   je_full \<Rightarrow> je_full outcome" where
  "je_full_stripe Z J s do_fix off i f =
     (case je_stripe_magic (map (\<lambda>k. take JE_MAGIC_SIZE (je_vec_piece s (jf_vec f) i k)) [0..<n_devs s]) of
        (m, good) \<Rightarrow>
          if m = empty_magic \<and> length good = n_devs s then Ret (f\<lparr>jf_empty := jf_empty f + 1\<rparr>)
          else if m = empty_magic \<or> length good < n_data_devs s then
            Ret (f\<lparr>jf_unrec := jf_unrec f + 1, jf_bad := jf_bad f + 1\<rparr>)
          else je_full_check Z J s do_fix off i m good f)"

fun je_full_stripes ::
  "zlib \<Rightarrow> ('x, 'y, 'z) jerasure_lib \<Rightarrow> ('g, ('x, 'y, 'z) erasure_plan option) segjerase_priv \<Rightarrow> bool \<Rightarrow> ex_off \<Rightarrow> nat list \<Rightarrow>
   je_full \<Rightarrow> je_full outcome" where
  "je_full_stripes Z J s do_fix off [] f = Ret f"
| "je_full_stripes Z J s do_fix off (i # is) f =
     (case je_full_stripe Z J s do_fix off i f of Crash \<Rightarrow> Crash | Ret f' \<Rightarrow> je_full_stripes Z J s do_fix off is f')"

text \<open>
  One filling of the buffer. Where the tags are no checksums yet, a repair writes everything back.
\<close>

definition je_full_batch ::
  "'g je_child \<Rightarrow> zlib \<Rightarrow> ('x, 'y, 'z) jerasure_lib \<Rightarrow> ('g, ('x, 'y, 'z) erasure_plan option) segjerase_priv \<Rightarrow> bool \<Rightarrow> ex_off \<Rightarrow> nat \<Rightarrow>
   je_full \<Rightarrow> 'g \<Rightarrow> (je_full \<times> 'g) outcome" where
  "je_full_batch C Z J s do_fix off nstripes f g =
     (let len = nstripes * stripe_size_with_magic s; ext = ex_iovec_single off (int len)
      in case jc_read C g None [ext] (replicate len 0) 0 of
           (st, vec, g1) \<Rightarrow>
             (case je_full_stripes Z J s do_fix off [0..<nstripes]
                     (f\<lparr>jf_vec := vec, jf_iov := (if magic_cksum s = 0 \<and> do_fix then [(ext, 0)] else []),
                        jf_rerror := (if op_state st = OP_STATE_SUCCESS then jf_rerror f else jf_rerror f + 1)\<rparr>) of
                Crash \<Rightarrow> Crash
              | Ret f1 \<Rightarrow>
                  if jf_iov f1 = [] then Ret (f1, g1)
                  else (case jc_write C g1 None (map fst (jf_iov f1))
                               (concat (map (\<lambda>(v, p). take (nat (iov_len v)) (drop p (jf_vec f1))) (jf_iov f1))) 0 of
                          (wst, g2) \<Rightarrow>
                            Ret (if op_state wst = OP_STATE_SUCCESS then f1
                                 else f1\<lparr>jf_repair := jf_repair f1 + 1, jf_werror := jf_werror f1 + 1\<rparr>, g2))))"

partial_function (option) je_full_loop ::
  "'g je_child \<Rightarrow> zlib \<Rightarrow> ('x, 'y, 'z) jerasure_lib \<Rightarrow> ('g, ('x, 'y, 'z) erasure_plan option) segjerase_priv \<Rightarrow> bool \<Rightarrow> bool \<Rightarrow> ex_off \<Rightarrow>
   nat \<Rightarrow> nat \<Rightarrow> nat \<Rightarrow> je_full \<Rightarrow> 'g \<Rightarrow> (je_full \<times> 'g) outcome option" where
  "je_full_loop C Z J s do_fix fail_quick base total_stripes bufstripes stripe f g =
     (if stripe < total_stripes then
        (case je_full_batch C Z J s do_fix (base + int (stripe * stripe_size_with_magic s))
                (min (stripe + bufstripes) total_stripes - stripe) f g of
           Crash \<Rightarrow> Some Crash
         | Ret (f', g') \<Rightarrow>
             if jf_repair f' + jf_unrec f' > 0 \<and> fail_quick then Some (Ret (f', g'))
             else je_full_loop C Z J s do_fix fail_quick base total_stripes bufstripes (stripe + bufstripes) f' g')
      else Some (Ret (f, g)))"

declare je_full_loop.simps [code]

definition je_full_status :: "bool \<Rightarrow> je_full \<Rightarrow> op_status" where
  "je_full_status do_fix f =
     (let hard = jf_unrec f > 0 \<or> jf_repair f > 0
      in \<lparr>op_state = (if hard \<or> jf_bad f > 0 \<and> \<not> do_fix then OP_STATE_FAILURE else OP_STATE_SUCCESS),
          error_code = INSPECT_RESULT_FULL_CHECK + (if hard then INSPECT_RESULT_HARD_ERROR else 0) +
            (if \<not> do_fix \<and> jf_bad f > jf_unrec f + jf_repair f then INSPECT_RESULT_SOFT_ERROR else 0)\<rparr>)"

text \<open>The result: the status, the number of bad stripes, the read and write errors, and the child.\<close>

definition segjerase_inspect_full_func ::
  "'g je_child \<Rightarrow> zlib \<Rightarrow> ('x, 'y, 'z) jerasure_lib \<Rightarrow> je_junk \<Rightarrow> ('g, ('x, 'y, 'z) erasure_plan option) segjerase_priv \<Rightarrow> int \<Rightarrow> ex_off \<Rightarrow>
   ex_off \<Rightarrow> ex_off \<Rightarrow> 'g \<Rightarrow> (op_status \<times> nat \<times> int \<times> int \<times> 'g) outcome option" where
  "segjerase_inspect_full_func C Z J junk s mode bufsize lo hi g =
     (if je_data_size s = 0 then Some Crash
      else
        (let do_fix = inspect_repairs mode; d = int (je_data_size s); ssize = int (stripe_size_with_magic s);
             base = c_div lo d * ssize;
             total_stripes = c_div (hi - lo + 1) d;
             buf = min (total_stripes * ssize) bufsize
         in case je_full_loop C Z J s do_fix (mode AND INSPECT_FAIL_ON_ERROR > 0) base (nat total_stripes) (nat (c_div buf ssize)) 0
                   \<lparr>jf_vec = [], jf_iov = [], jf_pwork = jk_pwork junk, jf_brute = None, jf_repair = 0, jf_bad = 0, jf_erasure = 0,
                    jf_unrec = 0, jf_empty = 0, jf_rerror = 0, jf_werror = 0\<rparr> g of
              None \<Rightarrow> None
            | Some Crash \<Rightarrow> Some Crash
            | Some (Ret (f, g')) \<Rightarrow> Some (Ret (je_full_status do_fix f, jf_bad f, jf_rerror f, jf_werror f, g'))))"

section \<open>Scanning the tags\<close>

text \<open>The runs of stripes whose tags differ, as ranges of offsets; \<open>start\<close> is the first stripe of the round.\<close>

fun je_scan_ranges :: "('g, 'p) segjerase_priv \<Rightarrow> nat \<Rightarrow> nat \<Rightarrow> nat option \<Rightarrow> bool list \<Rightarrow> (ex_off \<times> ex_off) list" where
  "je_scan_ranges s start i bad [] =
     (case bad of
        None \<Rightarrow> []
      | Some b \<Rightarrow> [(c_int (int ((start + b) * je_data_size s)), c_int (int ((start + i) * je_data_size s) - 1))])"
| "je_scan_ranges s start i bad (e # es) =
     (if e then je_scan_ranges s start (i + 1) (case bad of None \<Rightarrow> Some i | Some b \<Rightarrow> Some b) es
      else (case bad of
              None \<Rightarrow> je_scan_ranges s start (i + 1) None es
            | Some b \<Rightarrow>
                (c_int (int ((start + b) * je_data_size s)), c_int (int ((start + i) * je_data_size s) - 1)) #
                je_scan_ranges s start (i + 1) None es))"

fun je_scan_repairs ::
  "'g je_child \<Rightarrow> zlib \<Rightarrow> ('x, 'y, 'z) jerasure_lib \<Rightarrow> je_junk \<Rightarrow> ('g, ('x, 'y, 'z) erasure_plan option) segjerase_priv \<Rightarrow> int \<Rightarrow> ex_off \<Rightarrow>
   (ex_off \<times> ex_off) list \<Rightarrow> op_status \<Rightarrow> nat \<Rightarrow> 'g \<Rightarrow> (op_status \<times> nat \<times> 'g) outcome option" where
  "je_scan_repairs C Z J junk s mode bufsize [] st bad g = Some (Ret (st, bad, g))"
| "je_scan_repairs C Z J junk s mode bufsize ((lo, hi) # rs) st bad g =
     (case segjerase_inspect_full_func C Z J junk s mode bufsize lo hi g of
        None \<Rightarrow> None
      | Some Crash \<Rightarrow> Some Crash
      | Some (Ret (st', n, _, _, g')) \<Rightarrow> je_scan_repairs C Z J junk s mode bufsize rs st' (bad + n) g')"

text \<open>
  One round of at most 1024 stripes. The array of tags keeps what a failed read leaves in it. The status is the
  one of the last repair.
\<close>

definition je_scan_round ::
  "'g je_child \<Rightarrow> zlib \<Rightarrow> ('x, 'y, 'z) jerasure_lib \<Rightarrow> je_junk \<Rightarrow> ('g, ('x, 'y, 'z) erasure_plan option) segjerase_priv \<Rightarrow> int \<Rightarrow> ex_off \<Rightarrow>
   nat \<Rightarrow> nat \<Rightarrow> byte list \<Rightarrow> op_status \<Rightarrow> nat \<Rightarrow> 'g \<Rightarrow> (byte list \<times> op_status \<times> nat \<times> 'g) outcome option" where
  "je_scan_round C Z J junk s mode bufsize start n magics st bad g =
     (let exts = map (\<lambda>j. ex_iovec_single (int ((start * n_devs s + j) * chunk_size_with_magic s)) (int JE_MAGIC_SIZE)) [0..<n * n_devs s];
          nb = n * n_devs s * JE_MAGIC_SIZE;
          (rst, vec, g1) = jc_read C g None exts (take nb magics) 0;
          magics1 = vec @ drop nb magics;
          tag = (\<lambda>i j. take JE_MAGIC_SIZE (drop ((i * n_devs s + j) * JE_MAGIC_SIZE) magics1));
          errs = map (\<lambda>i. \<exists>j \<in> {1..<n_devs s}. tag i 0 \<noteq> tag i j) [0..<n];
          rs = (if inspect_repairs mode then je_scan_ranges s start 0 None errs else [])
      in case je_scan_repairs C Z J junk s mode bufsize rs st (bad + length (filter id errs)) g1 of
           None \<Rightarrow> None
         | Some Crash \<Rightarrow> Some Crash
         | Some (Ret (st', bad', g')) \<Rightarrow> Some (Ret (magics1, st', bad', g')))"

function je_scan_rounds ::
  "'g je_child \<Rightarrow> zlib \<Rightarrow> ('x, 'y, 'z) jerasure_lib \<Rightarrow> je_junk \<Rightarrow> ('g, ('x, 'y, 'z) erasure_plan option) segjerase_priv \<Rightarrow> int \<Rightarrow> ex_off \<Rightarrow>
   nat \<Rightarrow> nat \<Rightarrow> byte list \<Rightarrow> op_status \<Rightarrow> nat \<Rightarrow> 'g \<Rightarrow> (op_status \<times> nat \<times> 'g) outcome option" where
  "je_scan_rounds C Z J junk s mode bufsize start left magics st bad g =
     (case je_scan_round C Z J junk s mode bufsize start (min 1024 left) magics st bad g of
        None \<Rightarrow> None
      | Some Crash \<Rightarrow> Some Crash
      | Some (Ret (magics', st', bad', g')) \<Rightarrow>
          if left > 1024 then je_scan_rounds C Z J junk s mode bufsize (start + 1024) (left - 1024) magics' st' bad' g'
          else Some (Ret (st', bad', g')))"
  by pat_completeness auto

termination
  by (relation "measure (\<lambda>(C, Z, J, junk, s, mode, bufsize, start, left, x). left)") auto

declare je_scan_rounds.simps [simp del]

definition segjerase_inspect_scan ::
  "'g je_child \<Rightarrow> zlib \<Rightarrow> ('x, 'y, 'z) jerasure_lib \<Rightarrow> je_junk \<Rightarrow> ('g, ('x, 'y, 'z) erasure_plan option) segjerase_priv \<Rightarrow> int \<Rightarrow> ex_off \<Rightarrow>
   'g \<Rightarrow> (op_status \<times> nat \<times> 'g) outcome option" where
  "segjerase_inspect_scan C Z J junk s mode bufsize g =
     (case segjerase_size C (s\<lparr>child_seg := g\<rparr>) of
        Crash \<Rightarrow> Some Crash
      | Ret fsize \<Rightarrow>
          if je_data_size s = 0 then Some Crash
          else
            (case je_scan_rounds C Z J junk s mode bufsize 0 (nat (c_div fsize (int (je_data_size s))))
                    (replicate (n_devs s * 1024 * JE_MAGIC_SIZE) 0) op_success_status 0 g of
               None \<Rightarrow> None
             | Some Crash \<Rightarrow> Some Crash
             | Some (Ret (st, bad, g')) \<Rightarrow>
                 Some (Ret (if \<not> inspect_repairs mode \<and> bad > 0 then op_failure_status else st, bad, g'))))"

section \<open>The inspection\<close>

text \<open>
  The byte-level check is repeated, at most ten times in all, as long as it meets errors of the devices and the mode
  asks to treat these as lost. The result has the replaced devices of the child, and the largest number of
  replaced devices seen.
\<close>

fun je_inspect_loop ::
  "nat \<Rightarrow> 'g je_child \<Rightarrow> zlib \<Rightarrow> ('x, 'y, 'z) jerasure_lib \<Rightarrow> je_junk \<Rightarrow> ('g, ('x, 'y, 'z) erasure_plan option) segjerase_priv \<Rightarrow> int \<Rightarrow>
   ex_off \<Rightarrow> int \<Rightarrow> int \<Rightarrow> 'g \<Rightarrow> (op_status \<times> int \<times> int \<times> 'g) outcome option" where
  "je_inspect_loop fuel C Z J junk s mode bufsize replaced max_replaced g =
     (case segjerase_size C (s\<lparr>child_seg := g\<rparr>) of
        Crash \<Rightarrow> Some Crash
      | Ret size_ \<Rightarrow>
          (case segjerase_inspect_full_func C Z J junk s mode bufsize 0 size_ g of
             None \<Rightarrow> None
           | Some Crash \<Rightarrow> Some Crash
           | Some (Ret (st, bad, rerror, werror, g1)) \<Rightarrow>
               (case fuel of
                  0 \<Rightarrow> Some (Ret (st, replaced, max_replaced, g1))
                | Suc fuel' \<Rightarrow>
                    if op_state st \<noteq> OP_STATE_SUCCESS \<and>
                       (mode AND INSPECT_FIX_READ_ERROR \<noteq> 0 \<and> rerror > 0 \<or> mode AND INSPECT_FIX_WRITE_ERROR \<noteq> 0 \<and> werror > 0) then
                      (case jc_inspect C g1 mode of
                         (cst, rows, g2) \<Rightarrow>
                           (let rep = foldl max 0 rows; mx = max max_replaced rep
                            in if op_state cst \<noteq> OP_STATE_SUCCESS \<or> rep > int (n_parity_devs s) then
                                 Some (Ret (cst\<lparr>op_state := OP_STATE_FAILURE\<rparr>, rep, mx, g2))
                               else je_inspect_loop fuel' C Z J junk s mode bufsize rep mx g2))
                    else Some (Ret (st, replaced, max_replaced, g1)))))"

definition je_inspect_end ::
  "('g, 'p) segjerase_priv \<Rightarrow> int \<Rightarrow> int \<Rightarrow> int \<Rightarrow> bool \<Rightarrow> op_status \<Rightarrow> op_status" where
  "je_inspect_end s mode replaced max_replaced migrate st =
     (if max_replaced > int (n_data_devs s) then st\<lparr>op_state := OP_STATE_FAILURE\<rparr>
      else if replaced > 0 \<and> mode AND INSPECT_FORCE_REPAIR = 0 \<or> migrate then st\<lparr>op_state := OP_STATE_FAILURE\<rparr>
      else st)"

definition segjerase_inspect_func ::
  "'g je_child \<Rightarrow> zlib \<Rightarrow> ('x, 'y, 'z) jerasure_lib \<Rightarrow> je_junk \<Rightarrow> ('g, ('x, 'y, 'z) erasure_plan option) segjerase_priv \<Rightarrow> int \<Rightarrow> ex_off \<Rightarrow>
   (op_status \<times> ('g, ('x, 'y, 'z) erasure_plan option) segjerase_priv) outcome option" where
  "segjerase_inspect_func C Z J junk s mode bufsize =
     (case jc_inspect C (child_seg s) mode of
        (st, _, g) \<Rightarrow>
          (let replaced = error_code st AND INSPECT_RESULT_COUNT_MASK;
               migrate = error_code st AND INSPECT_RESULT_MIGRATE_ERROR \<noteq> 0;
               s1 = s\<lparr>child_seg := g\<rparr>;
               cmd = mode AND INSPECT_COMMAND_BITS;
               mode' = (if (replaced > 0 \<or> magic_cksum s = 0 \<or> write_errors s > 0) \<and> cmd = 4 then mode - cmd + 6 else mode);
               cmd' = mode' AND INSPECT_COMMAND_BITS
           in if op_state st \<noteq> OP_STATE_SUCCESS \<and> replaced > int (n_parity_devs s) \<or> migrate then
                Some (Ret (je_inspect_end s mode replaced replaced migrate (st\<lparr>op_state := OP_STATE_FAILURE\<rparr>), s1))
              else if je_data_size s = 0 then Some Crash
              else if cmd' = 2 \<or> cmd' = 5 then
                (case segjerase_inspect_scan C Z J junk s1 mode' bufsize g of
                   None \<Rightarrow> None
                 | Some Crash \<Rightarrow> Some Crash
                 | Some (Ret (st', bad, g')) \<Rightarrow>
                     Some (Ret (je_inspect_end s mode' replaced replaced migrate st', s1\<lparr>child_seg := g'\<rparr>)))
              else if cmd' = 3 \<or> cmd' = 6 then
                (case je_inspect_loop 9 C Z J junk s1 mode' bufsize 0 replaced g of
                   None \<Rightarrow> None
                 | Some Crash \<Rightarrow> Some Crash
                 | Some (Ret (st', rep, mx, g')) \<Rightarrow>
                     (let s2 = s1\<lparr>child_seg := g'\<rparr>;
                          s3 = (if op_state st' = OP_STATE_SUCCESS
                                then s2\<lparr>write_errors := 0, magic_cksum := (if cmd' = 6 then 1 else magic_cksum s2)\<rparr> else s2)
                      in Some (Ret (je_inspect_end s mode' rep mx migrate st', s3))))
              else Some (Ret (je_inspect_end s mode' replaced replaced migrate st, s1))))"

text \<open>\<open>None\<close> inside \<open>Ret\<close>: no operation is returned for an unknown command.\<close>

definition segjerase_inspect ::
  "'g je_child \<Rightarrow> zlib \<Rightarrow> ('x, 'y, 'z) jerasure_lib \<Rightarrow> je_junk \<Rightarrow> ('g, ('x, 'y, 'z) erasure_plan option) segjerase_priv \<Rightarrow> int \<Rightarrow> ex_off \<Rightarrow>
   (op_status \<times> ('g, ('x, 'y, 'z) erasure_plan option) segjerase_priv) option outcome option" where
  "segjerase_inspect C Z J junk s mode bufsize =
     (let cmd = mode AND INSPECT_COMMAND_BITS;
          counter = (\<lambda>n. Some (Ret (Some (\<lparr>op_state = (if n = 0 then OP_STATE_SUCCESS else OP_STATE_FAILURE), error_code = n\<rparr>, s))))
      in if 1 \<le> cmd \<and> cmd \<le> 6 then
           (case segjerase_inspect_func C Z J junk s mode bufsize of
              None \<Rightarrow> None
            | Some Crash \<Rightarrow> Some Crash
            | Some (Ret x) \<Rightarrow> Some (Ret (Some x)))
         else if cmd = INSPECT_MIGRATE \<or> cmd = INSPECT_WRITE_ERRORS then
           (case jc_inspect C (child_seg s) mode of (st, _, g) \<Rightarrow> Some (Ret (Some (st, s\<lparr>child_seg := g\<rparr>))))
         else if cmd = INSPECT_SOFT_ERRORS then counter (je_soft_errors s)
         else if cmd = INSPECT_HARD_ERRORS then counter (je_hard_errors s)
         else Some (Ret None))"

section \<open>A buffer that is too small\<close>

lemma je_full_batch_empty:
  "je_full_batch C Z J s do_fix off 0 f g \<noteq> Crash"
  by (auto simp: je_full_batch_def Let_def split: prod.splits)

lemma je_full_loop_stuck:
  assumes "je_full_loop C Z J s do_fix fail_quick base total_stripes bufstripes stripe f g = Some r"
  shows "\<not> (bufstripes = 0 \<and> \<not> fail_quick \<and> stripe < total_stripes)"
proof (rule je_full_loop.raw_induct
    [of "\<lambda>C Z J s do_fix fail_quick base total_stripes bufstripes stripe f g r. \<not> (bufstripes = 0 \<and> \<not> fail_quick \<and> stripe < total_stripes)", OF _ assms],
    goal_cases)
  case (1 loop C Z J s do_fix fail_quick base total_stripes bufstripes stripe f g r)
  note run = 1(2) and ih = 1(1)
  show ?case
  proof
    assume a: "bufstripes = 0 \<and> \<not> fail_quick \<and> stripe < total_stripes"
    then obtain f' g' where b: "je_full_batch C Z J s do_fix (base + int (stripe * stripe_size_with_magic s)) 0 f g = Ret (f', g')"
      using je_full_batch_empty by (metis outcome.exhaust surj_pair)
    have "loop C Z J s do_fix fail_quick base total_stripes bufstripes stripe f' g' = Some r"
      using run a b by (simp add: min_def)
    from ih [OF this] a show False by blast
  qed
qed

text \<open>
  C39: With a buffer that does not hold one stripe, the check of all bytes never returns when it has anything to check: the number of
  stripes in the buffer is 0, and the loop advances by it. (A check that ends at the first error is left out.)
\<close>

theorem inspect_full_small_buffer:
  assumes s: "0 < je_data_size s" "0 \<le> bufsize" "bufsize < int (stripe_size_with_magic s)"
    and range: "int (je_data_size s) \<le> hi - lo + 1" and quick: "mode AND INSPECT_FAIL_ON_ERROR = 0"
  shows "segjerase_inspect_full_func C Z J junk s mode bufsize lo hi g = None"
proof -
  have total: "0 < (hi - lo + 1) div int (je_data_size s)" using range s(1) by (simp add: pos_imp_zdiv_pos_iff)
  let ?buf = "min (c_div (hi - lo + 1) (int (je_data_size s)) * int (stripe_size_with_magic s)) bufsize"
  have "0 < (hi - lo + 1) div int (je_data_size s) * int (stripe_size_with_magic s)" using total s by simp
  then have "?buf div int (stripe_size_with_magic s) = 0" "0 \<le> ?buf" using s range by (simp_all add: div_pos_pos_trivial)
  then have "nat (c_div ?buf (int (stripe_size_with_magic s))) = 0" using s by simp
  moreover have "0 < nat (c_div (hi - lo + 1) (int (je_data_size s)))" using total s range by simp
  ultimately have "je_full_loop C Z J s do_fix False base (nat (c_div (hi - lo + 1) (int (je_data_size s)))) (nat (c_div ?buf (int (stripe_size_with_magic s)))) 0 f g = None"
    for do_fix base f using je_full_loop_stuck by (metis not_None_eq)
  then show ?thesis using s(1) quick by (simp add: segjerase_inspect_full_func_def Let_def)
qed

theorem inspect_full_small_buffer_witness:
  "segjerase_inspect_full_func sized_child (\<lparr>z_init = 1, z_adler32 = (\<lambda>a bs. a)\<rparr>) no_jerasure \<lparr>jk_parity = (\<lambda>_. 0), jk_pwork = [[0, 0]], jk_op = 0\<rparr> small_segment 3 17 0 3 0 = None"
  by (rule inspect_full_small_buffer) (simp_all add: small_segment_sizes INSPECT_FAIL_ON_ERROR_def)

end
