(* ===== verification/Jerasure_Text.thy ===== *)
theory Jerasure_Text
  imports Segment_Jerasure Exnode Segment_Linear
begin

text \<open>
  Creating, cloning, destroying, storing and loading an erasure coded segment, \<open>src/segment_jerasure.c\<close>. The child is
  reached through the record \<open>je_desc\<close>: its header, its geometry (it has to be a striped segment), its reference count and
  its text form.
\<close>

section \<open>Operations\<close>

record 'g je_desc =
  jd_id :: "'g \<Rightarrow> ex_id"
  jd_type :: "'g \<Rightarrow> string"
  jd_n_devices :: "'g \<Rightarrow> int"
  jd_chunk_size :: "'g \<Rightarrow> int"
  jd_ref :: "int \<Rightarrow> 'g \<Rightarrow> 'g"
  jd_size :: "'g \<Rightarrow> ex_off"
  jd_serialize :: "'g \<Rightarrow> string option \<Rightarrow> string option \<times> 'g"
  jd_clone :: "'g \<Rightarrow> 'g option \<Rightarrow> int \<Rightarrow> op_state \<times> 'g"

text \<open>A segment with its header; the child and the plan are missing (\<open>None\<close>) until they are made.\<close>

record ('g, 'p) segjerase =
  js_id :: ex_id
  js_name :: "string option"
  js_ref :: int
  js_priv :: "('g option, 'p option) segjerase_priv"

definition SEGMENT_TYPE_JERASURE :: string where "SEGMENT_TYPE_JERASURE = ''jerasure''"
definition SEGMENT_TYPE_LUN :: string where "SEGMENT_TYPE_LUN = ''lun''"

text \<open>\<open>paranoid\<close> is the registered setting, \<open>bl\<close> whether there is a black list.\<close>

definition segment_jerasure_create :: "int option \<Rightarrow> bool \<Rightarrow> ex_id \<Rightarrow> ('g, 'p) segjerase" where
  "segment_jerasure_create paranoid bl rnd =
     \<lparr>js_id = generate_ex_id rnd, js_name = None, js_ref = 0,
      js_priv = \<lparr>child_seg = None, je_plan = None, je_blacklist = bl, max_parity = 0, write_errors = 0, je_soft_errors = 0,
        je_hard_errors = 0, je_method = 0, n_data_devs = 0, n_parity_devs = 0, magic_cksum = 1, je_chunk_size = 0,
        paranoid_check = (case paranoid of None \<Rightarrow> 0 | Some p \<Rightarrow> p), je_w = 0\<rparr>\<rparr>"

text \<open>A segment that is still referenced is left alone; otherwise it is gone, and its reference on the child with it.\<close>

definition segjerase_destroy :: "'g je_desc \<Rightarrow> ('g \<Rightarrow> 'g) \<Rightarrow> ('g, 'p) segjerase \<Rightarrow> ('g, 'p) segjerase option \<times> 'g option" where
  "segjerase_destroy D destroy s =
     (if js_ref s > 0 then (Some s, child_seg (js_priv s))
      else (None, map_option (\<lambda>g. destroy (jd_ref D (-1) g)) (child_seg (js_priv s))))"

text \<open>
  The plan of a segment, formed for encoding and decoding; without a plan the two calls dereference \<open>NULL\<close>.
\<close>

definition je_make_plan ::
  "('x, 'y, 'z) jerasure_lib \<Rightarrow> ('g, ('x, 'y, 'z) erasure_plan option) segjerase_priv \<Rightarrow> ('x, 'y, 'z) erasure_plan option outcome" where
  "je_make_plan J s =
     (case et_generate_plan (int (n_data_devs s * je_chunk_size s)) (je_method s) (int (n_data_devs s)) (int (n_parity_devs s)) (je_w s) (-1) (-1) of
        Crash \<Rightarrow> Crash
      | Ret p \<Rightarrow> Ret (map_option (et_form J) p))"

text \<open>
  A clone takes over all parameters. An existing one keeps its own plan and child; a new one gets a plan of its own.
  In the end the clone holds a reference on its child.
\<close>

definition segjerase_clone ::
  "'g je_desc \<Rightarrow> ('x, 'y, 'z) jerasure_lib \<Rightarrow> int option \<Rightarrow> bool \<Rightarrow> ex_id \<Rightarrow> ('g, ('x, 'y, 'z) erasure_plan) segjerase \<Rightarrow>
   ('g, ('x, 'y, 'z) erasure_plan) segjerase option \<Rightarrow> int \<Rightarrow>
   (op_status \<times> ('g, ('x, 'y, 'z) erasure_plan) segjerase) outcome" where
  "segjerase_clone D J paranoid bl rnd seg clone_seg mode =
     (let ss = js_priv seg;
          sd = (if mode = CLONE_STRUCTURE then ss\<lparr>magic_cksum := 1\<rparr> else ss);
          finish = (\<lambda>child clone sd'.
            (case child of
               None \<Rightarrow> Crash
             | Some g \<Rightarrow>
                 (case jd_clone D g (child_seg sd') mode of
                    (st, c) \<Rightarrow>
                      Ret (if st = OP_STATE_SUCCESS then op_success_status else op_failure_status,
                           clone\<lparr>js_priv := sd'\<lparr>child_seg := Some (jd_ref D 1 c)\<rparr>\<rparr>))))
      in if child_seg ss = None then Crash
         else case clone_seg of
           Some clone \<Rightarrow>
             (case child_seg (js_priv clone) of
                None \<Rightarrow> Crash
              | Some c \<Rightarrow> finish (child_seg ss) clone (sd\<lparr>child_seg := Some (jd_ref D (-1) c), je_plan := je_plan (js_priv clone)\<rparr>))
         | None \<Rightarrow>
             (case je_make_plan J sd of
                Crash \<Rightarrow> Crash
              | Ret None \<Rightarrow> Crash
              | Ret (Some p) \<Rightarrow>
                  finish (child_seg ss) ((segment_jerasure_create paranoid bl rnd)\<lparr>js_name := js_name seg\<rparr>)
                    (sd\<lparr>child_seg := None, je_plan := Some p\<rparr>)))"

section \<open>Text form\<close>

definition segjerase_fields :: "text_ops \<Rightarrow> 'g je_desc \<Rightarrow> 'g \<Rightarrow> ('g, 'p) segjerase \<Rightarrow> (string \<times> string) list" where
  "segjerase_fields T D g seg =
     (let s = js_priv seg in
      (case js_name seg of
         Some nm \<Rightarrow> if nm = '''' then [] else [(''name'', escape_text T ''='' bslash nm)]
       | None \<Rightarrow> []) @
      [(''type'', SEGMENT_TYPE_JERASURE), (''ref_count'', print_int (js_ref seg)),
       (''segment'', print_nat (unat (jd_id D g))), (''method'', JE_method ! nat (je_method s)),
       (''n_data_devs'', print_nat (n_data_devs s)), (''n_parity_devs'', print_nat (n_parity_devs s)),
       (''chunk_size'', print_nat (je_chunk_size s)), (''w'', print_int (je_w s)),
       (''max_parity'', print_int (max_parity s)), (''magic_cksum'', print_int (magic_cksum s))] @
      (if write_errors s > 0 then [(''write_errors'', print_int (write_errors s))] else []))"

definition segjerase_serialize_text ::
  "text_ops \<Rightarrow> 'g je_desc \<Rightarrow> ('g, 'p) segjerase \<Rightarrow> string option \<Rightarrow> (int \<times> string option \<times> ('g, 'p) segjerase) outcome" where
  "segjerase_serialize_text T D seg t =
     (case child_seg (js_priv seg) of
        None \<Rightarrow> Crash
      | Some g \<Rightarrow>
          (case jd_serialize D g None of
             (ct, g') \<Rightarrow>
               (let segbuf = buffer_text (10 * 1024)
                  (''['' @ segment_group (js_id seg) @ '']'' @ newline @
                   concat (map (\<lambda>(k, v). k @ ''='' @ v @ newline) (segjerase_fields T D g' seg)))
                in Ret (0, exnode_exchange_append_text (exnode_exchange_append_text t (Some segbuf)) ct,
                        seg\<lparr>js_priv := (js_priv seg)\<lparr>child_seg := Some g'\<rparr>\<rparr>))))"

definition segjerase_serialize ::
  "text_ops \<Rightarrow> 'g je_desc \<Rightarrow> ex_type \<Rightarrow> ('g, 'p) segjerase \<Rightarrow> string option \<Rightarrow> (int \<times> string option \<times> ('g, 'p) segjerase) outcome" where
  "segjerase_serialize T D ty seg t =
     (case ty of
        EX_TEXT \<Rightarrow> segjerase_serialize_text T D seg t
      | EX_PROTOCOL_BUFFERS \<Rightarrow> Ret (-1, t, seg)
      | EX_OTHER \<Rightarrow> Ret (-1, t, seg))"

text \<open>
  Loading. The codes -1 to -7 name what is missing or does not fit; the segment is then only good for being
  destroyed. Counts and sizes are not negative. For -6 the parsed file of the caller has been destroyed.
\<close>

definition segjerase_params ::
  "(string \<Rightarrow> int) \<Rightarrow> (string \<times> string) list \<Rightarrow> 'g je_desc \<Rightarrow> 'g \<Rightarrow> ('g option, 'p) segjerase_priv \<Rightarrow> ('g option, 'p) segjerase_priv" where
  "segjerase_params num kvs D g s =
     (let we = inip_get_integer num kvs ''write_errors'' 0; mc = inip_get_integer num kvs ''magic_cksum'' 0
      in s\<lparr>child_seg := Some g, write_errors := we,
           paranoid_check := (if paranoid_check s = 0 \<and> we > 0 then 1 else paranoid_check s),
           magic_cksum := (if mc = 0 \<and> jd_size D g = 0 then 1 else mc),
           n_data_devs := nat (inip_get_integer num kvs ''n_data_devs'' 6),
           n_parity_devs := nat (inip_get_integer num kvs ''n_parity_devs'' 3),
           je_w := inip_get_integer num kvs ''w'' (-1),
           max_parity := inip_get_integer num kvs ''max_parity'' (16 * 1024 * 1024),
           je_chunk_size := nat (inip_get_integer num kvs ''chunk_size'' (16 * 1024)),
           je_method := et_method_type (inip_get_string kvs ''method'' (JE_method ! nat CAUCHY_GOOD))\<rparr>)"

definition segjerase_deserialize_text ::
  "(string \<Rightarrow> int) \<Rightarrow> 'g je_desc \<Rightarrow> ('x, 'y, 'z) jerasure_lib \<Rightarrow> (ex_id \<Rightarrow> 'g option) service_manager \<Rightarrow>
   ('g, ('x, 'y, 'z) erasure_plan) segjerase \<Rightarrow> ex_id \<Rightarrow> inip_file \<Rightarrow> (int \<times> ('g, ('x, 'y, 'z) erasure_plan) segjerase) outcome" where
  "segjerase_deserialize_text num D J ess seg i fd =
     (let kvs = inip_group fd (segment_group i);
          seg1 = seg\<lparr>js_id := i, js_name := Some (inip_get_string kvs ''name'' '''')\<rparr>;
          cid = inip_get_integer num kvs ''segment'' 0
      in if (word_of_int cid :: ex_id) = 0 then Ret (-1, seg1)
         else case load_segment (\<lambda>g. inip_get_string (inip_group fd g)) ess (word_of_int cid) EX_TEXT of
           Crash \<Rightarrow> Crash
         | Ret None \<Rightarrow> Ret (-2, seg1)
         | Ret (Some g0) \<Rightarrow>
             (let g = jd_ref D 1 g0; s = segjerase_params num kvs D g (js_priv seg1); seg2 = seg1\<lparr>js_priv := s\<rparr>
              in if je_method s < 0 then Ret (-3, seg2)
                 else if jd_type D g \<noteq> SEGMENT_TYPE_LUN then Ret (-4, seg2)
                 else if jd_n_devices D g \<noteq> int (n_data_devs s + n_parity_devs s) then Ret (-5, seg2)
                 else if jd_chunk_size D g \<noteq> int (je_chunk_size s + JE_MAGIC_SIZE) then Ret (-6, seg2)
                 else case je_make_plan J s of
                   Crash \<Rightarrow> Crash
                 | Ret None \<Rightarrow> Ret (-7, seg2)
                 | Ret (Some p) \<Rightarrow> Ret (0, seg2\<lparr>js_priv := s\<lparr>je_plan := Some p\<rparr>\<rparr>)))"

definition segjerase_deserialize ::
  "(string \<Rightarrow> int) \<Rightarrow> 'g je_desc \<Rightarrow> ('x, 'y, 'z) jerasure_lib \<Rightarrow> (ex_id \<Rightarrow> 'g option) service_manager \<Rightarrow> ex_type \<Rightarrow>
   ('g, ('x, 'y, 'z) erasure_plan) segjerase \<Rightarrow> ex_id \<Rightarrow> inip_file \<Rightarrow> (int \<times> ('g, ('x, 'y, 'z) erasure_plan) segjerase) outcome" where
  "segjerase_deserialize num D J ess ty seg i fd =
     (case ty of
        EX_TEXT \<Rightarrow> segjerase_deserialize_text num D J ess seg i fd
      | EX_PROTOCOL_BUFFERS \<Rightarrow> Ret (-1, seg)
      | EX_OTHER \<Rightarrow> Ret (-1, seg))"

definition segment_jerasure_load ::
  "(string \<Rightarrow> int) \<Rightarrow> 'g je_desc \<Rightarrow> ('x, 'y, 'z) jerasure_lib \<Rightarrow> (ex_id \<Rightarrow> 'g option) service_manager \<Rightarrow> int option \<Rightarrow> bool \<Rightarrow> ex_id \<Rightarrow>
   ex_type \<Rightarrow> ex_id \<Rightarrow> inip_file \<Rightarrow> ('g, ('x, 'y, 'z) erasure_plan) segjerase option outcome" where
  "segment_jerasure_load num D J ess paranoid bl rnd ty i fd =
     (case segjerase_deserialize num D J ess ty (segment_jerasure_create paranoid bl rnd) i fd of
        Crash \<Rightarrow> Crash
      | Ret (err, seg) \<Rightarrow> Ret (if err = 0 then Some seg else None))"

section \<open>Storing and loading\<close>

lemma et_method_type_names:
  assumes "0 \<le> m" "m < N_JE_METHODS"
  shows "et_method_type (JE_method ! nat m) = m"
proof -
  have "\<forall>i \<in> set [0..<8]. et_method_type (JE_method ! i) = int i" by code_simp
  moreover have "nat m \<in> set [0..<8]" using assms by (simp add: N_JE_METHODS_def nat_less_iff)
  ultimately have "et_method_type (JE_method ! nat m) = int (nat m)" by blast
  then show ?thesis using assms(1) by simp
qed

lemma segjerase_fields_lookup:
  assumes "kvs = segjerase_fields T D g seg" "s = js_priv seg"
  shows "map_of kvs ''segment'' = Some (print_nat (unat (jd_id D g)))" "map_of kvs ''method'' = Some (JE_method ! nat (je_method s))"
    "map_of kvs ''n_data_devs'' = Some (print_nat (n_data_devs s))" "map_of kvs ''n_parity_devs'' = Some (print_nat (n_parity_devs s))"
    "map_of kvs ''chunk_size'' = Some (print_nat (je_chunk_size s))" "map_of kvs ''w'' = Some (print_int (je_w s))"
    "map_of kvs ''max_parity'' = Some (print_int (max_parity s))" "map_of kvs ''magic_cksum'' = Some (print_int (magic_cksum s))"
    "map_of kvs ''write_errors'' = (if write_errors s > 0 then Some (print_int (write_errors s)) else None)"
    "js_name seg = Some nm \<Longrightarrow> nm \<noteq> '''' \<Longrightarrow> map_of kvs ''name'' = Some (escape_text T ''='' bslash nm)"
  by (simp_all add: assms segjerase_fields_def Let_def split: option.split)

lemma je_make_plan_cong:
  "n_data_devs s' = n_data_devs s \<Longrightarrow> n_parity_devs s' = n_parity_devs s \<Longrightarrow> je_chunk_size s' = je_chunk_size s \<Longrightarrow>
   je_method s' = je_method s \<Longrightarrow> je_w s' = je_w s \<Longrightarrow> je_make_plan J s' = je_make_plan J s"
  by (simp add: je_make_plan_def)

text \<open>
  C19: A stored erasure coded segment loads back: from a file whose group of the segment has the printed lines, and a child that loads
  and has the geometry of the segment, comes a segment with the same parameters and the plan that these parameters give.
  Write errors turn the paranoid checks on. The name comes back in its escaped form.
\<close>

theorem segjerase_text_roundtrip:
  fixes seg :: "('g, ('x, 'y, 'z) erasure_plan) segjerase"
  assumes num: "\<And>i. num (print_int i) = i" "\<And>n. num (print_nat n) = int n"
    and s: "s = js_priv seg" "0 \<le> je_method s" "je_method s < N_JE_METHODS" "magic_cksum s \<noteq> 0" "0 \<le> write_errors s"
    and name: "js_name seg = Some nm" "nm \<noteq> ''''"
    and fd: "map_of fd (segment_group (js_id seg)) = Some (segjerase_fields T D g seg)"
    and child: "load_segment (\<lambda>g. inip_get_string (inip_group fd g)) ess (jd_id D g) EX_TEXT = Ret (Some g0)" "jd_id D g \<noteq> 0"
      "jd_type D (jd_ref D 1 g0) = SEGMENT_TYPE_LUN" "jd_n_devices D (jd_ref D 1 g0) = int (n_devs s)"
      "jd_chunk_size D (jd_ref D 1 g0) = int (chunk_size_with_magic s)"
    and plan: "je_make_plan J s = Ret (Some p)"
  shows "\<exists>seg'. segment_jerasure_load num D J ess paranoid bl rnd EX_TEXT (js_id seg) fd = Ret (Some seg') \<and>
    js_id seg' = js_id seg \<and> js_name seg' = Some (escape_text T ''='' bslash nm) \<and>
    js_priv seg' = s\<lparr>child_seg := Some (jd_ref D 1 g0), je_plan := Some p, je_blacklist := bl, je_soft_errors := 0, je_hard_errors := 0,
      paranoid_check := (if write_errors s > 0 \<and> (paranoid = None \<or> paranoid = Some 0) then 1 else case paranoid of None \<Rightarrow> 0 | Some q \<Rightarrow> q)\<rparr>"
proof -
  let ?s0 = "js_priv (segment_jerasure_create paranoid bl rnd :: ('g, ('x, 'y, 'z) erasure_plan) segjerase)" and ?g = "jd_ref D 1 g0"
  define kvs where "kvs = segjerase_fields T D g seg"
  define s1 where "s1 = segjerase_params num kvs D ?g ?s0"
  note look = segjerase_fields_lookup [OF kvs_def s(1)]
  have params: "s1 = s\<lparr>child_seg := Some ?g, je_plan := None, je_blacklist := bl, je_soft_errors := 0, je_hard_errors := 0,
      paranoid_check := (if write_errors s > 0 \<and> (paranoid = None \<or> paranoid = Some 0) then 1 else case paranoid of None \<Rightarrow> 0 | Some q \<Rightarrow> q)\<rparr>"
    using s(2-5) look(2-9) num et_method_type_names [OF s(2,3)]
    by (auto simp: s1_def segjerase_params_def inip_get_integer_def inip_get_string_def segment_jerasure_create_def Let_def
        intro!: segjerase_priv.equality split: option.splits)
  have "je_make_plan J s1 = Ret (Some p)" using plan je_make_plan_cong [of s1 s J] by (simp add: params)
  moreover have "inip_group fd (segment_group (js_id seg)) = kvs" using fd by (simp add: inip_group_def kvs_def)
  moreover have "inip_get_integer num kvs ''segment'' 0 = int (unat (jd_id D g))" using look(1) num(2) by (simp add: inip_get_integer_def)
  moreover have "inip_get_string kvs ''name'' '''' = escape_text T ''='' bslash nm" using look(10) [OF name] by (simp add: inip_get_string_def)
  ultimately show ?thesis using child s(2) params
    by (simp add: segment_jerasure_load_def segjerase_deserialize_def segjerase_deserialize_text_def s1_def je_size_defs segment_jerasure_create_def Let_def)
qed

text \<open>A segment of two data devices and a parity device, over a child with the identifier 5.\<close>

definition lun_desc :: "unit je_desc" where
  "lun_desc = \<lparr>jd_id = (\<lambda>_. 5), jd_type = (\<lambda>_. SEGMENT_TYPE_LUN), jd_n_devices = (\<lambda>_. 3), jd_chunk_size = (\<lambda>_. 1028), jd_ref = (\<lambda>_ g. g),
     jd_size = (\<lambda>_. 0), jd_serialize = (\<lambda>g t. (t, g)), jd_clone = (\<lambda>g c m. (OP_STATE_SUCCESS, g))\<rparr>"

definition stored_segment :: "(unit, (unit, unit, unit) erasure_plan) segjerase" where
  "stored_segment =
     \<lparr>js_id = 9, js_name = Some ''n'', js_ref = 1,
      js_priv = \<lparr>child_seg = Some (), je_plan = None, je_blacklist = False, max_parity = 1024, write_errors = 2, je_soft_errors = 7,
        je_hard_errors = 0, je_method = RAID4, n_data_devs = 2, n_parity_devs = 1, magic_cksum = 1, je_chunk_size = 1024,
        paranoid_check = 0, je_w = 8\<rparr>\<rparr>"

definition stored_file :: inip_file where
  "stored_file = [(''segment-5'', [(''type'', ''lun'')]), (''segment-9'', segjerase_fields ref_text lun_desc () stored_segment)]"

definition unit_ess :: "(ex_id \<Rightarrow> unit option) service_manager" where
  "unit_ess = \<lparr>sm_table = [SEG_SM_LOAD \<mapsto> [''lun'' \<mapsto> (\<lambda>i. Some ())]]\<rparr>"

theorem segjerase_text_roundtrip_witness:
  "\<exists>seg'. segment_jerasure_load atoi lun_desc no_jerasure unit_ess None False 3 EX_TEXT 9 stored_file = Ret (Some seg') \<and>
     n_data_devs (js_priv seg') = 2 \<and> write_errors (js_priv seg') = 2 \<and> paranoid_check (js_priv seg') = 1"
proof -
  have grp: "segment_group 5 = ''segment-5''" "segment_group 9 = ''segment-9''" by code_simp+
  have ld: "load_segment (\<lambda>g. inip_get_string (inip_group stored_file g)) unit_ess 5 EX_TEXT = Ret (Some ())"
    using grp by (simp add: load_segment_def segment_group_def stored_file_def inip_group_def inip_get_string_def unit_ess_def lookup_service_def)
  have "case je_make_plan no_jerasure (js_priv stored_segment) of Ret (Some p) \<Rightarrow> True | _ \<Rightarrow> False" by code_simp
  then obtain p where p: "je_make_plan no_jerasure (js_priv stored_segment) = Ret (Some p)"
    by (auto split: outcome.splits option.splits)
  have fd: "map_of stored_file (segment_group 9) = Some (segjerase_fields ref_text lun_desc () stored_segment)"
    by (simp add: grp stored_file_def)
  show ?thesis
    using segjerase_text_roundtrip [of atoi "js_priv stored_segment" stored_segment "''n''" stored_file ref_text lun_desc "()" unit_ess "()" no_jerasure p None False 3]
      ld p fd by (auto simp: stored_segment_def lun_desc_def atoi_print_int atoi_print_nat method_defs je_size_defs)
qed

end
