(* ===== verification/Jerasure_Check.thy ===== *)
theory Jerasure_Check
  imports Segment_Jerasure
begin

text \<open>
  The check of a stripe and the search for its bad chunks, over any erasure code: where the code can rebuild the bad
  chunks, the check rebuilds the stripe, and the search finds a stripe with the stored checksum.
\<close>

section \<open>Cells\<close>

lemma length_cells_put [simp]: "length (cells_put ptr cs h) = length h"
proof -
  have "length (fold (\<lambda>(a, c) h. h[a := c]) ps h) = length h" for ps :: "(nat \<times> chunk) list"
    by (induction ps arbitrary: h) auto
  then show ?thesis by (simp add: cells_put_def)
qed

lemma cells_put_out: "a \<notin> set ptr \<Longrightarrow> cells_put ptr cs h ! a = h ! a"
proof -
  have "a \<notin> fst ` set ps \<Longrightarrow> fold (\<lambda>(a, c) h. h[a := c]) ps h ! a = h ! a" for ps :: "(nat \<times> chunk) list"
    by (induction ps arbitrary: h) auto
  moreover have "fst ` set (zip ptr cs) \<subseteq> set ptr" by (auto dest: set_zip_leftD)
  ultimately show "a \<notin> set ptr \<Longrightarrow> ?thesis" unfolding cells_put_def by blast
qed

lemma cells_put_in:
  "distinct ptr \<Longrightarrow> k < length ptr \<Longrightarrow> length cs = length ptr \<Longrightarrow> ptr ! k < length h \<Longrightarrow>
     cells_put ptr cs h ! (ptr ! k) = cs ! k"
proof (induction ptr arbitrary: cs h k)
  case (Cons a ptr)
  obtain c cs' where cs: "cs = c # cs'" using Cons.prems(3) by (cases cs) auto
  have e: "cells_put (a # ptr) cs h = cells_put ptr cs' (h[a := c])" by (simp add: cs cells_put_def)
  show ?case
  proof (cases k)
    case 0
    then show ?thesis unfolding e using Cons.prems cells_put_out [of a ptr cs' "h[a := c]"] by (simp add: cs)
  next
    case (Suc j)
    then show ?thesis unfolding e using Cons.IH [of j cs' "h[a := c]"] Cons.prems by (simp add: cs)
  qed
qed simp

lemma cells_put_cells:
  "distinct ptr \<Longrightarrow> length cs = length ptr \<Longrightarrow> \<forall>a \<in> set ptr. a < length h \<Longrightarrow> cells (cells_put ptr cs h) ptr = cs"
  by (rule nth_equalityI) (auto simp: cells_def cells_put_in)

lemma length_cells [simp]: "length (cells h ptr) = length ptr"
  by (simp add: cells_def)

lemma nth_cells [simp]: "k < length ptr \<Longrightarrow> cells h ptr ! k = h ! (ptr ! k)"
  by (simp add: cells_def)

lemma length_redirect [simp]: "length (redirect ptr is pw) = length ptr"
  by (induction ptr "is" pw rule: redirect.induct) auto

lemma redirect_other: "k \<notin> set is \<Longrightarrow> redirect ptr is pw ! k = ptr ! k"
  by (induction ptr "is" pw rule: redirect.induct) auto

lemma redirect_in:
  "distinct is \<Longrightarrow> set is \<subseteq> {..<length ptr} \<Longrightarrow> j < length is \<Longrightarrow> redirect ptr is pw ! (is ! j) = pw + j"
proof (induction ptr "is" pw arbitrary: j rule: redirect.induct)
  case (2 ptr i "is" pw)
  then show ?case by (cases j) (auto simp: redirect_other)
qed simp

lemma redirect_distinct:
  assumes "distinct ptr" "distinct is" "set is \<subseteq> {..<length ptr}" "\<forall>a \<in> set ptr. a < pw"
  shows "distinct (redirect ptr is pw) \<and> set (redirect ptr is pw) \<subseteq> set ptr \<union> {pw..<pw + length is}"
  using assms
proof (induction ptr "is" pw rule: redirect.induct)
  case (2 ptr i "is" pw)
  have sub: "set (ptr[i := pw]) \<subseteq> insert pw (set ptr)" by (rule set_update_subset_insert)
  have "distinct (ptr[i := pw])" using 2(2,5) by (auto intro: distinct_list_update)
  moreover have "\<forall>a \<in> set (ptr[i := pw]). a < pw + 1" using sub 2(5) by fastforce
  ultimately have "distinct (redirect (ptr[i := pw]) is (pw + 1)) \<and>
      set (redirect (ptr[i := pw]) is (pw + 1)) \<subseteq> set (ptr[i := pw]) \<union> {pw + 1..<pw + 1 + length is}"
    using 2(1,3,4) by simp
  then show ?case using sub by fastforce
qed simp

section \<open>Erasures\<close>

definition badset :: "bool list \<Rightarrow> nat set" where
  "badset b = {k. k < length b \<and> b ! k}"

lemma badset_finite [simp]: "finite (badset b)" and badset_range: "badset b \<subseteq> {..<length b}"
  by (auto simp: badset_def)

lemma sorted_filter_upt: "filter P [0..<n] = sorted_list_of_set {k. k < n \<and> P k}"
  by (intro sorted_distinct_set_unique) (auto simp: sorted_wrt_filter)

lemma je_erasures_badset: "je_erasures b [] = erasure_list (badset b)"
  by (simp add: je_erasures_def erasure_list_def badset_def sorted_filter_upt)

lemma nbad_badset: "length (filter id b) = card (badset b)"
proof -
  have "length (filter id b) = card {i. i < length b \<and> id (b ! i)}" by (rule length_filter_conv_card)
  then show ?thesis by (simp add: badset_def)
qed

lemma badset_index_map: "set index \<subseteq> {..<n} \<Longrightarrow> badset (je_index_map n index) = set index"
  by (auto simp: badset_def je_index_map_def)

lemma badset_badmap: "badset (je_badmap n good) = {..<n} - set good"
  by (auto simp: badset_def je_badmap_def)

lemma length_maps [simp]: "length (je_index_map n index) = n" "length (je_badmap n good) = n"
  by (simp_all add: je_index_map_def je_badmap_def)

section \<open>The check\<close>

text \<open>A store whose cells are all of the chunk size, and pointers into it.\<close>

definition store_ok :: "nat \<Rightarrow> nat \<Rightarrow> nat list \<Rightarrow> je_store \<Rightarrow> bool" where
  "store_ok n bs ptr h \<longleftrightarrow> length ptr = n \<and> distinct ptr \<and> (\<forall>a \<in> set ptr. a < length h) \<and> (\<forall>c \<in> set h. length c = bs)"

lemma store_ok_strips: "store_ok n bs ptr h \<Longrightarrow> strips n bs (cells h ptr)"
  by (auto simp: store_ok_def strips_def cells_def)

lemma cells_put_lengths:
  assumes "\<forall>c \<in> set h. length c = bs" "\<forall>c \<in> set cs. length c = bs"
  shows "\<forall>c \<in> set (cells_put ptr cs h). length c = bs"
proof -
  have "\<forall>c \<in> set (fold (\<lambda>(a, c) h. h[a := c]) ps h). length c = bs"
    if "\<forall>c \<in> set h. length c = bs" "\<forall>c \<in> snd ` set ps. length c = bs" for ps :: "(nat \<times> chunk) list"
    using that
  proof (induction ps arbitrary: h)
    case (Cons p ps)
    obtain a c where p: "p = (a, c)" by (cases p)
    have "\<forall>c' \<in> set (h[a := c]). length c' = bs"
      using Cons.prems set_update_subset_insert [of h a c] by (fastforce simp: p)
    with Cons.IH [of "h[a := c]"] Cons.prems(2) show ?case by (simp add: p)
  qed simp
  moreover have "snd ` set (zip ptr cs) \<subseteq> set cs" by (auto dest: set_zip_rightD)
  ultimately show ?thesis using assms unfolding cells_put_def by blast
qed

lemma store_ok_put: "store_ok n bs ptr h \<Longrightarrow> strips n bs cs \<Longrightarrow> store_ok n bs ptr (cells_put ptr cs h)"
  unfolding store_ok_def strips_def using cells_put_lengths [of h bs cs ptr] by simp

locale je_check = erasure_code enc dec nd np bs par lost
  for enc :: "chunk list \<Rightarrow> chunk list outcome" and dec :: "chunk list \<Rightarrow> int list \<Rightarrow> chunk list outcome" and nd np bs :: nat
    and par :: "chunk list \<Rightarrow> chunk list" and lost :: "nat set \<Rightarrow> bool" +
  fixes Z :: zlib
begin

lemma pass_decodes:
  assumes h: "store_ok (nd + np) bs ptr h" and b: "length b = nd + np" "badset b \<noteq> {}" "card (badset b) \<le> np"
  shows "\<exists>out. dec (cells h ptr) (erasure_list (badset b)) = Ret out \<and>
    je_decode_pass dec b [] ptr pw h = Ret (ptr, cells_put ptr out h) \<and> strips (nd + np) bs out \<and>
    (\<forall>k < nd + np. k \<notin> badset b \<longrightarrow> out ! k = h ! (ptr ! k)) \<and> cells (cells_put ptr out h) ptr = out \<and>
    store_ok (nd + np) bs ptr (cells_put ptr out h)"
proof -
  obtain out where o: "dec (cells h ptr) (erasure_list (badset b)) = Ret out" "strips (nd + np) bs out"
    "\<forall>k < nd + np. k \<notin> badset b \<longrightarrow> out ! k = cells h ptr ! k"
    using decode [OF store_ok_strips [OF h], of "badset b"] b badset_range [of b] by auto
  moreover have "je_decode_pass dec b [] ptr pw h = Ret (ptr, cells_put ptr out h)"
    using o(1) by (simp add: je_decode_pass_def je_erasures_badset)
  moreover have "cells (cells_put ptr out h) ptr = out"
    using h o(2) by (intro cells_put_cells) (auto simp: store_ok_def strips_def)
  ultimately show ?thesis using store_ok_put [OF h o(2)] h by (auto simp: store_ok_def)
qed

text \<open>A check against a checksum: what it compares, and what it changes.\<close>

lemma check_cases:
  assumes h: "store_ok (nd + np) bs ptr h" and b: "length b = nd + np" "card (badset b) \<le> np"
  shows "\<exists>e eptr' h'. jerase_control_check Z dec np b ptr eptr pw (Some m) h = Ret (e, eptr', h') \<and>
    store_ok (nd + np) bs ptr h' \<and> length h' = length h \<and>
    (\<forall>a. a \<notin> (!) ptr ` badset b \<longrightarrow> h' ! a = h ! a) \<and>
    (e = 0 \<longleftrightarrow> je_cksum_calc Z (cells h' ptr) = m) \<and>
    (badset b = {} \<longrightarrow> h' = h \<and> eptr' = eptr) \<and> (badset b \<noteq> {} \<longrightarrow> eptr' = ptr) \<and>
    (badset b \<noteq> {} \<longrightarrow> dec (cells h ptr) (erasure_list (badset b)) = Ret (cells h' ptr))"
proof (cases "badset b = {}")
  case True
  then show ?thesis using h by (auto simp: jerase_control_check_def nbad_badset je_cksum_compare_def)
next
  case False
  then have n0: "card (badset b) \<noteq> 0" by simp
  obtain out where o: "dec (cells h ptr) (erasure_list (badset b)) = Ret out" "je_decode_pass dec b [] ptr pw h = Ret (ptr, cells_put ptr out h)"
    "strips (nd + np) bs out"
    "\<forall>k < nd + np. k \<notin> badset b \<longrightarrow> out ! k = h ! (ptr ! k)" "cells (cells_put ptr out h) ptr = out" "store_ok (nd + np) bs ptr (cells_put ptr out h)"
    using pass_decodes [OF h b(1) False b(2)] by blast
  have "cells_put ptr out h ! a = h ! a" if "a \<notin> (!) ptr ` badset b" for a
  proof (cases "a \<in> set ptr")
    case True
    then obtain k where k: "k < length ptr" "a = ptr ! k" by (auto simp: in_set_conv_nth)
    then have "k \<notin> badset b" using that by auto
    then show ?thesis using o(3,4) k h cells_put_in [of ptr k out h] by (auto simp: store_ok_def strips_def)
  qed (simp add: cells_put_out)
  then show ?thesis using o n0 False by (auto simp: jerase_control_check_def nbad_badset je_cksum_compare_def)
qed

text \<open>Where the bad chunks are marked, the check rebuilds the stripe.\<close>

lemma check_rebuilds:
  assumes h: "store_ok (nd + np) bs ptr h" and b: "length b = nd + np" "badset b = {} \<or> lost (badset b)" and ds: "strips nd bs ds"
    and good: "\<And>k. k < nd + np \<Longrightarrow> k \<notin> badset b \<Longrightarrow> h ! (ptr ! k) = (ds @ par ds) ! k"
  shows "\<exists>eptr' h'. jerase_control_check Z dec np b ptr eptr pw (Some (je_cksum_calc Z (ds @ par ds))) h = Ret (0, eptr', h') \<and>
    cells h' ptr = ds @ par ds \<and> store_ok (nd + np) bs ptr h' \<and> length h' = length h \<and> (\<forall>a. a \<notin> set ptr \<longrightarrow> h' ! a = h ! a)"
proof -
  have c: "card (badset b) \<le> np" using b(2) lost_range by auto
  have len: "length ptr = nd + np" using h by (simp add: store_ok_def)
  obtain e eptr' h' where r: "jerase_control_check Z dec np b ptr eptr pw (Some (je_cksum_calc Z (ds @ par ds))) h = Ret (e, eptr', h')"
    "store_ok (nd + np) bs ptr h'" "length h' = length h" "\<forall>a. a \<notin> (!) ptr ` badset b \<longrightarrow> h' ! a = h ! a"
    "e = 0 \<longleftrightarrow> je_cksum_calc Z (cells h' ptr) = je_cksum_calc Z (ds @ par ds)" "badset b = {} \<longrightarrow> h' = h"
    "badset b \<noteq> {} \<longrightarrow> dec (cells h ptr) (erasure_list (badset b)) = Ret (cells h' ptr)"
    using check_cases [OF h b(1) c] by blast
  have "cells h' ptr = ds @ par ds"
  proof (cases "badset b = {}")
    case True
    then have "\<And>k. k < nd + np \<Longrightarrow> cells h' ptr ! k = (ds @ par ds) ! k" using good r(6) len by auto
    then show ?thesis using strips_codeword [OF ds] len by (intro nth_equalityI) (auto simp: strips_def)
  next
    case False
    then have "dec (cells h ptr) (erasure_list (badset b)) = Ret (ds @ par ds)"
      using rebuild [OF ds _ store_ok_strips [OF h], of "badset b"] b(2) good len by auto
    then show ?thesis using r(7) False by simp
  qed
  moreover have "(!) ptr ` badset b \<subseteq> set ptr" using badset_range [of b] b(1) len by (force simp: in_set_conv_nth)
  then have "\<forall>a. a \<notin> set ptr \<longrightarrow> h' ! a = h ! a" using r(4) by blast
  moreover have "e = 0" using r(5) calculation by simp
  ultimately show ?thesis using r(1-3) by simp
qed

section \<open>The search\<close>

text \<open>
  The invariant of the search: the chunks of the devices are those of \<open>h0\<close>. \<open>found\<close> is the result of a successful one.
\<close>

definition untouched :: "nat list \<Rightarrow> je_store \<Rightarrow> je_store \<Rightarrow> bool" where
  "untouched ptr h0 h \<longleftrightarrow> length h = length h0 \<and> (\<forall>a \<in> set ptr. h ! a = h0 ! a) \<and> (\<forall>c \<in> set h. length c = bs)"

definition found :: "nat list \<Rightarrow> je_store \<Rightarrow> magic \<Rightarrow> bool list \<Rightarrow> nat list \<Rightarrow> je_store \<Rightarrow> bool" where
  "found ptr h0 m b eptr h \<longleftrightarrow>
     length b = nd + np \<and> badset b \<noteq> {} \<and> card (badset b) \<le> np \<and> length eptr = nd + np \<and>
     je_cksum_calc Z (cells h eptr) = m \<and>
     (\<forall>c \<in> set h. length c = bs) \<and>
     (\<forall>k < nd + np. k \<notin> badset b \<longrightarrow> eptr ! k = ptr ! k) \<and> (\<forall>k < nd + np. eptr ! k = ptr ! k \<or> eptr ! k \<notin> set ptr) \<and>
     (\<exists>cs. strips (nd + np) bs cs \<and> (\<forall>k < nd + np. k \<notin> badset b \<longrightarrow> cs ! k = h0 ! (ptr ! k)) \<and>
        dec cs (erasure_list (badset b)) = Ret (cells h eptr))"

lemma brute_check:
  assumes p: "store_ok (nd + np) bs ptr h0" "\<forall>a \<in> set ptr. a < pw" "length h0 = pw + np" and u: "untouched ptr h0 h"
    and i: "distinct index" "set index \<subseteq> {..<nd + np}" "index \<noteq> []" "length index \<le> np"
  shows "\<exists>e b eptr' h'. je_brute_check Z dec np ptr pw (Some m) index (b0, eptr, h) = Ret (e, b, eptr', h') \<and> untouched ptr h0 h' \<and>
    (e = 0 \<longrightarrow> found ptr h0 m b eptr' h') \<and>
    (\<forall>ds. strips nd bs ds \<and> lost (set index) \<and> m = je_cksum_calc Z (ds @ par ds) \<and>
        (\<forall>k < nd + np. k \<notin> set index \<longrightarrow> h0 ! (ptr ! k) = (ds @ par ds) ! k) \<longrightarrow> e = 0)"
proof -
  let ?b = "je_index_map (length ptr) index" and ?ptr = "redirect ptr index pw"
  have len: "length ptr = nd + np" using p(1) by (simp add: store_ok_def)
  have bad: "badset ?b = set index" using i(2) len by (simp add: badset_index_map)
  have card: "card (set index) \<le> np" using i(1,4) by (simp add: distinct_card)
  have dp: "distinct ptr" using p(1) by (simp add: store_ok_def)
  then have d: "distinct ?ptr" "set ?ptr \<subseteq> set ptr \<union> {pw..<pw + length index}"
    using redirect_distinct [of ptr index pw] p(2) i(1,2) len by auto
  have "a < length h" if "a \<in> set ?ptr" for a
  proof -
    have "a < pw + np" using that d(2) p(2) i(4) by fastforce
    then show ?thesis using u p(3) by (simp add: untouched_def)
  qed
  then have st: "store_ok (nd + np) bs ?ptr h" using d(1) u len by (simp add: store_ok_def untouched_def)
  have same: "h ! (?ptr ! k) = h0 ! (ptr ! k)" if "k < nd + np" "k \<notin> set index" for k
    using that u len by (simp add: redirect_other untouched_def)
  obtain e eptr' h' where r: "jerase_control_check Z dec np ?b ?ptr eptr (pw + length index) (Some m) h = Ret (e, eptr', h')"
    "store_ok (nd + np) bs ?ptr h'" "length h' = length h" "\<forall>a. a \<notin> (!) ?ptr ` set index \<longrightarrow> h' ! a = h ! a"
    "e = 0 \<longleftrightarrow> je_cksum_calc Z (cells h' ?ptr) = m" "eptr' = ?ptr" "dec (cells h ?ptr) (erasure_list (set index)) = Ret (cells h' ?ptr)"
    using check_cases [OF st, of ?b eptr "pw + length index" m] bad card i(3) len by auto
  have work: "pw \<le> ?ptr ! k" if "k \<in> set index" for k
    using that redirect_in [OF i(1), of ptr _ pw] i(2) len by (auto simp: in_set_conv_nth)
  then have "h' ! a = h0 ! a" if "a \<in> set ptr" for a
    using that r(4) u p(2) unfolding untouched_def by (metis imageE leD)
  then have "untouched ptr h0 h'" using r(2,3) u by (simp add: untouched_def store_ok_def)
  moreover have "?ptr ! k = ptr ! k \<or> ?ptr ! k \<notin> set ptr" for k
    using redirect_other [of k index ptr pw] work p(2) by (metis leD)
  then have "found ptr h0 m ?b eptr' h'" if "e = 0"
    unfolding found_def bad using that r(2,5,6,7) card i(3) len same store_ok_strips [OF st] redirect_other [of _ index ptr pw]
    by (auto intro!: exI [of _ "cells h ?ptr"] simp: store_ok_def)
  moreover have "e = 0" if "strips nd bs ds" "lost (set index)" "m = je_cksum_calc Z (ds @ par ds)"
      "\<forall>k < nd + np. k \<notin> set index \<longrightarrow> h0 ! (ptr ! k) = (ds @ par ds) ! k" for ds
  proof -
    have "dec (cells h ?ptr) (erasure_list (set index)) = Ret (ds @ par ds)"
      by (rule rebuild) (use that store_ok_strips [OF st] same len in auto)
    then show ?thesis using r(5,7) that(3) by simp
  qed
  ultimately show ?thesis using r(1) by (auto simp: je_brute_check_def Let_def)
qed

text \<open>The chunks of \<open>h0\<close> are those of the stripe of \<open>ds\<close>, but for the devices of \<open>B\<close>, which the code can rebuild.\<close>

definition damaged :: "nat list \<Rightarrow> je_store \<Rightarrow> chunk list \<Rightarrow> nat set \<Rightarrow> bool" where
  "damaged ptr h0 ds B \<longleftrightarrow>
     strips nd bs ds \<and> lost B \<and> (\<forall>k < nd + np. k \<notin> B \<longrightarrow> h0 ! (ptr ! k) = (ds @ par ds) ! k)"

text \<open>A search that has tried everything \<open>P\<close> without success.\<close>

definition searched ::
  "nat list \<Rightarrow> je_store \<Rightarrow> magic \<Rightarrow> (nat set \<Rightarrow> bool) \<Rightarrow> (int \<times> bool list \<times> nat list \<times> je_store) outcome \<Rightarrow> bool" where
  "searched ptr h0 m P r \<longleftrightarrow>
     (\<exists>e b eptr h. r = Ret (e, b, eptr, h) \<and> untouched ptr h0 h \<and> (e = 0 \<longrightarrow> found ptr h0 m b eptr h) \<and>
        (\<forall>ds B. damaged ptr h0 ds B \<and> m = je_cksum_calc Z (ds @ par ds) \<and> P B \<longrightarrow> e = 0))"

lemma searched_mono: "searched ptr h0 m P r \<Longrightarrow> (\<And>B. Q B \<Longrightarrow> P B) \<Longrightarrow> searched ptr h0 m Q r"
  unfolding searched_def by fastforce

lemma searched_bind:
  assumes "searched ptr h0 m P r" "\<And>b eptr h. untouched ptr h0 h \<Longrightarrow> searched ptr h0 m Q (f (b, eptr, h))"
    and R: "\<And>B. R B \<Longrightarrow> P B \<or> Q B"
  shows "searched ptr h0 m R
    (case r of Crash \<Rightarrow> Crash | Ret (e, st) \<Rightarrow> if e = 0 then Ret (0, st) else f st)"
proof -
  obtain e b eptr h where r: "r = Ret (e, b, eptr, h)" "untouched ptr h0 h" "e = 0 \<longrightarrow> found ptr h0 m b eptr h"
    "\<forall>ds B. damaged ptr h0 ds B \<and> m = je_cksum_calc Z (ds @ par ds) \<and> P B \<longrightarrow> e = 0"
    using assms(1) unfolding searched_def by blast
  show ?thesis
  proof (cases "e = 0")
    case True
    then show ?thesis using r unfolding searched_def by auto
  next
    case False
    from assms(2) [OF r(2), of b eptr] False r(1,4) R show ?thesis unfolding searched_def by fastforce
  qed
qed

lemma searched_none: "untouched ptr h0 h \<Longrightarrow> searched ptr h0 m (\<lambda>_. False) (Ret (1, b, eptr, h))"
  by (auto simp: searched_def)

lemma recurse_searches:
  assumes p: "store_ok (nd + np) bs ptr h0" "\<forall>a \<in> set ptr. a < pw" "length h0 = pw + np"
  shows "untouched ptr h0 h \<Longrightarrow> distinct index \<Longrightarrow> set index \<subseteq> {..<a} \<Longrightarrow> a \<le> nd + np \<Longrightarrow> length index + k \<le> np \<Longrightarrow> 0 < length index + k \<Longrightarrow>
     searched ptr h0 m (\<lambda>B. \<exists>js. length js = k \<and> sorted_wrt (<) js \<and> set js \<subseteq> {a..<nd + np} \<and> B = set index \<union> set js)
       (jerase_brute_recurse Z dec np ptr pw (Some m) k index [a..<nd + np] (b, eptr, h))"
proof (induction k arbitrary: index a b eptr h)
  case 0
  have i: "distinct index" "set index \<subseteq> {..<nd + np}" "index \<noteq> []" "length index \<le> np" using 0 by auto
  from brute_check [OF p 0(1) i, of m b eptr] show ?case unfolding searched_def damaged_def by fastforce
next
  case (Suc k)
  have len: "length ptr = nd + np" using p(1) by (simp add: store_ok_def)
  note outer = Suc.IH and index = Suc.prems(2,5)
  let ?I = "\<lambda>a index k B. \<exists>js. length js = k \<and> sorted_wrt (<) js \<and> set js \<subseteq> {a..<nd + np} \<and> B = set index \<union> set js"
  from Suc.prems(1,3,4) show ?case
  proof (induction "nd + np - a" arbitrary: a b eptr h)
    case 0
    then have "[a..<nd + np] = []" "{a..<nd + np} = {}" by auto
    with 0 show ?case by (auto intro!: searched_mono [OF searched_none])
  next
    case (Suc d)
    then have a: "[a..<nd + np] = a # [a + 1..<nd + np]" by (simp add: upt_conv_Cons)
    have 1: "searched ptr h0 m (?I (a + 1) (index @ [a]) k)
        (jerase_brute_recurse Z dec np ptr pw (Some m) k (index @ [a]) [a + 1..<nd + np] (b, eptr, h))"
      by (rule outer) (use Suc index in auto)
    have 2: "searched ptr h0 m (?I (a + 1) index (Suc k))
        (jerase_brute_recurse Z dec np ptr pw (Some m) (Suc k) index [a + 1..<nd + np] (b', eptr', h'))" if "untouched ptr h0 h'" for b' eptr' h'
      by (rule Suc.hyps(1)) (use Suc that in auto)
    have "?I (a + 1) (index @ [a]) k B \<or> ?I (a + 1) index (Suc k) B" if B: "?I a index (Suc k) B" for B
    proof -
      obtain j js where js: "length js = k" "sorted_wrt (<) (j # js)" "set (j # js) \<subseteq> {a..<nd + np}" "B = set index \<union> set (j # js)"
        using B by (metis length_Suc_conv)
      show ?thesis
      proof (cases "j = a")
        case True
        with js show ?thesis by (intro disjI1 exI [of _ js]) fastforce
      next
        case False
        with js show ?thesis by (intro disjI2 exI [of _ "j # js"]) fastforce
      qed
    qed
    note cover = this
    show ?case unfolding a jerase_brute_recurse.simps len by (rule searched_bind [OF 1], erule 2, rule cover)
  qed
qed

lemma counts_search:
  assumes p: "store_ok (nd + np) bs ptr h0" "\<forall>a \<in> set ptr. a < pw" "length h0 = pw + np"
  shows "untouched ptr h0 h \<Longrightarrow> set ks \<subseteq> {1..np} \<Longrightarrow>
     searched ptr h0 m (\<lambda>B. card B \<in> set ks \<and> B \<subseteq> {..<nd + np}) (je_brute_counts Z dec np ptr pw (Some m) ks (b, eptr, h))"
proof (induction ks arbitrary: b eptr h)
  case Nil
  then show ?case by (auto intro!: searched_mono [OF searched_none])
next
  case (Cons k ks)
  have len: "length ptr = nd + np" using p(1) by (simp add: store_ok_def)
  let ?P = "\<lambda>B. \<exists>js. length js = k \<and> sorted_wrt (<) js \<and> set js \<subseteq> {0..<nd + np} \<and> B = set [] \<union> set js"
  have 1: "searched ptr h0 m ?P (jerase_brute_recurse Z dec np ptr pw (Some m) k [] [0..<nd + np] (b, eptr, h))"
    by (rule recurse_searches [OF p]) (use Cons in auto)
  have "?P B" if "card B = k" "B \<subseteq> {..<nd + np}" for B
  proof -
    have "finite B" using that(2) finite_subset by blast
    then show ?thesis using that by (intro exI [of _ "sorted_list_of_set B"]) (auto simp: lessThan_atLeast0)
  qed
  then have cover: "?P B \<or> card B \<in> set ks \<and> B \<subseteq> {..<nd + np}" if "card B \<in> set (k # ks) \<and> B \<subseteq> {..<nd + np}" for B using that by auto
  have 2: "searched ptr h0 m (\<lambda>B. card B \<in> set ks \<and> B \<subseteq> {..<nd + np}) (je_brute_counts Z dec np ptr pw (Some m) ks (b', eptr', h'))"
    if "untouched ptr h0 h'" for b' eptr' h' using Cons.IH [OF that] Cons.prems(2) by simp
  show ?case unfolding je_brute_counts.simps len by (rule searched_bind [OF 1], erule 2, rule cover)
qed

text \<open>
  The search after a failed check. When the chunks that are not those of the stripe can be rebuilt, it succeeds, and what it
  returns is a stripe with the stored checksum that differs from the stored one in at most \<open>np\<close> chunks.
\<close>

lemma brute_recovers:
  assumes p: "store_ok (nd + np) bs ptr h" "\<forall>a \<in> set ptr. a < pw" "length h = pw + np"
    and b: "length b = nd + np" "badset b \<subseteq> B" and d: "damaged ptr h ds B" and m: "m = je_cksum_calc Z (ds @ par ds)"
    and c: "badset b = {} \<Longrightarrow> je_cksum_calc Z (cells h ptr) \<noteq> m"
  shows "\<exists>b' eptr' h' h1. jerase_brute_recovery Z dec np b ptr eptr pw (Some m) h = Ret (0, b', eptr', h') \<and>
    found ptr h1 m b' eptr' h' \<and> (\<forall>k < nd + np. k \<notin> badset b \<longrightarrow> h1 ! (ptr ! k) = h ! (ptr ! k)) \<and>
    length h' = length h \<and> (\<forall>k < nd + np. k \<notin> badset b \<union> badset b' \<longrightarrow> h' ! (ptr ! k) = h ! (ptr ! k))"
proof -
  have B: "B \<subseteq> {..<nd + np}" "B \<noteq> {}" "card B \<le> np" "finite B"
    using d lost_range [of B] finite_subset [of B "{..<nd + np}"] by (auto simp: damaged_def)
  have len: "length ptr = nd + np" "distinct ptr" using p(1) by (simp_all add: store_ok_def)
  have cb: "card (badset b) \<le> np" using card_mono [OF B(4) b(2)] B(3) by simp
  obtain e eptr' h' where r: "jerase_control_check Z dec np b ptr eptr pw (Some m) h = Ret (e, eptr', h')"
    "store_ok (nd + np) bs ptr h'" "length h' = length h" "\<forall>a. a \<notin> (!) ptr ` badset b \<longrightarrow> h' ! a = h ! a"
    "e = 0 \<longleftrightarrow> je_cksum_calc Z (cells h' ptr) = m" "badset b = {} \<longrightarrow> h' = h" "badset b \<noteq> {} \<longrightarrow> eptr' = ptr"
    "badset b \<noteq> {} \<longrightarrow> dec (cells h ptr) (erasure_list (badset b)) = Ret (cells h' ptr)"
    using check_cases [OF p(1) b(1) cb] by blast
  have keep: "h' ! (ptr ! k) = h ! (ptr ! k)" if "k < nd + np" "k \<notin> badset b" for k
  proof -
    have "ptr ! k \<notin> (!) ptr ` badset b"
      using that badset_range [of b] b(1) len by (auto simp: nth_eq_iff_index_eq lessThan_iff subset_iff)
    then show ?thesis using r(4) by simp
  qed
  show ?thesis
  proof (cases "e = 0")
    case True
    then have ne: "badset b \<noteq> {}" using c r(5,6) by auto
    have "found ptr h m b eptr' h'"
      unfolding found_def using ne True r len cb b(1) store_ok_strips [OF p(1)]
      by (auto intro!: exI [of _ "cells h ptr"] simp: store_ok_def)
    then show ?thesis using r(1,3) True keep by (auto simp: jerase_brute_recovery_def)
  next
    case False
    have dm: "damaged ptr h' ds B" using d keep b(2) unfolding damaged_def by (metis subsetD)
    have u: "untouched ptr h' h'" using r(2) by (simp add: untouched_def store_ok_def)
    have "0 < card B" using B(2,4) by (simp add: card_gt_0_iff)
    then have "card B \<in> set [1..<np + 1]" using B(3) by auto
    moreover have "searched ptr h' m (\<lambda>B. card B \<in> set [1..<np + 1] \<and> B \<subseteq> {..<nd + np})
        (je_brute_counts Z dec np ptr pw (Some m) [1..<np + 1] (replicate (length ptr) False, eptr', h'))"
      by (rule counts_search [OF r(2) p(2) _ u]) (use r(3) p(3) in auto)
    ultimately obtain b2 eptr2 h2 where f: "je_brute_counts Z dec np ptr pw (Some m) [1..<np + 1] (replicate (length ptr) False, eptr', h') = Ret (0, b2, eptr2, h2)"
      "untouched ptr h' h2" "found ptr h' m b2 eptr2 h2"
      using dm m B(1) unfolding searched_def by blast
    have "h2 ! (ptr ! k) = h ! (ptr ! k)" if "k < nd + np" "k \<notin> badset b" for k
      using keep [OF that] f(2) that(1) len by (simp add: untouched_def)
    moreover have "length h2 = length h" using f(2) r(3) by (simp add: untouched_def)
    ultimately show ?thesis using r(1) False f(1,3) keep by (auto simp: jerase_brute_recovery_def)
  qed
qed

end

end
