(* ===== verification/Jerasure_Correctness.thy ===== *)
theory Jerasure_Correctness
  imports Jerasure_Check
begin

text \<open>
  Reading and writing of an erasure coded segment: a write stores encoded and tagged stripes, a read gives back the data
  of a stripe as long as the code can rebuild the chunks whose tags are lost.
\<close>

section \<open>The tag of a stripe\<close>

lemma magic_add_keys:
  "distinct (map fst tab) \<Longrightarrow> distinct (map fst (je_magic_add m k tab))"
  "set (map fst (je_magic_add m k tab)) = insert m (set (map fst tab))"
proof -
  show s: "set (map fst (je_magic_add m k tab)) = insert m (set (map fst tab))"
    by (induction m k tab rule: je_magic_add.induct) auto
  show "distinct (map fst tab) \<Longrightarrow> distinct (map fst (je_magic_add m k tab))"
  proof (induction m k tab rule: je_magic_add.induct)
    case (2 m k m' ks tab)
    have "set (map fst (je_magic_add m k tab)) = insert m (set (map fst tab))"
      by (induction m k tab rule: je_magic_add.induct) auto
    then show ?case using 2 by auto
  qed simp
qed

lemma magic_add_lookup:
  "map_of (je_magic_add m k tab) m' =
     (if m' = m then Some (case map_of tab m of None \<Rightarrow> [k] | Some ks \<Rightarrow> ks @ [k]) else map_of tab m')"
  by (induction m k tab rule: je_magic_add.induct) auto

lemma magic_table:
  "distinct (map fst (je_magic_table ms)) \<and> set (map fst (je_magic_table ms)) = set ms \<and>
   (\<forall>m \<in> set ms. map_of (je_magic_table ms) m = Some (filter (\<lambda>k. ms ! k = m) [0..<length ms]))"
proof (induction ms rule: rev_induct)
  case Nil
  then show ?case by (simp add: je_magic_table_def)
next
  case (snoc m ms)
  have step: "je_magic_table (ms @ [m]) = je_magic_add m (length ms) (je_magic_table ms)"
    by (simp add: je_magic_table_def enumerate_append_eq)
  have old: "filter (\<lambda>k. (ms @ [m]) ! k = m') [0..<length ms] = filter (\<lambda>k. ms ! k = m') [0..<length ms]" for m'
    by (rule filter_cong) (auto simp: nth_append)
  have none: "m \<notin> set ms \<Longrightarrow> map_of (je_magic_table ms) m = None" using snoc by (metis list.set_map map_of_eq_None_iff)
  have empty: "m \<notin> set ms \<Longrightarrow> filter (\<lambda>k. ms ! k = m) [0..<length ms] = []" by (auto simp: filter_empty_conv)
  show ?case unfolding step magic_add_lookup
    using snoc magic_add_keys [where tab = "je_magic_table ms" and m = m and k = "length ms"] none empty old
    by (cases "m \<in> set ms") (auto split: option.splits)
qed

lemma quorum_mem: "je_quorum b es \<in> insert b (set es)"
  by (induction b es rule: je_quorum.induct) auto

lemma quorum_ge: "length (snd b) \<le> length (snd (je_quorum b es))"
proof (induction b es rule: je_quorum.induct)
  case (2 b e es)
  then show ?case by (cases "length (snd b) < length (snd e)") auto
qed simp

lemma quorum_max: "e \<in> insert b (set es) \<Longrightarrow> length (snd e) \<le> length (snd (je_quorum b es))"
proof (induction b es rule: je_quorum.induct)
  case (2 b e' es)
  let ?b = "if length (snd b) < length (snd e') then e' else b"
  show ?case
  proof (cases "e \<in> set es")
    case False
    then have "length (snd e) \<le> length (snd ?b)" using 2(2) by auto
    then show ?thesis using quorum_ge [of ?b es] by simp
  qed (use 2 in simp)
qed simp

text \<open>The tag of more than half of the devices is taken.\<close>

lemma stripe_magic:
  assumes E: "E = {k. k < length ms \<and> ms ! k \<noteq> m}" "2 * card E < length ms"
  shows "je_stripe_magic ms = (m, filter (\<lambda>k. ms ! k = m) [0..<length ms])"
proof -
  let ?tab = "je_magic_table ms" and ?dev = "\<lambda>m. filter (\<lambda>k. ms ! k = m) [0..<length ms]"
  have fin: "finite E" using E(1) by simp
  have card: "length (?dev m') = card (set (?dev m'))" for m' by (intro distinct_card [symmetric]) simp
  have good: "length (?dev m) = length ms - card E"
  proof -
    have "length (?dev m) = card (set (?dev m))" by (rule card)
    also have "set (?dev m) = {..<length ms} - E" using E(1) by auto
    also have "card \<dots> = length ms - card E" using E(1) fin by (subst card_Diff_subset) auto
    finally show ?thesis .
  qed
  have bad: "length (?dev m') \<le> card E" if "m' \<noteq> m" for m'
  proof -
    have "length (?dev m') = card (set (?dev m'))" by (rule card)
    also have "\<dots> \<le> card E" using that E(1) by (intro card_mono [OF fin]) auto
    finally show ?thesis .
  qed
  have "?dev m \<noteq> []" using good E(2) by auto
  then have m: "m \<in> set ms" by (auto simp: filter_empty_conv)
  then obtain e es where tab: "?tab = e # es" using magic_table [of ms] by (cases ?tab) auto
  have entry: "m' \<in> set ms \<and> ks = ?dev m'" if "(m', ks) \<in> set ?tab" for m' ks
  proof -
    have "m' \<in> set (map fst ?tab)" using that by (force simp: image_iff)
    then have "m' \<in> set ms" "map_of ?tab m' = Some (?dev m')" using magic_table [of ms] by auto
    moreover have "map_of ?tab m' = Some ks" using that magic_table [of ms] by (simp add: map_of_is_SomeI)
    ultimately show ?thesis by simp
  qed
  obtain m' ks where q: "je_quorum e es = (m', ks)" by fastforce
  then have mem: "m' \<in> set ms" "ks = ?dev m'" using entry quorum_mem [of e es] tab by auto
  have "(m, ?dev m) \<in> set ?tab" using magic_table [of ms] m by (auto dest: map_of_SomeD)
  then have "length (?dev m) \<le> length ks" using quorum_max [of "(m, ?dev m)" e es] q tab by auto
  then have "m' = m" using bad [of m'] good mem(2) E(2) by fastforce
  then show ?thesis using q mem tab by (simp add: je_stripe_magic_def)
qed

section \<open>Blocks of memory\<close>

lemma block_get_put:
  assumes "length c = bs"
  shows "mem_get (mem_put m (p + int (j * bs)) c) (p + int (i * bs)) (int bs) = (if i = j then c else mem_get m (p + int (i * bs)) (int bs))"
proof (cases "i = j")
  case True
  then show ?thesis using mem_get_put_same [of m "p + int (j * bs)" c] assms by simp
next
  case False
  have "mem_put m (p + int (j * bs)) c x = m x" if "p + int (i * bs) \<le> x" "x < p + int (i * bs) + int bs" for x
  proof (rule mem_put_out)
    consider "Suc i \<le> j" | "Suc j \<le> i" using False by linarith
    then show "x < p + int (j * bs) \<or> p + int (j * bs) + int (length c) \<le> x"
    proof cases
      case 1
      then have "Suc i * bs \<le> j * bs" by (rule mult_le_mono1)
      then show ?thesis using that(2) by (simp add: algebra_simps flip: of_nat_add of_nat_mult)
    next
      case 2
      then have "Suc j * bs \<le> i * bs" by (rule mult_le_mono1)
      then show ?thesis using that(1) assms by (simp add: algebra_simps flip: of_nat_add of_nat_mult)
    qed
  qed
  then show ?thesis using False by (auto intro: mem_get_cong)
qed

lemma block_get_put0:
  "length c = bs \<Longrightarrow> mem_get (mem_put m (int (j * bs)) c) (int (i * bs)) (int bs) = (if i = j then c else mem_get m (int (i * bs)) (int bs))"
  using block_get_put [of c bs m 0 j i] by (simp del: of_nat_mult)

lemma digits_eq: "k < n \<Longrightarrow> k' < n \<Longrightarrow> t * n + k = t' * n + k' \<longleftrightarrow> t = t' \<and> k = (k' :: nat)"
  by (metis mult.commute nat_mult_div_cancel_disj add.commute div_mult_self3 div_less add_0 mod_mult_self1 mod_less less_nat_zero_code)

section \<open>The areas of a transfer\<close>

text \<open>Tag and chunk of device \<open>k\<close> in stripe \<open>t\<close> of a transfer.\<close>

definition tag_at :: "('g, 'p) segjerase_priv \<Rightarrow> nat \<Rightarrow> je_mem \<Rightarrow> nat \<Rightarrow> nat \<Rightarrow> magic" where
  "tag_at s base m t k = je_get_magic s (base + t) m k"

definition chunk_at :: "('g, 'p) segjerase_priv \<Rightarrow> nat \<Rightarrow> ex_off \<Rightarrow> je_mem \<Rightarrow> nat \<Rightarrow> nat \<Rightarrow> chunk" where
  "chunk_at s base boff m t k = je_get_chunk s (base + t) (boff + int (t * je_data_size s)) m k"

definition chunk_to :: "('g, 'p) segjerase_priv \<Rightarrow> nat \<Rightarrow> ex_off \<Rightarrow> nat \<Rightarrow> nat \<Rightarrow> chunk \<Rightarrow> je_mem \<Rightarrow> je_mem" where
  "chunk_to s base boff t k c m = je_put_chunk s (base + t) (boff + int (t * je_data_size s)) k c m"

lemma length_at [simp]: "length (tag_at s base m t k) = JE_MAGIC_SIZE" "length (chunk_at s base boff m t k) = je_chunk_size s"
  by (simp_all add: tag_at_def chunk_at_def je_get_magic_def je_get_chunk_def)

lemma data_pos: "boff + int (t * je_data_size s) + int (k * je_chunk_size s) = boff + int ((t * n_data_devs s + k) * je_chunk_size s)"
  by (simp add: je_data_size_def algebra_simps)

lemma parity_pos: "st * je_parity_size s + j * je_chunk_size s = (st * n_parity_devs s + j) * je_chunk_size s"
  by (simp add: je_parity_size_def algebra_simps)

lemma chunk_at_to:
  assumes "length c = je_chunk_size s" "k < n_devs s" "k' < n_devs s"
  shows "chunk_at s base boff (chunk_to s base boff t k c m) t' k' = (if t' = t \<and> k' = k then c else chunk_at s base boff m t' k')"
proof -
  consider "k < n_data_devs s" "k' < n_data_devs s" | "k < n_data_devs s" "\<not> k' < n_data_devs s"
    | "\<not> k < n_data_devs s" "k' < n_data_devs s" | "\<not> k < n_data_devs s" "\<not> k' < n_data_devs s" by blast
  then show ?thesis
  proof cases
    case 1
    then show ?thesis
      unfolding chunk_at_def chunk_to_def je_get_chunk_def je_put_chunk_def data_pos
      by (simp add: block_get_put [OF assms(1)] digits_eq del: of_nat_mult of_nat_add)
  next
    case 4
    then obtain j j' where j: "k = n_data_devs s + j" "k' = n_data_devs s + j'" by (meson le_Suc_ex not_less)
    with assms(2,3) have "j < n_parity_devs s" "j' < n_parity_devs s" by (auto simp: n_devs_def)
    then show ?thesis unfolding chunk_at_def chunk_to_def je_get_chunk_def je_put_chunk_def parity_pos j
      by (simp add: block_get_put0 [OF assms(1)] digits_eq del: of_nat_mult of_nat_add)
  qed (auto simp: chunk_at_def chunk_to_def je_get_chunk_def je_put_chunk_def)
qed

lemma tag_at_to [simp]: "tag_at s base (chunk_to s base' boff t k c m) t' k' = tag_at s base m t' k'"
  by (simp add: tag_at_def chunk_to_def je_get_magic_def je_put_chunk_def)

lemma chunk_at_magic [simp]: "chunk_at s base boff (je_put_magic s st k c m) t' k' = chunk_at s base boff m t' k'"
  by (simp add: chunk_at_def je_get_chunk_def je_put_magic_def)

lemma put_magic_buf [simp]: "jm_buf (je_put_magic s st k c m) = jm_buf m"
  by (simp add: je_put_magic_def)

lemma tag_at_magic:
  assumes "length c = JE_MAGIC_SIZE" "k < n_devs s" "k' < n_devs s"
  shows "tag_at s base (je_put_magic s (base + t) k c m) t' k' = (if t' = t \<and> k' = k then c else tag_at s base m t' k')"
  using assms(2,3) by (simp add: tag_at_def je_get_magic_def je_put_magic_def block_get_put0 [OF assms(1)] digits_eq del: of_nat_mult of_nat_add)

text \<open>Bytes of the buffer outside the transfer.\<close>

definition outside :: "('g, 'p) segjerase_priv \<Rightarrow> ex_off \<Rightarrow> nat \<Rightarrow> ex_off \<Rightarrow> bool" where
  "outside s boff n x \<longleftrightarrow> x < boff \<or> boff + int (n * je_data_size s) \<le> x"

lemma chunk_to_outside:
  assumes "length c = je_chunk_size s" "t < n" "outside s boff n x"
  shows "jm_buf (chunk_to s base boff t k c m) x = jm_buf m x"
proof (cases "k < n_data_devs s")
  case True
  have "Suc (t * n_data_devs s + k) \<le> n * n_data_devs s"
    using True mult_le_mono1 [of "Suc t" n "n_data_devs s"] assms(2) by simp
  then have "Suc (t * n_data_devs s + k) * je_chunk_size s \<le> n * n_data_devs s * je_chunk_size s" by (rule mult_le_mono1)
  then have "(t * n_data_devs s + k) * je_chunk_size s + je_chunk_size s \<le> n * je_data_size s" by (simp add: je_data_size_def algebra_simps)
  then have "int ((t * n_data_devs s + k) * je_chunk_size s) + int (je_chunk_size s) \<le> int (n * je_data_size s)"
    by (simp only: of_nat_add [symmetric] of_nat_le_iff)
  then have "x < boff + int ((t * n_data_devs s + k) * je_chunk_size s) \<or> boff + int ((t * n_data_devs s + k) * je_chunk_size s) + int (length c) \<le> x"
    using assms(1,3) of_nat_0_le_iff [of "(t * n_data_devs s + k) * je_chunk_size s"] unfolding outside_def by linarith
  then show ?thesis using True unfolding chunk_to_def je_put_chunk_def data_pos by (simp add: mem_put_out del: of_nat_mult of_nat_add)
qed (simp add: chunk_to_def je_put_chunk_def)

text \<open>Several chunks of one stripe.\<close>

lemma chunks_to:
  assumes "\<forall>k \<in> set ks. length (f k) = je_chunk_size s \<and> k < n_devs s" "distinct ks"
  shows "k' < n_devs s \<Longrightarrow> chunk_at s base boff (fold (\<lambda>k. chunk_to s base boff t k (f k)) ks m) t' k' =
      (if t' = t \<and> k' \<in> set ks then f k' else chunk_at s base boff m t' k')"
    and "tag_at s base (fold (\<lambda>k. chunk_to s base boff t k (f k)) ks m) t' k' = tag_at s base m t' k'"
    and "t < n \<Longrightarrow> outside s boff n x \<Longrightarrow> jm_buf (fold (\<lambda>k. chunk_to s base boff t k (f k)) ks m) x = jm_buf m x"
  using assms by (induction ks arbitrary: m) (auto simp: chunk_at_to chunk_to_outside)

lemma write_back_fold:
  "je_write_back s (base + t) (boff + int (t * je_data_size s)) h r =
     r\<lparr>jr_mem := fold (\<lambda>k. chunk_to s base boff t k (h ! k)) [0..<n_devs s] (jr_mem r), jr_pwork := drop (n_devs s) h\<rparr>"
  by (simp add: je_write_back_def chunk_to_def [abs_def] del: of_nat_mult)

section \<open>Vectors\<close>

text \<open>What a vector of stripes holds.\<close>

lemma length_gather: "length (je_gather s base boff n m) = n * stripe_size_with_magic s"
proof -
  have "length (je_get_magic s st m k @ je_get_chunk s st pos m k) = chunk_size_with_magic s" for st pos k
    by (simp add: je_get_magic_def je_get_chunk_def chunk_size_with_magic_def)
  then show ?thesis
    by (simp add: je_gather_def length_concat comp_def sum_list_triv stripe_size_with_magic_def del: length_append)
qed

lemma je_scatter_stripe_eq:
  "je_scatter_stripe s base boff vec t m =
     fold (\<lambda>k m. chunk_to s base boff t k (drop JE_MAGIC_SIZE (je_vec_piece s vec t k))
       (je_put_magic s (base + t) k (take JE_MAGIC_SIZE (je_vec_piece s vec t k)) m)) [0..<n_devs s] m"
  by (simp add: je_scatter_stripe_def chunk_to_def [abs_def] del: of_nat_mult)

lemma length_piece:
  assumes "length vec = n * stripe_size_with_magic s" "t < n" "k < n_devs s"
  shows "length (je_vec_piece s vec t k) = chunk_size_with_magic s"
proof -
  have "Suc t * n_devs s \<le> n * n_devs s" using assms(2) by (intro mult_le_mono1) simp
  then have "t * n_devs s + k + 1 \<le> n * n_devs s" using assms(3) by simp
  then have "(t * n_devs s + k + 1) * chunk_size_with_magic s \<le> n * n_devs s * chunk_size_with_magic s" by (rule mult_le_mono1)
  then show ?thesis using assms(1) by (simp add: je_vec_piece_def stripe_size_with_magic_def algebra_simps)
qed

lemma scatter_some:
  assumes "\<forall>k \<in> set ks. length (je_vec_piece s vec t k) = chunk_size_with_magic s \<and> k < n_devs s" "distinct ks"
  shows "k' < n_devs s \<Longrightarrow> chunk_at s base boff (fold (\<lambda>k m. chunk_to s base boff t k (drop JE_MAGIC_SIZE (je_vec_piece s vec t k))
       (je_put_magic s (base + t) k (take JE_MAGIC_SIZE (je_vec_piece s vec t k)) m)) ks m) t' k' =
      (if t' = t \<and> k' \<in> set ks then drop JE_MAGIC_SIZE (je_vec_piece s vec t k') else chunk_at s base boff m t' k')"
    and "k' < n_devs s \<Longrightarrow> tag_at s base (fold (\<lambda>k m. chunk_to s base boff t k (drop JE_MAGIC_SIZE (je_vec_piece s vec t k))
       (je_put_magic s (base + t) k (take JE_MAGIC_SIZE (je_vec_piece s vec t k)) m)) ks m) t' k' =
      (if t' = t \<and> k' \<in> set ks then take JE_MAGIC_SIZE (je_vec_piece s vec t k') else tag_at s base m t' k')"
    and "t < n \<Longrightarrow> outside s boff n x \<Longrightarrow> jm_buf (fold (\<lambda>k m. chunk_to s base boff t k (drop JE_MAGIC_SIZE (je_vec_piece s vec t k))
       (je_put_magic s (base + t) k (take JE_MAGIC_SIZE (je_vec_piece s vec t k)) m)) ks m) x = jm_buf m x"
  using assms
proof (induction ks arbitrary: m)
  case (Cons k ks)
  let ?ok = "\<forall>k \<in> set (k # ks). length (je_vec_piece s vec t k) = chunk_size_with_magic s \<and> k < n_devs s"
  have len: "length (take JE_MAGIC_SIZE (je_vec_piece s vec t k)) = JE_MAGIC_SIZE" "length (drop JE_MAGIC_SIZE (je_vec_piece s vec t k)) = je_chunk_size s" "k < n_devs s"
    if ?ok using that by (auto simp: chunk_size_with_magic_def)
  {
    case 1
    then show ?case using Cons.IH(1) len [OF 1(2)] by (auto simp: chunk_at_to)
  next
    case 2
    then show ?case using Cons.IH(2) len [OF 2(2)] by (auto simp: tag_at_magic)
  next
    case 3
    then show ?case using Cons.IH(3) len [OF 3(3)] by (auto simp: chunk_to_outside)
  }
qed auto

lemma scattered:
  assumes "length vec = n * stripe_size_with_magic s"
  shows "j \<le> n \<Longrightarrow> k' < n_devs s \<Longrightarrow> chunk_at s base boff (je_scatter s base boff j vec m) t' k' =
      (if t' < j then drop JE_MAGIC_SIZE (je_vec_piece s vec t' k') else chunk_at s base boff m t' k')"
    and "j \<le> n \<Longrightarrow> k' < n_devs s \<Longrightarrow> tag_at s base (je_scatter s base boff j vec m) t' k' =
      (if t' < j then take JE_MAGIC_SIZE (je_vec_piece s vec t' k') else tag_at s base m t' k')"
    and "j \<le> n \<Longrightarrow> outside s boff n x \<Longrightarrow> jm_buf (je_scatter s base boff j vec m) x = jm_buf m x"
proof (induction j)
  case (Suc j)
  have ok: "\<forall>k \<in> set [0..<n_devs s]. length (je_vec_piece s vec j k) = chunk_size_with_magic s \<and> k < n_devs s" if "Suc j \<le> n"
    using length_piece [OF assms, of j] that by simp
  have step: "je_scatter s base boff (Suc j) vec m = je_scatter_stripe s base boff vec j (je_scatter s base boff j vec m)"
    by (simp add: je_scatter_def)
  {
    case 1
    then show ?case using Suc.IH(1) scatter_some(1) [OF ok] unfolding step je_scatter_stripe_eq by auto
  next
    case 2
    then show ?case using Suc.IH(2) scatter_some(2) [OF ok] unfolding step je_scatter_stripe_eq by auto
  next
    case 3
    then have "j < n" by simp
    with 3 show ?case using Suc.IH(3) scatter_some(3) [OF ok, of n boff x] unfolding step je_scatter_stripe_eq by simp
  }
qed (simp_all add: je_scatter_def)

section \<open>Reading\<close>

text \<open>
  A stripe in memory: the devices outside \<open>E\<close> have the tag and the chunk of the stripe of \<open>ds\<close>, the others another tag.
\<close>

definition stripe_in ::
  "zlib \<Rightarrow> (chunk list \<Rightarrow> chunk list) \<Rightarrow> ('g, 'p) segjerase_priv \<Rightarrow> (nat \<Rightarrow> magic) \<Rightarrow> (nat \<Rightarrow> chunk) \<Rightarrow> chunk list \<Rightarrow> nat set \<Rightarrow> bool" where
  "stripe_in Z par s tag chnk ds E \<longleftrightarrow>
     strips (n_data_devs s) (je_chunk_size s) ds \<and> E \<subseteq> {..<n_devs s} \<and> 2 * card E < n_devs s \<and>
     je_cksum_calc Z (ds @ par ds) \<noteq> empty_magic \<and>
     (\<forall>k < n_devs s. (tag k = je_cksum_calc Z (ds @ par ds)) = (k \<notin> E)) \<and>
     (\<forall>k < n_devs s. k \<notin> E \<longrightarrow> chnk k = (ds @ par ds) ! k)"

locale je_segment = je_check "je_enc J s" "je_dec J s" "n_data_devs s" "n_parity_devs s" "je_chunk_size s" par lost Z
  for J :: "('x, 'y, 'z) jerasure_lib" and s :: "('g, ('x, 'y, 'z) erasure_plan option) segjerase_priv"
    and par :: "chunk list \<Rightarrow> chunk list" and lost :: "nat set \<Rightarrow> bool" and Z :: zlib +
  assumes cksum: "magic_cksum s \<noteq> 0"
begin

text \<open>What a step of a read keeps: the other stripes, and the buffer outside.\<close>

definition keeps :: "nat \<Rightarrow> ex_off \<Rightarrow> nat \<Rightarrow> nat \<Rightarrow> je_read_state \<Rightarrow> je_read_state \<Rightarrow> bool" where
  "keeps base boff n t r r' \<longleftrightarrow>
     op_state (jr_status r') = op_state (jr_status r) \<and> jr_hard r' = jr_hard r \<and>
     strips (n_parity_devs s) (je_chunk_size s) (jr_pwork r') \<and>
     (\<forall>t' k. t' \<noteq> t \<and> k < n_devs s \<longrightarrow> chunk_at s base boff (jr_mem r') t' k = chunk_at s base boff (jr_mem r) t' k) \<and>
     (\<forall>t' k. k < n_devs s \<longrightarrow> tag_at s base (jr_mem r') t' k = tag_at s base (jr_mem r) t' k) \<and>
     (\<forall>x. outside s boff n x \<longrightarrow> jm_buf (jr_mem r') x = jm_buf (jr_mem r) x)"

lemma recover_stripe:
  assumes pw: "strips (n_parity_devs s) (je_chunk_size s) (jr_pwork r)" and t: "t < n"
    and ds: "strips (n_data_devs s) (je_chunk_size s) ds" and E: "E = {..<n_devs s} - set good" "E = {} \<or> lost E"
    and chunks: "\<forall>k < n_devs s. k \<notin> E \<longrightarrow> chunk_at s base boff (jr_mem r) t k = (ds @ par ds) ! k"
    and m: "m = je_cksum_calc Z (ds @ par ds)"
  shows "\<exists>r'. je_read_recover Z J s (base + t) (boff + int (t * je_data_size s)) m good r = Ret r' \<and> keeps base boff n t r r' \<and>
    (\<forall>k < n_devs s. chunk_at s base boff (jr_mem r') t k = (ds @ par ds) ! k)"
proof -
  let ?n = "n_devs s" and ?h = "map (chunk_at s base boff (jr_mem r) t) [0..<n_devs s] @ jr_pwork r"
  have n: "?n = n_data_devs s + n_parity_devs s" by (simp add: n_devs_def)
  have "store_ok ?n (je_chunk_size s) [0..<?n] ?h" using pw by (auto simp: store_ok_def strips_def)
  moreover have "badset (je_badmap ?n good) = E" by (simp add: badset_badmap E(1))
  moreover have "?h ! ([0..<?n] ! k) = (ds @ par ds) ! k" if "k < ?n" "k \<notin> E" for k using that chunks by (simp add: nth_append)
  ultimately obtain eptr h' where c: "jerase_control_check Z (je_dec J s) (n_parity_devs s) (je_badmap ?n good) [0..<?n] (replicate ?n 0) ?n (Some m) ?h = Ret (0, eptr, h')"
    "cells h' [0..<?n] = ds @ par ds" "store_ok ?n (je_chunk_size s) [0..<?n] h'" "length h' = length ?h" "\<forall>a. a \<notin> set [0..<?n] \<longrightarrow> h' ! a = ?h ! a"
    using check_rebuilds [of "[0..<?n]" ?h "je_badmap ?n good" ds "replicate ?n 0" ?n] E(2) ds unfolding m n by (auto simp: n_devs_def)
  let ?r = "je_write_back s (base + t) (boff + int (t * je_data_size s)) h' r"
  have rec: "je_read_recover Z J s (base + t) (boff + int (t * je_data_size s)) m good r = Ret ?r"
    using c(1) cksum by (simp add: je_read_recover_def chunk_at_def [abs_def] Let_def del: of_nat_mult)
  have cell: "h' ! k = (ds @ par ds) ! k" if "k < ?n" for k using arg_cong [OF c(2), of "\<lambda>cs. cs ! k"] that by simp
  have lens: "\<forall>k \<in> set [0..<?n]. length (h' ! k) = je_chunk_size s \<and> k < ?n" using c(3) by (auto simp: store_ok_def)
  have "strips (n_parity_devs s) (je_chunk_size s) (drop ?n h')"
    using c(3,4) pw by (auto simp: strips_def store_ok_def dest: in_set_dropD)
  then have "keeps base boff n t r ?r"
    unfolding keeps_def write_back_fold using chunks_to [OF lens] t by simp
  moreover have "\<forall>k < ?n. chunk_at s base boff (jr_mem ?r) t k = (ds @ par ds) ! k"
    unfolding write_back_fold using chunks_to(1) [OF lens] cell by simp
  ultimately show ?thesis using rec by blast
qed

lemma keeps_self: "strips (n_parity_devs s) (je_chunk_size s) (jr_pwork r) \<Longrightarrow> keeps base boff n t r r"
  by (simp add: keeps_def)

lemma keeps_soft:
  "keeps base boff n t (r\<lparr>jr_op := c, jr_status := (jr_status r)\<lparr>error_code := d\<rparr>, jr_soft := b\<rparr>) r' \<Longrightarrow> keeps base boff n t r r'"
  by (simp add: keeps_def)

text \<open>A stripe whose missing chunks can be rebuilt is read correctly.\<close>

lemma read_stripe:
  assumes pw: "strips (n_parity_devs s) (je_chunk_size s) (jr_pwork r)" and t: "t < n"
    and st: "stripe_in Z par s (tag_at s base (jr_mem r) t) (chunk_at s base boff (jr_mem r) t) ds E" and E: "E = {} \<or> lost E"
  shows "\<exists>r'. je_read_stripe Z J s code (base + t) (boff + int (t * je_data_size s)) r = Ret r' \<and> keeps base boff n t r r' \<and>
    (\<forall>k < n_data_devs s. chunk_at s base boff (jr_mem r') t k = ds ! k)"
proof -
  let ?n = "n_devs s" and ?m = "je_cksum_calc Z (ds @ par ds)"
  let ?ms = "map (je_get_magic s (base + t) (jr_mem r)) [0..<?n]"
  have ds: "strips (n_data_devs s) (je_chunk_size s) ds" and En: "E \<subseteq> {..<?n}" and half: "2 * card E < ?n" and ne: "?m \<noteq> empty_magic"
    and chunks: "\<forall>k < ?n. k \<notin> E \<longrightarrow> chunk_at s base boff (jr_mem r) t k = (ds @ par ds) ! k"
    using st by (auto simp: stripe_in_def)
  have tags: "?ms ! k = ?m \<longleftrightarrow> k \<notin> E" if "k < ?n" for k using st that by (simp add: stripe_in_def tag_at_def)
  have Eset: "E = {k. k < length ?ms \<and> ?ms ! k \<noteq> ?m}" using En tags by auto
  define good where "good = filter (\<lambda>k. ?ms ! k = ?m) [0..<?n]"
  have q: "je_stripe_magic ?ms = (?m, good)" using stripe_magic [OF Eset] half by (simp add: good_def)
  have set_good: "set good = {..<?n} - E" using tags by (auto simp: good_def)
  then have Eg: "E = {..<?n} - set good" using En by auto
  have "distinct good" by (simp add: good_def)
  then have len: "length good = ?n - card E"
    using distinct_card [of good] set_good En finite_subset [OF En] by (simp add: card_Diff_subset)
  have card: "card E \<le> n_parity_devs s" using E lost_range by auto
  have data: "ds ! k = (ds @ par ds) ! k" if "k < n_data_devs s" for k using that ds by (simp add: strips_def nth_append)
  have rec: "\<exists>r'. je_read_recover Z J s (base + t) (boff + int (t * je_data_size s)) ?m good r0 = Ret r' \<and> keeps base boff n t r r' \<and>
      (\<forall>k < n_data_devs s. chunk_at s base boff (jr_mem r') t k = ds ! k)"
    if "r0 = r \<or> r0 = r\<lparr>jr_op := code, jr_status := (jr_status r)\<lparr>error_code := code\<rparr>, jr_soft := True\<rparr>" for r0
  proof -
    have pw0: "strips (n_parity_devs s) (je_chunk_size s) (jr_pwork r0)" using that pw by auto
    have chunks0: "\<forall>k < ?n. k \<notin> E \<longrightarrow> chunk_at s base boff (jr_mem r0) t k = (ds @ par ds) ! k" using that chunks by auto
    obtain r' where "je_read_recover Z J s (base + t) (boff + int (t * je_data_size s)) ?m good r0 = Ret r'" "keeps base boff n t r0 r'"
      "\<forall>k < ?n. chunk_at s base boff (jr_mem r') t k = (ds @ par ds) ! k"
      using recover_stripe [OF pw0 t ds Eg E chunks0 refl] by blast
    moreover have "keeps base boff n t r r'" using that calculation(2) keeps_soft by auto
    ultimately show ?thesis using data by (auto simp: n_devs_def)
  qed
  have rec1: "\<exists>r'. je_read_recover Z J s (base + t) (boff + int (t * je_data_size s)) ?m good r = Ret r' \<and> keeps base boff n t r r' \<and>
      (\<forall>k < n_data_devs s. chunk_at s base boff (jr_mem r') t k = ds ! k)" by (rule rec) simp
  have rec2: "\<exists>r'. je_read_recover Z J s (base + t) (boff + int (t * je_data_size s)) ?m good
        (r\<lparr>jr_op := code, jr_status := (jr_status r)\<lparr>error_code := code\<rparr>, jr_soft := True\<rparr>) = Ret r' \<and> keeps base boff n t r r' \<and>
      (\<forall>k < n_data_devs s. chunk_at s base boff (jr_mem r') t k = ds ! k)" by (rule rec) simp
  have all: "\<forall>k < n_data_devs s. chunk_at s base boff (jr_mem r) t k = ds ! k"
    if "length good = ?n \<or> length (filter (\<lambda>k. k < n_data_devs s) good) = n_data_devs s"
  proof (intro allI impI)
    fix k assume k: "k < n_data_devs s"
    have "{..<n_data_devs s} \<subseteq> set good"
    proof (cases "length good = ?n")
      case True
      then have "card E = 0" using len half by simp
      then have "E = {}" using finite_subset [OF En] by simp
      then show ?thesis using set_good by (auto simp: n_devs_def)
    next
      case False
      let ?f = "filter (\<lambda>k. k < n_data_devs s) good"
      have "card (set ?f) = n_data_devs s" using that False \<open>distinct good\<close> by (simp add: distinct_card del: set_filter)
      moreover have "set ?f \<subseteq> {..<n_data_devs s}" by auto
      ultimately have "set ?f = {..<n_data_devs s}" by (intro card_subset_eq) auto
      then show ?thesis by auto
    qed
    then have "k \<notin> E" using k Eg by auto
    then show "chunk_at s base boff (jr_mem r) t k = ds ! k" using chunks k data by (simp add: n_devs_def)
  qed
  have "n_data_devs s \<le> length good" using len card by (simp add: n_devs_def)
  then show ?thesis unfolding je_read_stripe_def q prod.case Let_def using ne rec1 rec2 all keeps_self [OF pw]
    by (auto simp del: of_nat_mult)
qed

end

end
