(* ===== verification/Jerasure_Transfer.thy ===== *)
theory Jerasure_Transfer
  imports Jerasure_Correctness
begin

text \<open>
  Whole transfers of an erasure coded segment: what a read of one extent gives back, what a write hands to the child, and
  the two together over a child some of whose devices are dead.
\<close>

section \<open>Reading an extent\<close>

context je_segment
begin

lemma read_stripes:
  assumes "t + j = n" "strips (n_parity_devs s) (je_chunk_size s) (jr_pwork r)"
    and "\<And>t'. t \<le> t' \<Longrightarrow> t' < n \<Longrightarrow> stripe_in Z par s (tag_at s base (jr_mem r) t') (chunk_at s base boff (jr_mem r) t') (ds t') (E t')"
    and "\<And>t'. t \<le> t' \<Longrightarrow> t' < n \<Longrightarrow> E t' = {} \<or> lost (E t')"
  shows "\<exists>r'. je_read_stripes Z J s code (base + t) (boff + int (t * je_data_size s)) j r = Ret r' \<and>
    op_state (jr_status r') = op_state (jr_status r) \<and> jr_hard r' = jr_hard r \<and>
    (\<forall>t' k. t' < t \<and> k < n_devs s \<longrightarrow> chunk_at s base boff (jr_mem r') t' k = chunk_at s base boff (jr_mem r) t' k) \<and>
    (\<forall>t' k. t \<le> t' \<and> t' < n \<and> k < n_data_devs s \<longrightarrow> chunk_at s base boff (jr_mem r') t' k = ds t' ! k) \<and>
    (\<forall>x. outside s boff n x \<longrightarrow> jm_buf (jr_mem r') x = jm_buf (jr_mem r) x)"
  using assms
proof (induction j arbitrary: t r)
  case (Suc j)
  have t: "t < n" using Suc.prems(1) by simp
  obtain r1 where r1: "je_read_stripe Z J s code (base + t) (boff + int (t * je_data_size s)) r = Ret r1"
    "keeps base boff n t r r1" "\<forall>k < n_data_devs s. chunk_at s base boff (jr_mem r1) t k = ds t ! k"
    using read_stripe [OF Suc.prems(2) t Suc.prems(3) [OF order_refl t] Suc.prems(4) [OF order_refl t]] by blast
  have keep: "stripe_in Z par s (tag_at s base (jr_mem r1) t') (chunk_at s base boff (jr_mem r1) t') (ds t') (E t')"
    if "Suc t \<le> t'" "t' < n" for t'
    using Suc.prems(3) [of t'] r1(2) that unfolding stripe_in_def keeps_def by simp
  have pw: "strips (n_parity_devs s) (je_chunk_size s) (jr_pwork r1)" using r1(2) by (simp add: keeps_def)
  have n: "Suc t + j = n" using Suc.prems(1) by simp
  obtain r' where r': "je_read_stripes Z J s code (base + Suc t) (boff + int (Suc t * je_data_size s)) j r1 = Ret r'"
    "op_state (jr_status r') = op_state (jr_status r1)" "jr_hard r' = jr_hard r1"
    "\<forall>t' k. t' < Suc t \<and> k < n_devs s \<longrightarrow> chunk_at s base boff (jr_mem r') t' k = chunk_at s base boff (jr_mem r1) t' k"
    "\<forall>t' k. Suc t \<le> t' \<and> t' < n \<and> k < n_data_devs s \<longrightarrow> chunk_at s base boff (jr_mem r') t' k = ds t' ! k"
    "\<forall>x. outside s boff n x \<longrightarrow> jm_buf (jr_mem r') x = jm_buf (jr_mem r1) x"
    using Suc.IH [OF n pw keep Suc.prems(4)] by (auto dest: Suc_leD)
  have "je_read_stripes Z J s code (base + t) (boff + int (t * je_data_size s)) (Suc j) r = Ret r'"
    using r1(1) r'(1) by (simp add: algebra_simps)
  moreover have "chunk_at s base boff (jr_mem r') t' k = ds t' ! k" if "t \<le> t'" "t' < n" "k < n_data_devs s" for t' k
    using that r'(4,5) r1(3) by (cases "t' = t") (auto simp: n_devs_def)
  ultimately show ?case using r'(2-6) r1(2) unfolding keeps_def by (intro exI [of _ r']) auto
qed auto

end

text \<open>The data of a buffer, chunk by chunk.\<close>

lemma mem_get_chunks:
  assumes "\<And>k. k < n \<Longrightarrow> mem_get m (p + int (k * bs)) (int bs) = f k"
  shows "mem_get m p (int (n * bs)) = concat (map f [0..<n])"
  using assms
proof (induction n)
  case (Suc n)
  have "mem_get m p (int (Suc n * bs)) = mem_get m p (int (n * bs)) @ mem_get m (p + int (n * bs)) (int bs)"
    using mem_get_split [of "int (n * bs)" "int bs" m p] by (simp add: algebra_simps)
  then show ?case using Suc by simp
qed (simp add: mem_get_def)

definition chunks_of :: "('g, 'p) segjerase_priv \<Rightarrow> mem \<Rightarrow> ex_off \<Rightarrow> nat \<Rightarrow> chunk list" where
  "chunks_of s m boff t =
     map (\<lambda>k. mem_get m (boff + int (t * je_data_size s) + int (k * je_chunk_size s)) (int (je_chunk_size s))) [0..<n_data_devs s]"

lemma strips_chunks_of [simp]: "strips (n_data_devs s) (je_chunk_size s) (chunks_of s m boff t)"
  by (auto simp: strips_def chunks_of_def)

lemma mem_get_stripes:
  "mem_get m boff (int (n * je_data_size s)) = concat (map (\<lambda>t. concat (chunks_of s m boff t)) [0..<n])"
proof (rule mem_get_chunks)
  fix t
  have "int (je_data_size s) = int (n_data_devs s * je_chunk_size s)" by (simp add: je_data_size_def)
  then show "mem_get m (boff + int (t * je_data_size s)) (int (je_data_size s)) = concat (chunks_of s m boff t)"
    unfolding chunks_of_def by (simp only:) (rule mem_get_chunks, simp)
qed

lemma chunks_of_eqI:
  assumes "strips (n_data_devs s) (je_chunk_size s) ds" "\<And>k. k < n_data_devs s \<Longrightarrow> chunk_at s base boff m t k = ds ! k"
  shows "chunks_of s (jm_buf m) boff t = ds"
  using assms by (intro nth_equalityI) (auto simp: strips_def chunks_of_def chunk_at_def je_get_chunk_def)

text \<open>What the vector of a transfer holds of stripe \<open>t\<close>.\<close>

definition vec_tag :: "('g, 'p) segjerase_priv \<Rightarrow> byte list \<Rightarrow> nat \<Rightarrow> nat \<Rightarrow> magic" where
  "vec_tag s vec t k = take JE_MAGIC_SIZE (je_vec_piece s vec t k)"

definition vec_chunk :: "('g, 'p) segjerase_priv \<Rightarrow> byte list \<Rightarrow> nat \<Rightarrow> nat \<Rightarrow> chunk" where
  "vec_chunk s vec t k = drop JE_MAGIC_SIZE (je_vec_piece s vec t k)"

text \<open>The memory a read starts with.\<close>

definition read_mem :: "je_junk \<Rightarrow> mem \<Rightarrow> je_mem" where
  "read_mem junk buffer = \<lparr>jm_buf = buffer, jm_magic = (\<lambda>_. 0), jm_parity = jk_parity junk\<rparr>"

lemma one_extent_fits: "\<not> int (je_stripes s v * je_parity_size s) > je_parity_len s [v]"
  by (simp add: je_parity_len_def Let_def)

lemma extent_stripes:
  assumes "0 < je_data_size s" "je_aligned s [v]" "0 \<le> iov_len v"
  shows "iov_len v = int (je_stripes s v * je_data_size s)"
  using assms by (auto simp: je_stripes_def je_aligned_def dvd_def zero_le_mult_iff)

text \<open>What a step of a read leaves as it was.\<close>

definition delivered ::
  "zlib \<Rightarrow> (chunk list \<Rightarrow> chunk list) \<Rightarrow> (nat set \<Rightarrow> bool) \<Rightarrow> ('g, 'p) segjerase_priv \<Rightarrow> nat \<Rightarrow> byte list \<Rightarrow> (nat \<Rightarrow> chunk list) \<Rightarrow> (nat \<Rightarrow> nat set) \<Rightarrow> bool" where
  "delivered Z par lost s n vec ds E \<longleftrightarrow>
     length vec = n * stripe_size_with_magic s \<and>
     (\<forall>t < n. stripe_in Z par s (vec_tag s vec t) (vec_chunk s vec t) (ds t) (E t) \<and> (E t = {} \<or> lost (E t)))"

context je_segment
begin

lemma read_tasks:
  assumes c: "jc_read C g (Some hint) [v] (je_gather s 0 boff n (jr_mem r)) boff = (st, vec, g')" and d: "delivered Z par lost s n vec ds E"
    and pw: "strips (n_parity_devs s) (je_chunk_size s) (jr_pwork r)"
  shows "\<exists>r'. je_read_tasks C Z J s hint [\<lparr>jt_extent = v, jt_base = 0, jt_nstripes = n, jt_boff = boff\<rparr>] r g = Ret (r', g') \<and>
    op_state (jr_status r') = op_state (jr_status r) \<and> jr_hard r' = jr_hard r \<and>
    (\<forall>t < n. chunks_of s (jm_buf (jr_mem r')) boff t = ds t) \<and>
    (\<forall>x. outside s boff n x \<longrightarrow> jm_buf (jr_mem r') x = jm_buf (jr_mem r) x)"
proof -
  let ?m = "je_scatter s 0 boff n vec (jr_mem r)" let ?r = "r\<lparr>jr_mem := ?m\<rparr>"
  have len: "length vec = n * stripe_size_with_magic s" and E: "\<And>t. t < n \<Longrightarrow> E t = {} \<or> lost (E t)"
    and ds: "\<And>t. t < n \<Longrightarrow> strips (n_data_devs s) (je_chunk_size s) (ds t)"
    using d by (auto simp: delivered_def stripe_in_def)
  have st: "stripe_in Z par s (tag_at s 0 (jr_mem ?r) t) (chunk_at s 0 boff (jr_mem ?r) t) (ds t) (E t)" if "t < n" for t
    using d that scattered(1,2) [OF len, of n] unfolding delivered_def stripe_in_def vec_tag_def vec_chunk_def by auto
  have pw': "strips (n_parity_devs s) (je_chunk_size s) (jr_pwork ?r)" using pw by simp
  obtain r' where r': "je_read_stripes Z J s (error_code st) 0 boff n ?r = Ret r'"
    "op_state (jr_status r') = op_state (jr_status ?r)" "jr_hard r' = jr_hard ?r"
    "\<forall>t' k. t' < n \<and> k < n_data_devs s \<longrightarrow> chunk_at s 0 boff (jr_mem r') t' k = ds t' ! k"
    "\<forall>x. outside s boff n x \<longrightarrow> jm_buf (jr_mem r') x = jm_buf (jr_mem ?r) x"
    using read_stripes [OF _ pw' st E, of 0 n n "error_code st"] by auto
  have "chunks_of s (jm_buf (jr_mem r')) boff t = ds t" if "t < n" for t
    using that r'(4) by (intro chunks_of_eqI [where base = 0] ds) auto
  then show ?thesis using r' c scattered(3) [OF len, of n] by auto
qed

lemma reads:
  assumes v: "0 < je_data_size s" "je_aligned s [v]" "0 \<le> iov_len v"
    and pw: "strips (n_parity_devs s) (je_chunk_size s) (jk_pwork junk)"
    and c: "jc_read C (child_seg s) (Some (je_hint s hints False)) [je_extent s v]
      (je_gather s 0 boff (je_stripes s v) (read_mem junk buffer)) boff = (st, vec, g')"
    and d: "delivered Z par lost s (je_stripes s v) vec ds E"
  shows "\<exists>st' buf s'. segjerase_read C Z J junk s hints [v] buffer boff = Ret (Some (st', buf, s')) \<and>
    op_state st' = OP_STATE_SUCCESS \<and> mem_get buf boff (iov_len v) = concat (map (\<lambda>t. concat (ds t)) [0..<je_stripes s v]) \<and>
    (\<forall>x. x < boff \<or> boff + iov_len v \<le> x \<longrightarrow> buf x = buffer x) \<and> child_seg s' = g' \<and> je_hard_errors s' = je_hard_errors s"
proof -
  let ?n = "je_stripes s v"
  let ?r = "\<lparr>jr_mem = read_mem junk buffer, jr_pwork = jk_pwork junk,
        jr_status = op_success_status, jr_soft = False, jr_hard = False, jr_brute = None, jr_op = jk_op junk\<rparr>"
  have len: "iov_len v = int (?n * je_data_size s)" by (rule extent_stripes [OF v])
  obtain r' where r': "je_read_tasks C Z J s (je_hint s hints False) [\<lparr>jt_extent = je_extent s v, jt_base = 0, jt_nstripes = ?n, jt_boff = boff\<rparr>] ?r (child_seg s) = Ret (r', g')"
    "op_state (jr_status r') = op_state (jr_status ?r)" "jr_hard r' = jr_hard ?r" "\<forall>t < ?n. chunks_of s (jm_buf (jr_mem r')) boff t = ds t"
    "\<forall>x. outside s boff ?n x \<longrightarrow> jm_buf (jr_mem r') x = jm_buf (jr_mem ?r) x"
    using read_tasks [of C "child_seg s" _ _ boff ?n ?r, OF _ d] c pw by (metis je_read_state.select_convs(1,2))
  have "je_read_attempt C Z J junk s (je_hint s hints False) [v] buffer boff (child_seg s) = Ret (r', g')"
    using r'(1) one_extent_fits [of s v] by (simp add: je_read_attempt_def read_mem_def)
  then have "segjerase_read C Z J junk s hints [v] buffer boff =
      Ret (Some (jr_status r', jm_buf (jr_mem r'), je_count_errors (jr_soft r') False (s\<lparr>child_seg := g'\<rparr>)))"
    using v(1,2) r'(3) by (simp add: segjerase_read_def segjerase_read_func_def Let_def)
  moreover have "mem_get (jm_buf (jr_mem r')) boff (iov_len v) = concat (map (\<lambda>t. concat (ds t)) [0..<?n])"
    unfolding len mem_get_stripes using r'(4) by (intro arg_cong [where f = concat] map_cong) auto
  ultimately show ?thesis using r'(2,5) len by (auto simp: je_count_errors_def outside_def read_mem_def op_success_status_def)
qed

end

section \<open>Writing an extent\<close>

text \<open>Equally long pieces of a concatenation.\<close>

lemma drop_concat: "\<forall>x \<in> set xs. length x = c \<Longrightarrow> drop (i * c) (concat xs) = concat (drop i xs)"
proof (induction xs arbitrary: i)
  case (Cons x xs)
  then show ?case by (cases i) simp_all
qed simp

lemma vec_piece_concat:
  assumes "\<And>t. t < n \<Longrightarrow> length (ps t) = n_devs s \<and> (\<forall>p \<in> set (ps t). length p = chunk_size_with_magic s)" "t < n" "k < n_devs s"
  shows "je_vec_piece s (concat (map (\<lambda>t. concat (ps t)) [0..<n])) t k = ps t ! k"
proof -
  have len: "length (concat (ps t)) = stripe_size_with_magic s" if "t < n" for t
    using assms(1) [OF that] sum_list_triv [of "chunk_size_with_magic s" "ps t"]
    by (simp add: length_concat stripe_size_with_magic_def cong: map_cong)
  have "drop (t * stripe_size_with_magic s) (concat (map (\<lambda>t. concat (ps t)) [0..<n])) = concat (drop t (map (\<lambda>t. concat (ps t)) [0..<n]))"
    by (rule drop_concat) (use len in auto)
  also have "drop t (map (\<lambda>t. concat (ps t)) [0..<n]) = concat (ps t) # drop (Suc t) (map (\<lambda>t. concat (ps t)) [0..<n])"
    using assms(2) by (subst Cons_nth_drop_Suc [symmetric]) simp_all
  finally have s: "drop (t * stripe_size_with_magic s) (concat (map (\<lambda>t. concat (ps t)) [0..<n])) =
      concat (ps t) @ concat (drop (Suc t) (map (\<lambda>t. concat (ps t)) [0..<n]))" by simp
  have "drop (k * chunk_size_with_magic s) (concat (ps t)) = concat (drop k (ps t))"
    by (rule drop_concat) (use assms(1) [OF assms(2)] in blast)
  also have "drop k (ps t) = ps t ! k # drop (Suc k) (ps t)" using assms by (intro Cons_nth_drop_Suc [symmetric]) simp
  finally have d: "drop (k * chunk_size_with_magic s) (concat (ps t)) = ps t ! k @ concat (drop (Suc k) (ps t))" by simp
  have "k * chunk_size_with_magic s \<le> length (concat (ps t))" using len [OF assms(2)] assms(3) by (simp add: stripe_size_with_magic_def)
  moreover have "length (ps t ! k) = chunk_size_with_magic s" using assms by simp
  ultimately show ?thesis using s d by (simp add: je_vec_piece_def add.commute flip: drop_drop)
qed

text \<open>The bytes a write stores for one stripe.\<close>

definition tagged :: "zlib \<Rightarrow> chunk list \<Rightarrow> byte list list" where
  "tagged Z cs = map (\<lambda>c. je_cksum_calc Z cs @ c) cs"

lemma length_tagged: "strips n bs cs \<Longrightarrow> bs + JE_MAGIC_SIZE = w \<Longrightarrow> length (tagged Z cs) = n \<and> (\<forall>p \<in> set (tagged Z cs). length p = w)"
  by (auto simp: tagged_def strips_def)

context je_segment
begin

lemma write_stripe:
  "\<exists>m'. je_write_stripe Z J s st (pos + int (t * je_data_size s)) m =
     Ret (concat (tagged Z (chunks_of s (jm_buf m) pos t @ par (chunks_of s (jm_buf m) pos t))), m') \<and> jm_buf m' = jm_buf m"
proof -
  let ?ds = "chunks_of s (jm_buf m) pos t" and ?p = "pos + int (t * je_data_size s)"
  let ?ps = "map (je_get_chunk s st ?p m) [n_data_devs s..<n_devs s]"
  have "[0..<n_devs s] = [0..<n_data_devs s] @ [n_data_devs s..<n_devs s]"
    using upt_add_eq_append [of 0 "n_data_devs s" "n_parity_devs s"] by (simp add: n_devs_def)
  moreover have "map (je_get_chunk s st ?p m) [0..<n_data_devs s] = ?ds"
    unfolding chunks_of_def by (rule map_cong) (simp_all add: je_get_chunk_def)
  ultimately have "map (je_get_chunk s st ?p m) [0..<n_devs s] = ?ds @ ?ps" by simp
  moreover have "strips (n_parity_devs s) (je_chunk_size s) ?ps" by (auto simp: strips_def n_devs_def je_get_chunk_def)
  ultimately have e: "je_enc J s (map (je_get_chunk s st ?p m) [0..<n_devs s]) = Ret (?ds @ par ?ds)" using encode by simp
  have "jm_buf (fold (\<lambda>k. je_put_chunk s st ?p k (cs ! k)) ks m) = jm_buf m" if "\<forall>k \<in> set ks. n_data_devs s \<le> k" for cs ks m
    using that by (induction ks arbitrary: m) (simp_all add: je_put_chunk_def)
  then show ?thesis using e by (simp add: je_write_stripe_def je_stripe_bytes_def tagged_def)
qed

lemma write_stripes:
  "\<exists>m'. je_write_stripes Z J s st (pos + int (t * je_data_size s)) n m =
     Ret (concat (map (\<lambda>t. concat (tagged Z (chunks_of s (jm_buf m) pos t @ par (chunks_of s (jm_buf m) pos t)))) [t..<t + n]), m') \<and>
     jm_buf m' = jm_buf m"
proof (induction n arbitrary: st t m)
  case (Suc n)
  obtain m1 where m1: "je_write_stripe Z J s st (pos + int (t * je_data_size s)) m =
     Ret (concat (tagged Z (chunks_of s (jm_buf m) pos t @ par (chunks_of s (jm_buf m) pos t))), m1)" "jm_buf m1 = jm_buf m"
    using write_stripe by blast
  obtain m2 where "je_write_stripes Z J s (st + 1) (pos + int (t * je_data_size s) + int (je_data_size s)) n m1 =
     Ret (concat (map (\<lambda>t. concat (tagged Z (chunks_of s (jm_buf m) pos t @ par (chunks_of s (jm_buf m) pos t)))) [Suc t..<Suc t + n]), m2)"
    "jm_buf m2 = jm_buf m"
    using Suc.IH [of "st + 1" "Suc t" m1] m1(2) by (auto simp: algebra_simps)
  moreover have "[t..<t + Suc n] = t # [Suc t..<Suc t + n]" by (simp add: upt_conv_Cons del: upt_Suc)
  ultimately show ?case using m1 by (simp del: of_nat_mult upt_Suc)
qed simp

lemma writes:
  assumes v: "0 < je_data_size s" "je_aligned s [v]" "0 \<le> iov_len v"
    and c: "jc_write C (child_seg s) (Some (je_hint s hints False)) [je_extent s v] vec boff = (st, g')"
    and vec: "vec = concat (map (\<lambda>t. concat (tagged Z (chunks_of s buffer boff t @ par (chunks_of s buffer boff t)))) [0..<je_stripes s v])"
    and st: "op_state st = OP_STATE_SUCCESS \<or> error_code st \<le> int (n_parity_devs s)"
  shows "\<exists>st' s'. segjerase_write C Z J junk s hints [v] buffer boff = Ret (Some (st', s')) \<and>
    op_state st' = OP_STATE_SUCCESS \<and> child_seg s' = g' \<and> je_hard_errors s' = je_hard_errors s \<and>
    s' = s\<lparr>child_seg := g', write_errors := write_errors s', paranoid_check := paranoid_check s', je_soft_errors := je_soft_errors s'\<rparr>"
proof -
  obtain m where "je_write_stripes Z J s 0 boff (je_stripes s v) (read_mem junk buffer) = Ret (vec, m)"
    using write_stripes [of 0 boff 0 "je_stripes s v" "read_mem junk buffer"] vec by (auto simp: read_mem_def)
  then have "je_write_attempt C Z J junk s (je_hint s hints False) [v] buffer boff (child_seg s) =
      Ret (je_write_result s st \<lparr>jw_status = op_success_status, jw_soft = False, jw_hard = False\<rparr>, g')"
    using c one_extent_fits [of s v] by (simp add: je_write_attempt_def read_mem_def)
  then show ?thesis using v(1,2) st
    by (auto simp: segjerase_write_def segjerase_write_func_def je_write_result_def je_count_errors_def op_success_status_def Let_def)
qed

text \<open>Reading what was written.\<close>

lemma delivered_written:
  assumes ds: "\<And>t. strips (n_data_devs s) (je_chunk_size s) (ds t)"
    and tag: "\<And>t. t < n \<Longrightarrow> je_cksum_calc Z (ds t @ par (ds t)) \<noteq> empty_magic"
    and F: "F = {} \<or> lost F" "2 * card F < n_devs s"
    and vec: "vec = concat (map (\<lambda>t. concat (tagged Z (ds t @ par (ds t)))) [0..<n])" "length out = n * stripe_size_with_magic s"
    and out: "\<And>t k. t < n \<Longrightarrow> k < n_devs s \<Longrightarrow> k \<notin> F \<Longrightarrow> je_vec_piece s out t k = je_vec_piece s vec t k"
    and dead: "\<And>t k. t < n \<Longrightarrow> k \<in> F \<Longrightarrow> take JE_MAGIC_SIZE (je_vec_piece s out t k) = empty_magic"
  shows "delivered Z par lost s n out ds (\<lambda>_. F)"
proof -
  have st: "strips (n_devs s) (je_chunk_size s) (ds t @ par (ds t))" for t using strips_codeword [OF ds] by (simp add: n_devs_def)
  have piece: "je_vec_piece s vec t k = je_cksum_calc Z (ds t @ par (ds t)) @ (ds t @ par (ds t)) ! k" if "t < n" "k < n_devs s" for t k
  proof -
    have "je_vec_piece s vec t k = tagged Z (ds t @ par (ds t)) ! k"
      unfolding vec(1) by (rule vec_piece_concat) (use length_tagged [OF st] that in \<open>auto simp: chunk_size_with_magic_def\<close>)
    moreover have "k < length (ds t @ par (ds t))" using st that by (simp add: strips_def)
    ultimately show ?thesis by (simp add: tagged_def nth_map del: length_append map_append)
  qed
  have "F \<subseteq> {..<n_devs s}" using F(1) lost_range by (auto simp: n_devs_def)
  moreover have "(vec_tag s out t k = je_cksum_calc Z (ds t @ par (ds t))) = (k \<notin> F)" if "t < n" "k < n_devs s" for t k
    using out [OF that] piece [OF that] dead [OF that(1), of k] tag [OF that(1)] by (cases "k \<in> F") (auto simp: vec_tag_def)
  moreover have "vec_chunk s out t k = (ds t @ par (ds t)) ! k" if "t < n" "k < n_devs s" "k \<notin> F" for t k
    using out [OF that] piece [OF that(1,2)] by (simp add: vec_chunk_def)
  ultimately show ?thesis using vec(2) F ds tag by (simp add: delivered_def stripe_in_def)
qed

end

text \<open>The tags of a vector are clear before a read.\<close>

lemma mem_get_zero: "mem_get (\<lambda>_. 0) p n = replicate (nat n) 0"
  by (intro nth_equalityI) auto

lemma gather_piece:
  assumes "t < n" "k < n_devs s"
  shows "take JE_MAGIC_SIZE (je_vec_piece s (je_gather s 0 boff n (read_mem junk buffer)) t k) = empty_magic"
proof -
  let ?ps = "\<lambda>t. map (\<lambda>k. je_get_magic s t (read_mem junk buffer) k @
      je_get_chunk s t (boff + int (t * je_data_size s)) (read_mem junk buffer) k) [0..<n_devs s]"
  have "je_gather s 0 boff n (read_mem junk buffer) = concat (map (\<lambda>t. concat (?ps t)) [0..<n])" by (simp add: je_gather_def)
  moreover have "je_vec_piece s (concat (map (\<lambda>t. concat (?ps t)) [0..<n])) t k = ?ps t ! k"
    by (rule vec_piece_concat [OF _ assms]) (auto simp: je_get_magic_def je_get_chunk_def chunk_size_with_magic_def)
  ultimately show ?thesis using assms(2)
    by (simp add: je_get_magic_def read_mem_def mem_get_zero empty_magic_def del: of_nat_mult of_nat_add)
qed

end
