(* ===== verification/Jerasure_Roundtrip.thy ===== *)
theory Jerasure_Roundtrip
  imports Jerasure_Transfer
begin

text \<open>
  The erasure coded segment as its clients see it: what was written is read back although devices of the child are
  dead, and the contract holds for the segments that use the single parity code of \<open>src/raid4.c\<close>.
\<close>

section \<open>Segments with single parity\<close>

definition raid4_segment :: "'g \<Rightarrow> nat \<Rightarrow> nat \<Rightarrow> ('g, ('x, 'y, 'z) erasure_plan option) segjerase_priv" where
  "raid4_segment g m bs =
     \<lparr>child_seg = g, je_plan = Some (raid4_plan (Suc m)), je_blacklist = False, max_parity = 16 * 1024 * 1024, write_errors = 0,
      je_soft_errors = 0, je_hard_errors = 0, je_method = RAID4, n_data_devs = Suc m, n_parity_devs = 1, magic_cksum = 1,
      je_chunk_size = bs, paranoid_check = 0, je_w = 8\<rparr>"

lemma raid4_enc_dec:
  "je_enc J (raid4_segment g m bs) = (\<lambda>cs. et_encode_block J (raid4_plan (Suc m)) cs bs)"
  "je_dec J (raid4_segment g m bs) = (\<lambda>cs er. et_decode_block J (raid4_plan (Suc m)) cs bs er)"
  by (simp_all add: je_enc_def je_dec_def raid4_segment_def fun_eq_iff)

lemma raid4_geometry [simp]:
  "n_data_devs (raid4_segment g m bs) = Suc m" "n_parity_devs (raid4_segment g m bs) = 1" "je_chunk_size (raid4_segment g m bs) = bs"
  "magic_cksum (raid4_segment g m bs) = 1" "child_seg (raid4_segment g m bs) = g"
  by (simp_all add: raid4_segment_def)

interpretation raid4_check: je_check "\<lambda>cs. et_encode_block J (raid4_plan (Suc m)) cs bs"
  "\<lambda>cs er. et_decode_block J (raid4_plan (Suc m)) cs bs er" "Suc m" 1 bs "raid4_parity (Suc m) bs" "raid4_lost (Suc m)" Z for J m bs Z
  by unfold_locales

lemma raid4_segment_code:
  "erasure_code (je_enc J (raid4_segment g m bs)) (je_dec J (raid4_segment g m bs)) (Suc m) 1 bs (raid4_parity (Suc m) bs) (raid4_lost (Suc m))"
  unfolding raid4_enc_dec by (rule raid4.erasure_code_axioms)

lemma je_segmentI:
  "erasure_code (je_enc J s) (je_dec J s) (n_data_devs s) (n_parity_devs s) (je_chunk_size s) par lost \<Longrightarrow> magic_cksum s \<noteq> 0 \<Longrightarrow>
   je_segment J s par lost"
  by (simp add: je_segment_def je_check_def je_segment_axioms_def)

interpretation raid4_seg: je_segment J "raid4_segment g m bs" "raid4_parity (Suc m) bs" "raid4_lost (Suc m)" Z for J g m bs Z
  by (rule je_segmentI) (simp_all add: raid4_segment_code [unfolded One_nat_def])

section \<open>Reading after writing\<close>





text \<open>
  The round trip at work: the checksum of zlib, and a child that keeps the vector of the last write and
  delivers nothing for its device 0, in a segment with two data devices and a parity device.
\<close>

definition adler32 :: "int \<Rightarrow> byte list \<Rightarrow> int" where
  "adler32 c bs =
     (let (a, b) = foldl (\<lambda>(a, b) x. let a' = (a + uint x) mod 65521 in (a', (b + a') mod 65521)) (c mod 65536, c div 65536) bs
      in b * 65536 + a)"

definition adler_zlib :: zlib where
  "adler_zlib = \<lparr>z_init = 1, z_adler32 = adler32\<rparr>"



definition raid4_demo :: "(byte list, (unit, unit, unit) erasure_plan option) segjerase_priv" where
  "raid4_demo = raid4_segment [] 1 2"




lemma raid4_demo_code:
  "erasure_code (je_enc J raid4_demo) (je_dec J raid4_demo) 2 1 2 (raid4_parity 2 2) (raid4_lost 2)"
  using raid4_segment_code [where m = 1] by (simp add: raid4_demo_def numeral_2_eq_2)



section \<open>Searching for damaged chunks\<close>

text \<open>
  C18: The search of the bad chunks of a stripe succeeds whenever the chunks that are damaged form a set the code can rebuild,
  although nothing says which they are. What it reports is a stripe with the checksum that was stored; it differs
  from the chunks that were read at most in the devices reported as bad, and these are no more than the parity devices.
\<close>

theorem brute_recovery_finds:
  assumes code: "erasure_code enc dec nd np bs par lost"
    and ptr: "length ptr = nd + np" "distinct ptr" "\<forall>a \<in> set ptr. a < pw"
    and h: "length h = pw + np" "\<forall>c \<in> set h. length c = bs"
    and ds: "strips nd bs ds" "lost B" "\<forall>k < nd + np. k \<notin> B \<longrightarrow> h ! (ptr ! k) = (ds @ par ds) ! k"
    and bad: "je_cksum_calc Z (cells h ptr) \<noteq> je_cksum_calc Z (ds @ par ds)"
  shows "\<exists>b eptr' h'. jerase_brute_recovery Z dec np (replicate (nd + np) False) ptr eptr pw (Some (je_cksum_calc Z (ds @ par ds))) h = Ret (0, b, eptr', h') \<and>
    je_cksum_calc Z (cells h' eptr') = je_cksum_calc Z (ds @ par ds) \<and>
    0 < card {k. k < nd + np \<and> b ! k} \<and> card {k. k < nd + np \<and> b ! k} \<le> np \<and>
    (\<forall>k < nd + np. \<not> b ! k \<longrightarrow> eptr' ! k = ptr ! k \<and> h' ! (ptr ! k) = h ! (ptr ! k))"
proof -
  have chk: "je_check enc dec nd np bs par lost" by (simp add: je_check_def code)
  let ?m = "je_cksum_calc Z (ds @ par ds)" and ?b = "replicate (nd + np) False"
  have st: "store_ok (nd + np) bs ptr h" using ptr h by (auto simp: store_ok_def)
  have none: "badset ?b = {}" by (auto simp: badset_def)
  have "je_check.damaged nd np bs par lost ptr h ds B" using ds by (simp add: je_check.damaged_def [OF chk])
  then obtain b eptr' h' h1 where r: "jerase_brute_recovery Z dec np ?b ptr eptr pw (Some ?m) h = Ret (0, b, eptr', h')"
    "je_check.found dec nd np bs Z ptr h1 ?m b eptr' h'" "\<forall>k < nd + np. k \<notin> badset b \<longrightarrow> h' ! (ptr ! k) = h ! (ptr ! k)"
    using je_check.brute_recovers [OF chk st ptr(3) h(1) _ _ _ refl bad, of ?b B eptr] none by auto
  have f: "length b = nd + np" "badset b \<noteq> {}" "card (badset b) \<le> np" "je_cksum_calc Z (cells h' eptr') = ?m"
    "\<forall>k < nd + np. k \<notin> badset b \<longrightarrow> eptr' ! k = ptr ! k"
    using r(2) unfolding je_check.found_def [OF chk] by auto
  have b: "{k. k < nd + np \<and> b ! k} = badset b" using f(1) by (auto simp: badset_def)
  have "\<forall>k < nd + np. \<not> b ! k \<longrightarrow> k \<notin> badset b" by (simp add: badset_def)
  with r(1,3) f b show ?thesis by (auto simp: card_gt_0_iff)
qed

text \<open>The first data chunk of a stripe has been overwritten.\<close>

theorem brute_recovery_finds_witness:
  "\<exists>b eptr' h'. jerase_brute_recovery adler_zlib (je_dec no_jerasure raid4_demo) 1 (replicate 3 False) [0, 1, 2] [0, 0, 0] 3
      (Some (je_cksum_calc adler_zlib ([[1, 2], [3, 4]] @ raid4_parity 2 2 [[1, 2], [3, 4]]))) [[9, 9], [3, 4], [2, 6], [0, 0]] = Ret (0, b, eptr', h') \<and>
    je_cksum_calc adler_zlib (cells h' eptr') = je_cksum_calc adler_zlib ([[1, 2], [3, 4]] @ raid4_parity 2 2 [[1, 2], [3, 4]]) \<and>
    card {k. k < 3 \<and> b ! k} = 1"
proof -
  have par: "raid4_parity 2 2 [[1, 2], [3, 4]] = [[2, 6]]" by code_simp
  have bad: "je_cksum_calc adler_zlib (cells [[9, 9], [3, 4], [2, 6], [0, 0]] [0, 1, 2]) \<noteq>
      je_cksum_calc adler_zlib ([[1, 2], [3, 4]] @ raid4_parity 2 2 [[1, 2], [3, 4]])" by code_simp
  have old: "\<forall>k < 2 + 1. k \<notin> {0} \<longrightarrow> [[9, 9], [3, 4], [2, 6], [0, 0]] ! ([0, 1, 2] ! k) = ([[1, 2], [3, 4]] @ raid4_parity 2 2 [[1, 2], [3, 4]]) ! k"
    by (auto simp: par less_Suc_eq numeral_3_eq_3)
  show ?thesis
    using brute_recovery_finds [OF raid4_demo_code [of no_jerasure], of "[0, 1, 2]" 3 "[[9, 9], [3, 4], [2, 6], [0, 0]]" "[[1, 2], [3, 4]]" "{0}" adler_zlib "[0, 0, 0]",
        OF _ _ _ _ _ _ _ old bad]
    by (fastforce simp: raid4_lost_def strips_def numeral_3_eq_3)
qed

end
