(* ===== verification/Spec2Isabelle.thy ===== *)
theory Spec2Isabelle
  imports Segment_Base Log_Correctness Service_Manager Rs_Correctness Raid4 Data_Block Linear_Correctness Lun_Placement Lun_Text Exnode
    Jerasure_Inspect Jerasure_Text Jerasure_Roundtrip
begin

text \<open>
  \<^bold>\<open>LStore LIO.\<close> LIO stores files as \<^emph>\<open>exnodes\<close>. An exnode holds \<^emph>\<open>segments\<close>, and a segment driver turns
  reads and writes at offsets of a file into operations on other segments or on allocations at storage
  depots. A \<^emph>\<open>resource service\<close> chooses the resources new allocations are placed on, a \<^emph>\<open>data
  service\<close> reaches the depots, and a \<^emph>\<open>service manager\<close> is the table through which the parts find each
  other. This development models the segment layer with its log, linear, striped and erasure coded drivers, the resource
  service and the descriptors of allocations, and proves them correct.

  \<^bold>\<open>Theories\<close>, in the order in which they build on each other:

  \<^item> \<open>Prelude\<close>: byte buffers (\<open>mem\<close>, \<open>mem_put\<close>, \<open>mem_get\<close>), i/o vectors, the status of an operation, C division,
    the result type \<open>outcome\<close> (\<open>Crash\<close> is a NULL dereference or another undefined step of the C program),
    number printing, and fixed-size text buffers.
  \<^item> \<open>Segment\<close>: identifiers and key comparison (\<open>src/ex_id.c\<close>, \<open>ex3_compare.c\<close>, \<open>ex3_header.c\<close>) and the function
    table of a segment driver (\<open>ex3_abstract.h\<close>) as the record \<open>segment_fn\<close>. The locale \<open>segment_store\<close> states what
    a client of a driver relies on; a segment held in memory interprets it.
  \<^item> \<open>Segment_Base\<close>: \<open>src/segment_base.c\<close>, the copy, get and put loops with their two buffers. A copy that
    succeeds has copied every byte.
  \<^item> \<open>Interval_Skiplist\<close>: the interval skip list of the toolbox library, which is not part of the repository:
    a record of operations, the locale \<open>interval_skiplist\<close> with its laws, and the locale \<open>keyed_intervals\<close> of facts
    about disjoint entries that the drivers below use. A list of intervals interprets it.
  \<^item> \<open>Segment_Log\<close> and \<open>Log_Correctness\<close>: \<open>src/segment_log.c\<close>. The model keeps the interval map, the three underlying
    segments and the sizes in the record \<open>seglog_priv\<close>. The proofs show that the map always stays disjoint, that a
    read sees the latest write, that replaying the table after a restart rebuilds the state, and
    that merging into the base changes no byte a reader sees.
  \<^item> \<open>Service_Manager\<close>: \<open>src/service_manager.c\<close>, a two-level table.
  \<^item> \<open>Rs_Query\<close>, \<open>Rs_Simple\<close> and \<open>Rs_Correctness\<close>: the query language of \<open>src/rs_query_base.c\<close> and the resource service of
    \<open>src/rs_simple.c\<close>: evaluation of queries, placement of requests, the resource table, its health checks and
    its report (\<open>src/rs_space.c\<close>).
  \<^item> \<open>Raid4\<close>: \<open>src/raid4.c\<close>; one lost strip is rebuilt.
  \<^item> \<open>Data_Service\<close>, \<open>Data_Block\<close> and \<open>Depot\<close>: capability sets and their warming (\<open>src/ds_ibp.c\<close>), the descriptor of an
    allocation (\<open>src/data_block.c\<close>) with the sharing of its attribute records, and the transfer operations of the
    data service, which are a parameter (\<open>ds_io\<close>) with the laws of the locale \<open>depot\<close>.
  \<^item> \<open>Segment_Linear\<close> and \<open>Linear_Correctness\<close>: \<open>src/segment_linear.c\<close>, a segment made of consecutive allocations. The
    invariant \<open>lin_ok\<close> says that the slots tile the reserved space, each on an allocation of its own. Growing,
    shrinking, reading and writing keep it, and the bytes of the segment change only where a write names them.
  \<^item> \<open>Segment_Lun\<close>, \<open>Lun_Layout\<close>, \<open>Lun_Transfer\<close> and \<open>Lun_Correctness\<close>: \<open>src/segment_lun.c\<close>, a segment striped over devices, with its black
    list of slow resources. \<open>Lun_Layout\<close> maps offsets to devices and positions and shows that the decomposition of a
    transfer follows that map. The invariant \<open>lun_ok\<close> says that rows tile the segment and no two blocks share an
    allocation; on it reads, writes and shrinking are correct whatever operations fail.
  \<^item> \<open>Lun_Inspect\<close> and \<open>Lun_Placement\<close>: the inspection of a striped segment, which checks and repairs rows and moves blocks to
    other resources. Without forced repair no byte of the segment changes, whatever requests and copies fail; a
    healthy segment is reported as such. The loops are bounded in the code (five rounds), and the same bound is the
    fuel of the model.
  \<^item> \<open>Lun_Text\<close>: the text form of a striped segment. Printing retries with larger buffers and returns; what is printed
    is loaded back.
  \<^item> \<open>Exnode\<close>: \<open>src/exnode.c\<close> and \<open>view_base.c\<close>, the container of the segments of a file, over a heap of shared segments. Stored exnodes
    are loaded back, and clones hold exactly the cloned segments.

  \<^item> \<open>Erasure_Tools\<close>: \<open>src/erasure_tools.c\<close>, the choice of the coding parameters and the dispatch to the Jerasure library, which is a
    parameter (\<open>jerasure_lib\<close>). The locale \<open>erasure_code\<close> states what a client of a plan relies on; the single parity code
    interprets it. A plan covers its file; for small chunks the search for the packet size reads unset variables.
  \<^item> \<open>Segment_Jerasure\<close>: \<open>src/segment_jerasure.c\<close>, a segment that stores the chunks of a stripe, each behind a tag, on the devices of a striped
    child (\<open>je_child\<close>): checksums, the search for bad chunks, reading and writing. \<open>Jerasure_Check\<close> shows that the search
    finds every set of bad chunks the code can rebuild, \<open>Jerasure_Correctness\<close> that a stripe with lost chunks is read correctly,
    \<open>Jerasure_Transfer\<close> the same of whole extents, and \<open>Jerasure_Roundtrip\<close> that what was written is read back although devices are dead.
    \<open>Jerasure_Inspect\<close> models the inspection; its outer loop runs at most ten times in the code, which is its fuel (9 repetitions after
    the first). \<open>Jerasure_Text\<close> models cloning and the text form, and shows that a stored segment is loaded back.

  \<^bold>\<open>State and effects.\<close> A C struct is a record, an operation a function that returns the new record. Operations that
  are queued and waited for run in the order in which they are queued; the code holds the segment's lock around
  the parts that change its tables. Offsets are integers: the code uses signed 64-bit offsets and never relies on
  wrap-around, and where a value is stored in a fixed width (range records, identifiers, resource
  states) the width is kept. Loops that follow the data are structural or have a termination proof;
  the copy loops, the replay of the log and the growth of the configuration buffer, whose end depends on a
  parameter, are partial functions, and the properties about them prove that they return.

  \<^bold>\<open>Parameters.\<close> The interval skip list, the hash and list containers, text escaping, the depots and the health
  probes are not in the repository. They enter as arguments, each with a locale of the laws the code relies on and
  a reference instance on which the laws are proved and on which every property with such a hypothesis is run.

  \<^bold>\<open>Properties.\<close> The statements numbered C1, C2 and so on are the claims about the code; the others are the library
  they rest on. Some of them record what the code does where that is not what it means to do: they are stated as
  the behaviour of the code.

  \<^bold>\<open>Not modelled.\<close> The page cache and the object services (large, and driven by threads and file system calls); the file drivers of the erasure coding front end, which nothing uses; the segment drivers over plain files, the remote services, the FUSE layer, the command line tools
  and tests (input and output, or transport); generated protocol buffer code. Of the modelled files, the functions
  that only allocate, free, log, lock or hand a routine to a thread pool are left out.
\<close>

end
